(* ===== verification/Tyl_Prelude.thy ===== *)
theory Tyl_Prelude
  imports Main "HOL-Library.Word"
begin

text \<open>
  Shared vocabulary of the development: the machine types of the Go sources as words of their
  width, big-endian conversion between words and byte lists (the model of the shift-and-or loops
  and of the calls to \<open>binary.BigEndian\<close> all over the program), and the generic lemmas on lists,
  options and words that the component theories share.

  A fixed-size byte array of the source (\<open>Address\<close> is \<open>[20]byte\<close>, \<open>Hash256\<close> is
  \<open>[32]byte\<close>) is the word of that many bits, most significant byte first: comparing two arrays
  with \<open>==\<close> is equality of the words, \<open>bytes.Compare\<close> is their unsigned order, and the slice
  \<open>h[:]\<close> is \<open>be_bytes 32 h\<close>.
\<close>

unbundle bit_operations_syntax

section \<open>Machine types\<close>

type_synonym byte = "8 word"
type_synonym bytes = "8 word list"
type_synonym uint8 = "8 word"
type_synonym uint32 = "32 word"
type_synonym uint64 = "64 word"
type_synonym address = "160 word"
type_synonym hash256 = "256 word"

text \<open>Equations that evaluate the byte codecs; equations that evaluate the state observers.\<close>

named_theorems codec_simps "unfolding and length rules of the wire formats"
named_theorems obs_simps "how an operation changes what the observers of the state see"

section \<open>Big-endian bytes\<close>

definition be_bytes :: "nat \<Rightarrow> 'a::len word \<Rightarrow> bytes" where
  "be_bytes n w = map (\<lambda>i. ucast (drop_bit (8 * i) w)) (rev [0..<n])"

definition be_word :: "bytes \<Rightarrow> 'a::len word" where
  "be_word bs = foldl (\<lambda>acc b. push_bit 8 acc OR ucast b) 0 bs"

lemma length_be_bytes [simp]: "length (be_bytes n w) = n"
  by (simp add: be_bytes_def)

lemma be_bytes_nth:
  "i < n \<Longrightarrow> be_bytes n w ! i = ucast (drop_bit (8 * (n - 1 - i)) w)"
  by (simp add: be_bytes_def rev_nth)

lemma be_bytes_eq_Nil [simp]: "be_bytes n w = [] \<longleftrightarrow> n = 0"
  by (metis length_be_bytes length_0_conv)

lemma be_word_Nil [simp]: "be_word [] = 0"
  by (simp add: be_word_def)

lemma be_word_snoc: "be_word (bs @ [b]) = push_bit 8 (be_word bs) OR ucast b"
  by (simp add: be_word_def)

lemma bit_be_word:
  "bit (be_word bs :: 'a::len word) i \<longleftrightarrow>
     i < LENGTH('a) \<and> i < 8 * length bs \<and> bit (bs ! (length bs - 1 - i div 8)) (i mod 8)"
proof (induction bs arbitrary: i rule: rev_induct)
  case Nil
  then show ?case by simp
next
  case (snoc b bs)
  show ?case
  proof (cases "i < 8")
    case True
    then show ?thesis
      by (auto simp: be_word_snoc bit_simps nth_append)
  next
    case False
    then obtain j where i: "i = j + 8"
      by (metis add.commute le_Suc_ex not_less)
    have dv: "(j + 8) div 8 = Suc (j div 8)" by simp
    have nb: "\<not> bit b (j + 8)"
      using bit_imp_le_length [of b "j + 8"] by auto
    show ?thesis
      by (cases "j < 8 * length bs")
        (auto simp: i be_word_snoc bit_simps snoc.IH nth_append nb dv
          dest: bit_imp_le_length)
  qed
qed

lemma be_word_be_bytes: "be_word (be_bytes n (w :: 'a::len word)) = take_bit (8 * n) w"
proof (rule bit_eqI)
  fix i
  assume "possible_bit TYPE('a word) i"
  then have i: "i < LENGTH('a)" by simp
  have *: "i < 8 * n \<Longrightarrow> bit (be_bytes n w ! (n - 1 - i div 8)) (i mod 8) \<longleftrightarrow> bit w i"
  proof -
    assume lt: "i < 8 * n"
    then have "i div 8 < n" by (simp add: less_mult_imp_div_less mult.commute)
    then have "n - 1 - (n - 1 - i div 8) = i div 8" and "n - 1 - i div 8 < n" by simp_all
    then show ?thesis
      by (simp add: be_bytes_nth bit_simps i)
  qed
  from i * show "bit (be_word (be_bytes n w) :: 'a word) i \<longleftrightarrow> bit (take_bit (8 * n) w) i"
    by (auto simp: bit_be_word bit_take_bit_iff)
qed

lemma be_word_be_bytes_id [simp]:
  "LENGTH('a::len) = 8 * n \<Longrightarrow> be_word (be_bytes n (w :: 'a word)) = w"
  by (metis be_word_be_bytes take_bit_word_eq_self order_refl)

lemma be_bytes_be_word [simp]:
  assumes "length bs = n" and "8 * n \<le> LENGTH('a::len)"
  shows "be_bytes n (be_word bs :: 'a word) = bs"
proof (rule nth_equalityI)
  show "length (be_bytes n (be_word bs :: 'a word)) = length bs"
    using assms by simp
next
  fix i
  assume "i < length (be_bytes n (be_word bs :: 'a word))"
  then have i: "i < n" by simp
  show "be_bytes n (be_word bs :: 'a word) ! i = bs ! i"
  proof (rule bit_eqI)
    fix j
    assume "possible_bit TYPE(byte) j"
    then have j: "j < 8" by simp
    have "(8 * (n - Suc i) + j) div 8 = n - Suc i"
      and "(8 * (n - Suc i) + j) mod 8 = j"
      using j by simp_all
    moreover have "8 * (n - Suc i) + j < 8 * n"
      using i j by simp
    moreover have "n - Suc (n - Suc i) = i"
      using i by simp
    ultimately show "bit (be_bytes n (be_word bs :: 'a word) ! i) j \<longleftrightarrow> bit (bs ! i) j"
      using i j assms by (simp add: be_bytes_nth bit_simps bit_be_word)
  qed
qed

lemma be_bytes_inject [simp]:
  "LENGTH('a::len) = 8 * n \<Longrightarrow> be_bytes n (v :: 'a word) = be_bytes n w \<longleftrightarrow> v = w"
  by (metis be_word_be_bytes_id)

section \<open>Unsigned arithmetic\<close>

lemma unat_add_no_wrap: "unat (a :: 'a::len word) + unat b < 2 ^ LENGTH('a) \<Longrightarrow>
  unat (a + b) = unat a + unat b"
  by (rule unat_add_lem [THEN iffD1])

lemma unat_sub_le: "(b :: 'a::len word) \<le> a \<Longrightarrow> unat (a - b) = unat a - unat b"
  by (rule unat_sub)

lemma unat_mult_no_wrap: "unat (a :: 'a::len word) * unat b < 2 ^ LENGTH('a) \<Longrightarrow>
  unat (a * b) = unat a * unat b"
  by (rule unat_mult_lem [THEN iffD1])

text \<open>The overflow test \<open>a + b < a\<close> of the source detects exactly a wrap-around.\<close>

lemma add_overflow_iff: "(a :: 'a::len word) + b < a \<longleftrightarrow> 2 ^ LENGTH('a) \<le> unat a + unat b"
proof (cases "unat a + unat b < 2 ^ LENGTH('a)")
  case True
  then show ?thesis by (simp add: word_less_nat_alt unat_add_no_wrap)
next
  case False
  have b: "unat b < 2 ^ LENGTH('a)" by simp
  from False have "unat (a + b) = unat a + unat b - 2 ^ LENGTH('a)"
    by (simp add: unat_plus_if_size word_size)
  with False b show ?thesis unfolding word_less_nat_alt by linarith
qed

text \<open>The overflow test \<open>p \<noteq> 0 \<and> (p * l) / p \<noteq> l\<close> detects exactly a wrapping product.\<close>

lemma mult_overflow_iff:
  fixes p l :: "'a::len word"
  assumes "p \<noteq> 0"
  shows "(p * l) div p \<noteq> l \<longleftrightarrow> 2 ^ LENGTH('a) \<le> unat p * unat l"
proof
  assume "2 ^ LENGTH('a) \<le> unat p * unat l"
  show "(p * l) div p \<noteq> l"
  proof
    assume "(p * l) div p = l"
    then have "unat (p * l) div unat p = unat l"
      by (metis unat_div_distrib)
    then have "unat p * unat l \<le> unat (p * l)"
      by (metis mult.commute div_times_less_eq_dividend)
    also have "unat (p * l) < 2 ^ LENGTH('a)" by simp
    finally show False using \<open>2 ^ LENGTH('a) \<le> unat p * unat l\<close> by simp
  qed
next
  assume ne: "(p * l) div p \<noteq> l"
  show "2 ^ LENGTH('a) \<le> unat p * unat l"
  proof (rule ccontr)
    assume "\<not> 2 ^ LENGTH('a) \<le> unat p * unat l"
    then have "unat (p * l) = unat p * unat l" by (simp add: unat_mult_no_wrap)
    moreover have "unat p \<noteq> 0" using assms by (simp add: unat_eq_zero)
    ultimately have "unat ((p * l) div p) = unat l" by (simp add: unat_div_distrib)
    with ne show False by (simp add: word_unat_eq_iff)
  qed
qed

lemma unat_of_nat_le: "unat (of_nat n :: 'a::len word) \<le> n"
  by (simp add: unat_of_nat)

lemma unat_of_nat_small: "n < 2 ^ LENGTH('a) \<Longrightarrow> unat (of_nat n :: 'a::len word) = n"
  by (simp add: unat_of_nat)

section \<open>Lists\<close>

lemma take_app_len [simp]: "n = length xs \<Longrightarrow> take n (xs @ ys) = xs"
  by simp

lemma drop_app_len [simp]: "n = length xs \<Longrightarrow> drop n (xs @ ys) = ys"
  by simp

text \<open>A slice \<open>data[i:i+n]\<close>.\<close>

definition slice :: "nat \<Rightarrow> nat \<Rightarrow> 'a list \<Rightarrow> 'a list" where
  "slice i n xs = take n (drop i xs)"

lemma length_slice [simp]: "i + n \<le> length xs \<Longrightarrow> length (slice i n xs) = n"
  by (simp add: slice_def)

lemma slice_skip [simp]:
  "length xs \<le> i \<Longrightarrow> slice i n (xs @ ys) = slice (i - length xs) n ys"
  by (simp add: slice_def)

lemma slice_Cons [simp]: "0 < i \<Longrightarrow> slice i n (x # xs) = slice (i - 1) n xs"
  by (simp add: slice_def drop_Cons')

lemma slice_glue [simp]: "i + n = j \<Longrightarrow> slice i n xs @ drop j xs = drop i xs"
  by (metis slice_def append_take_drop_id drop_drop add.commute)

lemma nth_glue [simp]: "i < length xs \<Longrightarrow> j = Suc i \<Longrightarrow> xs ! i # drop j xs = drop i xs"
  by (simp add: Cons_nth_drop_Suc)

lemma slice_0_app [simp]: "n = length xs \<Longrightarrow> slice 0 n (xs @ ys) = xs"
  by (simp add: slice_def)

lemma slice_0_all [simp]: "n = length xs \<Longrightarrow> slice 0 n xs = xs"
  by (simp add: slice_def)

end
