(* ===== verification/Tyl_Types.thy ===== *)
theory Tyl_Types
  imports Tyl_Prelude
begin

text \<open>
  The package \<open>pkg/types\<close>: accounts, transactions, blocks, checkpoints, hashes and addresses,
  the identifiers computed from them and the deterministic transaction order.

  SHA-256 is the argument \<open>sha\<close> of every definition that hashes, as the Merkle tree of the
  source takes its \<open>HashFunc\<close>; a theorem holds for every function from byte strings to 32-byte
  hashes unless it states a collision-freeness hypothesis on the inputs it concerns. RIPEMD-160 is
  the third-party package \<open>golang.org/x/crypto/ripemd160\<close> and is the argument \<open>rip\<close>.
\<close>

section \<open>Hashes and addresses\<close>

abbreviation ZeroHash :: hash256 where "ZeroHash \<equiv> 0"
abbreviation ZeroAddress :: address where "ZeroAddress \<equiv> 0"

definition hash_bytes :: "hash256 \<Rightarrow> bytes" where
  "hash_bytes h = be_bytes 32 h"

definition addr_bytes :: "address \<Rightarrow> bytes" where
  "addr_bytes a = be_bytes 20 a"

definition BytesToHash256 :: "bytes \<Rightarrow> hash256" where
  "BytesToHash256 b = (let b = (if length b > 32 then take 32 b else b) in be_word b)"

definition BytesToAddress :: "bytes \<Rightarrow> address" where
  "BytesToAddress b = (let b = (if length b > 20 then take 20 b else b) in be_word b)"

definition DoubleSha256 :: "(bytes \<Rightarrow> hash256) \<Rightarrow> bytes \<Rightarrow> hash256" where
  "DoubleSha256 sha data = sha (hash_bytes (sha data))"

definition PubKeyToAddress :: "(bytes \<Rightarrow> hash256) \<Rightarrow> (bytes \<Rightarrow> address) \<Rightarrow> bytes \<Rightarrow> address" where
  "PubKeyToAddress sha rip pubkey = rip (hash_bytes (sha pubkey))"

text \<open>The loop over bytes 12 to 19 of the address.\<close>

definition CallerID :: "address \<Rightarrow> uint64" where
  "CallerID a = foldl (\<lambda>ident b. push_bit 8 ident OR ucast b) 0 (slice 12 8 (addr_bytes a))"

text \<open>The explicit shifts of \<open>uint64ToBytes\<close>.\<close>

definition uint64ToBytes :: "uint64 \<Rightarrow> bytes" where
  "uint64ToBytes v =
     [ucast (drop_bit 56 v), ucast (drop_bit 48 v), ucast (drop_bit 40 v), ucast (drop_bit 32 v),
      ucast (drop_bit 24 v), ucast (drop_bit 16 v), ucast (drop_bit 8 v), ucast v]"

lemma uint64ToBytes_eq: "uint64ToBytes v = be_bytes 8 v"
  by (simp add: uint64ToBytes_def be_bytes_def upt_rec numeral_eq_Suc)

lemma length_hash_bytes [simp]: "length (hash_bytes h) = 32"
  by (simp add: hash_bytes_def)

lemma length_addr_bytes [simp]: "length (addr_bytes a) = 20"
  by (simp add: addr_bytes_def)

lemma length_uint64ToBytes [simp]: "length (uint64ToBytes v) = 8"
  by (simp add: uint64ToBytes_def)

lemma hash_bytes_inject [simp]: "hash_bytes h = hash_bytes g \<longleftrightarrow> h = g"
  by (simp add: hash_bytes_def)

lemma addr_bytes_inject [simp]: "addr_bytes a = addr_bytes b \<longleftrightarrow> a = b"
  by (simp add: addr_bytes_def)

lemma uint64ToBytes_inject [simp]: "uint64ToBytes v = uint64ToBytes w \<longleftrightarrow> v = w"
  by (simp add: uint64ToBytes_eq)

lemma BytesToHash256_bytes [simp]: "BytesToHash256 (hash_bytes h) = h"
  by (simp add: BytesToHash256_def hash_bytes_def)

lemma BytesToAddress_bytes [simp]: "BytesToAddress (addr_bytes a) = a"
  by (simp add: BytesToAddress_def addr_bytes_def)

lemma hash_bytes_BytesToHash256 [simp]: "length b = 32 \<Longrightarrow> hash_bytes (BytesToHash256 b) = b"
  by (simp add: BytesToHash256_def hash_bytes_def)

lemma addr_bytes_BytesToAddress [simp]: "length b = 20 \<Longrightarrow> addr_bytes (BytesToAddress b) = b"
  by (simp add: BytesToAddress_def addr_bytes_def)

lemma drop_be_bytes: "m \<le> n \<Longrightarrow> drop (n - m) (be_bytes n w) = be_bytes m w"
  by (rule nth_equalityI) (auto simp: be_bytes_nth)

lemma CallerID_eq: "CallerID a = ucast a"
proof -
  have "slice 12 8 (addr_bytes a) = be_bytes 8 a"
    using drop_be_bytes [of 8 20 a] by (simp add: slice_def addr_bytes_def)
  then have "CallerID a = be_word (be_bytes 8 a)"
    by (simp add: CallerID_def be_word_def)
  also have "\<dots> = ucast a"
  proof (rule bit_eqI)
    fix i
    assume "possible_bit TYPE(uint64) i"
    then have "i < 64" by simp
    moreover from this have "i div 8 < 8" by simp
    moreover from this have "7 - (7 - i div 8) = i div 8" by simp
    ultimately show "bit (be_word (be_bytes 8 a) :: uint64) i \<longleftrightarrow> bit (ucast a :: uint64) i"
      by (simp add: bit_be_word be_bytes_nth bit_simps)
  qed
  finally show ?thesis .
qed

section \<open>Accounts\<close>

record account =
  acct_Nonce :: uint64
  acct_Balance :: uint64
  acct_CodeHash :: hash256
  acct_StorageRoot :: hash256

definition zero_account :: account where
  "zero_account = \<lparr>acct_Nonce = 0, acct_Balance = 0, acct_CodeHash = 0, acct_StorageRoot = 0\<rparr>"

definition IsContract :: "account \<Rightarrow> bool" where
  "IsContract a \<longleftrightarrow> acct_CodeHash a \<noteq> ZeroHash"

section \<open>Transactions\<close>

record transaction =
  tx_Version :: uint8
  tx_Nonce :: uint64
  tx_From :: address
  tx_To :: address
  tx_Value :: uint64
  tx_GasPrice :: uint64
  tx_GasLimit :: uint64
  tx_Priority :: uint8
  tx_Data :: bytes
  tx_Signature :: "512 word"

definition txid_preimage :: "transaction \<Rightarrow> bytes" where
  "txid_preimage tx =
     [tx_Version tx] @ uint64ToBytes (tx_Nonce tx) @ addr_bytes (tx_To tx) @
     uint64ToBytes (tx_Value tx) @ uint64ToBytes (tx_GasPrice tx) @
     uint64ToBytes (tx_GasLimit tx) @ [tx_Priority tx] @ tx_Data tx"

definition TxID :: "(bytes \<Rightarrow> hash256) \<Rightarrow> transaction \<Rightarrow> hash256" where
  "TxID sha tx = DoubleSha256 sha (txid_preimage tx)"

definition signing_preimage :: "transaction \<Rightarrow> bytes" where
  "signing_preimage tx =
     [tx_Version tx] @ uint64ToBytes (tx_Nonce tx) @ addr_bytes (tx_From tx) @
     addr_bytes (tx_To tx) @ uint64ToBytes (tx_Value tx) @ uint64ToBytes (tx_GasPrice tx) @
     uint64ToBytes (tx_GasLimit tx) @ [tx_Priority tx] @ tx_Data tx"

definition SigningHash :: "(bytes \<Rightarrow> hash256) \<Rightarrow> transaction \<Rightarrow> hash256" where
  "SigningHash sha tx = DoubleSha256 sha (signing_preimage tx)"

definition TxLess :: "(bytes \<Rightarrow> hash256) \<Rightarrow> transaction \<Rightarrow> transaction \<Rightarrow> bool" where
  "TxLess sha i j =
     (if tx_GasPrice i \<noteq> tx_GasPrice j then tx_GasPrice i > tx_GasPrice j
      else if tx_Priority i \<noteq> tx_Priority j then tx_Priority i > tx_Priority j
      else TxID sha i < TxID sha j)"

section \<open>Blocks and checkpoints\<close>

record block =
  blk_Height :: uint64
  blk_L1BlockHash :: hash256
  blk_PrevStateRoot :: hash256
  blk_StateRoot :: hash256
  blk_TxRoot :: hash256
  blk_ReceiptRoot :: hash256
  blk_Transactions :: "transaction list"
  blk_GasUsed :: uint64
  blk_Coinbase :: address

record checkpoint =
  cp_StateRoot :: hash256
  cp_PrevChecksum :: hash256
  cp_TxRoot :: hash256
  cp_GasCollected :: uint64
  cp_MinerPubKey :: "264 word"
  cp_MinerNonce :: "256 word"
  cp_AttestationHash :: hash256
  cp_Signature :: "512 word"

section \<open>What the identifiers bind\<close>

text \<open>
  The signed byte string determines every field but the signature: no two different transactions
  share a signing payload, so a signature cannot be moved to another transaction.
\<close>

lemma signing_preimage_inject:
  assumes "signing_preimage t = signing_preimage u"
  shows "t\<lparr>tx_Signature := s\<rparr> = u\<lparr>tx_Signature := s\<rparr>"
  using assms
  by (cases t; cases u) (simp add: signing_preimage_def append_eq_append_conv)

text \<open>The transaction identifier leaves out the sender and the signature, and nothing else.\<close>

lemma txid_preimage_inject:
  "txid_preimage t = txid_preimage u \<longleftrightarrow>
     t\<lparr>tx_From := a, tx_Signature := s\<rparr> = u\<lparr>tx_From := a, tx_Signature := s\<rparr>"
  by (cases t; cases u) (auto simp: txid_preimage_def append_eq_append_conv)

section \<open>The transaction order\<close>

text \<open>
  A comparison handed to \<open>sort.Slice\<close> has to be a strict weak order; when it also separates the
  elements of a list, the sorted list is unique, so the result does not depend on the sorting
  algorithm or on the order of arrival.
\<close>

locale weak_order =
  fixes less :: "'a \<Rightarrow> 'a \<Rightarrow> bool"
  assumes irrefl: "\<not> less x x"
    and trans: "less x y \<Longrightarrow> less y z \<Longrightarrow> less x z"
    and neg_trans: "less x z \<Longrightarrow> less x y \<or> less y z"
begin

lemma asym: "less x y \<Longrightarrow> \<not> less y x"
  using irrefl trans by blast

lemma not_less_trans: "\<not> less y x \<Longrightarrow> \<not> less z y \<Longrightarrow> \<not> less z x"
  using neg_trans by blast

end

lemma TxLess_irrefl: "\<not> TxLess sha t t"
  by (simp add: TxLess_def)

lemma TxLess_trans: "TxLess sha t u \<Longrightarrow> TxLess sha u v \<Longrightarrow> TxLess sha t v"
  by (auto simp: TxLess_def split: if_splits)

lemma TxLess_neg_trans: "TxLess sha t v \<Longrightarrow> TxLess sha t u \<or> TxLess sha u v"
  by (auto simp: TxLess_def split: if_splits)

lemma TxLess_total: "TxID sha t \<noteq> TxID sha u \<Longrightarrow> TxLess sha t u \<or> TxLess sha u t"
  by (auto simp: TxLess_def)

interpretation tx_order: weak_order "TxLess sha" for sha
  by unfold_locales (auto simp: TxLess_irrefl intro: TxLess_trans dest: TxLess_neg_trans)

end
