(* ===== verification/Tyl_Merkle.thy ===== *)
theory Tyl_Merkle
  imports Tyl_Types
begin

text \<open>
  The package \<open>pkg/merkle\<close>: the sparse Merkle tree over 256-bit keys, its lazily loaded nodes and
  their serialisation, inclusion proofs, and the key-value stores behind it.

  A store is a finite map from byte strings to byte strings, the behaviour of \<open>MemStore\<close> and the
  documented behaviour of LevelDB (a read returns what was last written under the key, or nothing);
  failures of the disk are not modelled. A \<open>hashNode\<close> of the source carries a pointer to the store
  of its tree; here the store is an argument of the operations. \<open>IndexPanic\<close> is the run-time panic
  of reading bit 256 of a key.
\<close>

section \<open>Nodes\<close>

type_synonym kvstore = "bytes \<rightharpoonup> bytes"

datatype node =
    EmptyNode
  | LeafNode (leaf_key: hash256) (leaf_value: bytes)
  | BranchNode (left: node) (right: node)
  | HashNode hash256

datatype merr = MissingNode | EmptyData | LeafTooShort | LeafTruncated | BranchTooShort
  | UnknownTag | IndexPanic | SliceBounds

primrec node_hash :: "(bytes \<Rightarrow> hash256) \<Rightarrow> node \<Rightarrow> hash256" where
  "node_hash sha EmptyNode = ZeroHash"
| "node_hash sha (LeafNode k v) = sha ([0] @ hash_bytes k @ v)"
| "node_hash sha (BranchNode l r) =
     sha ([1] @ hash_bytes (node_hash sha l) @ hash_bytes (node_hash sha r))"
| "node_hash sha (HashNode h) = h"

primrec serializeNode :: "(bytes \<Rightarrow> hash256) \<Rightarrow> node \<Rightarrow> bytes" where
  "serializeNode sha (LeafNode k v) =
     [0] @ hash_bytes k @ be_bytes 4 (of_nat (length v) :: uint32) @ v"
| "serializeNode sha (BranchNode l r) =
     [1] @ hash_bytes (node_hash sha l) @ hash_bytes (node_hash sha r)"
| "serializeNode sha EmptyNode = []"
| "serializeNode sha (HashNode h) = []"

definition child_ref :: "hash256 \<Rightarrow> node" where
  "child_ref h = (if h = ZeroHash then EmptyNode else HashNode h)"

definition deserializeNode :: "bytes \<Rightarrow> merr + node" where
  "deserializeNode data =
     (if length data < 1 then Inl EmptyData
      else if data ! 0 = 0 then
        (if length data < 37 then Inl LeafTooShort
         else let key = BytesToHash256 (slice 1 32 data);
                  vlen = be_word (slice 33 4 data) :: uint32
              in if of_nat (length data - 37) < vlen then Inl LeafTruncated
                 else if 37 + vlen < 37 then Inl SliceBounds
                 else Inr (LeafNode key (slice 37 (unat vlen) data)))
      else if data ! 0 = 1 then
        (if length data < 65 then Inl BranchTooShort
         else Inr (BranchNode (child_ref (BytesToHash256 (slice 1 32 data)))
                              (child_ref (BytesToHash256 (slice 33 32 data)))))
      else Inl UnknownTag)"

definition resolve :: "kvstore \<Rightarrow> hash256 \<Rightarrow> merr + node" where
  "resolve st h =
     (case st (hash_bytes h) of None \<Rightarrow> Inl MissingNode | Some data \<Rightarrow> deserializeNode data)"

text \<open>Bit 0 is the most significant bit of the first byte.\<close>

definition getBit :: "hash256 \<Rightarrow> nat \<Rightarrow> byte" where
  "getBit h pos = drop_bit (7 - pos mod 8) (hash_bytes h ! (pos div 8)) AND 1"

definition isEmptyNode :: "node \<Rightarrow> bool" where
  "isEmptyNode n \<longleftrightarrow> n = EmptyNode"

text \<open>A resolved node is a leaf or a branch, which bounds the recursion through the store.\<close>

definition node_rank :: "node \<Rightarrow> nat" where
  "node_rank n = (case n of HashNode _ \<Rightarrow> 2 | _ \<Rightarrow> 1)"

lemma node_rank_simps [simp]:
  "node_rank EmptyNode = 1" "node_rank (LeafNode k v) = 1" "node_rank (BranchNode l r) = 1"
  "node_rank (HashNode h) = 2"
  by (simp_all add: node_rank_def)

lemma resolve_rank: "resolve st h = Inr n \<Longrightarrow> node_rank n = 1"
  by (auto simp: resolve_def deserializeNode_def Let_def split: option.splits if_splits)

section \<open>The tree operations\<close>

function tree_get :: "kvstore \<Rightarrow> node \<Rightarrow> hash256 \<Rightarrow> nat \<Rightarrow> merr + bytes option" where
  "tree_get st EmptyNode key depth = Inr None"
| "tree_get st (HashNode h) key depth =
     (case resolve st h of Inl e \<Rightarrow> Inl e | Inr n \<Rightarrow> tree_get st n key depth)"
| "tree_get st (LeafNode k v) key depth = (if k = key then Inr (Some v) else Inr None)"
| "tree_get st (BranchNode l r) key depth =
     (if 256 \<le> depth then Inl IndexPanic
      else if getBit key depth = 0 then tree_get st l key (depth + 1)
      else tree_get st r key (depth + 1))"
  by pat_completeness auto
termination
  by (relation "measures [\<lambda>(st, n, key, depth). 257 - depth, \<lambda>(st, n, key, depth). node_rank n]")
    (auto simp: resolve_rank)

function tree_set :: "kvstore \<Rightarrow> node \<Rightarrow> hash256 \<Rightarrow> bytes \<Rightarrow> nat \<Rightarrow> merr + node"
  and tree_insert ::
    "kvstore \<Rightarrow> node \<times> node \<Rightarrow> hash256 \<Rightarrow> bytes \<Rightarrow> nat \<Rightarrow> merr + node \<times> node" where
  "tree_set st EmptyNode key val depth = Inr (LeafNode key val)"
| "tree_set st (HashNode h) key val depth =
     (case resolve st h of Inl e \<Rightarrow> Inl e | Inr n \<Rightarrow> tree_set st n key val depth)"
| "tree_set st (LeafNode k v) key val depth =
     (if k = key then Inr (LeafNode key val)
      else case tree_insert st (EmptyNode, EmptyNode) k v depth of
        Inl e \<Rightarrow> Inl e
      | Inr branch \<Rightarrow>
          (case tree_insert st branch key val depth of
             Inl e \<Rightarrow> Inl e
           | Inr (l, r) \<Rightarrow> Inr (BranchNode l r)))"
| "tree_set st (BranchNode l r) key val depth =
     (if 256 \<le> depth then Inl IndexPanic
      else if getBit key depth = 0 then
        (case tree_set st l key val (depth + 1) of
           Inl e \<Rightarrow> Inl e | Inr child \<Rightarrow> Inr (BranchNode child r))
      else
        (case tree_set st r key val (depth + 1) of
           Inl e \<Rightarrow> Inl e | Inr child \<Rightarrow> Inr (BranchNode l child)))"
| "tree_insert st (l, r) key val depth =
     (if 256 \<le> depth then Inl IndexPanic
      else if getBit key depth = 0 then
        (case tree_set st l key val (depth + 1) of
           Inl e \<Rightarrow> Inl e | Inr child \<Rightarrow> Inr (child, r))
      else
        (case tree_set st r key val (depth + 1) of
           Inl e \<Rightarrow> Inl e | Inr child \<Rightarrow> Inr (l, child)))"
  by pat_completeness auto
termination
  by (relation "measures
        [\<lambda>a. case a of Inl (st, n, key, val, depth) \<Rightarrow> 257 - depth
                      | Inr (st, b, key, val, depth) \<Rightarrow> 257 - depth,
         \<lambda>a. case a of Inl (st, n, key, val, depth) \<Rightarrow> node_rank n
                      | Inr (st, b, key, val, depth) \<Rightarrow> 0]")
    (auto simp: resolve_rank)

text \<open>
  The end of the branch case of \<open>delete\<close>: two empty children become an empty node, and a leaf
  whose sibling is empty takes the place of the branch. A child that is still a \<open>hashNode\<close> is
  neither, even when it stands for a leaf.
\<close>

definition collapse :: "node \<Rightarrow> node \<Rightarrow> node" where
  "collapse l r =
     (if isEmptyNode l \<and> isEmptyNode r then EmptyNode
      else if isEmptyNode l \<and> is_LeafNode r then r
      else if isEmptyNode r \<and> is_LeafNode l then l
      else BranchNode l r)"

function tree_delete :: "kvstore \<Rightarrow> node \<Rightarrow> hash256 \<Rightarrow> nat \<Rightarrow> merr + node" where
  "tree_delete st EmptyNode key depth = Inr EmptyNode"
| "tree_delete st (HashNode h) key depth =
     (case resolve st h of Inl e \<Rightarrow> Inl e | Inr n \<Rightarrow> tree_delete st n key depth)"
| "tree_delete st (LeafNode k v) key depth =
     (if k = key then Inr EmptyNode else Inr (LeafNode k v))"
| "tree_delete st (BranchNode l r) key depth =
     (if 256 \<le> depth then Inl IndexPanic
      else if getBit key depth = 0 then
        (case tree_delete st l key (depth + 1) of
           Inl e \<Rightarrow> Inl e | Inr child \<Rightarrow> Inr (collapse child r))
      else
        (case tree_delete st r key (depth + 1) of
           Inl e \<Rightarrow> Inl e | Inr child \<Rightarrow> Inr (collapse l child)))"
  by pat_completeness auto
termination
  by (relation "measures [\<lambda>(st, n, key, depth). 257 - depth, \<lambda>(st, n, key, depth). node_rank n]")
    (auto simp: resolve_rank)

text \<open>\<open>flush\<close> writes the in-memory nodes bottom-up under their hashes; the tree is unchanged.\<close>

primrec tree_flush :: "(bytes \<Rightarrow> hash256) \<Rightarrow> node \<Rightarrow> kvstore \<Rightarrow> hash256 \<times> kvstore" where
  "tree_flush sha EmptyNode st = (ZeroHash, st)"
| "tree_flush sha (HashNode h) st = (h, st)"
| "tree_flush sha (LeafNode k v) st =
     (let h = node_hash sha (LeafNode k v)
      in (h, st(hash_bytes h \<mapsto> serializeNode sha (LeafNode k v))))"
| "tree_flush sha (BranchNode l r) st =
     (let (_, st) = tree_flush sha l st;
          (_, st) = tree_flush sha r st;
          h = node_hash sha (BranchNode l r)
      in (h, st(hash_bytes h \<mapsto> serializeNode sha (BranchNode l r))))"

section \<open>Trees\<close>

record tree =
  t_root :: node
  t_store :: kvstore

definition NewTree :: "kvstore \<Rightarrow> tree" where
  "NewTree st = \<lparr>t_root = EmptyNode, t_store = st\<rparr>"

definition tree_Root :: "(bytes \<Rightarrow> hash256) \<Rightarrow> tree \<Rightarrow> hash256" where
  "tree_Root sha t = node_hash sha (t_root t)"

definition LoadRoot :: "tree \<Rightarrow> hash256 \<Rightarrow> tree" where
  "LoadRoot t root = (if root = ZeroHash then t\<lparr>t_root := EmptyNode\<rparr> else t\<lparr>t_root := HashNode root\<rparr>)"

definition tree_Get :: "tree \<Rightarrow> hash256 \<Rightarrow> merr + bytes option" where
  "tree_Get t key = tree_get (t_store t) (t_root t) key 0"

text \<open>\<open>Set\<close> and \<open>Delete\<close> return their error and leave the tree unchanged then.\<close>

definition tree_Set :: "tree \<Rightarrow> hash256 \<Rightarrow> bytes \<Rightarrow> merr option \<times> tree" where
  "tree_Set t key val =
     (case tree_set (t_store t) (t_root t) key val 0 of
        Inl e \<Rightarrow> (Some e, t) | Inr n \<Rightarrow> (None, t\<lparr>t_root := n\<rparr>))"

definition tree_Delete :: "tree \<Rightarrow> hash256 \<Rightarrow> merr option \<times> tree" where
  "tree_Delete t key =
     (case tree_delete (t_store t) (t_root t) key 0 of
        Inl e \<Rightarrow> (Some e, t) | Inr n \<Rightarrow> (None, t\<lparr>t_root := n\<rparr>))"

text \<open>The calls \<open>data, _ := trie.Get(key)\<close>, \<open>trie.Set(key, v)\<close> and \<open>trie.Delete(key)\<close> of the
  rest of the program, which drop the error.\<close>

definition tree_look :: "tree \<Rightarrow> hash256 \<Rightarrow> bytes option" where
  "tree_look t key = (case tree_Get t key of Inl _ \<Rightarrow> None | Inr v \<Rightarrow> v)"

definition tree_put :: "tree \<Rightarrow> hash256 \<Rightarrow> bytes \<Rightarrow> tree" where
  "tree_put t key val = snd (tree_Set t key val)"

definition tree_del :: "tree \<Rightarrow> hash256 \<Rightarrow> tree" where
  "tree_del t key = snd (tree_Delete t key)"

definition tree_Flush :: "(bytes \<Rightarrow> hash256) \<Rightarrow> tree \<Rightarrow> tree" where
  "tree_Flush sha t = t\<lparr>t_store := snd (tree_flush sha (t_root t) (t_store t))\<rparr>"

text \<open>A snapshot is the root node of the moment; its reads drop the error.\<close>

definition TakeSnapshot :: "tree \<Rightarrow> node" where
  "TakeSnapshot t = t_root t"

definition Snapshot_Get :: "kvstore \<Rightarrow> node \<Rightarrow> hash256 \<Rightarrow> bytes option" where
  "Snapshot_Get st n key = (case tree_get st n key 0 of Inl _ \<Rightarrow> None | Inr v \<Rightarrow> v)"

section \<open>Proofs\<close>

record merkle_proof =
  pf_Key :: hash256
  pf_Value :: "bytes option"
  pf_Siblings :: "hash256 list"

function tree_prove ::
  "(bytes \<Rightarrow> hash256) \<Rightarrow> kvstore \<Rightarrow> node \<Rightarrow> hash256 \<Rightarrow> nat \<Rightarrow> merkle_proof \<Rightarrow> merr + merkle_proof" where
  "tree_prove sha st EmptyNode key depth pf = Inr pf"
| "tree_prove sha st (HashNode h) key depth pf =
     (case resolve st h of Inl e \<Rightarrow> Inr pf | Inr n \<Rightarrow> tree_prove sha st n key depth pf)"
| "tree_prove sha st (LeafNode k v) key depth pf =
     (if k = key then Inr (pf\<lparr>pf_Value := Some v\<rparr>) else Inr pf)"
| "tree_prove sha st (BranchNode l r) key depth pf =
     (if 256 \<le> depth then Inl IndexPanic
      else if getBit key depth = 0 then
        tree_prove sha st l key (depth + 1)
          (pf\<lparr>pf_Siblings := pf_Siblings pf @ [node_hash sha r]\<rparr>)
      else
        tree_prove sha st r key (depth + 1)
          (pf\<lparr>pf_Siblings := pf_Siblings pf @ [node_hash sha l]\<rparr>))"
  by pat_completeness auto
termination
  by (relation "measures [\<lambda>(sha, st, n, key, depth, pf). 257 - depth,
                          \<lambda>(sha, st, n, key, depth, pf). node_rank n]")
    (auto simp: resolve_rank)

definition Prove :: "(bytes \<Rightarrow> hash256) \<Rightarrow> tree \<Rightarrow> hash256 \<Rightarrow> merr + merkle_proof" where
  "Prove sha t key =
     tree_prove sha (t_store t) (t_root t) key 0 \<lparr>pf_Key = key, pf_Value = None, pf_Siblings = []\<rparr>"

definition leaf_step :: "(bytes \<Rightarrow> hash256) \<Rightarrow> merkle_proof \<Rightarrow> hash256" where
  "leaf_step sha pf =
     (case pf_Value pf of None \<Rightarrow> ZeroHash | Some v \<Rightarrow> sha ([0] @ hash_bytes (pf_Key pf) @ v))"

definition branch_step ::
  "(bytes \<Rightarrow> hash256) \<Rightarrow> hash256 \<Rightarrow> nat \<Rightarrow> hash256 \<Rightarrow> hash256 \<Rightarrow> hash256" where
  "branch_step sha key depth sibling current =
     (if getBit key depth = 0 then sha ([1] @ hash_bytes current @ hash_bytes sibling)
      else sha ([1] @ hash_bytes sibling @ hash_bytes current))"

text \<open>The loop from the last sibling to the first; bit 256 of the key is a panic.\<close>

fun verify_walk ::
  "(bytes \<Rightarrow> hash256) \<Rightarrow> hash256 \<Rightarrow> nat \<Rightarrow> hash256 list \<Rightarrow> hash256 \<Rightarrow> merr + hash256" where
  "verify_walk sha key depth [] current = Inr current"
| "verify_walk sha key depth (sibling # siblings) current =
     (case verify_walk sha key (depth + 1) siblings current of
        Inl e \<Rightarrow> Inl e
      | Inr current \<Rightarrow>
          if 256 \<le> depth then Inl IndexPanic
          else Inr (branch_step sha key depth sibling current))"

definition VerifyProof :: "(bytes \<Rightarrow> hash256) \<Rightarrow> hash256 \<Rightarrow> merkle_proof \<Rightarrow> merr + bool" where
  "VerifyProof sha root pf =
     (case verify_walk sha (pf_Key pf) 0 (pf_Siblings pf) (leaf_step sha pf) of
        Inl e \<Rightarrow> Inl e | Inr current \<Rightarrow> Inr (current = root))"

end
