(* ===== verification/Tyl_Merkle_Facts.thy ===== *)
theory Tyl_Merkle_Facts
  imports Tyl_Merkle
begin

text \<open>
  Correctness of the sparse Merkle tree. \<open>content\<close> reads a fully loaded tree as a finite map;
  \<open>tree_wf\<close> says that keys sit below the branch their bits select; \<open>canonical\<close> that no branch
  could be collapsed; \<open>loads\<close> relates a tree with unresolved hash nodes to the full tree they stand
  for in the store. The operations implement map lookup, update and deletion, on loaded and on
  lazily loaded trees; a fully loaded tree is determined by its content, and so is its root.
\<close>

section \<open>Bits of a key\<close>

lemma getBit_cases: "getBit h d = 0 \<or> getBit h d = 1"
  unfolding getBit_def by (metis and_one_eq mod2_eq_if)

lemma getBit_zero_iff:
  assumes "d < 256"
  shows "getBit h d = 0 \<longleftrightarrow> \<not> bit h (255 - d)"
proof -
  have dv: "d div 8 < 32" using assms by auto
  have "8 * (31 - d div 8) + (7 - d mod 8) = 255 - d" using assms by presburger
  moreover have "7 - d mod 8 < 8" by simp
  ultimately have "bit (hash_bytes h ! (d div 8)) (7 - d mod 8) \<longleftrightarrow> bit h (255 - d)"
    using dv by (simp add: hash_bytes_def be_bytes_nth bit_simps)
  moreover have "getBit h d = 0 \<longleftrightarrow> \<not> bit (hash_bytes h ! (d div 8)) (7 - d mod 8)"
    by (simp add: getBit_def and_one_eq mod_2_eq_odd bit_iff_odd_drop_bit)
  ultimately show ?thesis by simp
qed

definition agree :: "nat \<Rightarrow> hash256 \<Rightarrow> hash256 \<Rightarrow> bool" where
  "agree d k k' \<longleftrightarrow> (\<forall>i<d. getBit k i = 0 \<longleftrightarrow> getBit k' i = 0)"

lemma agree_256:
  assumes "agree d k k'" and "256 \<le> d"
  shows "k = k'"
proof (rule bit_eqI)
  fix n
  assume "possible_bit TYPE(hash256) n"
  then have n: "n < 256" by simp
  then have "255 - n < d" and b: "255 - n < 256" and e: "255 - (255 - n) = n"
    using assms by auto
  then have "getBit k (255 - n) = 0 \<longleftrightarrow> getBit k' (255 - n) = 0"
    using assms by (auto simp: agree_def)
  then show "bit k n \<longleftrightarrow> bit k' n"
    using getBit_zero_iff [OF b] unfolding e by blast
qed

text \<open>The keys that may sit below a node at depth \<open>d\<close>: they share their first \<open>d\<close> bits.\<close>

definition cylinder :: "nat \<Rightarrow> hash256 set \<Rightarrow> bool" where
  "cylinder d P \<longleftrightarrow> (\<forall>k\<in>P. \<forall>k'\<in>P. agree d k k')"

abbreviation side0 :: "nat \<Rightarrow> hash256 set \<Rightarrow> hash256 set" where
  "side0 d P \<equiv> {k \<in> P. getBit k d = 0}"

abbreviation side1 :: "nat \<Rightarrow> hash256 set \<Rightarrow> hash256 set" where
  "side1 d P \<equiv> {k \<in> P. getBit k d \<noteq> 0}"

lemma cylinder_UNIV [simp]: "cylinder 0 UNIV"
  by (simp add: cylinder_def agree_def)

lemma cylinder_side [simp]:
  assumes "cylinder d P"
  shows "cylinder (Suc d) (side0 d P)" and "cylinder (Suc d) (side1 d P)"
  using assms by (auto simp: cylinder_def agree_def less_Suc_eq)

lemma cylinder_split: "cylinder d P \<Longrightarrow> k \<in> P \<Longrightarrow> k' \<in> P \<Longrightarrow> k \<noteq> k' \<Longrightarrow> d < 256"
  by (meson agree_256 cylinder_def not_less)

section \<open>Well-formed trees and their content\<close>

primrec content :: "node \<Rightarrow> hash256 \<rightharpoonup> bytes" where
  "content EmptyNode = Map.empty"
| "content (LeafNode k v) = [k \<mapsto> v]"
| "content (BranchNode l r) = content l ++ content r"
| "content (HashNode h) = Map.empty"

primrec in_memory :: "node \<Rightarrow> bool" where
  "in_memory EmptyNode = True"
| "in_memory (LeafNode k v) = True"
| "in_memory (BranchNode l r) = (in_memory l \<and> in_memory r)"
| "in_memory (HashNode h) = False"

primrec tree_wf :: "node \<Rightarrow> nat \<Rightarrow> hash256 set \<Rightarrow> bool" where
  "tree_wf EmptyNode d P = True"
| "tree_wf (LeafNode k v) d P = (k \<in> P)"
| "tree_wf (BranchNode l r) d P =
     (d < 256 \<and> tree_wf l (Suc d) (side0 d P) \<and> tree_wf r (Suc d) (side1 d P))"
| "tree_wf (HashNode h) d P = False"

primrec canonical :: "node \<Rightarrow> bool" where
  "canonical EmptyNode = True"
| "canonical (LeafNode k v) = True"
| "canonical (BranchNode l r) =
     (canonical l \<and> canonical r \<and> (\<exists>k k'. k \<noteq> k' \<and> {k, k'} \<subseteq> dom (content (BranchNode l r))))"
| "canonical (HashNode h) = True"

lemma tree_wf_in_memory: "tree_wf t d P \<Longrightarrow> in_memory t"
  by (induction t arbitrary: d P) auto

lemma content_dom: "tree_wf t d P \<Longrightarrow> content t k = Some v \<Longrightarrow> k \<in> P"
  by (induction t arbitrary: d P) (auto split: if_splits)

lemma content_branch:
  assumes "tree_wf (BranchNode l r) d P"
  shows "content (BranchNode l r) k =
    (if getBit k d = 0 then content l k else content r k)"
proof (cases "getBit k d = 0")
  case True
  with assms have "content r k = None"
    using content_dom [of r "Suc d" "side1 d P" k] by (cases "content r k") auto
  with True show ?thesis by (simp add: map_add_def)
next
  case False
  with assms have "content l k = None"
    using content_dom [of l "Suc d" "side0 d P" k] by (cases "content l k") auto
  with False show ?thesis by (simp add: map_add_def split: option.split)
qed

text \<open>Changing one child at a key of its side changes the branch at that key.\<close>

lemma branch_upd:
  assumes wf: "tree_wf (BranchNode l r) d P" and k: "k \<in> P"
  shows "getBit k d = 0 \<Longrightarrow> tree_wf l' (Suc d) (side0 d P) \<Longrightarrow> content l' = (content l)(k := x) \<Longrightarrow>
      tree_wf (BranchNode l' r) d P \<and>
      content (BranchNode l' r) = (content (BranchNode l r))(k := x)"
    and "getBit k d \<noteq> 0 \<Longrightarrow> tree_wf r' (Suc d) (side1 d P) \<Longrightarrow> content r' = (content r)(k := x) \<Longrightarrow>
      tree_wf (BranchNode l r') d P \<and>
      content (BranchNode l r') = (content (BranchNode l r))(k := x)"
proof -
  assume a: "getBit k d = 0" "tree_wf l' (Suc d) (side0 d P)" "content l' = (content l)(k := x)"
  then have w: "tree_wf (BranchNode l' r) d P" using wf by simp
  moreover have "content (BranchNode l' r) = (content (BranchNode l r))(k := x)"
    by (rule ext) (simp add: content_branch [OF w] content_branch [OF wf] a del: content.simps)
  ultimately show "tree_wf (BranchNode l' r) d P \<and>
      content (BranchNode l' r) = (content (BranchNode l r))(k := x)" ..
next
  assume a: "getBit k d \<noteq> 0" "tree_wf r' (Suc d) (side1 d P)" "content r' = (content r)(k := x)"
  then have w: "tree_wf (BranchNode l r') d P" using wf by simp
  moreover have "content (BranchNode l r') = (content (BranchNode l r))(k := x)"
    by (rule ext) (simp add: content_branch [OF w] content_branch [OF wf] a del: content.simps)
  ultimately show "tree_wf (BranchNode l r') d P \<and>
      content (BranchNode l r') = (content (BranchNode l r))(k := x)" ..
qed

section \<open>Lookup\<close>

lemma tree_get_content:
  "tree_wf t d P \<Longrightarrow> k \<in> P \<Longrightarrow> tree_get st t k d = Inr (content t k)"
proof (induction t arbitrary: d P)
  case (BranchNode l r)
  then show ?case
    using BranchNode.IH(1) [of "Suc d" "side0 d P"] BranchNode.IH(2) [of "Suc d" "side1 d P"]
    by (simp add: content_branch [OF BranchNode.prems(1)] del: content.simps)
qed auto

section \<open>Update\<close>

lemma tree_set_insert_correct:
  shows tree_set_correct:
    "tree_wf t d P \<Longrightarrow> cylinder d P \<Longrightarrow> k \<in> P \<Longrightarrow>
     \<exists>t'. tree_set st t k v d = Inr t' \<and> tree_wf t' d P \<and> content t' = (content t)(k \<mapsto> v)"
  and tree_insert_correct:
    "tree_wf (BranchNode (fst b) (snd b)) d P \<Longrightarrow> cylinder d P \<Longrightarrow> k \<in> P \<Longrightarrow>
     \<exists>b'. tree_insert st b k v d = Inr b' \<and> tree_wf (BranchNode (fst b') (snd b')) d P \<and>
       content (BranchNode (fst b') (snd b')) = (content (BranchNode (fst b) (snd b)))(k \<mapsto> v)"
proof (induction st t k v d and st b k v d arbitrary: P and P rule: tree_set_tree_insert.induct)
  case (3 st k0 v0 k v d)
  show ?case
  proof (cases "k0 = k")
    case True
    with 3 show ?thesis by (auto intro!: ext)
  next
    case False
    have d: "d < 256" using 3 False by (auto intro: cylinder_split)
    define b1 where "b1 = (if getBit k0 d = 0 then (LeafNode k0 v0, EmptyNode)
      else (EmptyNode, LeafNode k0 v0))"
    have b1: "tree_insert st (EmptyNode, EmptyNode) k0 v0 d = Inr b1"
      and w1: "tree_wf (BranchNode (fst b1) (snd b1)) d P"
      and c1: "content (BranchNode (fst b1) (snd b1)) = [k0 \<mapsto> v0]"
      using d "3.prems" by (simp_all add: b1_def)
    obtain b2 where b2: "tree_insert st b1 k v d = Inr b2"
      and w2: "tree_wf (BranchNode (fst b2) (snd b2)) d P"
      and c2: "content (BranchNode (fst b2) (snd b2)) = [k0 \<mapsto> v0, k \<mapsto> v]"
      using "3.IH"(2) [OF False b1 w1 "3.prems"(2,3)] unfolding c1 by blast
    have "tree_set st (LeafNode k0 v0) k v d = Inr (BranchNode (fst b2) (snd b2))"
      using False b1 b2 by (simp add: prod.case_eq_if del: tree_insert.simps)
    moreover have "content (BranchNode (fst b2) (snd b2)) = (content (LeafNode k0 v0))(k \<mapsto> v)"
      using c2 by (simp only: content.simps)
    ultimately show ?thesis using w2 by blast
  qed
next
  case (4 st l r k v d)
  let ?wf = "tree_wf (BranchNode l r) d P"
  have wf: ?wf using "4.prems"(1) by simp
  show ?case
  proof (cases "getBit k d = 0")
    case True
    with "4.IH"(1) [of "side0 d P"] "4.prems" obtain l'
      where l': "tree_set st l k v (d + 1) = Inr l'" "tree_wf l' (Suc d) (side0 d P)"
        "content l' = (content l)(k \<mapsto> v)"
      by (auto simp del: fun_upd_apply)
    with branch_upd(1) [OF wf "4.prems"(3) True l'(2,3)] wf True show ?thesis
      by (simp del: content.simps fun_upd_apply)
  next
    case False
    with "4.IH"(2) [of "side1 d P"] "4.prems" obtain r'
      where r': "tree_set st r k v (d + 1) = Inr r'" "tree_wf r' (Suc d) (side1 d P)"
        "content r' = (content r)(k \<mapsto> v)"
      by (auto simp del: fun_upd_apply)
    with branch_upd(2) [OF wf "4.prems"(3) False r'(2,3)] wf False show ?thesis
      by (simp del: content.simps fun_upd_apply)
  qed
next
  case (5 st l r k v d)
  let ?wf = "tree_wf (BranchNode l r) d P"
  have wf: ?wf using "5.prems"(1) by simp
  show ?case
  proof (cases "getBit k d = 0")
    case True
    with "5.IH"(1) [of "side0 d P"] "5.prems" obtain l'
      where l': "tree_set st l k v (d + 1) = Inr l'" "tree_wf l' (Suc d) (side0 d P)"
        "content l' = (content l)(k \<mapsto> v)"
      by (auto simp del: fun_upd_apply)
    with branch_upd(1) [OF wf "5.prems"(3) True l'(2,3)] wf True show ?thesis
      by (simp del: content.simps fun_upd_apply)
  next
    case False
    with "5.IH"(2) [of "side1 d P"] "5.prems" obtain r'
      where r': "tree_set st r k v (d + 1) = Inr r'" "tree_wf r' (Suc d) (side1 d P)"
        "content r' = (content r)(k \<mapsto> v)"
      by (auto simp del: fun_upd_apply)
    with branch_upd(2) [OF wf "5.prems"(3) False r'(2,3)] wf False show ?thesis
      by (simp del: content.simps fun_upd_apply)
  qed
qed auto

text \<open>A canonical tree stays canonical: every branch keeps two keys below it.\<close>

lemma dom_two_upd:
  "\<exists>k k'. k \<noteq> k' \<and> {k, k'} \<subseteq> dom m \<Longrightarrow> \<exists>k k'. k \<noteq> k' \<and> {k, k'} \<subseteq> dom (m(x \<mapsto> v))"
  by (auto simp del: fun_upd_apply)

lemma tree_set_insert_canonical:
  shows tree_set_canonical:
    "tree_wf t d P \<Longrightarrow> cylinder d P \<Longrightarrow> k \<in> P \<Longrightarrow> canonical t \<Longrightarrow>
     tree_set st t k v d = Inr t' \<Longrightarrow> canonical t'"
  and tree_insert_canonical:
    "tree_wf (BranchNode (fst b) (snd b)) d P \<Longrightarrow> cylinder d P \<Longrightarrow> k \<in> P \<Longrightarrow>
     canonical (fst b) \<Longrightarrow> canonical (snd b) \<Longrightarrow>
     tree_insert st b k v d = Inr b' \<Longrightarrow> canonical (fst b') \<and> canonical (snd b')"
proof (induction st t k v d and st b k v d arbitrary: P t' and P b'
    rule: tree_set_tree_insert.induct)
  case (3 st k0 v0 k v d)
  show ?case
  proof (cases "k0 = k")
    case True
    with 3 show ?thesis by auto
  next
    case False
    then have d: "d < 256" using 3 by (auto intro: cylinder_split)
    then have wE: "tree_wf (BranchNode EmptyNode EmptyNode) d P" by simp
    from False "3.prems"(5) obtain b1 b2
      where b1: "tree_insert st (EmptyNode, EmptyNode) k0 v0 d = Inr b1"
        and b2: "tree_insert st b1 k v d = Inr b2" and t': "t' = BranchNode (fst b2) (snd b2)"
      by (auto split: sum.splits simp del: tree_insert.simps)
    from tree_insert_correct [of "(EmptyNode, EmptyNode)" d P k0 st v0] wE "3.prems" b1
    have w1: "tree_wf (BranchNode (fst b1) (snd b1)) d P"
      and c1: "content (BranchNode (fst b1) (snd b1)) = [k0 \<mapsto> v0]"
      by (auto simp del: fun_upd_apply tree_insert.simps)
    from tree_insert_correct [OF w1 "3.prems"(2,3), of st v] b2
    have c2: "content t' = [k0 \<mapsto> v0, k \<mapsto> v]"
      unfolding c1 t' by auto
    have "canonical (fst b1) \<and> canonical (snd b1)"
      using "3.IH"(1) [OF False, of P b1] "3.prems" wE b1 by simp
    then have "canonical (fst b2) \<and> canonical (snd b2)"
      using "3.IH"(2) [OF False b1 w1 "3.prems"(2,3)] b2 by simp
    moreover have "k0 \<noteq> k \<and> {k0, k} \<subseteq> dom (content t')"
      unfolding c2 using False by auto
    ultimately show ?thesis unfolding t' canonical.simps by blast
  qed
next
  case (4 st l r k v d)
  have "content t' = (content (BranchNode l r))(k \<mapsto> v)"
    using tree_set_correct [OF "4.prems"(1-3), of st v] "4.prems"(5) by auto
  then have two: "\<exists>k k'. k \<noteq> k' \<and> {k, k'} \<subseteq> dom (content t')"
    using dom_two_upd [of "content (BranchNode l r)" k v] "4.prems"(4) by simp
  show ?case
  proof (cases "getBit k d = 0")
    case True
    with 4 obtain l' where "tree_set st l k v (d + 1) = Inr l'" "t' = BranchNode l' r"
      by (auto split: sum.splits)
    with 4 True two show ?thesis by (auto simp del: content.simps)
  next
    case False
    with 4 obtain r' where "tree_set st r k v (d + 1) = Inr r'" "t' = BranchNode l r'"
      by (auto split: sum.splits)
    with 4 False two show ?thesis by (auto simp del: content.simps)
  qed
next
  case (5 st l r k v d)
  then show ?case by (auto split: if_splits sum.splits)
qed auto

section \<open>Deletion\<close>

lemma collapse_wf:
  assumes "tree_wf (BranchNode l r) d P"
  shows "tree_wf (collapse l r) d P" and "content (collapse l r) = content (BranchNode l r)"
  using assms by (cases l; cases r; auto simp: collapse_def isEmptyNode_def)+

lemma canonical_nonempty:
  "tree_wf t d P \<Longrightarrow> canonical t \<Longrightarrow> t \<noteq> EmptyNode \<Longrightarrow> \<exists>k v. content t k = Some v"
  by (cases t) (auto simp del: content.simps(3))

lemma canonical_collapse:
  assumes wf: "tree_wf (BranchNode l r) d P" and cl: "canonical l" and cr: "canonical r"
  shows "canonical (collapse l r)"
proof (cases "collapse l r = BranchNode l r")
  case False
  with cl cr show ?thesis by (auto simp: collapse_def split: if_splits)
next
  case True
  have "\<exists>k k'. k \<noteq> k' \<and> {k, k'} \<subseteq> dom (content (BranchNode l r))"
  proof (cases "l = EmptyNode \<or> r = EmptyNode")
    case True
    with \<open>collapse l r = BranchNode l r\<close> wf cl cr show ?thesis
      by (cases l; cases r) (auto simp: collapse_def isEmptyNode_def)
  next
    case False
    then obtain k v k' v' where kv: "content l k = Some v" "content r k' = Some v'"
      using canonical_nonempty [of l] canonical_nonempty [of r] wf cl cr by fastforce
    then have "getBit k d = 0" "getBit k' d \<noteq> 0"
      using content_dom [of l "Suc d" "side0 d P" k v]
        content_dom [of r "Suc d" "side1 d P" k' v'] wf by auto
    with kv have "k \<noteq> k'" "content (BranchNode l r) k = Some v"
      "content (BranchNode l r) k' = Some v'"
      by (auto simp: content_branch [OF wf] simp del: content.simps)
    then show ?thesis by (auto simp del: content.simps)
  qed
  with True cl cr show ?thesis by simp
qed

lemma tree_delete_correct:
  "tree_wf t d P \<Longrightarrow> k \<in> P \<Longrightarrow>
   \<exists>t'. tree_delete st t k d = Inr t' \<and> tree_wf t' d P \<and> content t' = (content t)(k := None) \<and>
     (canonical t \<longrightarrow> canonical t')"
proof (induction t arbitrary: d P)
  case (BranchNode l r)
  have wf: "tree_wf (BranchNode l r) d P" by fact
  show ?case
  proof (cases "getBit k d = 0")
    case True
    with BranchNode.IH(1) [of "Suc d" "side0 d P"] BranchNode.prems obtain l'
      where l': "tree_delete st l k (Suc d) = Inr l'" "tree_wf l' (Suc d) (side0 d P)"
        "content l' = (content l)(k := None)" "canonical l \<longrightarrow> canonical l'"
      by (auto simp del: fun_upd_apply)
    have w: "tree_wf (BranchNode l' r) d P"
      and c: "content (BranchNode l' r) = (content (BranchNode l r))(k := None)"
      using branch_upd(1) [OF wf BranchNode.prems(2) True l'(2,3)] by simp_all
    with l' True wf show ?thesis
      by (simp add: collapse_wf [OF w] c canonical_collapse [OF w] del: content.simps fun_upd_apply)
  next
    case False
    with BranchNode.IH(2) [of "Suc d" "side1 d P"] BranchNode.prems obtain r'
      where r': "tree_delete st r k (Suc d) = Inr r'" "tree_wf r' (Suc d) (side1 d P)"
        "content r' = (content r)(k := None)" "canonical r \<longrightarrow> canonical r'"
      by (auto simp del: fun_upd_apply)
    have w: "tree_wf (BranchNode l r') d P"
      and c: "content (BranchNode l r') = (content (BranchNode l r))(k := None)"
      using branch_upd(2) [OF wf BranchNode.prems(2) False r'(2,3)] by simp_all
    with r' False wf show ?thesis
      by (simp add: collapse_wf [OF w] c canonical_collapse [OF w] del: content.simps fun_upd_apply)
  qed
qed auto

section \<open>The content determines the tree\<close>

lemma content_side:
  assumes "tree_wf (BranchNode l r) d P"
  shows "content l = (\<lambda>k. if getBit k d = 0 then content (BranchNode l r) k else None)"
    and "content r = (\<lambda>k. if getBit k d \<noteq> 0 then content (BranchNode l r) k else None)"
proof -
  have "content l k = None" if "getBit k d \<noteq> 0" for k
    using that assms content_dom [of l "Suc d" "side0 d P" k] by (cases "content l k") auto
  then show "content l = (\<lambda>k. if getBit k d = 0 then content (BranchNode l r) k else None)"
    by (auto simp: content_branch [OF assms] simp del: content.simps)
  have "content r k = None" if "getBit k d = 0" for k
    using that assms content_dom [of r "Suc d" "side1 d P" k] by (cases "content r k") auto
  then show "content r = (\<lambda>k. if getBit k d \<noteq> 0 then content (BranchNode l r) k else None)"
    by (auto simp: content_branch [OF assms] simp del: content.simps)
qed

lemma canonical_branch_two:
  assumes "canonical (BranchNode l r)"
  shows "content (BranchNode l r) \<noteq> [k \<mapsto> v]"
proof
  assume eq: "content (BranchNode l r) = [k \<mapsto> v]"
  from assms obtain a b where "a \<noteq> b" "{a, b} \<subseteq> dom (content (BranchNode l r))"
    unfolding canonical.simps by blast
  then show False unfolding eq by auto
qed

lemma canonical_unique:
  "tree_wf t d P \<Longrightarrow> canonical t \<Longrightarrow> tree_wf t' d P \<Longrightarrow> canonical t' \<Longrightarrow> content t = content t' \<Longrightarrow>
   t = t'"
proof (induction t arbitrary: t' d P)
  case EmptyNode
  then show ?case using canonical_nonempty [of t' d P] by (metis content.simps(1) option.distinct(1))
next
  case (LeafNode k v)
  from LeafNode.prems(5) have c: "content t' = [k \<mapsto> v]" by (simp only: content.simps)
  show ?case
  proof (cases t')
    case (LeafNode k' v')
    then show ?thesis using c by (metis content.simps(2) fun_upd_eqD fun_upd_same
        fun_upd_other option.distinct(1) option.inject)
  next
    case (BranchNode l r)
    then show ?thesis using c canonical_branch_two LeafNode.prems by metis
  qed (use c LeafNode.prems in \<open>auto dest: fun_cong [of _ _ k]\<close>)
next
  case (BranchNode l r)
  obtain l' r' where t': "t' = BranchNode l' r'"
  proof (cases t')
    case (LeafNode k v)
    then show ?thesis using BranchNode.prems canonical_branch_two by (metis content.simps(2))
  next
    case EmptyNode
    then show ?thesis
      using BranchNode.prems canonical_nonempty by (metis content.simps(1) node.distinct(3) option.distinct(1))
  qed (use BranchNode.prems that in auto)
  have "content l = content l'" "content r = content r'"
    using BranchNode.prems(3,5) content_side [OF BranchNode.prems(1)] content_side [of l' r' d P]
    unfolding t' by metis+
  then show ?case
    using BranchNode.IH(1) [of "Suc d" "side0 d P" l'] BranchNode.IH(2) [of "Suc d" "side1 d P" r']
      BranchNode.prems t' by simp
qed auto

section \<open>Lazily loaded trees\<close>

text \<open>\<open>loads sha st n t\<close>: resolving every hash node of \<open>n\<close> from the store gives the full tree \<open>t\<close>.\<close>

inductive loads :: "(bytes \<Rightarrow> hash256) \<Rightarrow> kvstore \<Rightarrow> node \<Rightarrow> node \<Rightarrow> bool" for sha st where
  loads_empty: "loads sha st EmptyNode EmptyNode"
| loads_leaf: "loads sha st (LeafNode k v) (LeafNode k v)"
| loads_branch: "loads sha st a l \<Longrightarrow> loads sha st b r \<Longrightarrow>
    loads sha st (BranchNode a b) (BranchNode l r)"
| loads_hash: "resolve st h = Inr n \<Longrightarrow> node_hash sha n = h \<Longrightarrow> loads sha st n t \<Longrightarrow>
    loads sha st (HashNode h) t"

inductive_simps loads_empty_iff: "loads sha st EmptyNode t"
inductive_simps loads_leaf_iff: "loads sha st (LeafNode k v) t"
inductive_simps loads_branch_iff: "loads sha st (BranchNode a b) t"
inductive_simps loads_hash_iff: "loads sha st (HashNode h) t"

lemmas loads_iffs = loads_empty_iff loads_leaf_iff loads_branch_iff

lemma loads_refl: "in_memory t \<Longrightarrow> loads sha st t t"
  by (induction t) (auto intro: loads.intros)

lemma loads_same_hash: "loads sha st n t \<Longrightarrow> node_hash sha n = node_hash sha t"
  by (induction rule: loads.induct) auto

lemma loads_get: "loads sha st n t \<Longrightarrow> tree_get st n k d = tree_get st t k d"
  by (induction arbitrary: d rule: loads.induct) auto

lemma loads_set:
  "loads sha st n t \<Longrightarrow> tree_wf t d P \<Longrightarrow> cylinder d P \<Longrightarrow> k \<in> P \<Longrightarrow>
   \<exists>n' t'. tree_set st n k v d = Inr n' \<and> loads sha st n' t' \<and> tree_set st t k v d = Inr t'"
proof (induction arbitrary: d P rule: loads.induct)
  case (loads_leaf k0 v0)
  then obtain t' where t': "tree_set st (LeafNode k0 v0) k v d = Inr t'" "tree_wf t' d P"
    using tree_set_correct [of "LeafNode k0 v0" d P k st v] by blast
  then have "loads sha st t' t'" by (auto intro: loads_refl tree_wf_in_memory)
  with t' show ?case by blast
next
  case (loads_branch a l b r)
  show ?case
  proof (cases "getBit k d = 0")
    case True
    with loads_branch.IH(1) [of "Suc d" "side0 d P"] loads_branch show ?thesis
      by (fastforce intro: loads.intros)
  next
    case False
    with loads_branch.IH(2) [of "Suc d" "side1 d P"] loads_branch show ?thesis
      by (fastforce intro: loads.intros)
  qed
qed (auto intro: loads.intros)

lemma loads_collapse:
  assumes "loads sha st a l" and "loads sha st b r" and wf: "tree_wf (BranchNode l r) d P"
  shows "\<exists>t. loads sha st (collapse a b) t \<and> tree_wf t d P \<and> content t = content (BranchNode l r)"
proof (cases "collapse a b = BranchNode a b")
  case True
  with assms show ?thesis by (metis loads_branch)
next
  case False
  then have "loads sha st (collapse a b) (collapse l r)"
    using assms(1,2)
    by (cases a; cases b) (auto simp: collapse_def isEmptyNode_def loads_iffs intro: loads.intros)
  with collapse_wf [OF wf] show ?thesis by blast
qed

lemma loads_delete:
  "loads sha st n t \<Longrightarrow> tree_wf t d P \<Longrightarrow> k \<in> P \<Longrightarrow>
   \<exists>n' t'. tree_delete st n k d = Inr n' \<and> loads sha st n' t' \<and> tree_wf t' d P \<and>
     content t' = (content t)(k := None)"
proof (induction arbitrary: d P rule: loads.induct)
  case (loads_branch a l b r)
  have wf: "tree_wf (BranchNode l r) d P" by fact
  show ?case
  proof (cases "getBit k d = 0")
    case True
    with loads_branch.IH(1) [of "Suc d" "side0 d P"] loads_branch.prems obtain a' l'
      where l': "tree_delete st a k (Suc d) = Inr a'" "loads sha st a' l'"
        "tree_wf l' (Suc d) (side0 d P)" "content l' = (content l)(k := None)"
      by (auto simp del: fun_upd_apply)
    from branch_upd(1) [OF wf loads_branch.prems(2) True l'(3,4)]
      loads_collapse [OF l'(2) loads_branch.hyps(2), of d P]
    show ?thesis using l'(1) True wf by (auto simp del: fun_upd_apply content.simps)
  next
    case False
    with loads_branch.IH(2) [of "Suc d" "side1 d P"] loads_branch.prems obtain b' r'
      where r': "tree_delete st b k (Suc d) = Inr b'" "loads sha st b' r'"
        "tree_wf r' (Suc d) (side1 d P)" "content r' = (content r)(k := None)"
      by (auto simp del: fun_upd_apply)
    from branch_upd(2) [OF wf loads_branch.prems(2) False r'(3,4)]
      loads_collapse [OF loads_branch.hyps(1) r'(2), of d P]
    show ?thesis using r'(1) False wf by (auto simp del: fun_upd_apply content.simps)
  qed
qed (auto intro: loads.intros)

section \<open>The map interface\<close>

text \<open>What the state database relies on: a trie is a map from keys to byte strings.\<close>

locale kv_trie =
  fixes look :: "'t \<Rightarrow> hash256 \<Rightarrow> bytes option"
    and put :: "'t \<Rightarrow> hash256 \<Rightarrow> bytes \<Rightarrow> 't"
    and del :: "'t \<Rightarrow> hash256 \<Rightarrow> 't"
    and invar :: "'t \<Rightarrow> bool"
  assumes look_put: "invar t \<Longrightarrow> look (put t k v) = (look t)(k \<mapsto> v)"
    and look_del: "invar t \<Longrightarrow> look (del t k) = (look t)(k := None)"
    and invar_put: "invar t \<Longrightarrow> invar (put t k v)"
    and invar_del: "invar t \<Longrightarrow> invar (del t k)"
begin

text \<open>Writing back what was there: the step that undoes a journal entry.\<close>

lemma invar_restore: "invar t \<Longrightarrow> invar (case old of None \<Rightarrow> del t k | Some v \<Rightarrow> put t k v)"
  by (auto simp: invar_put invar_del split: option.split)

lemma look_restore:
  "invar t \<Longrightarrow> look (case old of None \<Rightarrow> del t k | Some v \<Rightarrow> put t k v) = (look t)(k := old)"
  by (auto simp: look_put look_del split: option.split)

end

definition tree_ok :: "(bytes \<Rightarrow> hash256) \<Rightarrow> tree \<Rightarrow> bool" where
  "tree_ok sha t \<longleftrightarrow> (\<exists>full. loads sha (t_store t) (t_root t) full \<and> tree_wf full 0 UNIV)"

lemma tree_look_loads:
  assumes "loads sha (t_store t) (t_root t) full" and "tree_wf full 0 UNIV"
  shows "tree_look t = content full"
  using assms by (auto simp: tree_look_def tree_Get_def loads_get tree_get_content)

lemma tree_put_loads:
  assumes "loads sha (t_store t) (t_root t) full" and "tree_wf full 0 UNIV"
  shows "\<exists>full'. loads sha (t_store t) (t_root (tree_put t k v)) full' \<and> tree_wf full' 0 UNIV \<and>
    content full' = (content full)(k \<mapsto> v) \<and> t_store (tree_put t k v) = t_store t \<and>
    (canonical full \<longrightarrow> canonical full')"
proof -
  let ?st = "t_store t"
  obtain t' where t': "tree_set ?st full k v 0 = Inr t'" "tree_wf t' 0 UNIV"
    "content t' = (content full)(k \<mapsto> v)"
    using tree_set_correct [OF assms(2) cylinder_UNIV UNIV_I, of ?st k v] by blast
  obtain n' where n': "tree_set ?st (t_root t) k v 0 = Inr n'" "loads sha ?st n' t'"
    using loads_set [OF assms cylinder_UNIV UNIV_I, of k v] t'(1) by auto
  have "canonical full \<longrightarrow> canonical t'"
    using tree_set_canonical [OF assms(2) cylinder_UNIV UNIV_I _ t'(1)] by blast
  with t' n' show ?thesis
    by (intro exI [of _ t']) (simp add: tree_put_def tree_Set_def)
qed

lemma tree_del_loads:
  assumes "loads sha (t_store t) (t_root t) full" and "tree_wf full 0 UNIV"
  shows "\<exists>full'. loads sha (t_store t) (t_root (tree_del t k)) full' \<and> tree_wf full' 0 UNIV \<and>
    content full' = (content full)(k := None) \<and> t_store (tree_del t k) = t_store t"
  using loads_delete [OF assms, of k]
  by (auto simp: tree_del_def tree_Delete_def simp del: fun_upd_apply)

interpretation merkle_trie: kv_trie tree_look tree_put tree_del "tree_ok sha" for sha
proof unfold_locales
  fix t k v
  assume "tree_ok sha t"
  then obtain full where f: "loads sha (t_store t) (t_root t) full" "tree_wf full 0 UNIV"
    by (auto simp: tree_ok_def)
  from tree_put_loads [OF f, of k v] obtain fp where
    p: "loads sha (t_store (tree_put t k v)) (t_root (tree_put t k v)) fp" "tree_wf fp 0 UNIV"
    "content fp = (content full)(k \<mapsto> v)" by auto
  from tree_del_loads [OF f, of k] obtain fd where
    d: "loads sha (t_store (tree_del t k)) (t_root (tree_del t k)) fd" "tree_wf fd 0 UNIV"
    "content fd = (content full)(k := None)" by auto
  show "tree_look (tree_put t k v) = (tree_look t)(k \<mapsto> v)"
    by (simp add: tree_look_loads [OF f] tree_look_loads [OF p(1,2)] p(3))
  show "tree_look (tree_del t k) = (tree_look t)(k := None)"
    by (simp add: tree_look_loads [OF f] tree_look_loads [OF d(1,2)] d(3))
  show "tree_ok sha (tree_put t k v)" using p by (auto simp: tree_ok_def)
  show "tree_ok sha (tree_del t k)" using d by (auto simp: tree_ok_def)
qed

end
