(* ===== verification/Tyl_Merkle_Props.thy ===== *)
theory Tyl_Merkle_Props
  imports Tyl_Merkle_Facts
begin

text \<open>
  The Merkle tree as the rest of the program and its users see it: what any sequence of updates
  and deletions leaves behind, that the root commits to the content and to nothing else, that a
  flushed tree can be loaded again from its root, and what an inclusion proof proves.
\<close>

section \<open>Sequences of updates\<close>

datatype trie_op = OpSet hash256 bytes | OpDelete hash256

fun run_op :: "tree \<Rightarrow> trie_op \<Rightarrow> tree" where
  "run_op t (OpSet k v) = tree_put t k v"
| "run_op t (OpDelete k) = tree_del t k"

abbreviation run_ops :: "tree \<Rightarrow> trie_op list \<Rightarrow> tree" where
  "run_ops \<equiv> foldl run_op"

text \<open>The same sequence on a finite map.\<close>

fun map_op :: "(hash256 \<rightharpoonup> bytes) \<Rightarrow> trie_op \<Rightarrow> (hash256 \<rightharpoonup> bytes)" where
  "map_op m (OpSet k v) = m(k \<mapsto> v)"
| "map_op m (OpDelete k) = m(k := None)"

definition tree_mem :: "tree \<Rightarrow> bool" where
  "tree_mem t \<longleftrightarrow> tree_wf (t_root t) 0 UNIV \<and> canonical (t_root t)"

lemma tree_mem_NewTree [simp]: "tree_mem (NewTree st)"
  by (simp add: tree_mem_def NewTree_def)

lemma tree_mem_look: "tree_mem t \<Longrightarrow> tree_look t = content (t_root t)"
  by (auto simp: tree_mem_def tree_look_def tree_Get_def tree_get_content)

lemma tree_mem_ok: "tree_mem t \<Longrightarrow> tree_ok sha t"
  by (auto simp: tree_mem_def tree_ok_def intro: loads_refl tree_wf_in_memory)

lemma tree_mem_put:
  assumes "tree_mem t"
  shows "tree_mem (tree_put t k v)"
proof -
  from assms have wf: "tree_wf (t_root t) 0 UNIV" and can: "canonical (t_root t)"
    by (simp_all add: tree_mem_def)
  obtain n where n: "tree_set (t_store t) (t_root t) k v 0 = Inr n" "tree_wf n 0 UNIV"
    using tree_set_correct [OF wf cylinder_UNIV UNIV_I, of "t_store t" k v] by blast
  then have "canonical n"
    using tree_set_canonical [OF wf cylinder_UNIV UNIV_I can] by blast
  with n show ?thesis by (simp add: tree_mem_def tree_put_def tree_Set_def)
qed

lemma tree_mem_del:
  assumes "tree_mem t"
  shows "tree_mem (tree_del t k)"
proof -
  from assms have wf: "tree_wf (t_root t) 0 UNIV" and can: "canonical (t_root t)"
    by (simp_all add: tree_mem_def)
  obtain n where "tree_delete (t_store t) (t_root t) k 0 = Inr n" "tree_wf n 0 UNIV" "canonical n"
    using tree_delete_correct [OF wf UNIV_I, of "t_store t" k] can by blast
  then show ?thesis by (simp add: tree_mem_def tree_del_def tree_Delete_def)
qed

lemma run_ops_mem: "tree_mem t \<Longrightarrow> tree_mem (run_ops t ops)"
proof (induction ops arbitrary: t)
  case (Cons op ops)
  have "tree_mem (run_op t op)"
    using Cons.prems by (cases op) (simp_all add: tree_mem_put tree_mem_del)
  then show ?case using Cons.IH by simp
qed simp

lemma run_ops_look: "tree_mem t \<Longrightarrow> tree_look (run_ops t ops) = foldl map_op (tree_look t) ops"
proof (induction ops arbitrary: t)
  case (Cons op ops)
  have "tree_mem (run_op t op)" "tree_look (run_op t op) = map_op (tree_look t) op"
    using Cons.prems tree_mem_ok [OF Cons.prems, of "\<lambda>_. 0"]
    by (cases op; simp add: tree_mem_put tree_mem_del merkle_trie.look_put merkle_trie.look_del)+
  then show ?case using Cons.IH by simp
qed simp

lemma look_NewTree [simp]: "tree_look (NewTree st) = Map.empty"
  by (auto simp: tree_look_def tree_Get_def NewTree_def)


text \<open>C9: two in-memory trees with the same lookups have the same root hash, whatever sequences of
  updates and deletions built them: the root commits to the content alone.\<close>

theorem root_history_independent:
  assumes "tree_look (run_ops (NewTree st) xs) = tree_look (run_ops (NewTree st') ys)"
  shows "tree_Root sha (run_ops (NewTree st) xs) = tree_Root sha (run_ops (NewTree st') ys)"
proof -
  have "tree_mem (run_ops (NewTree st) xs)" and "tree_mem (run_ops (NewTree st') ys)"
    by (simp_all add: run_ops_mem)
  with assms show ?thesis
    unfolding tree_Root_def by (metis canonical_unique tree_mem_def tree_mem_look)
qed

theorem root_history_independent_witness:
  "tree_Root (\<lambda>bs. of_nat (length bs))
     (run_ops (NewTree Map.empty) [OpSet 1 [7], OpSet 5 [8], OpSet 9 [3], OpDelete 9]) =
   tree_Root (\<lambda>bs. of_nat (length bs)) (run_ops (NewTree Map.empty) [OpSet 5 [8], OpSet 1 [7]])"
proof (rule root_history_independent)
  show "tree_look (run_ops (NewTree Map.empty) [OpSet 1 [7], OpSet 5 [8], OpSet 9 [3], OpDelete 9]) =
    tree_look (run_ops (NewTree Map.empty) [OpSet 5 [8], OpSet 1 [7]])"
    unfolding run_ops_look [OF tree_mem_NewTree] by (simp add: fun_eq_iff)
qed

section \<open>Flushing and loading\<close>

text \<open>The hash preimages of a tree: what collision-freeness is about.\<close>

primrec node_preimages :: "(bytes \<Rightarrow> hash256) \<Rightarrow> node \<Rightarrow> bytes set" where
  "node_preimages sha EmptyNode = {}"
| "node_preimages sha (LeafNode k v) = {[0] @ hash_bytes k @ v}"
| "node_preimages sha (BranchNode l r) =
     insert ([1] @ hash_bytes (node_hash sha l) @ hash_bytes (node_hash sha r))
       (node_preimages sha l \<union> node_preimages sha r)"
| "node_preimages sha (HashNode h) = {}"

text \<open>The hash has no collision among the given inputs and does not hit the reserved zero hash.\<close>

definition hash_good_on :: "(bytes \<Rightarrow> hash256) \<Rightarrow> bytes set \<Rightarrow> bool" where
  "hash_good_on sha S \<longleftrightarrow> inj_on sha S \<and> (\<forall>x\<in>S. sha x \<noteq> ZeroHash)"

lemma hash_good_on_mono: "hash_good_on sha S \<Longrightarrow> R \<subseteq> S \<Longrightarrow> hash_good_on sha R"
  by (auto simp: hash_good_on_def intro: inj_on_subset)

lemma hash_good_onD: "hash_good_on sha S \<Longrightarrow> sha x = sha y \<Longrightarrow> x \<in> S \<Longrightarrow> y \<in> S \<Longrightarrow> x = y"
  by (auto simp: hash_good_on_def dest: inj_onD)

primrec node_sizes_ok :: "node \<Rightarrow> bool" where
  "node_sizes_ok EmptyNode = True"
| "node_sizes_ok (LeafNode k v) = (37 + length v < 2 ^ 32)"
| "node_sizes_ok (BranchNode l r) = (node_sizes_ok l \<and> node_sizes_ok r)"
| "node_sizes_ok (HashNode h) = True"

text \<open>The stored form of a node is determined by its hash preimage.\<close>

definition stored_form :: "bytes \<Rightarrow> bytes" where
  "stored_form pre =
     (if hd pre = 0
      then [0] @ slice 1 32 pre @ be_bytes 4 (of_nat (length pre - 33) :: uint32) @ drop 33 pre
      else pre)"

lemma stored_form_simps [simp]:
  "stored_form (0 # hash_bytes k @ v) =
     0 # hash_bytes k @ be_bytes 4 (of_nat (length v) :: uint32) @ v"
  "stored_form (1 # hash_bytes h @ hash_bytes g) = 1 # hash_bytes h @ hash_bytes g"
  by (simp_all add: stored_form_def)

definition stored :: "(bytes \<Rightarrow> hash256) \<Rightarrow> kvstore \<Rightarrow> bytes set \<Rightarrow> bool" where
  "stored sha st S \<longleftrightarrow> (\<forall>x\<in>S. st (hash_bytes (sha x)) = Some (stored_form x))"

lemma stored_upd:
  "stored sha st S \<Longrightarrow> hash_good_on sha (insert x S) \<Longrightarrow>
   stored sha (st(hash_bytes (sha x) \<mapsto> stored_form x)) (insert x S)"
  by (auto simp: stored_def dest: hash_good_onD)

lemma tree_flush_hash: "fst (tree_flush sha n st) = node_hash sha n"
  by (cases n) (auto simp: Let_def split: prod.splits)

lemma tree_flush_stored:
  "in_memory n \<Longrightarrow> stored sha st S \<Longrightarrow> hash_good_on sha (S \<union> node_preimages sha n) \<Longrightarrow>
   stored sha (snd (tree_flush sha n st)) (S \<union> node_preimages sha n)"
proof (induction n arbitrary: st S)
  case (LeafNode k v)
  then show ?case
    using stored_upd [of sha st S "0 # hash_bytes k @ v"] by (simp add: Let_def del: fun_upd_apply)
next
  case (BranchNode l r)
  let ?L = "node_preimages sha l" and ?R = "node_preimages sha r"
    and ?x = "1 # hash_bytes (node_hash sha l) @ hash_bytes (node_hash sha r)"
  let ?st = "snd (tree_flush sha l st)"
  have "stored sha ?st (S \<union> ?L)"
    using BranchNode by (auto intro: hash_good_on_mono)
  then have "stored sha (snd (tree_flush sha r ?st)) (S \<union> ?L \<union> ?R)"
    using BranchNode.IH(2) [of ?st "S \<union> ?L"] BranchNode.prems
    by (auto intro: hash_good_on_mono)
  then show ?case
    using stored_upd [of sha _ "S \<union> ?L \<union> ?R" ?x] BranchNode.prems(3)
    by (simp add: case_prod_beta Let_def Un_assoc del: fun_upd_apply)
qed auto

lemma deserialize_leaf:
  assumes "37 + length v < 2 ^ 32"
  shows "deserializeNode (serializeNode sha (LeafNode k v)) = Inr (LeafNode k v)"
proof -
  have u: "unat (of_nat (length v) :: uint32) = length v"
    using assms by (simp add: unat_of_nat)
  have "\<not> 37 + of_nat (length v) < (37 :: uint32)"
    using assms by (simp add: add_overflow_iff u)
  then show ?thesis by (simp add: deserializeNode_def u)
qed

lemma deserialize_branch:
  "deserializeNode (1 # hash_bytes h @ hash_bytes g) = Inr (BranchNode (child_ref h) (child_ref g))"
  by (simp add: deserializeNode_def)

lemma stored_loads:
  "in_memory n \<Longrightarrow> node_sizes_ok n \<Longrightarrow> stored sha st (node_preimages sha n) \<Longrightarrow>
   hash_good_on sha (node_preimages sha n) \<Longrightarrow> loads sha st (child_ref (node_hash sha n)) n"
proof (induction n)
  case EmptyNode
  then show ?case by (simp add: child_ref_def loads_empty)
next
  case (LeafNode k v)
  then have "resolve st (node_hash sha (LeafNode k v)) = Inr (LeafNode k v)"
    using deserialize_leaf [of v sha k] by (simp add: resolve_def stored_def)
  moreover have "node_hash sha (LeafNode k v) \<noteq> 0"
    using LeafNode by (simp add: hash_good_on_def)
  ultimately show ?case
    by (simp add: child_ref_def) (metis loads_hash loads_leaf node_hash.simps(2) append_Cons append_Nil)
next
  case (BranchNode l r)
  let ?h = "node_hash sha (BranchNode l r)"
    and ?n = "BranchNode (child_ref (node_hash sha l)) (child_ref (node_hash sha r))"
  have "loads sha st ?n (BranchNode l r)"
    using BranchNode by (auto intro!: loads_branch intro: hash_good_on_mono simp: stored_def)
  moreover have "node_hash sha ?n = ?h"
    by (simp add: child_ref_def)
  moreover have "resolve st ?h = Inr ?n"
    using BranchNode.prems by (simp add: resolve_def stored_def deserialize_branch)
  moreover have "?h \<noteq> 0"
    using BranchNode.prems by (simp add: hash_good_on_def)
  ultimately show ?case
    by (simp add: child_ref_def del: node_hash.simps) (rule loads_hash)
qed auto

lemma flush_load:
  assumes mem: "tree_mem t" and good: "hash_good_on sha (node_preimages sha (t_root t))"
    and sz: "node_sizes_ok (t_root t)"
  shows "loads sha (t_store (tree_Flush sha t))
           (t_root (LoadRoot (tree_Flush sha t) (tree_Root sha t))) (t_root t)"
proof -
  have im: "in_memory (t_root t)"
    using mem by (auto simp: tree_mem_def intro: tree_wf_in_memory)
  have "stored sha (t_store (tree_Flush sha t)) (node_preimages sha (t_root t))"
    using tree_flush_stored [OF im, of sha "t_store t" "{}"] good
    by (simp add: tree_Flush_def stored_def)
  then show ?thesis
    using stored_loads [OF im sz _ good]
    by (fastforce simp: LoadRoot_def child_ref_def tree_Root_def split: if_splits)
qed

text \<open>C10: flushing an in-memory tree and loading its root from the store gives a tree with the same
  lookups and the same root, provided the hash function has no collision and no zero among the
  nodes of this tree.\<close>

theorem flush_load_roundtrip:
  assumes "tree_mem t" and "hash_good_on sha (node_preimages sha (t_root t))"
    and "node_sizes_ok (t_root t)"
    and "t' = LoadRoot (NewTree (t_store (tree_Flush sha t))) (tree_Root sha t)"
  shows "tree_look t' = tree_look t \<and> tree_Root sha t' = tree_Root sha t \<and> tree_ok sha t'"
proof -
  have l: "loads sha (t_store t') (t_root t') (t_root t)"
    using flush_load [OF assms(1-3)] unfolding assms(4) by (simp add: LoadRoot_def NewTree_def split: if_splits)
  moreover have wf: "tree_wf (t_root t) 0 UNIV"
    using assms(1) by (simp add: tree_mem_def)
  ultimately have "tree_look t' = tree_look t"
    using assms(1) by (simp add: tree_look_loads tree_mem_look)
  moreover have "tree_Root sha t' = tree_Root sha t"
    using loads_same_hash [OF l] by (simp add: tree_Root_def)
  ultimately show ?thesis using l wf by (auto simp: tree_ok_def)
qed

text \<open>A two-leaf tree whose hash counts bytes: distinct nodes have distinct lengths.\<close>

definition two_leaves :: tree where
  "two_leaves = \<lparr>t_root = BranchNode (LeafNode 1 [7]) (LeafNode (2 ^ 255) [8, 9]), t_store = Map.empty\<rparr>"

abbreviation len_hash :: "bytes \<Rightarrow> hash256" where
  "len_hash \<equiv> \<lambda>bs. of_nat (length bs)"

lemma two_leaves_bits: "getBit 1 0 = 0" "getBit (2 ^ 255) 0 \<noteq> 0"
  by (simp_all add: getBit_zero_iff bit_simps)

lemma two_leaf_mem:
  assumes "getBit k1 0 = 0" and "getBit k2 0 \<noteq> 0"
  shows "tree_mem \<lparr>t_root = BranchNode (LeafNode k1 v1) (LeafNode k2 v2), t_store = st\<rparr>"
proof -
  have "k1 \<noteq> k2" using assms by auto
  moreover have "{k1, k2} \<subseteq> dom (content (BranchNode (LeafNode k1 v1) (LeafNode k2 v2)))" by simp
  ultimately have "canonical (BranchNode (LeafNode k1 v1) (LeafNode k2 v2))"
    unfolding canonical.simps by blast
  then show ?thesis using assms by (simp add: tree_mem_def del: canonical.simps)
qed

lemma two_leaves_mem: "tree_mem two_leaves"
  unfolding two_leaves_def by (rule two_leaf_mem [OF two_leaves_bits])

lemma two_leaves_good: "hash_good_on len_hash (node_preimages len_hash (t_root two_leaves))"
  by (simp add: two_leaves_def hash_good_on_def)

theorem flush_load_roundtrip_witness:
  "tree_look (LoadRoot (NewTree (t_store (tree_Flush len_hash two_leaves)))
     (tree_Root len_hash two_leaves)) = tree_look two_leaves"
  using flush_load_roundtrip [OF two_leaves_mem two_leaves_good _ refl]
  by (simp add: two_leaves_def)

text \<open>Deleting a key from a tree that was loaded from the store does not collapse the branch
  above an unresolved leaf: with the same content, the same deletion gives one root on the tree
  kept in memory and another on the tree loaded from its root.\<close>

theorem lazy_delete_changes_root:
  assumes k: "getBit k1 0 = 0" "getBit k2 0 \<noteq> 0"
    and t: "t = \<lparr>t_root = BranchNode (LeafNode k1 v1) (LeafNode k2 v2), t_store = st\<rparr>"
    and good: "hash_good_on sha (insert ([1] @ hash_bytes 0 @ hash_bytes (sha ([0] @ hash_bytes k2 @ v2)))
                 (node_preimages sha (t_root t)))"
    and sz: "node_sizes_ok (t_root t)"
    and t': "t' = LoadRoot (tree_Flush sha t) (tree_Root sha t)"
  shows "tree_look t' = tree_look t \<and> tree_Root sha t' = tree_Root sha t \<and>
    tree_look (tree_del t' k1) = tree_look (tree_del t k1) \<and>
    tree_Root sha (tree_del t' k1) \<noteq> tree_Root sha (tree_del t k1)"
proof -
  let ?l1 = "LeafNode k1 v1" and ?l2 = "LeafNode k2 v2"
  let ?S = "t_store (tree_Flush sha t)"
  have mem: "tree_mem t" unfolding t by (rule two_leaf_mem [OF k])
  have good': "hash_good_on sha (node_preimages sha (t_root t))"
    using good by (rule hash_good_on_mono) auto
  have ld: "loads sha ?S (t_root t') (t_root t)"
    unfolding t' by (rule flush_load [OF mem good' sz])
  have st': "t_store t' = ?S" by (simp add: t' LoadRoot_def)
  have wf: "tree_wf (t_root t) 0 UNIV" using mem by (simp add: tree_mem_def)
  have look: "tree_look t' = tree_look t"
    using tree_look_loads [of sha t' "t_root t"] ld wf mem by (simp add: st' tree_mem_look)
  have root: "tree_Root sha t' = tree_Root sha t"
    using loads_same_hash [OF ld] by (simp add: tree_Root_def)
  have "tree_ok sha t'" using ld wf by (auto simp: tree_ok_def st')
  moreover have "tree_ok sha t" by (rule tree_mem_ok [OF mem])
  ultimately have look2: "tree_look (tree_del t' k1) = tree_look (tree_del t k1)"
    by (simp add: merkle_trie.look_del look)
  have nz: "node_hash sha ?l1 \<noteq> 0" "node_hash sha ?l2 \<noteq> 0" "node_hash sha (t_root t) \<noteq> 0"
    using good by (auto simp: hash_good_on_def t)
  have sto: "stored sha ?S (node_preimages sha (t_root t))"
    using tree_flush_stored [of "t_root t" sha st "{}"] good' by (simp add: tree_Flush_def stored_def t)
  then have res: "resolve ?S (node_hash sha (t_root t)) =
      Inr (BranchNode (HashNode (node_hash sha ?l1)) (HashNode (node_hash sha ?l2)))"
    and res1: "resolve ?S (node_hash sha ?l1) = Inr ?l1"
    using nz deserialize_leaf [of v1 sha k1] sz
    by (simp_all add: resolve_def stored_def t deserialize_branch child_ref_def)
  have "tree_delete ?S (t_root t') k1 0 = Inr (BranchNode EmptyNode (HashNode (node_hash sha ?l2)))"
    using res res1 nz k by (simp add: t' LoadRoot_def tree_Root_def collapse_def isEmptyNode_def)
  then have r': "tree_Root sha (tree_del t' k1) = sha ([1] @ hash_bytes 0 @ hash_bytes (node_hash sha ?l2))"
    by (simp add: tree_del_def tree_Delete_def tree_Root_def st')
  have "tree_Root sha (tree_del t k1) = node_hash sha ?l2"
    using k by (simp add: tree_del_def tree_Delete_def tree_Root_def t collapse_def isEmptyNode_def)
  then have "tree_Root sha (tree_del t' k1) \<noteq> tree_Root sha (tree_del t k1)"
    unfolding r' using hash_good_onD [OF good, of "[1] @ hash_bytes 0 @ hash_bytes (node_hash sha ?l2)"
      "[0] @ hash_bytes k2 @ v2"] by (auto simp: t)
  with look root look2 show ?thesis by simp
qed

text \<open>The byte count again, with the one-sided branch told apart from the full one.\<close>

definition side_hash :: "bytes \<Rightarrow> hash256" where
  "side_hash bs = (if slice 1 32 bs = hash_bytes 0 then 3 else of_nat (length bs))"

lemma side_hash_pre:
  "side_hash (b # hash_bytes h @ xs) = (if h = 0 then 3 else of_nat (33 + length xs))"
  by (simp add: side_hash_def hash_bytes_inject)

theorem lazy_delete_changes_root_witness:
  "tree_Root side_hash (tree_del (LoadRoot (tree_Flush side_hash two_leaves) (tree_Root side_hash two_leaves)) 1)
   \<noteq> tree_Root side_hash (tree_del two_leaves 1)"
proof -
  have "hash_good_on side_hash
     (insert ([1] @ hash_bytes 0 @ hash_bytes (side_hash ([0] @ hash_bytes (2 ^ 255) @ [8, 9])))
       (node_preimages side_hash (t_root two_leaves)))"
    by (simp add: two_leaves_def hash_good_on_def side_hash_pre)
  from lazy_delete_changes_root [OF two_leaves_bits two_leaves_def this _ refl]
  show ?thesis by (simp add: two_leaves_def)
qed

section \<open>Inclusion proofs\<close>

lemma prove_verifies:
  "loads sha st n t \<Longrightarrow> tree_wf t d P \<Longrightarrow> k \<in> P \<Longrightarrow> content t k = Some v \<Longrightarrow>
   \<exists>ss. tree_prove sha st n k d pf = Inr (pf\<lparr>pf_Value := Some v, pf_Siblings := pf_Siblings pf @ ss\<rparr>) \<and>
        verify_walk sha k d ss (sha ([0] @ hash_bytes k @ v)) = Inr (node_hash sha n)"
proof (induction arbitrary: d P pf rule: loads.induct)
  case (loads_leaf k0 v0)
  then show ?case by (auto intro!: exI [of _ "[]"] split: if_splits)
next
  case (loads_branch a l b r)
  show ?case
  proof (cases "getBit k d = 0")
    case True
    then have "content r k = None"
      using loads_branch.prems content_dom [of r "Suc d" "side1 d P" k] by (cases "content r k") auto
    then obtain ss where "tree_prove sha st a k (Suc d) (pf\<lparr>pf_Siblings := pf_Siblings pf @ [node_hash sha b]\<rparr>) =
          Inr (pf\<lparr>pf_Value := Some v, pf_Siblings := (pf_Siblings pf @ [node_hash sha b]) @ ss\<rparr>)"
        "verify_walk sha k (Suc d) ss (sha ([0] @ hash_bytes k @ v)) = Inr (node_hash sha a)"
      using loads_branch.IH(1) [of "Suc d" "side0 d P" "pf\<lparr>pf_Siblings := pf_Siblings pf @ [node_hash sha b]\<rparr>"]
        loads_branch.prems True by (auto simp: map_add_Some_iff)
    then show ?thesis
      using True loads_branch.prems
      by (intro exI [of _ "node_hash sha b # ss"]) (simp add: branch_step_def)
  next
    case False
    then have "content l k = None"
      using loads_branch.prems content_dom [of l "Suc d" "side0 d P" k] by (cases "content l k") auto
    then obtain ss where "tree_prove sha st b k (Suc d) (pf\<lparr>pf_Siblings := pf_Siblings pf @ [node_hash sha a]\<rparr>) =
          Inr (pf\<lparr>pf_Value := Some v, pf_Siblings := (pf_Siblings pf @ [node_hash sha a]) @ ss\<rparr>)"
        "verify_walk sha k (Suc d) ss (sha ([0] @ hash_bytes k @ v)) = Inr (node_hash sha b)"
      using loads_branch.IH(2) [of "Suc d" "side1 d P" "pf\<lparr>pf_Siblings := pf_Siblings pf @ [node_hash sha a]\<rparr>"]
        loads_branch.prems False by (auto simp: map_add_Some_iff)
    then show ?thesis
      using False loads_branch.prems
      by (intro exI [of _ "node_hash sha a # ss"]) (simp add: branch_step_def)
  qed
next
  case (loads_hash h n t)
  then show ?case by fastforce
qed simp

text \<open>A proof produced for a key the tree holds carries its value and verifies against the root,
  also on a tree that is only partly loaded.\<close>

theorem proof_completeness:
  assumes "tree_ok sha t" and "tree_look t k = Some v"
  shows "\<exists>pf. Prove sha t k = Inr pf \<and> pf_Key pf = k \<and> pf_Value pf = Some v \<and>
    VerifyProof sha (tree_Root sha t) pf = Inr True"
proof -
  obtain n where n: "loads sha (t_store t) (t_root t) n" "tree_wf n 0 UNIV"
    using assms(1) by (auto simp: tree_ok_def)
  then have "content n k = Some v"
    using assms(2) by (simp add: tree_look_loads)
  from prove_verifies [OF n UNIV_I this, of "\<lparr>pf_Key = k, pf_Value = None, pf_Siblings = []\<rparr>"]
  show ?thesis by (auto simp: Prove_def VerifyProof_def leaf_step_def tree_Root_def)
qed

theorem proof_completeness_witness:
  "\<exists>pf. Prove len_hash two_leaves 1 = Inr pf \<and> pf_Key pf = 1 \<and> pf_Value pf = Some [7] \<and>
    VerifyProof len_hash (tree_Root len_hash two_leaves) pf = Inr True"
proof (rule proof_completeness)
  show "tree_ok len_hash two_leaves" by (rule tree_mem_ok [OF two_leaves_mem])
  show "tree_look two_leaves 1 = Some [7]"
    unfolding tree_mem_look [OF two_leaves_mem] by (simp add: two_leaves_def)
qed

text \<open>The inputs a verifier hashes while it walks up a proof.\<close>

definition walk_input :: "hash256 \<Rightarrow> nat \<Rightarrow> hash256 \<Rightarrow> hash256 \<Rightarrow> bytes" where
  "walk_input key depth sibling current =
     (if getBit key depth = 0 then [1] @ hash_bytes current @ hash_bytes sibling
      else [1] @ hash_bytes sibling @ hash_bytes current)"

fun walk_inputs :: "(bytes \<Rightarrow> hash256) \<Rightarrow> hash256 \<Rightarrow> nat \<Rightarrow> hash256 list \<Rightarrow> hash256 \<Rightarrow> bytes set" where
  "walk_inputs sha key depth [] current = {}"
| "walk_inputs sha key depth (s # ss) current =
     (case verify_walk sha key (depth + 1) ss current of
        Inl e \<Rightarrow> {} | Inr c \<Rightarrow> {walk_input key depth s c}) \<union> walk_inputs sha key (depth + 1) ss current"

definition proof_inputs :: "(bytes \<Rightarrow> hash256) \<Rightarrow> merkle_proof \<Rightarrow> bytes set" where
  "proof_inputs sha pf =
     (case pf_Value pf of None \<Rightarrow> {} | Some v \<Rightarrow> {[0] @ hash_bytes (pf_Key pf) @ v}) \<union>
     walk_inputs sha (pf_Key pf) 0 (pf_Siblings pf) (leaf_step sha pf)"

lemma branch_step_walk: "branch_step sha key d s c = sha (walk_input key d s c)"
  by (simp add: branch_step_def walk_input_def)

lemma hash_good_on_nonzero: "hash_good_on sha S \<Longrightarrow> x \<in> S \<Longrightarrow> sha x \<noteq> 0"
  by (simp add: hash_good_on_def)

lemma walk_input_eq_branch:
  "walk_input k d s c = 1 # hash_bytes a @ hash_bytes b \<longleftrightarrow> (if getBit k d = 0 then a = c \<and> b = s else a = s \<and> b = c)"
  by (auto simp: walk_input_def)

lemma walk_input_ne_leaf: "walk_input k d s c \<noteq> 0 # xs"
  by (auto simp: walk_input_def)

text \<open>A leaf step that meets a node: the node is that leaf, or empty where the proof claims absence.\<close>

lemma leaf_step_sound:
  assumes "leaf_step sha pf = node_hash sha n" and "tree_wf n d P"
    and "hash_good_on sha (node_preimages sha n \<union>
           (case pf_Value pf of None \<Rightarrow> {} | Some v \<Rightarrow> {[0] @ hash_bytes (pf_Key pf) @ v}))"
  shows "content n (pf_Key pf) = pf_Value pf"
proof (cases "pf_Value pf")
  case None
  with assms show ?thesis
    by (cases n) (auto simp: leaf_step_def dest: hash_good_on_nonzero)
next
  case (Some v)
  have S: "sha (0 # hash_bytes (pf_Key pf) @ v) = node_hash sha n"
    using assms(1) Some by (simp add: leaf_step_def)
  have G: "hash_good_on sha (insert (0 # hash_bytes (pf_Key pf) @ v) (node_preimages sha n))"
    using assms(3) Some by simp
  show ?thesis
  proof (cases n)
    case EmptyNode
    then show ?thesis using S hash_good_on_nonzero [OF G] by auto
  next
    case (LeafNode k w)
    then have "0 # hash_bytes (pf_Key pf) @ v = 0 # hash_bytes k @ w"
      using hash_good_onD [OF G, of "0 # hash_bytes (pf_Key pf) @ v" "0 # hash_bytes k @ w"] S by simp
    then show ?thesis using LeafNode Some by simp
  next
    case (BranchNode l r)
    then show ?thesis
      using hash_good_onD [OF G, of "0 # hash_bytes (pf_Key pf) @ v"
        "1 # hash_bytes (node_hash sha l) @ hash_bytes (node_hash sha r)"] S by simp
  qed (use assms(2) in simp)
qed

lemma verify_walk_sound:
  "verify_walk sha (pf_Key pf) d ss (leaf_step sha pf) = Inr (node_hash sha n) \<Longrightarrow>
   tree_wf n d P \<Longrightarrow> pf_Key pf \<in> P \<Longrightarrow>
   hash_good_on sha (node_preimages sha n \<union>
     ((case pf_Value pf of None \<Rightarrow> {} | Some v \<Rightarrow> {[0] @ hash_bytes (pf_Key pf) @ v}) \<union>
      walk_inputs sha (pf_Key pf) d ss (leaf_step sha pf))) \<Longrightarrow>
   content n (pf_Key pf) = pf_Value pf"
proof (induction ss arbitrary: d n P)
  case Nil
  then show ?case using leaf_step_sound [of sha pf n d P] by simp
next
  case (Cons s ss)
  let ?k = "pf_Key pf"
  obtain c where c: "verify_walk sha ?k (Suc d) ss (leaf_step sha pf) = Inr c"
      and top: "sha (walk_input ?k d s c) = node_hash sha n"
    using Cons.prems(1) by (auto simp: branch_step_walk split: sum.splits if_splits)
  have G: "hash_good_on sha (insert (walk_input ?k d s c) (node_preimages sha n))"
    using Cons.prems(4) by (rule hash_good_on_mono) (use c in auto)
  obtain l r where n: "n = BranchNode l r"
    using Cons.prems(2) top hash_good_on_nonzero [OF G, of "walk_input ?k d s c"]
      hash_good_onD [OF G, of "walk_input ?k d s c"] walk_input_ne_leaf [of ?k d s c]
    by (cases n) fastforce+
  have eq: "walk_input ?k d s c = 1 # hash_bytes (node_hash sha l) @ hash_bytes (node_hash sha r)"
    using hash_good_onD [OF G, of "walk_input ?k d s c"] top by (simp add: n)
  show ?case
  proof (cases "getBit ?k d = 0")
    case True
    then have "c = node_hash sha l" using eq by (simp add: walk_input_eq_branch)
    then have "content l ?k = pf_Value pf"
      using Cons.IH [of "Suc d" l "side0 d P"] c True Cons.prems(2-4)
      by (auto simp: n intro: hash_good_on_mono)
    moreover have "content r ?k = None"
      using Cons.prems(2) True content_dom [of r "Suc d" "side1 d P" ?k] by (cases "content r ?k") (auto simp: n)
    ultimately show ?thesis by (simp add: n map_add_def)
  next
    case False
    then have "c = node_hash sha r" using eq by (simp add: walk_input_eq_branch)
    then have "content r ?k = pf_Value pf"
      using Cons.IH [of "Suc d" r "side1 d P"] c False Cons.prems(2-4)
      by (auto simp: n intro: hash_good_on_mono)
    moreover have "content l ?k = None"
      using Cons.prems(2) False content_dom [of l "Suc d" "side0 d P" ?k] by (cases "content l ?k") (auto simp: n)
    ultimately show ?thesis by (auto simp: n map_add_def split: option.splits)
  qed
qed

text \<open>C11: a proof that verifies against the root of a tree states the tree's own entry, the value for
  an inclusion proof and absence for an exclusion proof, unless the hash function collides (or hits
  the reserved zero) among the nodes of the tree and the inputs the verifier hashed.\<close>

theorem proof_soundness:
  assumes "tree_mem t" and "VerifyProof sha (tree_Root sha t) pf = Inr True"
    and "hash_good_on sha (node_preimages sha (t_root t) \<union> proof_inputs sha pf)"
  shows "tree_look t (pf_Key pf) = pf_Value pf"
proof -
  have "verify_walk sha (pf_Key pf) 0 (pf_Siblings pf) (leaf_step sha pf) = Inr (node_hash sha (t_root t))"
    using assms(2) by (simp add: VerifyProof_def tree_Root_def split: sum.splits)
  from verify_walk_sound [OF this, of UNIV] assms(1,3) show ?thesis
    unfolding tree_mem_look [OF assms(1)] by (simp add: proof_inputs_def tree_mem_def)
qed

theorem proof_soundness_witness:
  "tree_look two_leaves 1 = Some [7]"
proof -
  let ?pf = "\<lparr>pf_Key = 1, pf_Value = Some [7], pf_Siblings = [35]\<rparr>"
  have "tree_look two_leaves (pf_Key ?pf) = pf_Value ?pf"
  proof (rule proof_soundness [OF two_leaves_mem])
    show "VerifyProof len_hash (tree_Root len_hash two_leaves) ?pf = Inr True"
      using two_leaves_bits
      by (simp add: VerifyProof_def leaf_step_def branch_step_def tree_Root_def two_leaves_def)
    show "hash_good_on len_hash (node_preimages len_hash (t_root two_leaves) \<union> proof_inputs len_hash ?pf)"
      using two_leaves_bits
      by (auto simp: two_leaves_def hash_good_on_def inj_on_def proof_inputs_def walk_input_def leaf_step_def)
  qed
  then show ?thesis by simp
qed

text \<open>The proof produced for an absent key whose path ends at the leaf of another key is
  rejected by the verifier, although the key is absent: absence is provable only at an empty slot.\<close>

theorem exclusion_at_leaf_rejected:
  assumes "t = \<lparr>t_root = LeafNode k v, t_store = st\<rparr>" and "k' \<noteq> k"
    and "sha ([0] @ hash_bytes k @ v) \<noteq> ZeroHash"
  shows "tree_look t k' = None \<and>
    (\<exists>pf. Prove sha t k' = Inr pf \<and> pf_Value pf = None \<and> VerifyProof sha (tree_Root sha t) pf = Inr False)"
  using assms by (simp add: tree_look_def tree_Get_def Prove_def VerifyProof_def leaf_step_def tree_Root_def)

theorem exclusion_at_leaf_rejected_witness:
  "\<exists>pf. Prove len_hash \<lparr>t_root = LeafNode 4 [1], t_store = Map.empty\<rparr> 5 = Inr pf \<and>
     VerifyProof len_hash (tree_Root len_hash \<lparr>t_root = LeafNode 4 [1], t_store = Map.empty\<rparr>) pf = Inr False"
proof -
  have "(5 :: hash256) \<noteq> 4" "len_hash ([0] @ hash_bytes 4 @ [1]) \<noteq> ZeroHash" by simp_all
  from exclusion_at_leaf_rejected [of _ 4 "[1]" Map.empty 5 len_hash, OF refl this]
  show ?thesis by blast
qed

end
