(* ===== verification/Tyl_Encoding.thy ===== *)
theory Tyl_Encoding
  imports Tyl_Types
begin

text \<open>
  The package \<open>pkg/encoding\<close>: the binary codecs of accounts, transactions, checkpoints and
  deposits, and the L1 envelope. A decoder returns the error of the source or the decoded value;
  \<open>SlicePanic\<close> is the run-time panic of an inverted slice, reachable only on inputs of four
  gigabytes and more, where the 32-bit sums of the source wrap.
\<close>

datatype enc_error = ErrShortBuffer | ErrInvalidData | SlicePanic

section \<open>Codecs\<close>

definition appendUint64 :: "bytes \<Rightarrow> uint64 \<Rightarrow> bytes" where
  "appendUint64 buf v = buf @ be_bytes 8 v"

definition appendUint32 :: "bytes \<Rightarrow> uint32 \<Rightarrow> bytes" where
  "appendUint32 buf v = buf @ be_bytes 4 v"

definition EncodeTx :: "transaction \<Rightarrow> bytes" where
  "EncodeTx tx =
     (let buf = [tx_Version tx];
          buf = appendUint64 buf (tx_Nonce tx);
          buf = buf @ addr_bytes (tx_From tx);
          buf = buf @ addr_bytes (tx_To tx);
          buf = appendUint64 buf (tx_Value tx);
          buf = appendUint64 buf (tx_GasPrice tx);
          buf = appendUint64 buf (tx_GasLimit tx);
          buf = buf @ [tx_Priority tx];
          buf = appendUint32 buf (of_nat (length (tx_Data tx)));
          buf = buf @ tx_Data tx
      in buf @ be_bytes 64 (tx_Signature tx))"

definition maxTxDataSize :: uint32 where
  "maxTxDataSize = 1000000"

definition DecodeTx :: "bytes \<Rightarrow> enc_error + transaction" where
  "DecodeTx data =
     (if length data < 142 then Inl ErrShortBuffer
      else let dataLen = be_word (slice 74 4 data) :: uint32 in
        if dataLen > maxTxDataSize then Inl ErrInvalidData
        else if of_nat (length data - 78) < dataLen + 64 then Inl ErrShortBuffer
        else Inr \<lparr>tx_Version = data ! 0,
                  tx_Nonce = be_word (slice 1 8 data),
                  tx_From = BytesToAddress (slice 9 20 data),
                  tx_To = BytesToAddress (slice 29 20 data),
                  tx_Value = be_word (slice 49 8 data),
                  tx_GasPrice = be_word (slice 57 8 data),
                  tx_GasLimit = be_word (slice 65 8 data),
                  tx_Priority = data ! 73,
                  tx_Data = slice 78 (unat dataLen) data,
                  tx_Signature = be_word (slice (78 + unat dataLen) 64 data)\<rparr>)"

definition EncodeAccount :: "account \<Rightarrow> bytes" where
  "EncodeAccount acct =
     (let buf = appendUint64 [] (acct_Nonce acct);
          buf = appendUint64 buf (acct_Balance acct);
          buf = buf @ hash_bytes (acct_CodeHash acct)
      in buf @ hash_bytes (acct_StorageRoot acct))"

definition DecodeAccount :: "bytes \<Rightarrow> enc_error + account" where
  "DecodeAccount data =
     (if length data < 80 then Inl ErrShortBuffer
      else Inr \<lparr>acct_Nonce = be_word (slice 0 8 data),
                acct_Balance = be_word (slice 8 8 data),
                acct_CodeHash = BytesToHash256 (slice 16 32 data),
                acct_StorageRoot = BytesToHash256 (slice 48 32 data)\<rparr>)"

definition EncodeCheckpoint :: "checkpoint \<Rightarrow> bytes" where
  "EncodeCheckpoint cp =
     (let buf = hash_bytes (cp_StateRoot cp);
          buf = buf @ hash_bytes (cp_PrevChecksum cp);
          buf = buf @ hash_bytes (cp_TxRoot cp);
          buf = appendUint64 buf (cp_GasCollected cp);
          buf = buf @ be_bytes 33 (cp_MinerPubKey cp);
          buf = buf @ be_bytes 32 (cp_MinerNonce cp);
          buf = buf @ hash_bytes (cp_AttestationHash cp)
      in buf @ be_bytes 64 (cp_Signature cp))"

definition DecodeCheckpoint :: "bytes \<Rightarrow> enc_error + checkpoint" where
  "DecodeCheckpoint data =
     (if length data < 265 then Inl ErrShortBuffer
      else Inr \<lparr>cp_StateRoot = BytesToHash256 (slice 0 32 data),
                cp_PrevChecksum = BytesToHash256 (slice 32 32 data),
                cp_TxRoot = BytesToHash256 (slice 64 32 data),
                cp_GasCollected = be_word (slice 96 8 data),
                cp_MinerPubKey = be_word (slice 104 33 data),
                cp_MinerNonce = be_word (slice 137 32 data),
                cp_AttestationHash = BytesToHash256 (slice 169 32 data),
                cp_Signature = be_word (slice 201 64 data)\<rparr>)"

section \<open>Envelopes and deposits\<close>

definition Magic :: bytes where
  "Magic = [84, 89, 76, 1]"

abbreviation EnvelopeTypeTx :: uint8 where "EnvelopeTypeTx \<equiv> 1"
abbreviation EnvelopeTypeCheckpoint :: uint8 where "EnvelopeTypeCheckpoint \<equiv> 2"
abbreviation EnvelopeTypeDeposit :: uint8 where "EnvelopeTypeDeposit \<equiv> 3"

record envelope =
  env_Magic :: bytes
  env_Type :: uint8
  env_Payload :: bytes

definition EncodeEnvelope :: "uint8 \<Rightarrow> bytes \<Rightarrow> bytes" where
  "EncodeEnvelope typ payload =
     (let buf = Magic;
          buf = buf @ [typ];
          buf = appendUint32 buf (of_nat (length payload))
      in buf @ payload)"

definition readUint32 :: "bytes \<Rightarrow> uint32" where
  "readUint32 b =
     push_bit 24 (ucast (b ! 0)) OR push_bit 16 (ucast (b ! 1)) OR push_bit 8 (ucast (b ! 2)) OR
     ucast (b ! 3)"

definition DecodeEnvelope :: "bytes \<Rightarrow> enc_error + envelope" where
  "DecodeEnvelope data =
     (if length data < 9 then Inl ErrShortBuffer
      else if take 4 data \<noteq> Magic then Inl ErrInvalidData
      else let payloadLen = readUint32 (slice 5 4 data) in
        if of_nat (length data - 9) < payloadLen then Inl ErrShortBuffer
        else if 9 + payloadLen < 9 then Inl SlicePanic
        else Inr \<lparr>env_Magic = take 4 data, env_Type = data ! 4,
                  env_Payload = slice 9 (unat payloadLen) data\<rparr>)"

definition EncodeDeposit :: "address \<Rightarrow> uint64 \<Rightarrow> bytes" where
  "EncodeDeposit recipient amount = addr_bytes recipient @ be_bytes 8 amount"

definition DecodeDeposit :: "bytes \<Rightarrow> enc_error + address \<times> uint64" where
  "DecodeDeposit data =
     (if length data < 28 then Inl ErrShortBuffer
      else Inr (BytesToAddress (slice 0 20 data), be_word (slice 20 8 data)))"

lemma readUint32_eq: "length b = 4 \<Longrightarrow> readUint32 b = be_word b"
proof -
  assume "length b = 4"
  then obtain p q r s where b: "b = [p, q, r, s]"
    by (auto simp: length_Suc_conv numeral_eq_Suc)
  show ?thesis
    by (simp add: b readUint32_def be_word_def push_bit_or push_bit_push_bit or.assoc)
qed

section \<open>The codec interface\<close>

text \<open>
  What a decoder owes its encoder: it reads back what was written, whatever bytes follow (a payload
  is cut out of a longer buffer), and whatever it accepts starts with the encoding of the value it
  returns, so an accepted input has no second reading. The length bound is where the 32-bit length
  arithmetic of the source stays exact.
\<close>

locale codec =
  fixes enc :: "'a \<Rightarrow> bytes" and dec :: "bytes \<Rightarrow> enc_error + 'a" and ok :: "'a \<Rightarrow> bool"
  assumes dec_enc: "ok x \<Longrightarrow> length (enc x @ rest) < 2 ^ 32 \<Longrightarrow> dec (enc x @ rest) = Inr x"
    and dec_sound: "dec d = Inr x \<Longrightarrow> \<exists>rest. d = enc x @ rest"
    and dec_ok: "dec d = Inr x \<Longrightarrow> ok x"
begin

lemma roundtrip: "ok x \<Longrightarrow> length (enc x) < 2 ^ 32 \<Longrightarrow> dec (enc x) = Inr x"
  using dec_enc [of x "[]"] by simp

text \<open>No encoding is a proper prefix of another.\<close>

lemma prefix_free:
  assumes "ok x" and "ok y" and "enc x @ r = enc y @ s" and "length (enc x @ r) < 2 ^ 32"
  shows "x = y \<and> r = s"
proof -
  from assms have "dec (enc x @ r) = Inr x" and "dec (enc y @ s) = Inr y"
    by (metis dec_enc)+
  with assms(3) have "x = y" by simp
  with assms(3) show ?thesis by simp
qed

text \<open>An accepted input is the encoding of its value, byte for byte, when nothing follows.\<close>

lemma canonical: "dec d = Inr x \<Longrightarrow> length d \<le> length (enc x) \<Longrightarrow> d = enc x"
  by (auto dest: dec_sound)

end

lemmas [codec_simps] = Let_def appendUint64_def appendUint32_def

definition tx_ok :: "transaction \<Rightarrow> bool" where
  "tx_ok tx \<longleftrightarrow> length (tx_Data tx) \<le> 1000000"

lemma length_EncodeTx [simp]: "length (EncodeTx tx) = 142 + length (tx_Data tx)"
  by (simp add: EncodeTx_def codec_simps)

lemma length_EncodeAccount [simp]: "length (EncodeAccount a) = 80"
  by (simp add: EncodeAccount_def codec_simps)

lemma length_EncodeCheckpoint [simp]: "length (EncodeCheckpoint c) = 265"
  by (simp add: EncodeCheckpoint_def codec_simps)

lemma length_EncodeDeposit [simp]: "length (EncodeDeposit a v) = 28"
  by (simp add: EncodeDeposit_def)

lemma length_EncodeEnvelope [simp]: "length (EncodeEnvelope t p) = 9 + length p"
  by (simp add: EncodeEnvelope_def Magic_def codec_simps)

section \<open>The codecs meet it\<close>

lemma DecodeAccount_EncodeAccount: "DecodeAccount (EncodeAccount a @ rest) = Inr a"
  by (simp add: DecodeAccount_def EncodeAccount_def codec_simps)

lemma DecodeAccount_sound:
  assumes "DecodeAccount d = Inr a"
  shows "d = EncodeAccount a @ drop 80 d"
  using assms by (auto simp: DecodeAccount_def EncodeAccount_def codec_simps split: if_splits)

interpretation account_codec: codec EncodeAccount DecodeAccount "\<lambda>_. True"
  by unfold_locales (auto simp: DecodeAccount_EncodeAccount dest: DecodeAccount_sound)

lemma DecodeCheckpoint_EncodeCheckpoint: "DecodeCheckpoint (EncodeCheckpoint c @ rest) = Inr c"
  by (simp add: DecodeCheckpoint_def EncodeCheckpoint_def codec_simps)

lemma DecodeCheckpoint_sound:
  assumes "DecodeCheckpoint d = Inr c"
  shows "d = EncodeCheckpoint c @ drop 265 d"
  using assms by (auto simp: DecodeCheckpoint_def EncodeCheckpoint_def codec_simps split: if_splits)

interpretation checkpoint_codec: codec EncodeCheckpoint DecodeCheckpoint "\<lambda>_. True"
  by unfold_locales (auto simp: DecodeCheckpoint_EncodeCheckpoint dest: DecodeCheckpoint_sound)

lemma DecodeDeposit_EncodeDeposit: "DecodeDeposit (EncodeDeposit a v @ rest) = Inr (a, v)"
  by (simp add: DecodeDeposit_def EncodeDeposit_def)

lemma DecodeDeposit_sound:
  assumes "DecodeDeposit d = Inr (a, v)"
  shows "d = EncodeDeposit a v @ drop 28 d"
  using assms by (auto simp: DecodeDeposit_def EncodeDeposit_def split: if_splits)

interpretation deposit_codec: codec "\<lambda>(a, v). EncodeDeposit a v" DecodeDeposit "\<lambda>_. True"
  by unfold_locales (auto simp: DecodeDeposit_EncodeDeposit dest: DecodeDeposit_sound)

text \<open>The length test of \<open>DecodeTx\<close> on a buffer below four gigabytes.\<close>

lemma tx_len_check:
  assumes "n \<le> 1000000" and "m < 2 ^ 32"
  shows "(of_nat m :: uint32) < of_nat n + 64 \<longleftrightarrow> m < n + 64"
proof -
  have "unat (of_nat n + 64 :: uint32) = n + 64"
    using assms by (subst unat_add_no_wrap) (simp_all add: unat_of_nat)
  then show ?thesis
    using assms by (simp add: word_less_nat_alt unat_of_nat)
qed

lemma DecodeTx_EncodeTx:
  assumes ok: "tx_ok tx" and len: "length (EncodeTx tx @ rest) < 2 ^ 32"
  shows "DecodeTx (EncodeTx tx @ rest) = Inr tx"
proof -
  let ?n = "length (tx_Data tx)"
  from ok have n: "?n \<le> 1000000" by (simp add: tx_ok_def)
  then have u: "unat (of_nat ?n :: uint32) = ?n" by (simp add: unat_of_nat)
  have cap: "\<not> maxTxDataSize < of_nat ?n"
    using n by (simp add: maxTxDataSize_def word_less_nat_alt u)
  have chk: "\<not> (of_nat (64 + (?n + length rest)) :: uint32) < of_nat ?n + 64"
    using n len by (subst tx_len_check) auto
  show ?thesis
    using cap chk by (simp add: DecodeTx_def EncodeTx_def codec_simps u add.assoc nth_append
        del: of_nat_add)
qed

lemma DecodeTx_sound:
  assumes "DecodeTx d = Inr tx"
  shows "d = EncodeTx tx @ drop (142 + length (tx_Data tx)) d" and "tx_ok tx"
proof -
  let ?n = "be_word (slice 74 4 d) :: uint32"
  from assms have l: "142 \<le> length d" and cap: "?n \<le> maxTxDataSize"
    and chk: "?n + 64 \<le> of_nat (length d - 78)"
    by (auto simp: DecodeTx_def Let_def not_less split: if_splits)
  from cap have n: "unat ?n \<le> 1000000"
    by (simp add: maxTxDataSize_def word_le_nat_alt)
  then have "unat (?n + 64) = unat ?n + 64"
    by (subst unat_add_no_wrap) simp_all
  with chk have "unat ?n + 64 \<le> length d - 78"
    using unat_of_nat_le [of "length d - 78", where 'a = 32] by (simp add: word_le_nat_alt)
  with l have long: "142 + unat ?n \<le> length d" by simp
  from assms l cap chk
  have tx: "tx = \<lparr>tx_Version = d ! 0, tx_Nonce = be_word (slice 1 8 d),
                  tx_From = BytesToAddress (slice 9 20 d), tx_To = BytesToAddress (slice 29 20 d),
                  tx_Value = be_word (slice 49 8 d), tx_GasPrice = be_word (slice 57 8 d),
                  tx_GasLimit = be_word (slice 65 8 d), tx_Priority = d ! 73,
                  tx_Data = slice 78 (unat ?n) d,
                  tx_Signature = be_word (slice (78 + unat ?n) 64 d)\<rparr>"
    by (simp add: DecodeTx_def Let_def not_less [symmetric])
  then have len: "length (tx_Data tx) = unat ?n" using long by simp
  then show "tx_ok tx" using n by (simp add: tx_ok_def)
  have "be_bytes 4 (of_nat (unat ?n) :: uint32) = slice 74 4 d"
    using l by simp
  moreover have "d ! 0 # drop (Suc 0) d = d"
    using l by (cases d) auto
  ultimately show "d = EncodeTx tx @ drop (142 + length (tx_Data tx)) d"
    using l long unfolding len by (simp add: EncodeTx_def codec_simps tx)
qed

interpretation tx_codec: codec EncodeTx DecodeTx tx_ok
  by unfold_locales (auto intro: DecodeTx_EncodeTx DecodeTx_sound dest: DecodeTx_sound(1))

definition env_ok :: "envelope \<Rightarrow> bool" where
  "env_ok e \<longleftrightarrow> env_Magic e = Magic \<and> 9 + length (env_Payload e) < 2 ^ 32"

abbreviation env_bytes :: "envelope \<Rightarrow> bytes" where
  "env_bytes e \<equiv> EncodeEnvelope (env_Type e) (env_Payload e)"

lemma length_Magic [simp]: "length Magic = 4"
  by (simp add: Magic_def)

lemma DecodeEnvelope_EncodeEnvelope:
  assumes ok: "env_ok e" and len: "length (env_bytes e @ rest) < 2 ^ 32"
  shows "DecodeEnvelope (env_bytes e @ rest) = Inr e"
proof -
  let ?n = "length (env_Payload e)"
  from ok have n: "9 + ?n < 2 ^ 32" and m: "env_Magic e = Magic" by (simp_all add: env_ok_def)
  then have u: "unat (of_nat ?n :: uint32) = ?n" by (simp add: unat_of_nat)
  have "unat (9 + of_nat ?n :: uint32) = 9 + ?n"
    using n u by (subst unat_add_no_wrap) simp_all
  then have pan: "\<not> 9 + of_nat ?n < (9 :: uint32)"
    by (simp add: word_less_nat_alt)
  have chk: "\<not> (of_nat (?n + length rest) :: uint32) < of_nat ?n"
    using len by (simp add: word_less_nat_alt unat_of_nat del: of_nat_add)
  show ?thesis
    using pan chk m
    by (simp add: DecodeEnvelope_def EncodeEnvelope_def codec_simps readUint32_eq u nth_append
        del: of_nat_add)
qed

lemma DecodeEnvelope_sound:
  assumes "DecodeEnvelope d = Inr e"
  shows "d = env_bytes e @ drop (9 + length (env_Payload e)) d" and "env_ok e"
proof -
  let ?n = "be_word (slice 5 4 d) :: uint32"
  from assms have l: "9 \<le> length d" and mg: "take 4 d = Magic"
    and chk: "?n \<le> of_nat (length d - 9)" and pan: "\<not> 9 + ?n < 9"
    by (auto simp: DecodeEnvelope_def Let_def readUint32_eq not_less split: if_splits)
  from chk have "unat ?n \<le> length d - 9"
    using unat_of_nat_le [of "length d - 9", where 'a = 32] by (simp add: word_le_nat_alt)
  with l have long: "9 + unat ?n \<le> length d" by simp
  from assms l mg chk pan have e: "e = \<lparr>env_Magic = take 4 d, env_Type = d ! 4,
                  env_Payload = slice 9 (unat ?n) d\<rparr>"
    by (simp add: DecodeEnvelope_def Let_def readUint32_eq not_less [symmetric])
  then have len: "length (env_Payload e) = unat ?n" using long by simp
  have "9 + unat ?n < 2 ^ 32" using pan by (simp add: add_overflow_iff)
  with e mg len show "env_ok e" by (simp add: env_ok_def)
  have "be_bytes 4 (of_nat (unat ?n) :: uint32) = slice 5 4 d"
    using l by simp
  moreover have "d = Magic @ drop 4 d" using mg by (metis append_take_drop_id)
  ultimately show "d = env_bytes e @ drop (9 + length (env_Payload e)) d"
    using l long unfolding len by (simp add: EncodeEnvelope_def codec_simps e)
qed

interpretation envelope_codec: codec env_bytes DecodeEnvelope env_ok
  by unfold_locales
    (auto intro: DecodeEnvelope_EncodeEnvelope DecodeEnvelope_sound
      dest: DecodeEnvelope_sound(1))

text \<open>The inverted slice is out of reach below four gigabytes.\<close>

lemma DecodeEnvelope_no_panic:
  assumes "length d < 2 ^ 32"
  shows "DecodeEnvelope d \<noteq> Inl SlicePanic"
proof
  let ?n = "be_word (slice 5 4 d) :: uint32"
  assume "DecodeEnvelope d = Inl SlicePanic"
  then have l: "9 \<le> length d" and chk: "?n \<le> of_nat (length d - 9)" and "9 + ?n < 9"
    by (auto simp: DecodeEnvelope_def Let_def readUint32_eq not_less split: if_splits)
  then have "2 ^ 32 \<le> 9 + unat ?n" by (simp add: add_overflow_iff)
  moreover have "unat ?n \<le> length d - 9"
    using chk unat_of_nat_le [of "length d - 9", where 'a = 32] by (simp add: word_le_nat_alt)
  ultimately show False using assms l by simp
qed

section \<open>What the decoders accept\<close>

text \<open>C17: the transaction decoder accepts exactly the encodings of transactions with at most a million
  bytes of data, followed by anything, and returns the transaction encoded: encoding and decoding are
  inverse to each other and no two transactions share an encoding.\<close>

theorem tx_wire_format:
  assumes "length d < 2 ^ 32"
  shows "DecodeTx d = Inr tx \<longleftrightarrow> length (tx_Data tx) \<le> 1000000 \<and> (\<exists>rest. d = EncodeTx tx @ rest)"
  using DecodeTx_EncodeTx [of tx] DecodeTx_sound [of d tx] assms by (auto simp: tx_ok_def)

definition wire_tx :: transaction where
  "wire_tx = \<lparr>tx_Version = 1, tx_Nonce = 7, tx_From = 5, tx_To = 6, tx_Value = 10, tx_GasPrice = 2,
     tx_GasLimit = 300, tx_Priority = 0, tx_Data = [1, 2, 3], tx_Signature = 9\<rparr>"

theorem tx_wire_format_witness: "DecodeTx (EncodeTx wire_tx @ [255]) = Inr wire_tx"
  using tx_wire_format [of "EncodeTx wire_tx @ [255]" wire_tx] by (simp add: wire_tx_def)

text \<open>On a buffer below four gigabytes the envelope decoder never slices out of bounds; it accepts
  exactly an encoded envelope followed by anything, and returns that envelope.\<close>

theorem envelope_wire_format:
  assumes "length d < 2 ^ 32"
  shows "DecodeEnvelope d \<noteq> Inl SlicePanic \<and>
    (DecodeEnvelope d = Inr e \<longleftrightarrow>
       env_Magic e = Magic \<and> (\<exists>rest. d = EncodeEnvelope (env_Type e) (env_Payload e) @ rest))"
  using DecodeEnvelope_no_panic [OF assms] DecodeEnvelope_EncodeEnvelope [of e] DecodeEnvelope_sound [of d e] assms
  by (auto simp: env_ok_def)

theorem envelope_wire_format_witness:
  "DecodeEnvelope (EncodeEnvelope 3 [1, 2] @ [0]) = Inr \<lparr>env_Magic = Magic, env_Type = 3, env_Payload = [1, 2]\<rparr>"
  using envelope_wire_format [of "EncodeEnvelope 3 [1, 2] @ [0]" "\<lparr>env_Magic = Magic, env_Type = 3, env_Payload = [1, 2]\<rparr>"]
  by simp

end
