(* ===== verification/Tyl_VM.thy ===== *)
theory Tyl_VM
  imports Tyl_Types
begin

text \<open>
  The package \<open>internal/vm\<close>: the opcodes and their gas costs, the operand stack and the
  interpreter loop of \<open>VM.Execute\<close>.

  The stack of the source grows at the end of a slice; here it is a list whose head is the top. The
  interpreter reaches the contract storage through the interface \<open>StateAccessor\<close>, a record of
  functions on an arbitrary state type: a read returns the state as well, because the state
  database caches a storage trie on first use. The program counter is an \<open>int\<close>, since the
  conversion \<open>int(dest)\<close> of a jump target above \<open>2 ^ 63\<close> is negative; reading the code at a
  negative index is the outcome \<open>VmPanic\<close>.
\<close>

section \<open>Opcodes\<close>

abbreviation OpHalt :: byte where "OpHalt \<equiv> 0x00"
abbreviation OpPush :: byte where "OpPush \<equiv> 0x01"
abbreviation OpPop :: byte where "OpPop \<equiv> 0x02"
abbreviation OpDup :: byte where "OpDup \<equiv> 0x03"
abbreviation OpSwap :: byte where "OpSwap \<equiv> 0x04"
abbreviation OpAdd :: byte where "OpAdd \<equiv> 0x10"
abbreviation OpSub :: byte where "OpSub \<equiv> 0x11"
abbreviation OpMul :: byte where "OpMul \<equiv> 0x12"
abbreviation OpDiv :: byte where "OpDiv \<equiv> 0x13"
abbreviation OpEq :: byte where "OpEq \<equiv> 0x20"
abbreviation OpLt :: byte where "OpLt \<equiv> 0x21"
abbreviation OpNot :: byte where "OpNot \<equiv> 0x22"
abbreviation OpJump :: byte where "OpJump \<equiv> 0x30"
abbreviation OpJumpi :: byte where "OpJumpi \<equiv> 0x31"
abbreviation OpSload :: byte where "OpSload \<equiv> 0x40"
abbreviation OpSstore :: byte where "OpSstore \<equiv> 0x41"

text \<open>The map \<open>GasCost\<close>; a byte outside it is an invalid opcode.\<close>

definition GasCost :: "byte \<rightharpoonup> uint64" where
  "GasCost = map_of
     [(OpHalt, 0), (OpPush, 2), (OpPop, 2), (OpDup, 2), (OpSwap, 2), (OpAdd, 3), (OpSub, 3),
      (OpMul, 5), (OpDiv, 5), (OpEq, 3), (OpLt, 3), (OpNot, 3), (OpJump, 8), (OpJumpi, 10),
      (OpSload, 50), (OpSstore, 800)]"

section \<open>The stack\<close>

datatype vm_error =
    InvalidOpcode byte int | OutOfGas int
  | PushMissingLength | PushInvalidLength nat | PushOverflow
  | StackOverflow | StackUnderflow | StackEmpty | DivisionByZero | JumpOutOfBounds uint64

definition MaxStackDepth :: nat where "MaxStackDepth = 1024"

definition Stack_Push :: "uint64 list \<Rightarrow> uint64 \<Rightarrow> vm_error + uint64 list" where
  "Stack_Push stk val = (if MaxStackDepth \<le> length stk then Inl StackOverflow else Inr (val # stk))"

fun Stack_Pop :: "uint64 list \<Rightarrow> vm_error + uint64 \<times> uint64 list" where
  "Stack_Pop [] = Inl StackUnderflow"
| "Stack_Pop (v # stk) = Inr (v, stk)"

fun Stack_Peek :: "uint64 list \<Rightarrow> vm_error + uint64" where
  "Stack_Peek [] = Inl StackEmpty"
| "Stack_Peek (v # stk) = Inr v"

definition pop2 :: "uint64 list \<Rightarrow> vm_error + uint64 \<times> uint64 \<times> uint64 list" where
  "pop2 stk =
     (case Stack_Pop stk of Inl e \<Rightarrow> Inl e
      | Inr (a, stk) \<Rightarrow> (case Stack_Pop stk of Inl e \<Rightarrow> Inl e | Inr (b, stk) \<Rightarrow> Inr (a, b, stk)))"

section \<open>Context, machine and result\<close>

record 's StateAccessor =
  acc_GetStorage :: "'s \<Rightarrow> address \<Rightarrow> hash256 \<Rightarrow> hash256 \<times> 's"
  acc_SetStorage :: "'s \<Rightarrow> address \<Rightarrow> hash256 \<Rightarrow> hash256 \<Rightarrow> 's"
  acc_GetBalance :: "'s \<Rightarrow> address \<Rightarrow> uint64"
  acc_SetBalance :: "'s \<Rightarrow> address \<Rightarrow> uint64 \<Rightarrow> 's"

record vm_context =
  ctx_Caller :: address
  ctx_Target :: address
  ctx_Value :: uint64
  ctx_GasLeft :: uint64
  ctx_Code :: bytes

record ExecResult =
  er_GasUsed :: uint64
  er_Success :: bool
  er_Err :: "vm_error option"

record 's machine =
  m_pc :: int
  m_stack :: "uint64 list"
  m_gasLeft :: uint64
  m_gasUsed :: uint64
  m_state :: 's

datatype 's vm_outcome = VmRun "'s machine" | VmDone ExecResult 's | VmPanic

definition execErr :: "'s machine \<Rightarrow> vm_error \<Rightarrow> 's vm_outcome" where
  "execErr m e = VmDone \<lparr>er_GasUsed = m_gasUsed m, er_Success = False, er_Err = Some e\<rparr> (m_state m)"

text \<open>The end of a case of the \<open>switch\<close>: an error returns, a stack goes on at \<open>pc++\<close>.\<close>

definition vm_next :: "'s machine \<Rightarrow> vm_error + uint64 list \<Rightarrow> 's vm_outcome" where
  "vm_next m r =
     (case r of Inl e \<Rightarrow> execErr m e | Inr stk \<Rightarrow> VmRun (m\<lparr>m_pc := m_pc m + 1, m_stack := stk\<rparr>))"

text \<open>\<open>a, b, err := pop2(stack)\<close> and the push of a result.\<close>

definition vm_binop :: "'s machine \<Rightarrow> (uint64 \<Rightarrow> uint64 \<Rightarrow> vm_error + uint64) \<Rightarrow> 's vm_outcome" where
  "vm_binop m f = vm_next m
     (case pop2 (m_stack m) of Inl e \<Rightarrow> Inl e
      | Inr (a, b, stk) \<Rightarrow> (case f a b of Inl e \<Rightarrow> Inl e | Inr v \<Rightarrow> Stack_Push stk v))"

definition op_push :: "bytes \<Rightarrow> 's machine \<Rightarrow> 's vm_outcome" where
  "op_push code m =
     (let pc = nat (m_pc m) + 1 in
      if length code \<le> pc then execErr m PushMissingLength
      else let n = unat (code ! pc); pc = pc + 1 in
        if n = 0 \<or> 8 < n then execErr m (PushInvalidLength n)
        else if length code < pc + n then execErr m PushOverflow
        else (case Stack_Push (m_stack m)
                     (foldl (\<lambda>val b. push_bit 8 val OR ucast b) 0 (slice pc n code)) of
                Inl e \<Rightarrow> execErr m e
              | Inr stk \<Rightarrow> VmRun (m\<lparr>m_pc := int (pc + n), m_stack := stk\<rparr>)))"

definition op_swap :: "'s machine \<Rightarrow> 's vm_outcome" where
  "op_swap m = vm_next m
     (case pop2 (m_stack m) of Inl e \<Rightarrow> Inl e | Inr (a, b, stk) \<Rightarrow> Inr (b # a # stk))"

definition op_not :: "'s machine \<Rightarrow> 's vm_outcome" where
  "op_not m = vm_next m
     (case Stack_Pop (m_stack m) of Inl e \<Rightarrow> Inl e
      | Inr (a, stk) \<Rightarrow> Stack_Push stk (if a = 0 then 1 else 0))"

text \<open>\<open>int(dest) >= len(ctx.Code)\<close> compares signed integers.\<close>

definition vm_goto :: "bytes \<Rightarrow> 's machine \<Rightarrow> uint64 \<Rightarrow> uint64 list \<Rightarrow> 's vm_outcome" where
  "vm_goto code m dest stk =
     (if int (length code) \<le> sint dest then execErr m (JumpOutOfBounds dest)
      else VmRun (m\<lparr>m_pc := sint dest, m_stack := stk\<rparr>))"

definition op_jump :: "bytes \<Rightarrow> 's machine \<Rightarrow> 's vm_outcome" where
  "op_jump code m =
     (case Stack_Pop (m_stack m) of Inl e \<Rightarrow> execErr m e | Inr (dest, stk) \<Rightarrow> vm_goto code m dest stk)"

definition op_jumpi :: "bytes \<Rightarrow> 's machine \<Rightarrow> 's vm_outcome" where
  "op_jumpi code m =
     (case pop2 (m_stack m) of Inl e \<Rightarrow> execErr m e
      | Inr (dest, cond, stk) \<Rightarrow> if cond \<noteq> 0 then vm_goto code m dest stk else vm_next m (Inr stk))"

text \<open>\<open>PutUint64(key[24:], v)\<close> on a zero hash, and \<open>Uint64(val[24:])\<close>.\<close>

definition slot_hash :: "uint64 \<Rightarrow> hash256" where
  "slot_hash v = ucast v"

definition hash_slot :: "hash256 \<Rightarrow> uint64" where
  "hash_slot h = ucast h"

definition op_sload :: "'s StateAccessor \<Rightarrow> address \<Rightarrow> 's machine \<Rightarrow> 's vm_outcome" where
  "op_sload acc target m =
     (case Stack_Pop (m_stack m) of Inl e \<Rightarrow> execErr m e
      | Inr (keyVal, stk) \<Rightarrow>
          (let (val, s) = acc_GetStorage acc (m_state m) target (slot_hash keyVal)
           in vm_next (m\<lparr>m_state := s\<rparr>) (Stack_Push stk (hash_slot val))))"

definition op_sstore :: "'s StateAccessor \<Rightarrow> address \<Rightarrow> 's machine \<Rightarrow> 's vm_outcome" where
  "op_sstore acc target m =
     (case pop2 (m_stack m) of Inl e \<Rightarrow> execErr m e
      | Inr (keyVal, dataVal, stk) \<Rightarrow>
          vm_next (m\<lparr>m_state := acc_SetStorage acc (m_state m) target (slot_hash keyVal) (slot_hash dataVal)\<rparr>)
            (Inr stk))"

text \<open>The \<open>switch\<close> on the opcode, after gas was charged.\<close>

definition exec_op :: "'s StateAccessor \<Rightarrow> address \<Rightarrow> bytes \<Rightarrow> byte \<Rightarrow> 's machine \<Rightarrow> 's vm_outcome" where
  "exec_op acc target code opc m =
     (if opc = OpHalt then VmDone \<lparr>er_GasUsed = m_gasUsed m, er_Success = True, er_Err = None\<rparr> (m_state m)
      else if opc = OpPush then op_push code m
      else if opc = OpPop then
        vm_next m (case Stack_Pop (m_stack m) of Inl e \<Rightarrow> Inl e | Inr (_, stk) \<Rightarrow> Inr stk)
      else if opc = OpDup then
        vm_next m (case Stack_Peek (m_stack m) of Inl e \<Rightarrow> Inl e | Inr v \<Rightarrow> Stack_Push (m_stack m) v)
      else if opc = OpSwap then op_swap m
      else if opc = OpAdd then vm_binop m (\<lambda>a b. Inr (a + b))
      else if opc = OpSub then vm_binop m (\<lambda>a b. Inr (a - b))
      else if opc = OpMul then vm_binop m (\<lambda>a b. Inr (a * b))
      else if opc = OpDiv then vm_binop m (\<lambda>a b. if b = 0 then Inl DivisionByZero else Inr (a div b))
      else if opc = OpEq then vm_binop m (\<lambda>a b. Inr (if a = b then 1 else 0))
      else if opc = OpLt then vm_binop m (\<lambda>a b. Inr (if a < b then 1 else 0))
      else if opc = OpNot then op_not m
      else if opc = OpJump then op_jump code m
      else if opc = OpJumpi then op_jumpi code m
      else if opc = OpSload then op_sload acc target m
      else if opc = OpSstore then op_sstore acc target m
      else execErr m (InvalidOpcode opc (m_pc m)))"

text \<open>One turn of the loop, for a program counter below the end of the code.\<close>

definition vm_step :: "'s StateAccessor \<Rightarrow> address \<Rightarrow> bytes \<Rightarrow> 's machine \<Rightarrow> 's vm_outcome" where
  "vm_step acc target code m =
     (if m_pc m < 0 then VmPanic
      else let opc = code ! nat (m_pc m) in
        case GasCost opc of
          None \<Rightarrow> execErr m (InvalidOpcode opc (m_pc m))
        | Some cost \<Rightarrow>
            if m_gasLeft m < cost then execErr m (OutOfGas (m_pc m))
            else exec_op acc target code opc
                   (m\<lparr>m_gasLeft := m_gasLeft m - cost, m_gasUsed := m_gasUsed m + cost\<rparr>))"

lemmas vm_op_defs = vm_next_def vm_binop_def op_push_def op_swap_def op_not_def vm_goto_def op_jump_def
  op_jumpi_def op_sload_def op_sstore_def execErr_def pop2_def Stack_Push_def Let_def

lemma exec_op_gas:
  "exec_op acc target code opc m = VmRun m' \<Longrightarrow>
   m_gasLeft m' = m_gasLeft m \<and> m_gasUsed m' = m_gasUsed m \<and> opc \<noteq> OpHalt"
  unfolding exec_op_def
  by (auto simp: vm_op_defs split: if_splits sum.splits prod.splits)

lemma GasCost_min: "GasCost opc = Some c \<Longrightarrow> opc \<noteq> OpHalt \<Longrightarrow> 2 \<le> unat c \<and> unat c \<le> 800"
  unfolding GasCost_def by (auto simp: map_of_Cons_code split: if_splits)

lemma vm_step_gas:
  assumes "vm_step acc target code m = VmRun m'"
  shows "unat (m_gasLeft m') + 2 \<le> unat (m_gasLeft m)"
proof -
  obtain c where c: "GasCost (code ! nat (m_pc m)) = Some c" "\<not> m_gasLeft m < c"
      "exec_op acc target code (code ! nat (m_pc m))
         (m\<lparr>m_gasLeft := m_gasLeft m - c, m_gasUsed := m_gasUsed m + c\<rparr>) = VmRun m'"
    using assms unfolding vm_step_def
    by (auto simp: execErr_def Let_def split: if_splits option.splits)
  from exec_op_gas [OF c(3)] have left: "m_gasLeft m' = m_gasLeft m - c" and "code ! nat (m_pc m) \<noteq> OpHalt"
    by simp_all
  with GasCost_min [OF c(1)] have "2 \<le> unat c" by simp
  moreover have "unat c \<le> unat (m_gasLeft m)"
    using c(2) by (simp add: word_less_nat_alt)
  moreover have "unat (m_gasLeft m - c) = unat (m_gasLeft m) - unat c"
    using c(2) by (simp add: unat_sub_le)
  ultimately show ?thesis unfolding left by linarith
qed

function vm_run :: "'s StateAccessor \<Rightarrow> address \<Rightarrow> bytes \<Rightarrow> 's machine \<Rightarrow> (ExecResult \<times> 's) option" where
  "vm_run acc target code m =
     (if m_pc m < int (length code) then
        (case vm_step acc target code m of
           VmRun m' \<Rightarrow> vm_run acc target code m'
         | VmDone r s \<Rightarrow> Some (r, s)
         | VmPanic \<Rightarrow> None)
      else Some (\<lparr>er_GasUsed = m_gasUsed m, er_Success = True, er_Err = None\<rparr>, m_state m))"
  by pat_completeness auto
termination
  by (relation "measure (\<lambda>(acc, target, code, m). unat (m_gasLeft m))")
    (auto dest: vm_step_gas)

declare vm_run.simps [simp del]

definition vm_init :: "vm_context \<Rightarrow> 's \<Rightarrow> 's machine" where
  "vm_init ctx s = \<lparr>m_pc = 0, m_stack = [], m_gasLeft = ctx_GasLeft ctx, m_gasUsed = 0, m_state = s\<rparr>"

text \<open>\<open>VM.Execute\<close>; \<open>None\<close> is the panic of an index out of range.\<close>

definition Execute :: "'s StateAccessor \<Rightarrow> vm_context \<Rightarrow> 's \<Rightarrow> (ExecResult \<times> 's) option" where
  "Execute acc ctx s = vm_run acc (ctx_Target ctx) (ctx_Code ctx) (vm_init ctx s)"

section \<open>Runs\<close>

inductive vm_steps :: "'s StateAccessor \<Rightarrow> address \<Rightarrow> bytes \<Rightarrow> 's machine \<Rightarrow> 's machine \<Rightarrow> bool"
  for acc target code where
  vm_steps_refl: "vm_steps acc target code m m"
| vm_steps_step: "m_pc m < int (length code) \<Longrightarrow> vm_step acc target code m = VmRun m' \<Longrightarrow>
    vm_steps acc target code m' m'' \<Longrightarrow> vm_steps acc target code m m''"

text \<open>A run ends in a machine that a sequence of steps reaches: off the end of the code, at a
  returning step, or at a panic.\<close>

lemma vm_run_final:
  "\<exists>m'. vm_steps acc target code m m' \<and>
     ((int (length code) \<le> m_pc m' \<and> vm_run acc target code m =
         Some (\<lparr>er_GasUsed = m_gasUsed m', er_Success = True, er_Err = None\<rparr>, m_state m')) \<or>
      (m_pc m' < int (length code) \<and>
        ((\<exists>r s. vm_step acc target code m' = VmDone r s \<and> vm_run acc target code m = Some (r, s)) \<or>
         (vm_step acc target code m' = VmPanic \<and> vm_run acc target code m = None))))"
proof (induction acc target code m rule: vm_run.induct)
  case (1 acc target code m)
  show ?case
  proof (cases "m_pc m < int (length code)")
    case False
    then show ?thesis
      by (intro exI [of _ m]) (simp add: vm_run.simps [of acc target code m] vm_steps_refl)
  next
    case True
    show ?thesis
    proof (cases "vm_step acc target code m")
      case (VmRun m1)
      then have "vm_run acc target code m = vm_run acc target code m1"
        using True by (simp add: vm_run.simps [of acc target code m])
      then show ?thesis
        using "1.IH" [OF True VmRun] vm_steps_step [OF True VmRun] by simp (metis)
    qed (use True in \<open>auto simp: vm_run.simps [of acc target code m] intro: exI [of _ m] vm_steps_refl\<close>)
  qed
qed

lemma vm_steps_invariant:
  assumes "vm_steps acc target code m m'" and "I m"
    and "\<And>m m'. m_pc m < int (length code) \<Longrightarrow> I m \<Longrightarrow> vm_step acc target code m = VmRun m' \<Longrightarrow> I m'"
  shows "I m'"
  using assms by (induction rule: vm_steps.induct) auto

lemma vm_step_charge:
  assumes "vm_step acc target code m = VmRun m'"
  obtains c where "GasCost (code ! nat (m_pc m)) = Some c" "c \<le> m_gasLeft m"
    "exec_op acc target code (code ! nat (m_pc m))
       (m\<lparr>m_gasLeft := m_gasLeft m - c, m_gasUsed := m_gasUsed m + c\<rparr>) = VmRun m'"
  using assms unfolding vm_step_def
  by (auto simp: execErr_def Let_def not_less split: if_splits option.splits)

text \<open>Gas spent and gas left add up to the gas the run started with.\<close>

abbreviation gas_total :: "'s machine \<Rightarrow> nat" where
  "gas_total m \<equiv> unat (m_gasLeft m) + unat (m_gasUsed m)"

lemma charge_total:
  fixes left used c :: uint64
  assumes "c \<le> left" and "unat left + unat used < 2 ^ 64"
  shows "unat (left - c) + unat (used + c) = unat left + unat used"
proof -
  have "unat c \<le> unat left" using assms(1) by (simp add: word_le_nat_alt)
  then show ?thesis using assms by (simp add: unat_sub_le unat_add_no_wrap)
qed

lemma vm_step_gas_total:
  assumes "vm_step acc target code m = VmRun m'" and "gas_total m < 2 ^ 64"
  shows "gas_total m' = gas_total m"
proof -
  obtain c where c: "c \<le> m_gasLeft m"
    and e: "exec_op acc target code (code ! nat (m_pc m))
       (m\<lparr>m_gasLeft := m_gasLeft m - c, m_gasUsed := m_gasUsed m + c\<rparr>) = VmRun m'"
    using vm_step_charge [OF assms(1)] by metis
  show ?thesis using exec_op_gas [OF e] charge_total [OF c assms(2)] by simp
qed

lemma exec_op_done:
  "exec_op acc target code opc m = VmDone r s \<Longrightarrow> er_GasUsed r = m_gasUsed m"
  unfolding exec_op_def
  by (auto simp: vm_op_defs split: if_splits sum.splits prod.splits)

lemma vm_step_done_gas:
  assumes "vm_step acc target code m = VmDone r s" and "gas_total m < 2 ^ 64"
  shows "unat (er_GasUsed r) \<le> gas_total m"
proof (cases "GasCost (code ! nat (m_pc m))")
  case None
  then show ?thesis using assms
    by (auto simp: vm_step_def execErr_def Let_def split: if_splits)
next
  case (Some c)
  show ?thesis
  proof (cases "m_gasLeft m < c")
    case True
    then show ?thesis using assms Some
      by (auto simp: vm_step_def execErr_def Let_def split: if_splits)
  next
    case False
    then have "er_GasUsed r = m_gasUsed m + c"
      using assms Some by (auto simp: vm_step_def Let_def dest: exec_op_done split: if_splits)
    moreover have "unat (m_gasLeft m - c) + unat (m_gasUsed m + c) = gas_total m"
      using False assms(2) by (intro charge_total) simp_all
    ultimately show ?thesis by simp
  qed
qed

lemma Execute_gas_used:
  assumes "Execute acc ctx s = Some (r, s')"
  shows "er_GasUsed r \<le> ctx_GasLeft ctx"
proof -
  let ?m = "vm_init ctx s" and ?G = "unat (ctx_GasLeft ctx)"
  have G: "?G < 2 ^ 64" using unsigned_less [of "ctx_GasLeft ctx"] by simp
  obtain m' where m': "vm_steps acc (ctx_Target ctx) (ctx_Code ctx) ?m m'"
      and fin: "(int (length (ctx_Code ctx)) \<le> m_pc m' \<and> er_GasUsed r = m_gasUsed m') \<or>
        vm_step acc (ctx_Target ctx) (ctx_Code ctx) m' = VmDone r s'"
    using vm_run_final [of acc "ctx_Target ctx" "ctx_Code ctx" ?m] assms
    by (auto simp: Execute_def)
  have tot: "gas_total m' = ?G"
    by (rule vm_steps_invariant [OF m']) (use G in \<open>auto simp: vm_init_def dest: vm_step_gas_total\<close>)
  then have "unat (er_GasUsed r) \<le> ?G"
    using fin vm_step_done_gas [of acc "ctx_Target ctx" "ctx_Code ctx" m' r s'] G by auto
  then show ?thesis by (simp add: word_le_nat_alt)
qed

text \<open>An execution never reports more gas than it was given, on every branch, errors included;
  the counters do not wrap.\<close>

theorem Execute_gas_bound:
  assumes "Execute acc ctx s = Some (r, s')"
  shows "er_GasUsed r \<le> ctx_GasLeft ctx"
  by (rule Execute_gas_used [OF assms])

lemma exec_op_stack:
  "exec_op acc target code opc m = VmRun m' \<Longrightarrow> length (m_stack m) \<le> MaxStackDepth \<Longrightarrow>
   length (m_stack m') \<le> MaxStackDepth"
  unfolding exec_op_def
  by (cases "m_stack m" rule: Stack_Pop.cases)
    (auto simp: vm_op_defs split: if_splits sum.splits prod.splits
       elim!: Stack_Pop.elims)

text \<open>At every point of every execution the operand stack holds at most \<open>MaxStackDepth\<close> values,
  also where the source pushes without looking at the error.\<close>

theorem stack_depth_bounded:
  assumes "vm_steps acc (ctx_Target ctx) (ctx_Code ctx) (vm_init ctx s) m"
  shows "length (m_stack m) \<le> MaxStackDepth"
proof (rule vm_steps_invariant [OF assms])
  fix m m' :: "'a machine"
  assume I: "length (m_stack m) \<le> MaxStackDepth"
    and step: "vm_step acc (ctx_Target ctx) (ctx_Code ctx) m = VmRun m'"
  show "length (m_stack m') \<le> MaxStackDepth"
    using step by (rule vm_step_charge) (use I in \<open>auto dest: exec_op_stack\<close>)
qed (simp add: vm_init_def)

text \<open>The witness runs \<open>PUSH 5; DUP; ADD\<close> and then falls off the end of the code.\<close>

definition flat_acc :: "(address \<Rightarrow> hash256 \<Rightarrow> hash256) StateAccessor" where
  "flat_acc = \<lparr>acc_GetStorage = (\<lambda>s a k. (s a k, s)),
     acc_SetStorage = (\<lambda>s a k v. s(a := (s a)(k := v))),
     acc_GetBalance = (\<lambda>s a. 0), acc_SetBalance = (\<lambda>s a v. s)\<rparr>"

abbreviation no_storage :: "address \<Rightarrow> hash256 \<Rightarrow> hash256" where
  "no_storage \<equiv> \<lambda>_ _. 0"

definition ctx_of :: "bytes \<Rightarrow> uint64 \<Rightarrow> vm_context" where
  "ctx_of code gas = \<lparr>ctx_Caller = 1, ctx_Target = 2, ctx_Value = 0, ctx_GasLeft = gas, ctx_Code = code\<rparr>"

lemmas vm_eval = Execute_def ctx_of_def vm_init_def vm_run.simps vm_step_def exec_op_def vm_op_defs
  GasCost_def flat_acc_def MaxStackDepth_def slot_hash_def hash_slot_def slice_def

lemma run_dup_add:
  "Execute flat_acc (ctx_of [OpPush, 1, 5, OpDup, OpAdd] 100) no_storage =
     Some (\<lparr>er_GasUsed = 7, er_Success = True, er_Err = None\<rparr>, no_storage)"
  by (simp add: vm_eval)

theorem Execute_gas_bound_witness: "(7 :: uint64) \<le> ctx_GasLeft (ctx_of [OpPush, 1, 5, OpDup, OpAdd] 100)"
  using Execute_gas_bound [OF run_dup_add] by simp

section \<open>Jumps\<close>

lemma vm_next_cases:
  "vm_next m r \<noteq> VmPanic" "execErr m e \<noteq> VmPanic"
  "vm_next m r = VmRun m' \<Longrightarrow> m_pc m' = m_pc m + 1"
  by (auto simp: vm_next_def execErr_def split: sum.splits)

lemma op_not_panic:
  "op_push code m \<noteq> VmPanic" "vm_binop m f \<noteq> VmPanic" "op_swap m \<noteq> VmPanic" "op_not m \<noteq> VmPanic"
  "op_jump code m \<noteq> VmPanic" "op_jumpi code m \<noteq> VmPanic" "op_sload acc t m \<noteq> VmPanic"
  "op_sstore acc t m \<noteq> VmPanic"
  by (auto simp: op_push_def vm_binop_def op_swap_def op_not_def op_jump_def op_jumpi_def op_sload_def
      op_sstore_def vm_goto_def vm_next_cases Let_def split: sum.splits prod.splits)

lemma exec_op_not_panic: "exec_op acc target code opc m \<noteq> VmPanic"
  unfolding exec_op_def by (simp add: op_not_panic vm_next_cases)

lemma vm_panic_iff: "vm_step acc target code m = VmPanic \<longleftrightarrow> m_pc m < 0"
  by (auto simp: vm_step_def Let_def exec_op_not_panic execErr_def split: option.splits)

lemma sint64_neg_iff: "sint (w :: uint64) < 0 \<longleftrightarrow> 2 ^ 63 \<le> unat w"
proof -
  have "sint w < 0 \<longleftrightarrow> bit w 63" by (simp add: sint_uint bit_uint_iff)
  also have "\<dots> \<longleftrightarrow> 2 ^ 63 \<le> unat w"
  proof -
    have "unat w < 2 ^ 64" using unsigned_less [of w] by simp
    then have "unat w div 2 ^ 63 = (if 2 ^ 63 \<le> unat w then 1 else 0)" by (simp add: div_nat_eqI)
    then show ?thesis
      using bit_iff_odd [of "unat w" 63] by (simp add: bit_unsigned_iff)
  qed
  finally show ?thesis .
qed

text \<open>Only a taken jump leaves the program counter negative, through a target above the signed
  range.\<close>

lemma vm_goto_pc:
  "vm_goto code m dest stk = VmRun m' \<Longrightarrow> m_pc m' < 0 \<Longrightarrow> 2 ^ 63 \<le> unat dest"
  by (auto simp: vm_goto_def execErr_def sint64_neg_iff split: if_splits)

lemma push_pc_nonneg: "0 \<le> (p :: int) \<Longrightarrow> \<not> 2 + (p + uint (w :: byte)) < 0"
  using unsigned_greater_eq [of w] by (simp add: not_less)

lemma exec_op_pc:
  assumes "exec_op acc target code opc m = VmRun m'" and "0 \<le> m_pc m" and "m_pc m' < 0"
  shows "opc \<in> {OpJump, OpJumpi} \<and> (\<exists>dest stk. m_stack m = dest # stk \<and> 2 ^ 63 \<le> unat dest)"
proof -
  note next_pc = vm_next_cases(3)
  have no: "vm_next n r \<noteq> VmRun m'" if "m_pc n = m_pc m" for n r
    using next_pc [of n r m'] that assms(2,3) by auto
  have push: "op_push code m \<noteq> VmRun m'"
    using assms(2,3) push_pc_nonneg [of "m_pc m"] by (auto simp: op_push_def execErr_def Let_def split: sum.splits)
  have others: "vm_binop m f \<noteq> VmRun m'" "op_swap m \<noteq> VmRun m'" "op_not m \<noteq> VmRun m'"
      "op_sload acc target m \<noteq> VmRun m'" "op_sstore acc target m \<noteq> VmRun m'" "execErr m e \<noteq> VmRun m'"
    for f :: "uint64 \<Rightarrow> uint64 \<Rightarrow> vm_error + uint64" and e
    using no by (auto simp: vm_binop_def op_swap_def op_not_def op_sload_def op_sstore_def execErr_def
        split: sum.splits prod.splits)
  have "op_jump code m = VmRun m' \<or> op_jumpi code m = VmRun m'" and op: "opc \<in> {OpJump, OpJumpi}"
    using assms(1) push others no [OF refl] unfolding exec_op_def by (auto split: if_splits)
  then have "\<exists>dest stk. m_stack m = dest # stk \<and> 2 ^ 63 \<le> unat dest"
    using others(6) no [OF refl] assms(3) vm_goto_pc [of code m _ _ m']
    by (auto simp: op_jump_def op_jumpi_def pop2_def split: sum.splits if_splits elim!: Stack_Pop.elims)
  with op show ?thesis by simp
qed


text \<open>Such a panic is reachable from eleven bytes of contract code and ten units of gas: a pushed
  target of \<open>2 ^ 63\<close> passes the bounds check of \<open>JUMP\<close>.\<close>

theorem jump_panic_reachable:
  assumes "10 \<le> gas"
  shows "Execute flat_acc (ctx_of [OpPush, 8, 0x80, 0, 0, 0, 0, 0, 0, 0, OpJump] gas) s = None"
proof -
  have "(2 :: uint64) \<le> gas" "(8 :: uint64) \<le> gas - 2"
    using assms by (simp_all add: word_le_nat_alt unat_sub_le)
  then show ?thesis by (simp add: vm_eval not_less)
qed

theorem jump_panic_reachable_witness:
  "Execute flat_acc (ctx_of [OpPush, 8, 0x80, 0, 0, 0, 0, 0, 0, 0, OpJump] 50000) no_storage = None"
  by (rule jump_panic_reachable) simp


theorem stack_depth_bounded_witness:
  "length (m_stack ((vm_init (ctx_of [OpPush, 1, 5] 9) no_storage)
     \<lparr>m_pc := 3, m_stack := [5], m_gasLeft := 7, m_gasUsed := 2\<rparr>)) \<le> MaxStackDepth"
proof (rule stack_depth_bounded)
  show "vm_steps flat_acc (ctx_Target (ctx_of [OpPush, 1, 5] 9)) (ctx_Code (ctx_of [OpPush, 1, 5] 9))
     (vm_init (ctx_of [OpPush, 1, 5] 9) no_storage)
     ((vm_init (ctx_of [OpPush, 1, 5] 9) no_storage)
        \<lparr>m_pc := 3, m_stack := [5], m_gasLeft := 7, m_gasUsed := 2\<rparr>)"
    by (rule vm_steps_step [OF _ _ vm_steps_refl]) (simp_all add: vm_eval)
qed

section \<open>What the interpreter asks of the state\<close>

text \<open>What reads and writes of the target's storage keep, an execution keeps.\<close>

lemma exec_op_preserves:
  assumes "P (m_state m)"
    and "\<And>s k. P s \<Longrightarrow> P (snd (acc_GetStorage acc s target k))"
    and "\<And>s k v. P s \<Longrightarrow> P (acc_SetStorage acc s target k v)"
  shows "exec_op acc target code opc m = VmRun m' \<Longrightarrow> P (m_state m')"
    and "exec_op acc target code opc m = VmDone r s' \<Longrightarrow> P s'"
proof -
  have get: "P s'" if "acc_GetStorage acc (m_state m) target k = (v, s')" for k v s'
    using assms(2) [OF assms(1), of k] that by simp
  show "exec_op acc target code opc m = VmRun m' \<Longrightarrow> P (m_state m')"
    and "exec_op acc target code opc m = VmDone r s' \<Longrightarrow> P s'"
    using assms(1) assms(3) [OF assms(1)] unfolding exec_op_def
    by (auto simp: vm_op_defs split: if_splits sum.splits prod.splits dest: get)
qed

lemma vm_step_preserves:
  assumes "P (m_state m)"
    and "\<And>s k. P s \<Longrightarrow> P (snd (acc_GetStorage acc s target k))"
    and "\<And>s k v. P s \<Longrightarrow> P (acc_SetStorage acc s target k v)"
  shows "vm_step acc target code m = VmRun m' \<Longrightarrow> P (m_state m')"
    and "vm_step acc target code m = VmDone r s' \<Longrightarrow> P s'"
proof -
  have charged: "P (m_state (m\<lparr>m_gasLeft := g, m_gasUsed := u\<rparr>))" for g u using assms(1) by simp
  have pres: "exec_op acc target code opc (m\<lparr>m_gasLeft := g, m_gasUsed := u\<rparr>) = VmRun m' \<Longrightarrow> P (m_state m')"
      "exec_op acc target code opc (m\<lparr>m_gasLeft := g, m_gasUsed := u\<rparr>) = VmDone r s' \<Longrightarrow> P s'" for opc g u
    using exec_op_preserves [of P, OF charged assms(2,3)] by blast+
  show "vm_step acc target code m = VmRun m' \<Longrightarrow> P (m_state m')"
    and "vm_step acc target code m = VmDone r s' \<Longrightarrow> P s'"
    using assms(1) unfolding vm_step_def
    by (auto simp: Let_def execErr_def split: if_splits option.splits dest: pres)
qed

lemma Execute_preserves:
  assumes run: "Execute acc ctx s = Some (r, s')" and "P s"
    and "\<And>s k. P s \<Longrightarrow> P (snd (acc_GetStorage acc s (ctx_Target ctx) k))"
    and "\<And>s k v. P s \<Longrightarrow> P (acc_SetStorage acc s (ctx_Target ctx) k v)"
  shows "P s'"
proof -
  let ?t = "ctx_Target ctx" and ?c = "ctx_Code ctx"
  note step = vm_step_preserves [of P _ acc ?t ?c, OF _ assms(3,4)]
  obtain m' where m': "vm_steps acc ?t ?c (vm_init ctx s) m'"
      and fin: "s' = m_state m' \<or> vm_step acc ?t ?c m' = VmDone r s'"
    using vm_run_final [of acc ?t ?c "vm_init ctx s"] run by (auto simp: Execute_def)
  have "P (m_state m')"
    by (rule vm_steps_invariant [OF m']) (use assms(2) in \<open>auto simp: vm_init_def intro: step\<close>)
  with fin show ?thesis using step(2) by blast
qed

text \<open>The contract of the interface \<open>StateAccessor\<close>, for the addresses in a set \<open>A\<close> (those that do
  not collide under the hash that keys the global trie): a read returns the slot and changes no
  slot and no balance, a write changes one slot of one address.\<close>

locale storage_accessor =
  fixes acc :: "'s StateAccessor" and invar :: "'s \<Rightarrow> bool" and A :: "address set"
    and stor :: "'s \<Rightarrow> address \<Rightarrow> hash256 \<Rightarrow> hash256" and bal :: "'s \<Rightarrow> address \<Rightarrow> uint64"
  assumes get_val: "invar s \<Longrightarrow> a \<in> A \<Longrightarrow> fst (acc_GetStorage acc s a k) = stor s a k"
    and get_invar: "invar s \<Longrightarrow> a \<in> A \<Longrightarrow> invar (snd (acc_GetStorage acc s a k))"
    and get_stor: "invar s \<Longrightarrow> a \<in> A \<Longrightarrow> b \<in> A \<Longrightarrow> stor (snd (acc_GetStorage acc s a k)) b = stor s b"
    and get_bal: "invar s \<Longrightarrow> a \<in> A \<Longrightarrow> b \<in> A \<Longrightarrow> bal (snd (acc_GetStorage acc s a k)) b = bal s b"
    and set_invar: "invar s \<Longrightarrow> a \<in> A \<Longrightarrow> invar (acc_SetStorage acc s a k v)"
    and set_stor: "invar s \<Longrightarrow> a \<in> A \<Longrightarrow> b \<in> A \<Longrightarrow>
      stor (acc_SetStorage acc s a k v) b = (if b = a then (stor s a)(k := v) else stor s b)"
    and set_bal: "invar s \<Longrightarrow> a \<in> A \<Longrightarrow> b \<in> A \<Longrightarrow> bal (acc_SetStorage acc s a k v) b = bal s b"
begin

text \<open>A machine on the real state against the machine on flat storage.\<close>

definition sim :: "(address \<Rightarrow> uint64) \<Rightarrow> 's \<Rightarrow> (address \<Rightarrow> hash256 \<Rightarrow> hash256) \<Rightarrow> bool" where
  "sim \<beta> s f \<longleftrightarrow> invar s \<and> (\<forall>b\<in>A. stor s b = f b \<and> bal s b = \<beta> b)"

definition msim :: "(address \<Rightarrow> uint64) \<Rightarrow> 's machine \<Rightarrow> (address \<Rightarrow> hash256 \<Rightarrow> hash256) machine \<Rightarrow> bool" where
  "msim \<beta> m n \<longleftrightarrow> m_pc m = m_pc n \<and> m_stack m = m_stack n \<and> m_gasLeft m = m_gasLeft n \<and>
     m_gasUsed m = m_gasUsed n \<and> sim \<beta> (m_state m) (m_state n)"

fun osim :: "(address \<Rightarrow> uint64) \<Rightarrow> 's vm_outcome \<Rightarrow> (address \<Rightarrow> hash256 \<Rightarrow> hash256) vm_outcome \<Rightarrow> bool" where
  "osim \<beta> (VmRun m) (VmRun n) = msim \<beta> m n"
| "osim \<beta> (VmDone r s) (VmDone q f) = (r = q \<and> sim \<beta> s f)"
| "osim \<beta> VmPanic VmPanic = True"
| "osim \<beta> _ _ = False"

lemma osim_execErr: "msim \<beta> m n \<Longrightarrow> osim \<beta> (execErr m e) (execErr n e)"
  by (simp add: msim_def execErr_def)

lemma osim_next: "msim \<beta> m n \<Longrightarrow> osim \<beta> (vm_next m r) (vm_next n r)"
  by (auto simp: msim_def vm_next_def execErr_def split: sum.splits)

lemma osim_goto: "msim \<beta> m n \<Longrightarrow> osim \<beta> (vm_goto code m d stk) (vm_goto code n d stk)"
  by (auto simp: msim_def vm_goto_def execErr_def)

lemma osim_push: "msim \<beta> m n \<Longrightarrow> osim \<beta> (op_push code m) (op_push code n)"
  by (auto simp: msim_def op_push_def execErr_def Let_def split: sum.splits)

lemma osim_jumps:
  "msim \<beta> m n \<Longrightarrow> osim \<beta> (op_jump code m) (op_jump code n)"
  "msim \<beta> m n \<Longrightarrow> osim \<beta> (op_jumpi code m) (op_jumpi code n)"
  by (auto simp: op_jump_def op_jumpi_def osim_execErr osim_goto osim_next msim_def [of _ m n]
      split: sum.splits)

lemma msim_stack: "msim \<beta> m n \<Longrightarrow> m_stack m = m_stack n"
  by (simp add: msim_def)

lemma osim_storage:
  assumes "msim \<beta> m n" and "target \<in> A"
  shows "osim \<beta> (op_sload acc target m) (op_sload flat_acc target n)"
    and "osim \<beta> (op_sstore acc target m) (op_sstore flat_acc target n)"
proof -
  let ?g = "\<lambda>k. acc_GetStorage acc (m_state m) target k"
  have s: "invar (m_state m)" "\<And>b. b \<in> A \<Longrightarrow> stor (m_state m) b = m_state n b"
      "\<And>b. b \<in> A \<Longrightarrow> bal (m_state m) b = \<beta> b"
    using assms(1) by (simp_all add: msim_def sim_def)
  then have g: "fst (?g k) = m_state n target k" "sim \<beta> (snd (?g k)) (m_state n)" for k
    using assms(2) by (simp_all add: get_val sim_def get_invar get_stor get_bal)
  have m: "msim \<beta> (m\<lparr>m_state := snd (?g k)\<rparr>) n" for k
    using assms(1) g(2) by (simp add: msim_def)
  show "osim \<beta> (op_sload acc target m) (op_sload flat_acc target n)"
    using osim_execErr [OF assms(1)] osim_next [OF m] g(1)
    by (auto simp: op_sload_def msim_stack [OF assms(1)] flat_acc_def case_prod_beta split: sum.splits)
  have "msim \<beta> (m\<lparr>m_state := acc_SetStorage acc (m_state m) target k v\<rparr>)
      (n\<lparr>m_state := (m_state n)(target := (m_state n target)(k := v))\<rparr>)" for k v
    using assms s by (simp add: msim_def sim_def set_invar set_stor set_bal)
  from osim_next [OF this] show "osim \<beta> (op_sstore acc target m) (op_sstore flat_acc target n)"
    using osim_execErr [OF assms(1)]
    by (auto simp: op_sstore_def msim_stack [OF assms(1)] flat_acc_def split: sum.splits)
qed

lemma osim_exec_op:
  assumes m: "msim \<beta> m n" and "target \<in> A"
  shows "osim \<beta> (exec_op acc target code opc m) (exec_op flat_acc target code opc n)"
proof -
  have "m_gasUsed m = m_gasUsed n" "sim \<beta> (m_state m) (m_state n)"
    using m by (simp_all add: msim_def)
  then show ?thesis
    using osim_next [OF m] osim_push [OF m] osim_jumps [OF m] osim_storage [OF assms] osim_execErr [OF m]
    unfolding exec_op_def vm_binop_def op_swap_def op_not_def msim_stack [OF m]
    using m by (simp add: msim_def [of _ m n])
qed

lemma osim_step:
  assumes m: "msim \<beta> m n" and "target \<in> A"
  shows "osim \<beta> (vm_step acc target code m) (vm_step flat_acc target code n)"
proof -
  have e: "m_pc m = m_pc n" "m_gasLeft m = m_gasLeft n" "m_gasUsed m = m_gasUsed n"
    using m by (simp_all add: msim_def)
  have "msim \<beta> (m\<lparr>m_gasLeft := g, m_gasUsed := u\<rparr>) (n\<lparr>m_gasLeft := g, m_gasUsed := u\<rparr>)" for g u
    using m by (simp add: msim_def)
  from osim_exec_op [OF this assms(2)] show ?thesis
    using osim_execErr [OF m] by (auto simp: vm_step_def Let_def e split: option.splits)
qed

lemma run_sim:
  assumes "msim \<beta> m n" and t: "target \<in> A"
  shows "rel_option (rel_prod (=) (sim \<beta>)) (vm_run acc target code m) (vm_run flat_acc target code n)"
  using assms(1)
proof (induction "unat (m_gasLeft m)" arbitrary: m n rule: less_induct)
  case less
  have pc: "m_pc m = m_pc n" and e: "m_gasUsed m = m_gasUsed n" "sim \<beta> (m_state m) (m_state n)"
    using less.prems by (simp_all add: msim_def)
  have step: "osim \<beta> (vm_step acc target code m) (vm_step flat_acc target code n)"
    by (rule osim_step [OF less.prems t])
  show ?case
  proof (cases "vm_step acc target code m")
    case (VmRun m')
    with step obtain n' where n': "vm_step flat_acc target code n = VmRun n'" "msim \<beta> m' n'"
      by (cases "vm_step flat_acc target code n") auto
    have "unat (m_gasLeft m') < unat (m_gasLeft m)" using vm_step_gas [OF VmRun] by simp
    from less.hyps [OF this n'(2)] VmRun n'(1) e show ?thesis
      by (simp add: vm_run.simps [of acc target code m] vm_run.simps [of flat_acc target code n] pc)
  qed (use step e in \<open>cases "vm_step flat_acc target code n";
      simp add: vm_run.simps [of acc target code m] vm_run.simps [of flat_acc target code n] pc\<close>)+
qed

text \<open>An execution on the real state gives the result of the execution on flat storage, panics
  included, and leaves the storage that execution leaves.\<close>

lemma Execute_sim:
  assumes "invar s" and "ctx_Target ctx \<in> A" and "\<And>b. b \<in> A \<Longrightarrow> f b = stor s b"
    and "\<And>b. b \<in> A \<Longrightarrow> \<beta> b = bal s b"
  shows "rel_option (rel_prod (=) (sim \<beta>)) (Execute acc ctx s) (Execute flat_acc ctx f)"
  unfolding Execute_def
  by (rule run_sim) (use assms in \<open>auto simp: msim_def vm_init_def sim_def\<close>)

end

interpretation flat: storage_accessor flat_acc "\<lambda>_. True" UNIV "\<lambda>s. s" "\<lambda>_ _. 0"
  by unfold_locales (simp_all add: flat_acc_def)

text \<open>On flat storage a run writes to its target only.\<close>

lemma flat_exec_op_isolated:
  assumes "a \<noteq> target"
  shows "exec_op flat_acc target code opc m = VmRun m' \<Longrightarrow> m_state m' a = m_state m a"
    and "exec_op flat_acc target code opc m = VmDone r s \<Longrightarrow> s a = m_state m a"
  using assms unfolding exec_op_def
  by (auto simp: vm_op_defs flat_acc_def split: if_splits sum.splits prod.splits)

lemma flat_isolated:
  "vm_run flat_acc target code m = Some (r, s) \<Longrightarrow> a \<noteq> target \<Longrightarrow> s a = m_state m a"
proof (induction "unat (m_gasLeft m)" arbitrary: m rule: less_induct)
  case less
  show ?case
  proof (cases "m_pc m < int (length code)")
    case False
    with less.prems show ?thesis by (simp add: vm_run.simps [of flat_acc target code m])
  next
    case True
    show ?thesis
    proof (cases "vm_step flat_acc target code m")
      case (VmRun m')
      have "vm_run flat_acc target code m' = Some (r, s)"
        using less.prems True VmRun by (simp add: vm_run.simps [of flat_acc target code m])
      moreover have "unat (m_gasLeft m') < unat (m_gasLeft m)" using vm_step_gas [OF VmRun] by simp
      moreover have "m_state m' a = m_state m a"
        using VmRun by (rule vm_step_charge) (auto dest!: flat_exec_op_isolated(1) [OF less.prems(2)])
      ultimately show ?thesis using less.hyps less.prems(2) by metis
    next
      case (VmDone q s')
      then have "s' = s" using less.prems True by (simp add: vm_run.simps [of flat_acc target code m])
      moreover have "s' a = m_state m a"
        using VmDone unfolding vm_step_def
        by (auto simp: Let_def execErr_def split: if_splits option.splits
            dest!: flat_exec_op_isolated(2) [OF less.prems(2)])
      ultimately show ?thesis by simp
    qed (use less.prems True in \<open>simp add: vm_run.simps [of flat_acc target code m]\<close>)
  qed
qed

context storage_accessor
begin

text \<open>A run keeps the invariant, every balance and the storage of every other address.\<close>

lemma Execute_keeps:
  assumes run: "Execute acc ctx s = Some (r, s')" and s: "invar s" and t: "ctx_Target ctx \<in> A"
  shows "invar s'" and "b \<in> A \<Longrightarrow> bal s' b = bal s b"
    and "b \<in> A \<Longrightarrow> b \<noteq> ctx_Target ctx \<Longrightarrow> stor s' b = stor s b"
proof -
  have R: "rel_option (rel_prod (=) (sim (bal s))) (Execute acc ctx s) (Execute flat_acc ctx (stor s))"
    by (rule Execute_sim [OF s t]) simp_all
  then obtain f where f: "Execute flat_acc ctx (stor s) = Some (r, f)" and sim: "sim (bal s) s' f"
    using run by (auto simp: option_rel_Some1)
  from sim show "invar s'" and "b \<in> A \<Longrightarrow> bal s' b = bal s b"
    by (simp_all add: sim_def)
  assume b: "b \<in> A" "b \<noteq> ctx_Target ctx"
  then have "f b = stor s b"
    using flat_isolated [of "ctx_Target ctx" "ctx_Code ctx" "vm_init ctx (stor s)" r f b] f
    by (simp add: Execute_def vm_init_def)
  with sim b show "stor s' b = stor s b" by (simp add: sim_def)
qed

end

end
