(* ===== verification/Tyl_State.thy ===== *)
theory Tyl_State
  imports Tyl_Merkle_Facts Tyl_Encoding Tyl_VM
begin

text \<open>
  The package \<open>internal/state\<close>: the state database (\<open>statedb.go\<close>) with its journal of undo
  entries (\<open>journal.go\<close>). An account is a leaf of the global trie under the hash of its address,
  a contract's storage is a trie of its own, created on first use: from the storage root recorded in
  the account, over the node store that \<open>storeFactory\<close> gives for the address. Operations pass the
  database explicitly; a read of storage returns it too, because it may create the trie.

  A node store is a map of byte strings. \<open>storeFactory\<close> is the content of the stores it would hand
  out: an empty one each time for \<open>NewStateDB\<close>, a persistent one per address otherwise. A finalized
  snapshot is the trie of its moment, store included.
\<close>

section \<open>The database\<close>

datatype JournalEntry =
    entryAccount address "bytes option"
  | entryStorage address hash256 "bytes option"

record Journal =
  j_entries :: "JournalEntry list"
  j_snapshots :: "nat list"

definition NewJournal :: Journal where
  "NewJournal = \<lparr>j_entries = [], j_snapshots = []\<rparr>"

definition Journal_Snapshot :: "Journal \<Rightarrow> nat \<times> Journal" where
  "Journal_Snapshot j = (length (j_snapshots j), j\<lparr>j_snapshots := j_snapshots j @ [length (j_entries j)]\<rparr>)"

definition Record :: "Journal \<Rightarrow> JournalEntry \<Rightarrow> Journal" where
  "Record j e = j\<lparr>j_entries := j_entries j @ [e]\<rparr>"

definition Journal_Clear :: "Journal \<Rightarrow> Journal" where
  "Journal_Clear j = j\<lparr>j_entries := [], j_snapshots := []\<rparr>"

record statedb =
  globalTrie :: tree
  storageTries :: "address \<rightharpoonup> tree"
  storeFactory :: "address \<Rightarrow> kvstore"
  persistent :: bool
  codes :: "hash256 \<rightharpoonup> bytes"
  journal :: Journal
  finalizedSnap :: "tree option"
  finalizedStorageSnap :: "address \<rightharpoonup> tree"

definition NewStateDB :: "kvstore \<Rightarrow> statedb" where
  "NewStateDB store =
     \<lparr>globalTrie = NewTree store, storageTries = Map.empty, storeFactory = (\<lambda>_. Map.empty),
      persistent = False, codes = Map.empty, journal = NewJournal, finalizedSnap = None,
      finalizedStorageSnap = Map.empty\<rparr>"

definition NewStateDBWithFactory :: "kvstore \<Rightarrow> (address \<Rightarrow> kvstore) \<Rightarrow> statedb" where
  "NewStateDBWithFactory store factory =
     \<lparr>globalTrie = NewTree store, storageTries = Map.empty, storeFactory = factory,
      persistent = True, codes = Map.empty, journal = NewJournal, finalizedSnap = None,
      finalizedStorageSnap = Map.empty\<rparr>"

section \<open>Accounts\<close>

type_synonym hashfn = "bytes \<Rightarrow> hash256"

definition state_Root :: "hashfn \<Rightarrow> statedb \<Rightarrow> hash256" where
  "state_Root sha s = tree_Root sha (globalTrie s)"

text \<open>\<open>types.Sha256(addr[:])\<close> and the raw read of the global trie.\<close>

definition acct_key :: "hashfn \<Rightarrow> address \<Rightarrow> hash256" where
  "acct_key sha addr = sha (addr_bytes addr)"

definition acct_data :: "hashfn \<Rightarrow> statedb \<Rightarrow> address \<Rightarrow> bytes option" where
  "acct_data sha s addr = tree_look (globalTrie s) (acct_key sha addr)"

definition decode_acct :: "bytes option \<Rightarrow> account option" where
  "decode_acct d =
     (case d of None \<Rightarrow> None
      | Some data \<Rightarrow> (case DecodeAccount data of Inl _ \<Rightarrow> None | Inr acct \<Rightarrow> Some acct))"

definition GetAccount :: "hashfn \<Rightarrow> statedb \<Rightarrow> address \<Rightarrow> account option" where
  "GetAccount sha s addr = decode_acct (acct_data sha s addr)"

definition SetAccount :: "hashfn \<Rightarrow> statedb \<Rightarrow> address \<Rightarrow> account \<Rightarrow> statedb" where
  "SetAccount sha s addr acct =
     (let oldData = acct_data sha s addr;
          s = s\<lparr>journal := Record (journal s) (entryAccount addr oldData)\<rparr>
      in s\<lparr>globalTrie := tree_put (globalTrie s) (acct_key sha addr) (EncodeAccount acct)\<rparr>)"

definition GetOrCreateAccount :: "hashfn \<Rightarrow> statedb \<Rightarrow> address \<Rightarrow> account" where
  "GetOrCreateAccount sha s addr =
     (case GetAccount sha s addr of None \<Rightarrow> zero_account | Some acct \<Rightarrow> acct)"

definition GetBalance :: "hashfn \<Rightarrow> statedb \<Rightarrow> address \<Rightarrow> uint64" where
  "GetBalance sha s addr =
     (case GetAccount sha s addr of None \<Rightarrow> 0 | Some acct \<Rightarrow> acct_Balance acct)"

definition SetBalance :: "hashfn \<Rightarrow> statedb \<Rightarrow> address \<Rightarrow> uint64 \<Rightarrow> statedb" where
  "SetBalance sha s addr val =
     SetAccount sha s addr ((GetOrCreateAccount sha s addr)\<lparr>acct_Balance := val\<rparr>)"

section \<open>Storage\<close>

definition load_trie :: "hashfn \<Rightarrow> statedb \<Rightarrow> address \<Rightarrow> tree" where
  "load_trie sha s addr =
     (let trie = NewTree (storeFactory s addr)
      in case GetAccount sha s addr of
           None \<Rightarrow> trie
         | Some acct \<Rightarrow>
             if acct_StorageRoot acct \<noteq> ZeroHash then LoadRoot trie (acct_StorageRoot acct) else trie)"

definition getStorageTrie :: "hashfn \<Rightarrow> statedb \<Rightarrow> address \<Rightarrow> tree \<times> statedb" where
  "getStorageTrie sha s addr =
     (case storageTries s addr of
        Some trie \<Rightarrow> (trie, s)
      | None \<Rightarrow> let trie = load_trie sha s addr
                in (trie, s\<lparr>storageTries := (storageTries s)(addr \<mapsto> trie)\<rparr>))"

definition storage_value :: "bytes option \<Rightarrow> hash256" where
  "storage_value d = (case d of None \<Rightarrow> ZeroHash | Some data \<Rightarrow> BytesToHash256 data)"

definition GetStorage :: "hashfn \<Rightarrow> statedb \<Rightarrow> address \<Rightarrow> hash256 \<Rightarrow> hash256 \<times> statedb" where
  "GetStorage sha s addr key =
     (let (trie, s) = getStorageTrie sha s addr in (storage_value (tree_look trie key), s))"

definition SetStorage :: "hashfn \<Rightarrow> statedb \<Rightarrow> address \<Rightarrow> hash256 \<Rightarrow> hash256 \<Rightarrow> statedb" where
  "SetStorage sha s addr key val =
     (let (trie, s) = getStorageTrie sha s addr;
          s = s\<lparr>journal := Record (journal s) (entryStorage addr key (tree_look trie key))\<rparr>;
          trie = (if val = ZeroHash then tree_del trie key else tree_put trie key (hash_bytes val));
          s = s\<lparr>storageTries := (storageTries s)(addr \<mapsto> trie)\<rparr>;
          acct = GetOrCreateAccount sha s addr
      in SetAccount sha s addr (acct\<lparr>acct_StorageRoot := tree_Root sha trie\<rparr>))"

definition GetCode :: "statedb \<Rightarrow> hash256 \<Rightarrow> bytes option" where
  "GetCode s codeHash = codes s codeHash"

definition LoadCode :: "statedb \<Rightarrow> hash256 \<Rightarrow> bytes \<Rightarrow> statedb" where
  "LoadCode s hash code = s\<lparr>codes := (codes s)(hash \<mapsto> code)\<rparr>"

definition SetCode :: "hashfn \<Rightarrow> statedb \<Rightarrow> address \<Rightarrow> bytes \<Rightarrow> statedb" where
  "SetCode sha s addr code =
     (let hash = sha code;
          s = s\<lparr>codes := (codes s)(hash \<mapsto> code)\<rparr>;
          acct = GetOrCreateAccount sha s addr
      in SetAccount sha s addr (acct\<lparr>acct_CodeHash := hash\<rparr>))"

section \<open>Snapshots and rollback\<close>

definition Snapshot :: "statedb \<Rightarrow> nat \<times> statedb" where
  "Snapshot s = (let (i, j) = Journal_Snapshot (journal s) in (i, s\<lparr>journal := j\<rparr>))"

text \<open>One turn of the loop of \<open>RevertTo\<close>.\<close>

fun undo_entry :: "hashfn \<Rightarrow> statedb \<Rightarrow> JournalEntry \<Rightarrow> statedb" where
  "undo_entry sha s (entryAccount addr oldData) =
     (case oldData of
        None \<Rightarrow> s\<lparr>globalTrie := tree_del (globalTrie s) (acct_key sha addr)\<rparr>
      | Some data \<Rightarrow> s\<lparr>globalTrie := tree_put (globalTrie s) (acct_key sha addr) data\<rparr>)"
| "undo_entry sha s (entryStorage addr key oldData) =
     (let (trie, s) = getStorageTrie sha s addr;
          trie = (case oldData of None \<Rightarrow> tree_del trie key | Some data \<Rightarrow> tree_put trie key data)
      in s\<lparr>storageTries := (storageTries s)(addr \<mapsto> trie)\<rparr>)"

definition RevertToSnapshot :: "hashfn \<Rightarrow> statedb \<Rightarrow> nat \<Rightarrow> statedb" where
  "RevertToSnapshot sha s i =
     (let j = journal s in
      if length (j_snapshots j) \<le> i then s
      else let target = j_snapshots j ! i;
               s = foldl (undo_entry sha) s (rev (drop target (j_entries j)))
           in s\<lparr>journal := \<lparr>j_entries = take target (j_entries j), j_snapshots = take i (j_snapshots j)\<rparr>\<rparr>)"

section \<open>Commit, persistence and finality\<close>

definition Commit :: "hashfn \<Rightarrow> statedb \<Rightarrow> hash256 \<times> statedb" where
  "Commit sha s = (let s = s\<lparr>journal := Journal_Clear (journal s)\<rparr> in (state_Root sha s, s))"

definition LoadTrieRoot :: "statedb \<Rightarrow> hash256 \<Rightarrow> statedb" where
  "LoadTrieRoot s root = s\<lparr>globalTrie := LoadRoot (globalTrie s) root\<rparr>"

definition ClearStorageTries :: "statedb \<Rightarrow> statedb" where
  "ClearStorageTries s = s\<lparr>storageTries := Map.empty, journal := NewJournal\<rparr>"

definition FlushTries :: "hashfn \<Rightarrow> statedb \<Rightarrow> statedb" where
  "FlushTries sha s =
     (let tries = (\<lambda>a. map_option (tree_Flush sha) (storageTries s a))
      in s\<lparr>globalTrie := tree_Flush sha (globalTrie s), storageTries := tries,
           storeFactory :=
             (if persistent s
              then (\<lambda>a. case tries a of None \<Rightarrow> storeFactory s a | Some t \<Rightarrow> t_store t)
              else storeFactory s)\<rparr>)"

definition SnapshotFinalized :: "statedb \<Rightarrow> statedb" where
  "SnapshotFinalized s = s\<lparr>finalizedSnap := Some (globalTrie s), finalizedStorageSnap := storageTries s\<rparr>"

definition snap_look :: "tree \<Rightarrow> hash256 \<Rightarrow> bytes option" where
  "snap_look snap key = Snapshot_Get (t_store snap) (TakeSnapshot snap) key"

definition GetFinalizedBalance :: "hashfn \<Rightarrow> statedb \<Rightarrow> address \<Rightarrow> uint64 \<times> bool" where
  "GetFinalizedBalance sha s addr =
     (case finalizedSnap s of
        None \<Rightarrow> (0, False)
      | Some snap \<Rightarrow>
          (case decode_acct (snap_look snap (acct_key sha addr)) of
             None \<Rightarrow> (0, True) | Some acct \<Rightarrow> (acct_Balance acct, True)))"

definition GetFinalizedStorage ::
  "hashfn \<Rightarrow> statedb \<Rightarrow> address \<Rightarrow> hash256 \<Rightarrow> (hash256 \<times> bool) \<times> statedb" where
  "GetFinalizedStorage sha s addr key =
     (case finalizedSnap s of
        None \<Rightarrow> ((ZeroHash, False), s)
      | Some gsnap \<Rightarrow>
          (case finalizedStorageSnap s addr of
             Some snap \<Rightarrow> ((storage_value (snap_look snap key), True), s)
           | None \<Rightarrow>
               (case decode_acct (snap_look gsnap (acct_key sha addr)) of
                  None \<Rightarrow> ((ZeroHash, True), s)
                | Some acct \<Rightarrow>
                    if acct_StorageRoot acct = ZeroHash then ((ZeroHash, True), s)
                    else let snap = LoadRoot (NewTree (storeFactory s addr)) (acct_StorageRoot acct);
                             s = s\<lparr>finalizedStorageSnap := (finalizedStorageSnap s)(addr \<mapsto> snap)\<rparr>
                         in ((storage_value (snap_look snap key), True), s))))"

text \<open>The database as the interpreter's \<open>StateAccessor\<close>.\<close>

definition StateDB_accessor :: "hashfn \<Rightarrow> statedb StateAccessor" where
  "StateDB_accessor sha =
     \<lparr>acc_GetStorage = GetStorage sha, acc_SetStorage = SetStorage sha,
      acc_GetBalance = GetBalance sha, acc_SetBalance = SetBalance sha\<rparr>"

section \<open>What the database holds\<close>

text \<open>The storage trie an address has or would get.\<close>

definition storage_trie :: "hashfn \<Rightarrow> statedb \<Rightarrow> address \<Rightarrow> tree" where
  "storage_trie sha s addr = (case storageTries s addr of Some trie \<Rightarrow> trie | None \<Rightarrow> load_trie sha s addr)"

definition stor_data :: "hashfn \<Rightarrow> statedb \<Rightarrow> address \<Rightarrow> hash256 \<Rightarrow> bytes option" where
  "stor_data sha s addr key = tree_look (storage_trie sha s addr) key"

definition storage :: "hashfn \<Rightarrow> statedb \<Rightarrow> address \<Rightarrow> hash256 \<Rightarrow> hash256" where
  "storage sha s addr key = storage_value (stor_data sha s addr key)"

text \<open>Well-formed databases, for a set of addresses that do not collide under the hash.\<close>

definition state_ok :: "hashfn \<Rightarrow> address set \<Rightarrow> statedb \<Rightarrow> bool" where
  "state_ok sha A s \<longleftrightarrow> inj_on (acct_key sha) A \<and> tree_ok sha (globalTrie s) \<and>
     (\<forall>a\<in>A. tree_ok sha (storage_trie sha s a))"

lemma getStorageTrie_eq:
  "getStorageTrie sha s a =
     (storage_trie sha s a, s\<lparr>storageTries := (storageTries s)(a \<mapsto> storage_trie sha s a)\<rparr>)"
  by (auto simp: getStorageTrie_def storage_trie_def Let_def fun_upd_idem split: option.splits)

end
