(* ===== verification/Tyl_State_Facts.thy ===== *)
theory Tyl_State_Facts
  imports Tyl_State Tyl_Merkle_Props
begin

text \<open>
  The laws of the state database: what each operation does to the accounts and the storage, that it
  keeps the database well-formed, and that a sequence of operations since a snapshot can be undone.
  The database is shown to fulfil the contract of the interpreter's \<open>StateAccessor\<close>.
\<close>

section \<open>Writing accounts\<close>

abbreviation acct :: "hashfn \<Rightarrow> statedb \<Rightarrow> address \<Rightarrow> account" where
  "acct \<equiv> GetOrCreateAccount"

definition data_root :: "bytes option \<Rightarrow> hash256" where
  "data_root d = (case decode_acct d of None \<Rightarrow> 0 | Some a \<Rightarrow> acct_StorageRoot a)"

lemma decode_EncodeAccount [simp]: "decode_acct (Some (EncodeAccount a)) = Some a"
  using account_codec.roundtrip [of a] by (simp add: decode_acct_def)

lemma data_root_Encode [simp]: "data_root (Some (EncodeAccount a)) = acct_StorageRoot a"
  by (simp add: data_root_def)

lemma acct_eq: "acct sha s a = (case decode_acct (acct_data sha s a) of None \<Rightarrow> zero_account | Some x \<Rightarrow> x)"
  by (simp add: GetOrCreateAccount_def GetAccount_def)

lemma GetBalance_eq: "GetBalance sha s a = acct_Balance (acct sha s a)"
  by (simp add: GetBalance_def GetOrCreateAccount_def zero_account_def split: option.split)

lemma data_root_acct: "data_root (acct_data sha s a) = acct_StorageRoot (acct sha s a)"
  by (simp add: data_root_def acct_eq zero_account_def split: option.split)

lemma load_trie_eq:
  "load_trie sha s a = LoadRoot (NewTree (storeFactory s a)) (data_root (acct_data sha s a))"
  by (auto simp: load_trie_def data_root_def GetAccount_def LoadRoot_def NewTree_def Let_def
      split: option.split)

lemma state_okD:
  assumes "state_ok sha A s"
  shows state_ok_inj: "inj_on (acct_key sha) A" and state_ok_global: "tree_ok sha (globalTrie s)"
    and state_ok_storage: "a \<in> A \<Longrightarrow> tree_ok sha (storage_trie sha s a)"
  using assms by (simp_all add: state_ok_def)

text \<open>A write of the account entry of \<open>a\<close> that keeps its storage root, or with its trie in the
  cache, changes this entry and nothing else.\<close>

definition write_acct :: "hashfn \<Rightarrow> statedb \<Rightarrow> address \<Rightarrow> bytes option \<Rightarrow> statedb" where
  "write_acct sha s a d =
     s\<lparr>globalTrie := (case d of None \<Rightarrow> tree_del (globalTrie s) (acct_key sha a)
                      | Some v \<Rightarrow> tree_put (globalTrie s) (acct_key sha a) v)\<rparr>"

lemma write_acct_fields [simp]:
  "storageTries (write_acct sha s a d) = storageTries s" "storeFactory (write_acct sha s a d) = storeFactory s"
  "journal (write_acct sha s a d) = journal s" "codes (write_acct sha s a d) = codes s"
  by (simp_all add: write_acct_def)

lemma write_acct_look:
  assumes "state_ok sha A s"
  shows "tree_look (globalTrie (write_acct sha s a d)) = (tree_look (globalTrie s))(acct_key sha a := d)"
  using merkle_trie.look_restore [OF state_ok_global [OF assms]] by (simp add: write_acct_def)

lemma write_acct_data:
  assumes "state_ok sha A s" and "a \<in> A" and "b \<in> A"
  shows "acct_data sha (write_acct sha s a d) b = (if b = a then d else acct_data sha s b)"
  using assms state_ok_inj [OF assms(1)]
  by (auto simp: acct_data_def write_acct_look [OF assms(1)] dest: inj_onD)

lemma write_acct_trie:
  assumes "state_ok sha A s" and "a \<in> A" and "b \<in> A"
    and "storageTries s a \<noteq> None \<or> data_root d = data_root (acct_data sha s a)"
  shows "storage_trie sha (write_acct sha s a d) b = storage_trie sha s b"
proof -
  have "storeFactory (write_acct sha s a d) = storeFactory s"
    and "storageTries (write_acct sha s a d) = storageTries s"
    by (simp_all add: write_acct_def)
  then show ?thesis
    using assms(4) by (auto simp: storage_trie_def load_trie_eq write_acct_data [OF assms(1-3)] split: option.split)
qed

lemma write_acct_ok:
  assumes "state_ok sha A s" and "a \<in> A"
    and "storageTries s a \<noteq> None \<or> data_root d = data_root (acct_data sha s a)"
  shows "state_ok sha A (write_acct sha s a d)"
  using assms(1) merkle_trie.invar_restore [OF state_ok_global [OF assms(1)]]
  unfolding state_ok_def
  by (simp add: write_acct_trie [OF assms(1,2) _ assms(3)]) (simp add: write_acct_def)

text \<open>The journal and the code cache do not matter to what the database holds.\<close>

lemma journal_irrelevant [simp]:
  "storage_trie sha (s\<lparr>journal := j\<rparr>) = storage_trie sha s"
  "acct_data sha (s\<lparr>journal := j\<rparr>) = acct_data sha s"
  "acct sha (s\<lparr>journal := j\<rparr>) = acct sha s"
  "stor_data sha (s\<lparr>journal := j\<rparr>) = stor_data sha s"
  "storage sha (s\<lparr>journal := j\<rparr>) = storage sha s"
  "state_ok sha A (s\<lparr>journal := j\<rparr>) = state_ok sha A s"
  by (simp_all add: fun_eq_iff storage_trie_def load_trie_def acct_data_def GetAccount_def
      GetOrCreateAccount_def state_ok_def stor_data_def storage_def split: option.split)

lemma codes_irrelevant [simp]:
  "storage_trie sha (s\<lparr>codes := c\<rparr>) = storage_trie sha s"
  "acct_data sha (s\<lparr>codes := c\<rparr>) = acct_data sha s"
  "acct sha (s\<lparr>codes := c\<rparr>) = acct sha s"
  "stor_data sha (s\<lparr>codes := c\<rparr>) = stor_data sha s"
  "storage sha (s\<lparr>codes := c\<rparr>) = storage sha s"
  "state_ok sha A (s\<lparr>codes := c\<rparr>) = state_ok sha A s"
  by (simp_all add: fun_eq_iff storage_trie_def load_trie_def acct_data_def GetAccount_def
      GetOrCreateAccount_def state_ok_def stor_data_def storage_def split: option.split)

lemma SetAccount_write:
  "SetAccount sha s a x =
     write_acct sha (s\<lparr>journal := Record (journal s) (entryAccount a (acct_data sha s a))\<rparr>) a
       (Some (EncodeAccount x))"
  by (simp add: SetAccount_def write_acct_def Let_def)

section \<open>Writing storage\<close>

definition write_stor :: "hashfn \<Rightarrow> statedb \<Rightarrow> address \<Rightarrow> hash256 \<Rightarrow> bytes option \<Rightarrow> statedb" where
  "write_stor sha s a k d =
     s\<lparr>storageTries := (storageTries s)(a \<mapsto>
        (case d of None \<Rightarrow> tree_del (storage_trie sha s a) k | Some v \<Rightarrow> tree_put (storage_trie sha s a) k v))\<rparr>"

lemma write_stor_acct [simp]: "acct_data sha (write_stor sha s a k d) = acct_data sha s"
  by (simp add: write_stor_def acct_data_def fun_eq_iff)

lemma write_stor_trie:
  "storage_trie sha (write_stor sha s a k d) b =
     (if b = a then (case d of None \<Rightarrow> tree_del (storage_trie sha s a) k | Some v \<Rightarrow> tree_put (storage_trie sha s a) k v)
      else storage_trie sha s b)"
proof -
  have "load_trie sha (write_stor sha s a k d) b = load_trie sha s b"
    unfolding load_trie_eq write_stor_acct by (simp add: write_stor_def)
  moreover have "storageTries (write_stor sha s a k d) = (storageTries s)(a \<mapsto>
      (case d of None \<Rightarrow> tree_del (storage_trie sha s a) k | Some v \<Rightarrow> tree_put (storage_trie sha s a) k v))"
    by (simp add: write_stor_def)
  ultimately show ?thesis by (auto simp: storage_trie_def [of sha _ b] split: option.split)
qed

lemma write_stor_data:
  assumes "state_ok sha A s" and "a \<in> A"
  shows "stor_data sha (write_stor sha s a k d) b = (if b = a then (stor_data sha s a)(k := d) else stor_data sha s b)"
  using merkle_trie.look_restore [OF state_ok_storage [OF assms]]
  by (auto simp: stor_data_def write_stor_trie fun_eq_iff)

lemma write_stor_ok:
  assumes "state_ok sha A s" and "a \<in> A"
  shows "state_ok sha A (write_stor sha s a k d)"
  using assms merkle_trie.invar_restore [OF state_ok_storage [OF assms], of k d]
  unfolding state_ok_def by (simp add: write_stor_trie) (simp add: write_stor_def)

lemma SetStorage_write:
  assumes d_def: "d = (if val = ZeroHash then None else Some (hash_bytes val))"
    and s1_def: "s1 = write_stor sha (s\<lparr>journal := Record (journal s) (entryStorage a key (stor_data sha s a key))\<rparr>) a key d"
  shows "SetStorage sha s a key val =
    SetAccount sha s1 a ((acct sha s1 a)\<lparr>acct_StorageRoot := tree_Root sha (storage_trie sha s1 a)\<rparr>)"
proof -
  have "storage_trie sha s1 a =
      (if val = ZeroHash then tree_del (storage_trie sha s a) key
       else tree_put (storage_trie sha s a) key (hash_bytes val))"
    by (simp add: s1_def d_def write_stor_trie)
  then have "s1 = s\<lparr>journal := Record (journal s) (entryStorage a key (stor_data sha s a key)),
      storageTries := (storageTries s)(a \<mapsto>
        (if val = ZeroHash then tree_del (storage_trie sha s a) key
         else tree_put (storage_trie sha s a) key (hash_bytes val)))\<rparr>"
    by (simp add: s1_def d_def write_stor_def)
  with \<open>storage_trie sha s1 a = _\<close> show ?thesis
    by (simp add: SetStorage_def getStorageTrie_eq Let_def stor_data_def)
qed

section \<open>Undoing\<close>

text \<open>What the database holds, and what undoing a journal entry does to it.\<close>

type_synonym view = "(hash256 \<rightharpoonup> bytes) \<times> (address \<Rightarrow> hash256 \<rightharpoonup> bytes)"

definition view :: "hashfn \<Rightarrow> address set \<Rightarrow> statedb \<Rightarrow> view" where
  "view sha A s = (tree_look (globalTrie s), \<lambda>a. if a \<in> A then stor_data sha s a else Map.empty)"

fun view_undo :: "hashfn \<Rightarrow> view \<Rightarrow> JournalEntry \<Rightarrow> view" where
  "view_undo sha (G, S) (entryAccount a d) = (G(acct_key sha a := d), S)"
| "view_undo sha (G, S) (entryStorage a k d) = (G, S(a := (S a)(k := d)))"

text \<open>An entry that can be undone in a database: its address is one of \<open>A\<close>, and its storage trie is
  in the cache or the entry keeps the storage root.\<close>

fun entry_ok :: "hashfn \<Rightarrow> address set \<Rightarrow> statedb \<Rightarrow> JournalEntry \<Rightarrow> bool" where
  "entry_ok sha A s (entryAccount a d) =
     (a \<in> A \<and> (storageTries s a \<noteq> None \<or> data_root d = data_root (acct_data sha s a)))"
| "entry_ok sha A s (entryStorage a k d) = (a \<in> A \<and> storageTries s a \<noteq> None)"

text \<open>Tries stay in the cache, and an account without one keeps its storage root.\<close>

definition grows :: "hashfn \<Rightarrow> address set \<Rightarrow> statedb \<Rightarrow> statedb \<Rightarrow> bool" where
  "grows sha A s s' \<longleftrightarrow> (\<forall>a\<in>A. (storageTries s a \<noteq> None \<longrightarrow> storageTries s' a \<noteq> None) \<and>
     (storageTries s' a = None \<longrightarrow> data_root (acct_data sha s' a) = data_root (acct_data sha s a)))"

lemma grows_refl [simp]: "grows sha A s s"
  by (simp add: grows_def)

lemma grows_trans: "grows sha A s s' \<Longrightarrow> grows sha A s' s'' \<Longrightarrow> grows sha A s s''"
  unfolding grows_def by metis

lemma entry_ok_grows: "grows sha A s s' \<Longrightarrow> entry_ok sha A s e \<Longrightarrow> entry_ok sha A s' e"
  by (cases e) (auto simp: grows_def)

text \<open>Undoing one entry and a list of entries.\<close>

lemma undo_entry_write:
  "undo_entry sha s (entryAccount a d) = write_acct sha s a d"
  "undo_entry sha s (entryStorage a k d) = write_stor sha s a k d"
  by (cases d; simp add: write_acct_def write_stor_def getStorageTrie_eq)+

lemma view_write_stor:
  assumes "state_ok sha A s" and "a \<in> A"
  shows "view sha A (write_stor sha s a k d) = view_undo sha (view sha A s) (entryStorage a k d)"
  using assms(2) by (auto simp: view_def write_stor_data [OF assms] fun_eq_iff) (simp add: write_stor_def)

lemma view_write_acct:
  assumes "state_ok sha A s" and "a \<in> A"
    and "storageTries s a \<noteq> None \<or> data_root d = data_root (acct_data sha s a)"
  shows "view sha A (write_acct sha s a d) = view_undo sha (view sha A s) (entryAccount a d)"
  by (simp add: view_def write_acct_look [OF assms(1)] fun_eq_iff stor_data_def
      write_acct_trie [OF assms(1,2) _ assms(3)])

lemma grows_write_acct:
  assumes "state_ok sha A s" and "a \<in> A"
    and "storageTries s a \<noteq> None \<or> data_root d = data_root (acct_data sha s a)"
  shows "grows sha A s (write_acct sha s a d)"
  using assms by (auto simp: grows_def write_acct_data)

lemma grows_write_stor: "grows sha A s (write_stor sha s a k d)"
  by (auto simp: grows_def) (auto simp: write_stor_def)

lemma undo_entry_correct:
  assumes "state_ok sha A s" and "entry_ok sha A s e"
  shows "view sha A (undo_entry sha s e) = view_undo sha (view sha A s) e"
    and "state_ok sha A (undo_entry sha s e)" and "grows sha A s (undo_entry sha s e)"
proof -
  have "view sha A (undo_entry sha s e) = view_undo sha (view sha A s) e \<and>
    state_ok sha A (undo_entry sha s e) \<and> grows sha A s (undo_entry sha s e)"
  proof (cases e)
    case (entryAccount a d)
    then have a: "a \<in> A" "storageTries s a \<noteq> None \<or> data_root d = data_root (acct_data sha s a)"
      using assms(2) by simp_all
    show ?thesis
      unfolding entryAccount undo_entry_write
      using view_write_acct [OF assms(1) a] write_acct_ok [OF assms(1) a] grows_write_acct [OF assms(1) a]
      by blast
  next
    case (entryStorage a k d)
    then have a: "a \<in> A" using assms(2) by simp
    show ?thesis
      unfolding entryStorage undo_entry_write
      using view_write_stor [OF assms(1) a] write_stor_ok [OF assms(1) a] grows_write_stor by blast
  qed
  then show "view sha A (undo_entry sha s e) = view_undo sha (view sha A s) e"
    and "state_ok sha A (undo_entry sha s e)" and "grows sha A s (undo_entry sha s e)" by blast+
qed

lemma undo_entries_correct:
  "state_ok sha A s \<Longrightarrow> \<forall>e\<in>set es. entry_ok sha A s e \<Longrightarrow>
   view sha A (foldl (undo_entry sha) s es) = foldl (view_undo sha) (view sha A s) es \<and>
   state_ok sha A (foldl (undo_entry sha) s es)"
proof (induction es arbitrary: s)
  case (Cons e es)
  have "entry_ok sha A s e" using Cons.prems by simp
  note step = undo_entry_correct [OF Cons.prems(1) this]
  have "\<forall>e\<in>set es. entry_ok sha A (undo_entry sha s e') e" if "e' = e" for e'
    using Cons.prems(2) entry_ok_grows [OF step(3)] that by auto
  with Cons.IH [OF step(2)] show ?case by (simp add: step(1))
qed simp

text \<open>\<open>evolves sha A s s'\<close>: the operations between \<open>s\<close> and \<open>s'\<close> recorded what undoes them.\<close>

definition evolves :: "hashfn \<Rightarrow> address set \<Rightarrow> statedb \<Rightarrow> statedb \<Rightarrow> bool" where
  "evolves sha A s s' \<longleftrightarrow> state_ok sha A s' \<and> grows sha A s s' \<and>
     (\<exists>es sn. j_entries (journal s') = j_entries (journal s) @ es \<and>
        j_snapshots (journal s') = j_snapshots (journal s) @ sn \<and>
        (\<forall>e\<in>set es. entry_ok sha A s' e) \<and>
        foldl (view_undo sha) (view sha A s') (rev es) = view sha A s)"

lemma evolves_ok: "evolves sha A s s' \<Longrightarrow> state_ok sha A s'"
  by (simp add: evolves_def)

lemma evolves_refl: "state_ok sha A s \<Longrightarrow> evolves sha A s s"
  by (simp add: evolves_def)

lemma evolves_trans [trans]:
  assumes "evolves sha A s s'" and "evolves sha A s' s''"
  shows "evolves sha A s s''"
proof -
  from assms obtain es sn es' sn' where
    e: "j_entries (journal s') = j_entries (journal s) @ es"
       "j_snapshots (journal s') = j_snapshots (journal s) @ sn"
       "\<forall>e\<in>set es. entry_ok sha A s' e" "foldl (view_undo sha) (view sha A s') (rev es) = view sha A s"
    and e': "j_entries (journal s'') = j_entries (journal s') @ es'"
       "j_snapshots (journal s'') = j_snapshots (journal s') @ sn'"
       "\<forall>e\<in>set es'. entry_ok sha A s'' e" "foldl (view_undo sha) (view sha A s'') (rev es') = view sha A s'"
    and g: "grows sha A s s'" "grows sha A s' s''" and ok: "state_ok sha A s''"
    unfolding evolves_def by blast
  have "\<forall>e\<in>set (es @ es'). entry_ok sha A s'' e"
    using e(3) e'(3) entry_ok_grows [OF g(2)] by auto
  moreover have "foldl (view_undo sha) (view sha A s'') (rev (es @ es')) = view sha A s"
    using e(4) e'(4) by simp
  moreover have "j_entries (journal s'') = j_entries (journal s) @ (es @ es')"
    and "j_snapshots (journal s'') = j_snapshots (journal s) @ (sn @ sn')"
    using e e' by simp_all
  ultimately show ?thesis
    unfolding evolves_def using ok grows_trans [OF g] by blast
qed

section \<open>The laws of the operations\<close>

text \<open>An account write as the source makes it: the record came from a read of the same account, so
  it carries the storage root, or the storage trie is in the cache.\<close>

abbreviation root_kept :: "hashfn \<Rightarrow> statedb \<Rightarrow> address \<Rightarrow> account \<Rightarrow> bool" where
  "root_kept sha s a x \<equiv> storageTries s a \<noteq> None \<or> acct_StorageRoot x = acct_StorageRoot (acct sha s a)"

lemma SetAccount_keep:
  "root_kept sha s a x \<Longrightarrow>
   storageTries s a \<noteq> None \<or> data_root (Some (EncodeAccount x)) = data_root (acct_data sha s a)"
  by (simp add: data_root_acct)

lemma SetAccount_journal [simp]:
  "journal (SetAccount sha s a x) = Record (journal s) (entryAccount a (acct_data sha s a))"
  "storageTries (SetAccount sha s a x) = storageTries s"
  "codes (SetAccount sha s a x) = codes s"
  by (simp_all add: SetAccount_def Let_def)

lemma acct_SetAccount [obs_simps]:
  assumes "state_ok sha A s" and "a \<in> A" and "b \<in> A"
  shows "acct sha (SetAccount sha s a x) b = (if b = a then x else acct sha s b)"
proof -
  have "state_ok sha A (s\<lparr>journal := j\<rparr>)" for j using assms(1) by simp
  then show ?thesis
    unfolding acct_eq [of sha "SetAccount sha s a x"] SetAccount_write
    using assms by (simp add: write_acct_data acct_eq)
qed

lemma stor_SetAccount [obs_simps]:
  assumes "state_ok sha A s" and "a \<in> A" and "b \<in> A" and "root_kept sha s a x"
  shows "stor_data sha (SetAccount sha s a x) b = stor_data sha s b"
proof -
  have "state_ok sha A (s\<lparr>journal := j\<rparr>)" for j using assms(1) by simp
  then show ?thesis
    unfolding SetAccount_write fun_eq_iff stor_data_def
    using assms SetAccount_keep [OF assms(4)] by (subst write_acct_trie) simp_all
qed

lemma view_undo_same:
  "view_undo sha (G(acct_key sha a := d), S) (entryAccount a (G (acct_key sha a))) = (G, S)"
  "view_undo sha (G, S(a := (S a)(k := d))) (entryStorage a k (S a k)) = (G, S)"
  by simp_all

lemma evolves_SetAccount:
  assumes ok: "state_ok sha A s" and a: "a \<in> A" and k: "root_kept sha s a x"
  shows "evolves sha A s (SetAccount sha s a x)"
proof -
  let ?e = "entryAccount a (acct_data sha s a)"
  let ?s = "s\<lparr>journal := Record (journal s) ?e\<rparr>"
  have ok1: "state_ok sha A ?s" using ok by simp
  have k1: "storageTries ?s a \<noteq> None \<or> data_root (Some (EncodeAccount x)) = data_root (acct_data sha ?s a)"
    using SetAccount_keep [OF k] by simp
  note w = write_acct_ok [OF ok1 a k1] grows_write_acct [OF ok1 a k1] view_write_acct [OF ok1 a k1]
  have v: "view sha A ?s = view sha A s" by (simp add: view_def cong: if_cong)
  have g: "grows sha A s (SetAccount sha s a x)"
    using w(2) by (simp add: SetAccount_write grows_def)
  have "entry_ok sha A (SetAccount sha s a x) ?e"
    using a k1 by (auto simp: SetAccount_write write_acct_data [OF ok1 a a])
  moreover have "view_undo sha (view sha A (SetAccount sha s a x)) ?e = view sha A s"
    using w(3) unfolding SetAccount_write v
    by (cases "view sha A s") (simp add: acct_data_def view_def)
  ultimately show ?thesis
    unfolding evolves_def using w(1) [folded SetAccount_write] g
    by (intro conjI exI [of _ "[?e]"] exI [of _ "[]"]) (simp_all add: Record_def)
qed

text \<open>Loading a storage trie into the cache changes nothing but the cache.\<close>

definition cache_trie :: "hashfn \<Rightarrow> statedb \<Rightarrow> address \<Rightarrow> statedb" where
  "cache_trie sha s a = snd (getStorageTrie sha s a)"

lemma cache_trie_eq: "cache_trie sha s a = s\<lparr>storageTries := (storageTries s)(a \<mapsto> storage_trie sha s a)\<rparr>"
  by (simp add: cache_trie_def getStorageTrie_eq)

lemma cache_trie_obs [simp]:
  "acct_data sha (cache_trie sha s a) = acct_data sha s"
  "acct sha (cache_trie sha s a) = acct sha s"
  "globalTrie (cache_trie sha s a) = globalTrie s" "journal (cache_trie sha s a) = journal s"
  "codes (cache_trie sha s a) = codes s"
  by (simp_all add: cache_trie_eq acct_data_def GetOrCreateAccount_def GetAccount_def fun_eq_iff)

lemma cache_trie_storage [simp]: "storage_trie sha (cache_trie sha s a) = storage_trie sha s"
proof
  fix b
  have "load_trie sha (cache_trie sha s a) b = load_trie sha s b"
    unfolding load_trie_eq by (simp add: cache_trie_eq acct_data_def)
  then show "storage_trie sha (cache_trie sha s a) b = storage_trie sha s b"
    by (auto simp: storage_trie_def [of sha _ b]) (auto simp: cache_trie_eq storage_trie_def split: option.split)
qed

lemma cache_trie_stor [simp]: "stor_data sha (cache_trie sha s a) = stor_data sha s"
  by (simp add: stor_data_def fun_eq_iff)

lemma evolves_cache:
  assumes "state_ok sha A s"
  shows "evolves sha A s (cache_trie sha s a)"
  unfolding evolves_def
proof (intro conjI exI [of _ "[]"])
  show "state_ok sha A (cache_trie sha s a)" using assms by (simp add: state_ok_def)
  show "grows sha A s (cache_trie sha s a)" by (simp add: grows_def) (simp add: cache_trie_eq)
qed (simp_all add: view_def cong: if_cong)

lemma GetStorage_eq: "GetStorage sha s a k = (storage sha s a k, cache_trie sha s a)"
  by (simp add: GetStorage_def cache_trie_eq getStorageTrie_eq storage_def stor_data_def)

lemma storage_cache [simp]: "storage sha (cache_trie sha s a) = storage sha s"
  by (simp add: storage_def fun_eq_iff)

text \<open>\<open>SetStorage\<close> writes the trie, then the new root into the account.\<close>

definition mid_stor :: "hashfn \<Rightarrow> statedb \<Rightarrow> address \<Rightarrow> hash256 \<Rightarrow> hash256 \<Rightarrow> statedb" where
  "mid_stor sha s a k v =
     write_stor sha (s\<lparr>journal := Record (journal s) (entryStorage a k (stor_data sha s a k))\<rparr>) a k
       (if v = ZeroHash then None else Some (hash_bytes v))"

lemma SetStorage_mid:
  "SetStorage sha s a k v = SetAccount sha (mid_stor sha s a k v) a
     ((acct sha s a)\<lparr>acct_StorageRoot := tree_Root sha (storage_trie sha (mid_stor sha s a k v) a)\<rparr>)"
proof -
  have "acct sha (mid_stor sha s a k v) a = acct sha s a"
    by (simp add: acct_eq mid_stor_def)
  then show ?thesis using SetStorage_write [OF refl refl, of sha s a k v] by (simp add: mid_stor_def)
qed

lemma mid_stor_cached [simp]: "storageTries (mid_stor sha s a k v) a \<noteq> None"
  by (simp add: mid_stor_def write_stor_def)

lemma mid_stor_acct [simp]: "acct sha (mid_stor sha s a k v) = acct sha s"
  by (simp add: acct_eq mid_stor_def fun_eq_iff)

lemma mid_stor_codes [simp]: "codes (mid_stor sha s a k v) = codes s"
  by (simp add: mid_stor_def write_stor_def)

lemma evolves_mid_stor:
  assumes ok: "state_ok sha A s" and a: "a \<in> A"
  shows "evolves sha A s (mid_stor sha s a k v)"
proof -
  let ?e = "entryStorage a k (stor_data sha s a k)" and ?d = "if v = ZeroHash then None else Some (hash_bytes v)"
  let ?s = "s\<lparr>journal := Record (journal s) ?e\<rparr>"
  have ok1: "state_ok sha A ?s" using ok by simp
  have v: "view sha A ?s = view sha A s" by (simp add: view_def cong: if_cong)
  have w: "state_ok sha A (mid_stor sha s a k v)" "grows sha A s (mid_stor sha s a k v)"
    "view sha A (mid_stor sha s a k v) = view_undo sha (view sha A s) (entryStorage a k ?d)"
    using write_stor_ok [OF ok1 a, of k ?d] grows_write_stor [of sha A ?s a k ?d]
      view_write_stor [OF ok1 a, of k ?d]
    by (simp_all add: mid_stor_def v grows_def)
  have "view_undo sha (view sha A (mid_stor sha s a k v)) ?e = view sha A s"
    unfolding w(3) using a by (simp add: view_def fun_upd_idem)
  then show ?thesis
    unfolding evolves_def using w(1,2) a
    by (intro conjI exI [of _ "[?e]"] exI [of _ "[]"]) (simp_all add: mid_stor_def Record_def, simp_all add: write_stor_def)
qed

lemma evolves_SetStorage:
  assumes ok: "state_ok sha A s" and a: "a \<in> A"
  shows "evolves sha A s (SetStorage sha s a k v)"
proof -
  note m = evolves_mid_stor [OF ok a, of k v]
  also have "evolves sha A (mid_stor sha s a k v) (SetStorage sha s a k v)"
    unfolding SetStorage_mid by (rule evolves_SetAccount [OF evolves_ok [OF m] a]) simp
  finally show ?thesis .
qed

lemma storage_value_hash [simp]:
  "storage_value (if v = ZeroHash then None else Some (hash_bytes v)) = v"
  by (simp add: storage_value_def)

lemma storage_SetStorage [obs_simps]:
  assumes ok: "state_ok sha A s" and a: "a \<in> A" and b: "b \<in> A"
  shows "storage sha (SetStorage sha s a k v) b = (if b = a then (storage sha s a)(k := v) else storage sha s b)"
proof -
  have ok1: "state_ok sha A (s\<lparr>journal := j\<rparr>)" for j using ok by simp
  note m = evolves_ok [OF evolves_mid_stor [OF ok a, of k v]]
  have "stor_data sha (SetStorage sha s a k v) b = stor_data sha (mid_stor sha s a k v) b"
    unfolding SetStorage_mid by (rule stor_SetAccount [OF m a b]) simp
  then show ?thesis
    by (auto simp: storage_def fun_eq_iff mid_stor_def write_stor_data [OF ok1 a] storage_value_def)
qed

lemma acct_SetStorage [obs_simps]:
  assumes ok: "state_ok sha A s" and a: "a \<in> A" and b: "b \<in> A"
  shows "acct_Balance (acct sha (SetStorage sha s a k v) b) = acct_Balance (acct sha s b)"
    and "acct_Nonce (acct sha (SetStorage sha s a k v) b) = acct_Nonce (acct sha s b)"
    and "acct_CodeHash (acct sha (SetStorage sha s a k v) b) = acct_CodeHash (acct sha s b)"
  unfolding SetStorage_mid acct_SetAccount [OF evolves_ok [OF evolves_mid_stor [OF ok a]] a b] by simp_all

lemma storage_SetAccount [obs_simps]:
  assumes "state_ok sha A s" and "a \<in> A" and "b \<in> A" and "root_kept sha s a x"
  shows "storage sha (SetAccount sha s a x) b = storage sha s b"
  by (simp add: storage_def fun_eq_iff stor_SetAccount [OF assms])

lemma evolves_SetCode:
  assumes "state_ok sha A s" and "a \<in> A"
  shows "evolves sha A s (SetCode sha s a code)"
proof -
  have "evolves sha A s (s\<lparr>codes := c\<rparr>)" for c
    using assms(1) by (simp add: evolves_def grows_def view_def cong: if_cong)
  moreover have "evolves sha A (s\<lparr>codes := (codes s)(sha code \<mapsto> code)\<rparr>) (SetCode sha s a code)"
    unfolding SetCode_def Let_def by (rule evolves_SetAccount) (use assms in simp_all)
  ultimately show ?thesis using evolves_trans by blast
qed

lemma evolves_Snapshot: "state_ok sha A s \<Longrightarrow> evolves sha A s (snd (Snapshot s))"
  by (simp add: Snapshot_def Journal_Snapshot_def evolves_def grows_def view_def cong: if_cong)

section \<open>Reverting to a snapshot\<close>

lemma revert_undoes:
  assumes ok: "state_ok sha A s" and snap: "Snapshot s = (i, s0)" and ev: "evolves sha A s0 s1"
  shows "state_ok sha A (RevertToSnapshot sha s1 i)"
    and "view sha A (RevertToSnapshot sha s1 i) = view sha A s"
    and "journal (RevertToSnapshot sha s1 i) = journal s"
proof -
  have i: "i = length (j_snapshots (journal s))"
    and s0: "s0 = s\<lparr>journal := (journal s)\<lparr>j_snapshots := j_snapshots (journal s) @ [length (j_entries (journal s))]\<rparr>\<rparr>"
    using snap by (auto simp: Snapshot_def Journal_Snapshot_def)
  obtain es sn where es: "j_entries (journal s1) = j_entries (journal s) @ es"
      "j_snapshots (journal s1) = (j_snapshots (journal s) @ [length (j_entries (journal s))]) @ sn"
      "\<forall>e\<in>set es. entry_ok sha A s1 e"
      "foldl (view_undo sha) (view sha A s1) (rev es) = view sha A s0"
    and ok1: "state_ok sha A s1"
    using ev unfolding evolves_def by (auto simp: s0)
  have v0: "view sha A s0 = view sha A s" by (simp add: s0 view_def cong: if_cong)
  let ?u = "foldl (undo_entry sha) s1 (rev es)"
  have "view sha A ?u = view sha A s \<and> state_ok sha A ?u"
    using undo_entries_correct [OF ok1, of "rev es"] es(3,4) v0 by simp
  moreover have R: "RevertToSnapshot sha s1 i = ?u\<lparr>journal := journal s\<rparr>"
    by (simp add: RevertToSnapshot_def i es(1,2) Let_def nth_append)
  ultimately show "state_ok sha A (RevertToSnapshot sha s1 i)"
    and "view sha A (RevertToSnapshot sha s1 i) = view sha A s"
    by (simp_all add: view_def cong: if_cong)
  show "journal (RevertToSnapshot sha s1 i) = journal s" by (simp add: R)
qed

lemma view_obs:
  assumes "view sha A s = view sha A s'"
  shows "acct sha s = acct sha s'" and "a \<in> A \<Longrightarrow> storage sha s a = storage sha s' a"
proof -
  show "acct sha s = acct sha s'"
    using assms by (simp add: view_def acct_eq acct_data_def fun_eq_iff)
  show "a \<in> A \<Longrightarrow> storage sha s a = storage sha s' a"
    using assms by (auto simp: view_def storage_def fun_eq_iff split: if_splits dest: fun_cong)
qed

section \<open>The interpreter's view\<close>

interpretation statedb: storage_accessor "StateDB_accessor sha" "state_ok sha A" A "storage sha" "GetBalance sha"
  for sha A
proof unfold_locales
  fix s a b k v
  assume ok: "state_ok sha A s" and a: "a \<in> A"
  note ev = evolves_ok [OF evolves_cache [OF ok, of a]]
  show "fst (acc_GetStorage (StateDB_accessor sha) s a k) = storage sha s a k"
    and "state_ok sha A (snd (acc_GetStorage (StateDB_accessor sha) s a k))"
    using ev by (simp_all add: StateDB_accessor_def GetStorage_eq)
  show "state_ok sha A (acc_SetStorage (StateDB_accessor sha) s a k v)"
    by (simp add: StateDB_accessor_def evolves_ok [OF evolves_SetStorage [OF ok a]])
  assume b: "b \<in> A"
  show "storage sha (snd (acc_GetStorage (StateDB_accessor sha) s a k)) b = storage sha s b"
    and "GetBalance sha (snd (acc_GetStorage (StateDB_accessor sha) s a k)) b = GetBalance sha s b"
    by (simp_all add: StateDB_accessor_def GetStorage_eq GetBalance_eq)
  show "storage sha (acc_SetStorage (StateDB_accessor sha) s a k v) b =
      (if b = a then (storage sha s a)(k := v) else storage sha s b)"
    and "GetBalance sha (acc_SetStorage (StateDB_accessor sha) s a k v) b = GetBalance sha s b"
    by (simp_all add: StateDB_accessor_def GetBalance_eq storage_SetStorage [OF ok a b] acct_SetStorage [OF ok a b])
qed

lemma evolves_Execute:
  assumes "Execute (StateDB_accessor sha) ctx s = Some (r, s')" and "state_ok sha A s" and "ctx_Target ctx \<in> A"
  shows "evolves sha A s s'"
proof (rule Execute_preserves [where P = "evolves sha A s", OF assms(1) evolves_refl [OF assms(2)]])
  fix s1 k
  assume e: "evolves sha A s s1"
  from evolves_trans [OF e evolves_cache [OF evolves_ok [OF e]]]
  show "evolves sha A s (snd (acc_GetStorage (StateDB_accessor sha) s1 (ctx_Target ctx) k))"
    by (simp add: StateDB_accessor_def GetStorage_eq)
next
  fix s1 k v
  assume e: "evolves sha A s s1"
  from evolves_trans [OF e evolves_SetStorage [OF evolves_ok [OF e] assms(3)]]
  show "evolves sha A s (acc_SetStorage (StateDB_accessor sha) s1 (ctx_Target ctx) k v)"
    by (simp add: StateDB_accessor_def)
qed

lemma acct_Execute:
  assumes run: "Execute (StateDB_accessor sha) ctx s = Some (r, s')" and ok: "state_ok sha A s"
    and t: "ctx_Target ctx \<in> A" and b: "b \<in> A"
  shows "acct_Balance (acct sha s' b) = acct_Balance (acct sha s b) \<and>
    acct_Nonce (acct sha s' b) = acct_Nonce (acct sha s b) \<and>
    acct_CodeHash (acct sha s' b) = acct_CodeHash (acct sha s b) \<and> codes s' = codes s"
proof -
  let ?P = "\<lambda>s1. state_ok sha A s1 \<and> acct_Balance (acct sha s1 b) = acct_Balance (acct sha s b) \<and>
    acct_Nonce (acct sha s1 b) = acct_Nonce (acct sha s b) \<and>
    acct_CodeHash (acct sha s1 b) = acct_CodeHash (acct sha s b) \<and> codes s1 = codes s"
  have "?P s'"
  proof (rule Execute_preserves [where P = ?P, OF run])
    fix s1 k v
    assume P: "?P s1"
    then have ok1: "state_ok sha A s1" by simp
    show "?P (snd (acc_GetStorage (StateDB_accessor sha) s1 (ctx_Target ctx) k))"
      using P evolves_ok [OF evolves_cache [OF ok1]] by (simp add: StateDB_accessor_def GetStorage_eq)
    show "?P (acc_SetStorage (StateDB_accessor sha) s1 (ctx_Target ctx) k v)"
      using P evolves_ok [OF evolves_SetStorage [OF ok1 t]]
      by (simp add: StateDB_accessor_def acct_SetStorage [OF ok1 t b]) (simp add: SetStorage_mid)
  qed (use ok in simp)
  then show ?thesis by simp
qed

section \<open>Claims\<close>

text \<open>The mutations a transaction can make, as data.\<close>

datatype state_op = SopBalance address uint64 | SopStorage address hash256 hash256
  | SopRead address hash256 | SopCode address bytes | SopSnapshot

fun run_sop :: "hashfn \<Rightarrow> statedb \<Rightarrow> state_op \<Rightarrow> statedb" where
  "run_sop sha s (SopBalance a v) = SetBalance sha s a v"
| "run_sop sha s (SopStorage a k v) = SetStorage sha s a k v"
| "run_sop sha s (SopRead a k) = snd (GetStorage sha s a k)"
| "run_sop sha s (SopCode a c) = SetCode sha s a c"
| "run_sop sha s SopSnapshot = snd (Snapshot s)"

fun sop_addrs :: "state_op \<Rightarrow> address set" where
  "sop_addrs (SopBalance a v) = {a}"
| "sop_addrs (SopStorage a k v) = {a}"
| "sop_addrs (SopRead a k) = {a}"
| "sop_addrs (SopCode a c) = {a}"
| "sop_addrs SopSnapshot = {}"

lemma evolves_sop:
  "state_ok sha A s \<Longrightarrow> sop_addrs x \<subseteq> A \<Longrightarrow> evolves sha A s (run_sop sha s x)"
  by (cases x) (simp_all add: SetBalance_def evolves_SetAccount evolves_SetStorage GetStorage_eq
      evolves_cache evolves_SetCode evolves_Snapshot)

lemma evolves_sops:
  "state_ok sha A s \<Longrightarrow> \<forall>x\<in>set xs. sop_addrs x \<subseteq> A \<Longrightarrow> evolves sha A s (foldl (run_sop sha) s xs)"
proof (induction xs arbitrary: s)
  case (Cons x xs)
  have e: "evolves sha A s (run_sop sha s x)" using Cons.prems by (simp add: evolves_sop)
  with Cons.IH [OF evolves_ok [OF e]] Cons.prems show ?case by (auto intro: evolves_trans)
qed (simp add: evolves_refl)

lemma mem_ops:
  "tree_mem (globalTrie s) \<Longrightarrow> tree_mem (globalTrie (SetAccount sha s a x))"
  "tree_mem (globalTrie s) \<Longrightarrow> tree_mem (globalTrie (undo_entry sha s e))"
  "tree_mem (globalTrie s) \<Longrightarrow> tree_mem (globalTrie (run_sop sha s q))"
proof -
  show set: "tree_mem (globalTrie s) \<Longrightarrow> tree_mem (globalTrie (SetAccount sha s a x))" for s a x
    by (simp add: SetAccount_def tree_mem_put)
  show "tree_mem (globalTrie s) \<Longrightarrow> tree_mem (globalTrie (undo_entry sha s e))"
    by (cases e) (auto simp: tree_mem_put tree_mem_del getStorageTrie_eq split: option.split)
  have "globalTrie (mid_stor sha s a k v) = globalTrie s" for a k v
    by (simp add: mid_stor_def write_stor_def)
  then show "tree_mem (globalTrie s) \<Longrightarrow> tree_mem (globalTrie (run_sop sha s q))"
    by (cases q) (simp_all add: SetBalance_def SetStorage_mid GetStorage_eq SetCode_def Snapshot_def
        Journal_Snapshot_def Let_def set)
qed

lemma mem_folds:
  "tree_mem (globalTrie s) \<Longrightarrow> tree_mem (globalTrie (foldl (run_sop sha) s xs))"
  "tree_mem (globalTrie s) \<Longrightarrow> tree_mem (globalTrie (foldl (undo_entry sha) s es))"
  by (induction xs arbitrary: s, simp_all add: mem_ops) (induction es arbitrary: s, simp_all add: mem_ops)

text \<open>C12: whatever balances, storage slots and code a transaction writes after a snapshot, nested
  snapshots included, reverting to that snapshot restores every account, the storage of every
  contract and the journal; when the global trie is in memory, the state root is the one before.\<close>

theorem revert_restores_state:
  assumes "state_ok sha A s" and "Snapshot s = (i, s0)" and "\<forall>x\<in>set xs. sop_addrs x \<subseteq> A"
    and "s' = RevertToSnapshot sha (foldl (run_sop sha) s0 xs) i"
  shows "state_ok sha A s' \<and> GetOrCreateAccount sha s' = GetOrCreateAccount sha s \<and>
    (\<forall>a\<in>A. \<forall>k. fst (GetStorage sha s' a k) = fst (GetStorage sha s a k)) \<and> journal s' = journal s \<and>
    (tree_mem (globalTrie s) \<longrightarrow> state_Root sha s' = state_Root sha s)"
proof -
  let ?s1 = "foldl (run_sop sha) s0 xs"
  have s0: "s0 = snd (Snapshot s)" using assms(2) by simp
  have ok0: "state_ok sha A s0" unfolding s0 by (rule evolves_ok [OF evolves_Snapshot [OF assms(1)]])
  have ev: "evolves sha A s0 ?s1" by (rule evolves_sops [OF ok0 assms(3)])
  note r = revert_undoes [OF assms(1,2) ev, folded assms(4)]
  have "state_Root sha s' = state_Root sha s" if mem: "tree_mem (globalTrie s)"
  proof -
    have "tree_mem (globalTrie s0)" using mem by (simp add: s0 Snapshot_def Journal_Snapshot_def)
    then have "tree_mem (globalTrie s')"
      using mem_folds unfolding assms(4) RevertToSnapshot_def by (simp add: Let_def)
    moreover have "tree_look (globalTrie s') = tree_look (globalTrie s)"
      using r(2) by (simp add: view_def)
    ultimately show ?thesis
      unfolding state_Root_def tree_Root_def using mem
      by (metis canonical_unique tree_mem_def tree_mem_look)
  qed
  then show ?thesis
    using r view_obs [OF r(2)] by (simp add: GetStorage_eq)
qed

text \<open>A fresh database is well-formed; big-endian reading is a hash without collisions on addresses.\<close>

lemma state_ok_New:
  assumes "inj_on (acct_key sha) A"
  shows "state_ok sha A (NewStateDB st)"
proof -
  have "tree_ok sha (NewTree m)" for m by (rule tree_mem_ok) simp
  moreover have "storage_trie sha (NewStateDB st) a = NewTree Map.empty" for a
    by (simp add: storage_trie_def load_trie_def GetAccount_def decode_acct_def acct_data_def NewStateDB_def)
  ultimately show ?thesis using assms by (simp add: state_ok_def) (simp add: NewStateDB_def)
qed

lemma inj_acct_key_be_word: "inj_on (acct_key be_word) A"
proof (rule inj_onI)
  fix a b
  assume "acct_key be_word a = acct_key be_word b"
  then have "be_bytes 20 (be_word (addr_bytes a) :: hash256) = be_bytes 20 (be_word (addr_bytes b) :: hash256)"
    by (simp add: acct_key_def)
  then show "a = b" by simp
qed

lemmas state_ok_toy = state_ok_New [OF inj_acct_key_be_word]

theorem revert_restores_state_witness:
  "GetOrCreateAccount be_word (RevertToSnapshot be_word (foldl (run_sop be_word)
      (snd (Snapshot (NewStateDB Map.empty))) [SopBalance 5 9, SopStorage 7 1 3, SopSnapshot, SopCode 7 [1]]) 0)
   = GetOrCreateAccount be_word (NewStateDB Map.empty)"
proof -
  have snap: "Snapshot (NewStateDB Map.empty) = (0, snd (Snapshot (NewStateDB Map.empty)))"
    by (simp add: Snapshot_def Journal_Snapshot_def NewStateDB_def NewJournal_def)
  show ?thesis
    using revert_restores_state [OF state_ok_toy [of UNIV Map.empty] snap _ refl,
        of "[SopBalance 5 9, SopStorage 7 1 3, SopSnapshot, SopCode 7 [1]]"] by simp
qed

text \<open>C13: running contract code on the state database refines running it on plain storage: the result
  (gas, success, error or panic) is the same, and after a run the slots read back are those the
  plain run left.\<close>

theorem vm_on_statedb_refines:
  assumes "state_ok sha A s" and "ctx_Target ctx \<in> A"
  shows "case Execute (StateDB_accessor sha) ctx s of
      None \<Rightarrow> Execute flat_acc ctx (storage sha s) = None
    | Some (r, s') \<Rightarrow> (\<exists>f. Execute flat_acc ctx (storage sha s) = Some (r, f) \<and>
        (\<forall>a\<in>A. \<forall>k. fst (GetStorage sha s' a k) = f a k))"
proof -
  have "rel_option (rel_prod (=) (statedb.sim sha A (GetBalance sha s)))
      (Execute (StateDB_accessor sha) ctx s) (Execute flat_acc ctx (storage sha s))"
    by (rule statedb.Execute_sim [OF assms]) simp_all
  then show ?thesis
    by (auto simp: GetStorage_eq statedb.sim_def fun_eq_iff elim!: option.rel_cases split: option.split)
qed

theorem vm_on_statedb_refines_witness:
  "case Execute (StateDB_accessor be_word) (ctx_of [OpPush, 1, 5, OpDup, OpAdd] 100) (NewStateDB Map.empty) of
     None \<Rightarrow> Execute flat_acc (ctx_of [OpPush, 1, 5, OpDup, OpAdd] 100) (storage be_word (NewStateDB Map.empty)) = None
   | Some (r, s') \<Rightarrow> (\<exists>f. Execute flat_acc (ctx_of [OpPush, 1, 5, OpDup, OpAdd] 100)
         (storage be_word (NewStateDB Map.empty)) = Some (r, f) \<and>
       (\<forall>a\<in>UNIV. \<forall>k. fst (GetStorage be_word s' a k) = f a k))"
  by (rule vm_on_statedb_refines [OF state_ok_toy UNIV_I])

text \<open>C14: contract code reaches nothing but the storage of its own contract: no balance changes, and no
  slot of another address.\<close>

theorem contract_isolation:
  assumes "Execute (StateDB_accessor sha) ctx s = Some (r, s')" and "state_ok sha A s"
    and "ctx_Target ctx \<in> A" and "b \<in> A"
  shows "GetBalance sha s' b = GetBalance sha s b \<and>
    (b \<noteq> ctx_Target ctx \<longrightarrow> fst (GetStorage sha s' b k) = fst (GetStorage sha s b k))"
  using statedb.Execute_keeps [OF assms(1-3)] assms(4) by (simp add: GetStorage_eq)

lemma toy_sstore_run:
  "\<exists>r s'. Execute (StateDB_accessor be_word) (ctx_of [OpPush, 1, 5, OpPush, 1, 1, OpSstore] 5000) (NewStateDB Map.empty) = Some (r, s')"
  by (simp add: vm_eval StateDB_accessor_def)

theorem contract_isolation_witness:
  "\<exists>r s'. Execute (StateDB_accessor be_word) (ctx_of [OpPush, 1, 5, OpPush, 1, 1, OpSstore] 5000) (NewStateDB Map.empty) = Some (r, s') \<and>
     fst (GetStorage be_word s' 3 1) = fst (GetStorage be_word (NewStateDB Map.empty) 3 1)"
proof -
  obtain r s' where run: "Execute (StateDB_accessor be_word)
      (ctx_of [OpPush, 1, 5, OpPush, 1, 1, OpSstore] 5000) (NewStateDB Map.empty) = Some (r, s')"
    using toy_sstore_run by blast
  from contract_isolation [OF run state_ok_toy UNIV_I UNIV_I, of 3 1] show ?thesis
    using run by (auto simp: ctx_of_def)
qed

end
