(* ===== verification/Tyl_Slots.thy ===== *)
theory Tyl_Slots
  imports Tyl_State_Facts
begin

text \<open>
  Contract storage as 64-bit slots: the helpers \<open>putUint64\<close>, \<open>getUint64\<close>,
  \<open>readStorageUint64\<close> and \<open>writeStorageUint64\<close> of \<open>internal/executor/executor.go\<close>, and the
  interface through which the native handlers of the executor use them.
\<close>

definition putUint64 :: "uint64 \<Rightarrow> hash256" where
  "putUint64 v = be_word (replicate 24 0 @ uint64ToBytes v)"

definition getUint64 :: "hash256 \<Rightarrow> uint64" where
  "getUint64 h = be_word (drop 24 (hash_bytes h))"

definition readStorageUint64 :: "hashfn \<Rightarrow> statedb \<Rightarrow> address \<Rightarrow> uint64 \<Rightarrow> uint64 \<times> statedb" where
  "readStorageUint64 sha s addr slot =
     (let (val, s) = GetStorage sha s addr (putUint64 slot) in (getUint64 val, s))"

definition writeStorageUint64 :: "hashfn \<Rightarrow> statedb \<Rightarrow> address \<Rightarrow> uint64 \<Rightarrow> uint64 \<Rightarrow> statedb" where
  "writeStorageUint64 sha s addr slot val = SetStorage sha s addr (putUint64 slot) (putUint64 val)"

text \<open>The byte-wise helpers agree with the conversions of the interpreter.\<close>

lemma be_word_zeros: "be_word (replicate n 0 @ bs) = be_word bs"
proof -
  have "foldl (\<lambda>acc b. push_bit 8 acc OR ucast b) (0 :: 'a word) (replicate n (0 :: byte)) = 0"
    by (induction n) simp_all
  then show ?thesis by (simp add: be_word_def)
qed

lemma be_word_bytes8: "be_word (be_bytes 8 v) = (ucast v :: hash256)" for v :: uint64
proof (rule bit_eqI)
  fix i
  assume "possible_bit TYPE(hash256) i"
  show "bit (be_word (be_bytes 8 v) :: hash256) i \<longleftrightarrow> bit (ucast v :: hash256) i"
  proof (cases "i < 64")
    case True
    then have "i div 8 < 8" "7 - (7 - i div 8) = i div 8" by simp_all
    with True show ?thesis by (simp add: bit_be_word be_bytes_nth bit_simps)
  next
    case False
    then show ?thesis by (auto simp: bit_be_word bit_simps dest: bit_imp_le_length)
  qed
qed

lemma putUint64_eq: "putUint64 v = slot_hash v"
  by (simp add: putUint64_def uint64ToBytes_eq be_word_zeros be_word_bytes8 slot_hash_def)

lemma getUint64_eq: "getUint64 h = hash_slot h"
proof -
  have "drop 24 (hash_bytes h) = be_bytes 8 h"
    using drop_be_bytes [of 8 32 h] by (simp add: hash_bytes_def)
  moreover have "be_word (be_bytes 8 h) = (ucast h :: uint64)"
  proof (rule bit_eqI)
    fix i
    assume "possible_bit TYPE(uint64) i"
    then have "i < 64" by simp
    moreover from this have "i div 8 < 8" "7 - (7 - i div 8) = i div 8" by simp_all
    ultimately show "bit (be_word (be_bytes 8 h) :: uint64) i \<longleftrightarrow> bit (ucast h :: uint64) i"
      by (simp add: bit_be_word be_bytes_nth bit_simps)
  qed
  ultimately show ?thesis by (simp add: getUint64_def hash_slot_def)
qed

lemma hash_slot_slot_hash [simp]: "hash_slot (slot_hash v) = v"
  unfolding hash_slot_def slot_hash_def by (rule bit_eqI) (simp add: bit_simps)

lemma slot_hash_inject [simp]: "slot_hash a = slot_hash b \<longleftrightarrow> a = b"
  by (metis hash_slot_slot_hash)

section \<open>The interface\<close>

text \<open>A store of slots: a read returns the slot and keeps everything, a write changes one slot; what
  else the state holds is the frame, which neither changes.\<close>

locale slot_store =
  fixes rd :: "'s \<Rightarrow> uint64 \<Rightarrow> uint64 \<times> 's" and wr :: "'s \<Rightarrow> uint64 \<Rightarrow> uint64 \<Rightarrow> 's"
    and invar :: "'s \<Rightarrow> bool" and slots :: "'s \<Rightarrow> uint64 \<Rightarrow> uint64" and frame :: "'s \<Rightarrow> 'f"
  assumes rd_val: "invar s \<Longrightarrow> fst (rd s k) = slots s k"
    and rd_keeps: "invar s \<Longrightarrow> invar (snd (rd s k)) \<and> slots (snd (rd s k)) = slots s \<and> frame (snd (rd s k)) = frame s"
    and wr_invar: "invar s \<Longrightarrow> invar (wr s k v)"
    and wr_slots: "invar s \<Longrightarrow> slots (wr s k v) = (slots s)(k := v)"
    and wr_frame: "invar s \<Longrightarrow> frame (wr s k v) = frame s"
begin

text \<open>A sequence of writes.\<close>

definition write_all :: "'s \<Rightarrow> (uint64 \<times> uint64) list \<Rightarrow> 's" where
  "write_all s kvs = foldl (\<lambda>s (k, v). wr s k v) s kvs"

lemma write_all_simps [simp]:
  "write_all s [] = s" "write_all s ((k, v) # kvs) = write_all (wr s k v) kvs"
  by (simp_all add: write_all_def)

lemma write_all_keeps: "invar s \<Longrightarrow> invar (write_all s kvs) \<and> frame (write_all s kvs) = frame s"
  by (induction kvs arbitrary: s) (auto simp: wr_invar wr_frame)

lemma write_all_slots:
  "invar s \<Longrightarrow> slots (write_all s kvs) = foldl (\<lambda>f (k, v). f(k := v)) (slots s) kvs"
  by (induction kvs arbitrary: s) (auto simp: wr_invar wr_slots)

lemma write_all_other:
  assumes "invar s" and "k \<notin> fst ` set kvs"
  shows "slots (write_all s kvs) k = slots s k"
proof -
  have "k \<notin> fst ` set kvs \<Longrightarrow> foldl (\<lambda>f (k, v). f(k := v)) f kvs k = f k" for f
    by (induction kvs arbitrary: f) auto
  with assms show ?thesis by (simp add: write_all_slots)
qed

end

section \<open>The database as a slot store\<close>

definition slot_of :: "hashfn \<Rightarrow> statedb \<Rightarrow> address \<Rightarrow> uint64 \<Rightarrow> uint64" where
  "slot_of sha s a k = hash_slot (storage sha s a (slot_hash k))"

text \<open>What an account is besides its storage root.\<close>

definition core :: "account \<Rightarrow> uint64 \<times> uint64 \<times> hash256" where
  "core x = (acct_Nonce x, acct_Balance x, acct_CodeHash x)"

lemma core_eq_iff:
  "core x = core y \<longleftrightarrow> acct_Nonce x = acct_Nonce y \<and> acct_Balance x = acct_Balance y \<and> acct_CodeHash x = acct_CodeHash y"
  by (simp add: core_def)

definition rest_of :: "hashfn \<Rightarrow> address set \<Rightarrow> address \<Rightarrow> statedb \<Rightarrow>
    (address \<Rightarrow> (uint64 \<times> uint64 \<times> hash256) option) \<times> (address \<Rightarrow> hash256 \<Rightarrow> hash256) \<times> (hash256 \<rightharpoonup> bytes)" where
  "rest_of sha A a s =
     (\<lambda>b. if b \<in> A then Some (core (acct sha s b)) else None,
      \<lambda>b. if b \<in> A \<and> b \<noteq> a then storage sha s b else (\<lambda>_. 0), codes s)"

lemma rest_of_eq_iff:
  "rest_of sha A a s' = rest_of sha A a s \<longleftrightarrow>
     (\<forall>b\<in>A. core (acct sha s' b) = core (acct sha s b)) \<and>
     (\<forall>b\<in>A. b \<noteq> a \<longrightarrow> storage sha s' b = storage sha s b) \<and> codes s' = codes s"
  by (auto simp: rest_of_def fun_eq_iff)

lemma cache_cache [simp]: "cache_trie sha (cache_trie sha s a) a = cache_trie sha s a"
proof -
  have "cache_trie sha (cache_trie sha s a) a = (cache_trie sha s a)
      \<lparr>storageTries := (storageTries (cache_trie sha s a))(a \<mapsto> storage_trie sha s a)\<rparr>"
    unfolding cache_trie_eq [of sha "cache_trie sha s a"] by simp
  then show ?thesis by (simp add: cache_trie_eq)
qed

lemma slot_cache [simp]: "slot_of sha (cache_trie sha s a) = slot_of sha s"
  by (simp add: slot_of_def fun_eq_iff)

lemma readStorageUint64_eq: "readStorageUint64 sha s a k = (slot_of sha s a k, cache_trie sha s a)"
  by (simp add: readStorageUint64_def GetStorage_eq putUint64_eq getUint64_eq slot_of_def)

lemma writeStorageUint64_eq: "writeStorageUint64 sha s a k v = SetStorage sha s a (slot_hash k) (slot_hash v)"
  by (simp add: writeStorageUint64_def putUint64_eq)

lemma SetStorage_codes [simp]: "codes (SetStorage sha s a k v) = codes s"
  by (simp add: SetStorage_mid)

interpretation state_slots: slot_store "\<lambda>s. readStorageUint64 sha s a" "\<lambda>s. writeStorageUint64 sha s a"
  "\<lambda>s. state_ok sha A s \<and> a \<in> A" "\<lambda>s. slot_of sha s a" "rest_of sha A a" for sha A a
proof unfold_locales
  fix s k v
  assume ok: "state_ok sha A s \<and> a \<in> A"
  then have s: "state_ok sha A s" and a: "a \<in> A" by simp_all
  show "fst (readStorageUint64 sha s a k) = slot_of sha s a k"
    by (simp add: readStorageUint64_eq)
  show "(state_ok sha A (snd (readStorageUint64 sha s a k)) \<and> a \<in> A) \<and>
      slot_of sha (snd (readStorageUint64 sha s a k)) a = slot_of sha s a \<and>
      rest_of sha A a (snd (readStorageUint64 sha s a k)) = rest_of sha A a s"
    using evolves_ok [OF evolves_cache [OF s]] a by (simp add: readStorageUint64_eq rest_of_eq_iff)
  show "state_ok sha A (writeStorageUint64 sha s a k v) \<and> a \<in> A"
    using evolves_ok [OF evolves_SetStorage [OF s a]] a by (simp add: writeStorageUint64_eq)
  show "slot_of sha (writeStorageUint64 sha s a k v) a = (slot_of sha s a)(k := v)"
    by (auto simp: writeStorageUint64_eq slot_of_def fun_eq_iff storage_SetStorage [OF s a a])
  show "rest_of sha A a (writeStorageUint64 sha s a k v) = rest_of sha A a s"
    by (simp add: writeStorageUint64_eq rest_of_eq_iff core_eq_iff acct_SetStorage [OF s a] storage_SetStorage [OF s a])
qed

lemma evolves_writeStorageUint64:
  "state_ok sha A s \<Longrightarrow> a \<in> A \<Longrightarrow> evolves sha A s (writeStorageUint64 sha s a k v)"
  by (simp add: writeStorageUint64_eq evolves_SetStorage)

lemma evolves_write_all:
  "state_ok sha A s \<Longrightarrow> a \<in> A \<Longrightarrow> evolves sha A s (state_slots.write_all sha a s kvs)"
proof (induction kvs arbitrary: s)
  case (Cons kv kvs)
  obtain k v where kv: "kv = (k, v)" by (cases kv)
  have e: "evolves sha A s (writeStorageUint64 sha s a k v)"
    by (rule evolves_writeStorageUint64 [OF Cons.prems])
  from evolves_trans [OF e Cons.IH [OF evolves_ok [OF e] Cons.prems(2)]] show ?case by (simp add: kv)
qed (simp add: evolves_refl)

end
