(* ===== verification/Tyl_Crypto.thy ===== *)
theory Tyl_Crypto
  imports Tyl_Types
begin

text \<open>
  The package \<open>pkg/crypto\<close>: the recovery of a signer from a 64-byte compact signature, and the
  conversion between the compact form and DER. The curve arithmetic is the third-party package
  \<open>decred/dcrd/dcrec/secp256k1\<close>: its entry points are the fields of the record \<open>extern\<close>, beside
  the two hash functions, and a public key is its 33-byte compressed form.
\<close>

record extern =
  sha256 :: "bytes \<Rightarrow> hash256"
  ripemd160 :: "bytes \<Rightarrow> address"
  RecoverCompact :: "bytes \<Rightarrow> bytes \<Rightarrow> bytes option"
  ecdsa_Sign :: "bytes \<Rightarrow> bytes \<Rightarrow> bytes option"
  ecdsa_VerifyDER :: "bytes \<Rightarrow> bytes \<Rightarrow> bytes \<Rightarrow> bool"

definition sig_bytes :: "512 word \<Rightarrow> bytes" where
  "sig_bytes sig = be_bytes 64 sig"

text \<open>The recoverable form \<open>[flag | R | S]\<close>.\<close>

definition compact65 :: "byte \<Rightarrow> 512 word \<Rightarrow> bytes" where
  "compact65 flag sig = flag # take 32 (sig_bytes sig) @ drop 32 (sig_bytes sig)"

definition recovery_flags :: bytes where
  "recovery_flags = [27 + 4, 28 + 4]"

definition recovered :: "extern \<Rightarrow> hash256 \<Rightarrow> 512 word \<Rightarrow> byte \<Rightarrow> address option" where
  "recovered x hash sig flag =
     map_option (PubKeyToAddress (sha256 x) (ripemd160 x))
       (RecoverCompact x (compact65 flag sig) (hash_bytes hash))"

fun recover_loop :: "(byte \<Rightarrow> address option) \<Rightarrow> bytes \<Rightarrow> address option" where
  "recover_loop f [] = None"
| "recover_loop f (flag # flags) = (case f flag of None \<Rightarrow> recover_loop f flags | Some addr \<Rightarrow> Some addr)"

definition RecoverAddress :: "extern \<Rightarrow> hash256 \<Rightarrow> 512 word \<Rightarrow> address option" where
  "RecoverAddress x hash sig = recover_loop (recovered x hash sig) recovery_flags"

fun verify_loop :: "(byte \<Rightarrow> address option) \<Rightarrow> address \<Rightarrow> bytes \<Rightarrow> bool" where
  "verify_loop f claimed [] = False"
| "verify_loop f claimed (flag # flags) =
     (case f flag of
        None \<Rightarrow> verify_loop f claimed flags
      | Some addr \<Rightarrow> if addr = claimed then True else verify_loop f claimed flags)"

definition VerifySender :: "extern \<Rightarrow> hash256 \<Rightarrow> 512 word \<Rightarrow> address \<Rightarrow> bool" where
  "VerifySender x hash sig claimed = verify_loop (recovered x hash sig) claimed recovery_flags"

section \<open>DER\<close>

datatype der_error = DerTooShort | ExpectedR | ExpectedS | DerPanic

function stripLeadingZeros :: "bytes \<Rightarrow> bytes" where
  "stripLeadingZeros b = (if length b > 1 \<and> b ! 0 = 0 then stripLeadingZeros (drop 1 b) else b)"
  by pat_completeness auto
termination by (relation "measure length") auto

declare stripLeadingZeros.simps [simp del]

definition sign_byte :: "bytes \<Rightarrow> bytes" where
  "sign_byte r = (if length r > 0 \<and> (r ! 0) AND 0x80 \<noteq> 0 then 0 # r else r)"

definition compactToDER :: "bytes \<Rightarrow> bytes \<Rightarrow> bytes" where
  "compactToDER r s =
     (let r = sign_byte (stripLeadingZeros r);
          s = sign_byte (stripLeadingZeros s);
          totalLen = 2 + length r + 2 + length s
      in [0x30, of_nat totalLen] @ [0x02, of_nat (length r)] @ r @ [0x02, of_nat (length s)] @ s)"

text \<open>\<open>copy(result[32-len(r):32], r)\<close> on a zeroed buffer, for at most 32 bytes.\<close>

definition left_pad :: "bytes \<Rightarrow> bytes" where
  "left_pad r =
     (let r = (if length r > 32 then drop (length r - 32) r else r)
      in replicate (32 - length r) 0 @ r)"

text \<open>The indexing \<open>der[pos]\<close> and slicing \<open>der[pos:pos+n]\<close> outside the signature are panics.\<close>

definition parseDERToCompact :: "bytes \<Rightarrow> der_error + bytes" where
  "parseDERToCompact der =
     (if length der < 8 then Inl DerTooShort
      else let pos = 2 in
        if der ! pos \<noteq> 0x02 then Inl ExpectedR
        else let rLen = unat (der ! (pos + 1)); pos = pos + 2 in
          if length der < pos + rLen then Inl DerPanic
          else let r = slice pos rLen der; pos = pos + rLen in
            if length der \<le> pos then Inl DerPanic
            else if der ! pos \<noteq> 0x02 then Inl ExpectedS
            else if length der \<le> pos + 1 then Inl DerPanic
            else let sLen = unat (der ! (pos + 1)); pos = pos + 2 in
              if length der < pos + sLen then Inl DerPanic
              else Inr (left_pad r @ left_pad (slice pos sLen der)))"

definition Sign :: "extern \<Rightarrow> hash256 \<Rightarrow> bytes \<Rightarrow> der_error option + 512 word" where
  "Sign x hash key =
     (case ecdsa_Sign x key (hash_bytes hash) of
        None \<Rightarrow> Inl None
      | Some der \<Rightarrow> (case parseDERToCompact der of Inl e \<Rightarrow> Inl (Some e) | Inr parsed \<Rightarrow> Inr (be_word parsed)))"

definition Verify :: "extern \<Rightarrow> hash256 \<Rightarrow> 512 word \<Rightarrow> bytes \<Rightarrow> bool" where
  "Verify x hash sig pub =
     ecdsa_VerifyDER x (compactToDER (take 32 (sig_bytes sig)) (drop 32 (sig_bytes sig))) (hash_bytes hash) pub"

section \<open>Facts\<close>

lemma strip_pad:
  "replicate (length b - length (stripLeadingZeros b)) 0 @ stripLeadingZeros b = b \<and>
   length (stripLeadingZeros b) \<le> length b"
proof (induction b rule: stripLeadingZeros.induct)
  case (1 b)
  show ?case
  proof (cases "length b > 1 \<and> b ! 0 = 0")
    case True
    then obtain c where b: "b = 0 # c" by (cases b) auto
    with True "1.IH" have "replicate (length c - length (stripLeadingZeros c)) 0 @ stripLeadingZeros c = c"
      and le: "length (stripLeadingZeros c) \<le> length c" by simp_all
    moreover have "stripLeadingZeros b = stripLeadingZeros c"
      using True by (simp add: stripLeadingZeros.simps [of "0 # c"] b)
    ultimately show ?thesis by (simp add: b Suc_diff_le)
  next
    case False
    then have "stripLeadingZeros b = b" by (subst stripLeadingZeros.simps) (simp only: if_False)
    then show ?thesis by simp
  qed
qed

lemma strip_nonempty: "b \<noteq> [] \<Longrightarrow> stripLeadingZeros b \<noteq> []"
proof (induction b rule: stripLeadingZeros.induct)
  case (1 b)
  then show ?case by (cases "length b > 1 \<and> b ! 0 = 0") (auto simp: stripLeadingZeros.simps [of b])
qed

lemma left_pad_sign_strip:
  assumes "length r = 32"
  shows "left_pad (sign_byte (stripLeadingZeros r)) = r" and "length (sign_byte (stripLeadingZeros r)) \<le> 33"
proof -
  let ?r = "stripLeadingZeros r"
  have p: "replicate (32 - length ?r) 0 @ ?r = r" and le: "length ?r \<le> 32"
    using strip_pad [of r] assms by simp_all
  show "length (sign_byte ?r) \<le> 33" using le by (simp add: sign_byte_def)
  show "left_pad (sign_byte ?r) = r"
  proof (cases "length ?r = 32")
    case True
    then show ?thesis using p by (simp add: sign_byte_def left_pad_def)
  next
    case False
    then have "length ?r < 32" using le by simp
    moreover have "replicate (32 - Suc (length ?r)) (0 :: byte) @ 0 # ?r = replicate (32 - length ?r) 0 @ ?r"
      using \<open>length ?r < 32\<close> by (metis Suc_diff_Suc replicate_Suc replicate_append_same append_Cons append_assoc append_Nil)
    ultimately show ?thesis using p by (simp add: sign_byte_def left_pad_def)
  qed
qed

lemma unat_byte_small: "n < 256 \<Longrightarrow> unat (of_nat n :: byte) = n"
  by (simp add: unat_of_nat)

text \<open>Converting a compact signature to DER and back gives the same 64 bytes, for every value of
  \<open>r\<close> and \<open>s\<close>, leading zeros and high bits included.\<close>

theorem der_roundtrip:
  assumes "length r = 32" and "length s = 32"
  shows "parseDERToCompact (compactToDER r s) = Inr (r @ s)"
proof -
  let ?r = "sign_byte (stripLeadingZeros r)" and ?s = "sign_byte (stripLeadingZeros s)"
  note pr = left_pad_sign_strip [OF assms(1)] and ps = left_pad_sign_strip [OF assms(2)]
  have ne: "0 < length (sign_byte (stripLeadingZeros b))" if "length b = 32" for b
  proof -
    have "stripLeadingZeros b \<noteq> []" using that by (intro strip_nonempty) auto
    then show ?thesis by (simp add: sign_byte_def)
  qed
  have two: "\<not> length ?r + length ?s < 2"
    using ne [OF assms(1)] ne [OF assms(2)] by linarith
  have u: "unat (of_nat (length ?r) :: byte) = length ?r" "unat (of_nat (length ?s) :: byte) = length ?s"
    using pr(2) ps(2) by (simp_all add: unat_byte_small)
  have at: "der ! (4 + length ?r) = 0x02" "der ! (5 + length ?r) = of_nat (length ?s)"
      "slice 4 (length ?r) der = ?r" "slice (6 + length ?r) (length ?s) der = ?s"
      "length der = 6 + length ?r + length ?s" "der ! 2 = 0x02" "der ! 3 = of_nat (length ?r)"
    if "der = 0x30 # t # 0x02 # of_nat (length ?r) # ?r @ 0x02 # of_nat (length ?s) # ?s" for der t
    using that by (simp_all add: nth_append slice_def numeral_eq_Suc)
  show ?thesis
    unfolding parseDERToCompact_def compactToDER_def Let_def
    using at [OF refl] u ne [OF assms(1)] ne [OF assms(2)] pr(1) ps(1) two
    by (simp add: algebra_simps)
qed

theorem der_roundtrip_witness:
  "parseDERToCompact (compactToDER (0 # 0x80 # replicate 30 7) (0xFF # replicate 31 1)) =
     Inr ((0 # 0x80 # replicate 30 7) @ (0xFF # replicate 31 1))"
  by (rule der_roundtrip) simp_all

lemma VerifySender_iff:
  "VerifySender x hash sig a \<longleftrightarrow>
     recovered x hash sig (27 + 4) = Some a \<or> recovered x hash sig (28 + 4) = Some a"
  by (auto simp: VerifySender_def recovery_flags_def split: option.splits)

lemma RecoverAddress_verifies: "RecoverAddress x hash sig = Some a \<Longrightarrow> VerifySender x hash sig a"
  by (auto simp: VerifySender_def RecoverAddress_def recovery_flags_def split: option.splits)

end
