(* ===== verification/Tyl_HTLC.thy ===== *)
theory Tyl_HTLC
  imports Tyl_Slots Tyl_Crypto
begin

text \<open>
  The hash time-locked contracts of \<open>internal/executor/htlc.go\<close>, a native handler on the storage of
  the system address: \<open>lock\<close>, \<open>claim\<close>, \<open>refund\<close> and \<open>query\<close>, reading their arguments from the
  call-data slots 100 to 107 and keeping every contract in 14 slots from \<open>10000 + 14 * id\<close> on.

  A handler returns the error of the source or \<open>None\<close>, and the database. The first part is the
  model, the second states what it does to the slots and the balances, through an interface of
  64-bit slots that the database implements.
\<close>

section \<open>Slots\<close>

definition HTLCSystemAddress :: address where
  "HTLCSystemAddress = BytesToAddress [0, 0, 0, 0, 0, 0, 0, 0, 0, 0, 0, 0, 0, 0, 0, 0, 0, 0, 0, 1]"

definition readSlot :: "hashfn \<Rightarrow> statedb \<Rightarrow> uint64 \<Rightarrow> uint64 \<times> statedb" where
  "readSlot sha s slot =
     (let (val, s) = GetStorage sha s HTLCSystemAddress (slot_hash slot) in (hash_slot val, s))"

definition writeSlot :: "hashfn \<Rightarrow> statedb \<Rightarrow> uint64 \<Rightarrow> uint64 \<Rightarrow> statedb" where
  "writeSlot sha s slot val = SetStorage sha s HTLCSystemAddress (slot_hash slot) (slot_hash val)"

definition htlcSlotCounter :: uint64 where "htlcSlotCounter = 0"
definition htlcSlotBase :: uint64 where "htlcSlotBase = 10000"
definition htlcSlotStride :: uint64 where "htlcSlotStride = 14"
definition htlcStatusPending :: uint64 where "htlcStatusPending = 0"
definition htlcStatusClaimed :: uint64 where "htlcStatusClaimed = 1"
definition htlcStatusRefunded :: uint64 where "htlcStatusRefunded = 2"
definition HTLCFnLock :: uint64 where "HTLCFnLock = 1"
definition HTLCFnClaim :: uint64 where "HTLCFnClaim = 2"
definition HTLCFnRefund :: uint64 where "HTLCFnRefund = 3"
definition HTLCFnQuery :: uint64 where "HTLCFnQuery = 4"

lemmas htlc_consts = htlcSlotCounter_def htlcSlotBase_def htlcSlotStride_def htlcStatusPending_def
  htlcStatusClaimed_def htlcStatusRefunded_def HTLCFnLock_def HTLCFnClaim_def HTLCFnRefund_def HTLCFnQuery_def

section \<open>The handler\<close>

datatype htlc_error =
    UnknownFunction uint64 | LockZeroAmount | LockTimelockPast | HtlcNotExist uint64
  | HtlcNotPending uint64 uint64 | HtlcNotRecipient uint64 | HtlcBadPreimage uint64
  | HtlcSystemBalance uint64 | HtlcNotSender uint64 | HtlcNotExpired uint64

definition htlc_lock :: "hashfn \<Rightarrow> uint64 \<Rightarrow> transaction \<Rightarrow> uint64 \<Rightarrow> statedb \<Rightarrow> htlc_error option \<times> statedb" where
  "htlc_lock sha currentHeight tx senderID s =
     (let (recipientID, s) = readSlot sha s 101;
          (timelock, s) = readSlot sha s 102;
          (hw0, s) = readSlot sha s 104;
          (hw1, s) = readSlot sha s 105;
          (hw2, s) = readSlot sha s 106;
          (hw3, s) = readSlot sha s 107
      in if tx_Value tx = 0 then (Some LockZeroAmount, s)
         else if timelock \<le> currentHeight then (Some LockTimelockPast, s)
         else
           let (htlcID, s) = readSlot sha s htlcSlotCounter;
               s = writeSlot sha s htlcSlotCounter (htlcID + 1);
               base = htlcSlotBase + htlcID * htlcSlotStride;
               s = writeSlot sha s (base + 0) senderID;
               s = writeSlot sha s (base + 1) recipientID;
               s = writeSlot sha s (base + 2) (tx_Value tx);
               s = writeSlot sha s (base + 3) hw0;
               s = writeSlot sha s (base + 4) hw1;
               s = writeSlot sha s (base + 5) hw2;
               s = writeSlot sha s (base + 6) hw3;
               s = writeSlot sha s (base + 7) timelock;
               s = writeSlot sha s (base + 8) htlcStatusPending;
               s = writeSlot sha s 200 htlcID
           in (None, s))"

text \<open>The four words of a preimage or a hash lock in a 32-byte array.\<close>

definition words_hash :: "uint64 \<Rightarrow> uint64 \<Rightarrow> uint64 \<Rightarrow> uint64 \<Rightarrow> bytes" where
  "words_hash w0 w1 w2 w3 = be_bytes 8 w0 @ be_bytes 8 w1 @ be_bytes 8 w2 @ be_bytes 8 w3"

text \<open>The transfer out of the system account that \<open>claim\<close> and \<open>refund\<close> share.\<close>

definition pay_out :: "hashfn \<Rightarrow> uint64 \<Rightarrow> uint64 \<Rightarrow> address \<Rightarrow> statedb \<Rightarrow> htlc_error option \<times> statedb" where
  "pay_out sha htlcID amount to s =
     (let sysAcct = GetOrCreateAccount sha s HTLCSystemAddress
      in if acct_Balance sysAcct < amount then (Some (HtlcSystemBalance htlcID), s)
         else
           let s = SetAccount sha s HTLCSystemAddress (sysAcct\<lparr>acct_Balance := acct_Balance sysAcct - amount\<rparr>);
               toAcct = GetOrCreateAccount sha s to;
               s = SetAccount sha s to (toAcct\<lparr>acct_Balance := acct_Balance toAcct + amount\<rparr>)
           in (None, s))"

definition htlc_claim :: "hashfn \<Rightarrow> transaction \<Rightarrow> uint64 \<Rightarrow> statedb \<Rightarrow> htlc_error option \<times> statedb" where
  "htlc_claim sha tx callerID s =
     (let (htlcID, s) = readSlot sha s 101;
          (count, s) = readSlot sha s htlcSlotCounter
      in if count \<le> htlcID then (Some (HtlcNotExist htlcID), s)
         else
           let (pw0, s) = readSlot sha s 102;
               (pw1, s) = readSlot sha s 104;
               (pw2, s) = readSlot sha s 105;
               (pw3, s) = readSlot sha s 106;
               base = htlcSlotBase + htlcID * htlcSlotStride;
               (status, s) = readSlot sha s (base + 8)
           in if status \<noteq> htlcStatusPending then (Some (HtlcNotPending htlcID status), s)
              else
                let (recipientID, s) = readSlot sha s (base + 1)
                in if callerID \<noteq> recipientID then (Some (HtlcNotRecipient htlcID), s)
                   else
                     let hash = sha (words_hash pw0 pw1 pw2 pw3);
                         (hw0, s) = readSlot sha s (base + 3);
                         (hw1, s) = readSlot sha s (base + 4);
                         (hw2, s) = readSlot sha s (base + 5);
                         (hw3, s) = readSlot sha s (base + 6)
                     in if hash \<noteq> be_word (words_hash hw0 hw1 hw2 hw3) then (Some (HtlcBadPreimage htlcID), s)
                        else
                          let (amount, s) = readSlot sha s (base + 2)
                          in (case pay_out sha htlcID amount (tx_From tx) s of
                                (Some e, s) \<Rightarrow> (Some e, s)
                              | (None, s) \<Rightarrow>
                                  let s = writeSlot sha s (base + 8) htlcStatusClaimed;
                                      s = writeSlot sha s (base + 9) pw0;
                                      s = writeSlot sha s (base + 10) pw1;
                                      s = writeSlot sha s (base + 11) pw2;
                                      s = writeSlot sha s (base + 12) pw3
                                  in (None, s)))"

definition htlc_refund :: "hashfn \<Rightarrow> uint64 \<Rightarrow> transaction \<Rightarrow> uint64 \<Rightarrow> statedb \<Rightarrow> htlc_error option \<times> statedb" where
  "htlc_refund sha currentHeight tx callerID s =
     (let (htlcID, s) = readSlot sha s 101;
          (count, s) = readSlot sha s htlcSlotCounter
      in if count \<le> htlcID then (Some (HtlcNotExist htlcID), s)
         else
           let base = htlcSlotBase + htlcID * htlcSlotStride;
               (status, s) = readSlot sha s (base + 8)
           in if status \<noteq> htlcStatusPending then (Some (HtlcNotPending htlcID status), s)
              else
                let (senderID, s) = readSlot sha s (base + 0)
                in if callerID \<noteq> senderID then (Some (HtlcNotSender htlcID), s)
                   else
                     let (timelock, s) = readSlot sha s (base + 7)
                     in if currentHeight < timelock then (Some (HtlcNotExpired htlcID), s)
                        else
                          let (amount, s) = readSlot sha s (base + 2)
                          in (case pay_out sha htlcID amount (tx_From tx) s of
                                (Some e, s) \<Rightarrow> (Some e, s)
                              | (None, s) \<Rightarrow> (None, writeSlot sha s (base + 8) htlcStatusRefunded)))"

text \<open>One line of \<open>query\<close>: \<open>h.writeSlot(dst, h.readSlot(src))\<close>.\<close>

definition copySlot :: "hashfn \<Rightarrow> statedb \<Rightarrow> uint64 \<Rightarrow> uint64 \<Rightarrow> statedb" where
  "copySlot sha s dst src = (let (v, s) = readSlot sha s src in writeSlot sha s dst v)"

definition htlc_query :: "hashfn \<Rightarrow> statedb \<Rightarrow> htlc_error option \<times> statedb" where
  "htlc_query sha s =
     (let (htlcID, s) = readSlot sha s 101;
          (count, s) = readSlot sha s htlcSlotCounter
      in if count \<le> htlcID then (Some (HtlcNotExist htlcID), s)
         else
           let base = htlcSlotBase + htlcID * htlcSlotStride;
               s = copySlot sha s 200 (base + 0);
               s = copySlot sha s 201 (base + 1);
               s = copySlot sha s 202 (base + 2);
               s = copySlot sha s 203 (base + 7);
               s = copySlot sha s 204 (base + 8);
               s = copySlot sha s 205 (base + 9);
               s = copySlot sha s 206 (base + 10);
               s = copySlot sha s 207 (base + 11);
               s = copySlot sha s 208 (base + 12)
           in (None, s))"

definition processHTLC :: "hashfn \<Rightarrow> uint64 \<Rightarrow> transaction \<Rightarrow> statedb \<Rightarrow> htlc_error option \<times> statedb" where
  "processHTLC sha currentHeight tx s =
     (let (selector, s) = readSlot sha s 100;
          (callerID, s) = readSlot sha s 103
      in if selector = HTLCFnLock then htlc_lock sha currentHeight tx callerID s
         else if selector = HTLCFnClaim then htlc_claim sha tx callerID s
         else if selector = HTLCFnRefund then htlc_refund sha currentHeight tx callerID s
         else if selector = HTLCFnQuery then htlc_query sha s
         else (Some (UnknownFunction selector), s))"

end
