(* ===== verification/Tyl_Mempool.thy ===== *)
theory Tyl_Mempool
  imports Tyl_Types "HOL-Library.Multiset"
begin

text \<open>
  The package \<open>internal/mempool\<close> and the deterministic order of execution. \<open>sort.Slice\<close> of the
  standard library is modelled by the insertion sort it uses on short slices; the theorems show that
  when the comparison separates the elements every sorted rearrangement is the same list, so the
  result does not depend on the sorting algorithm nor on the order of arrival.
\<close>

section \<open>Sorting\<close>

text \<open>Moving an element left over the larger ones; the sorted prefix is held in reverse.\<close>

fun insert_left :: "('a \<Rightarrow> 'a \<Rightarrow> bool) \<Rightarrow> 'a \<Rightarrow> 'a list \<Rightarrow> 'a list" where
  "insert_left lt x [] = [x]"
| "insert_left lt x (y # ys) = (if lt x y then y # insert_left lt x ys else x # y # ys)"

definition sort_Slice :: "('a \<Rightarrow> 'a \<Rightarrow> bool) \<Rightarrow> 'a list \<Rightarrow> 'a list" where
  "sort_Slice lt xs = rev (foldl (\<lambda>pre x. insert_left lt x pre) [] xs)"

section \<open>The pool\<close>

record pool =
  pool_txs :: "transaction list"

definition Pool_New :: pool where
  "Pool_New = \<lparr>pool_txs = []\<rparr>"

definition Pool_Add :: "pool \<Rightarrow> transaction \<Rightarrow> pool" where
  "Pool_Add p tx = p\<lparr>pool_txs := pool_txs p @ [tx]\<rparr>"

definition Pool_Ordered :: "(bytes \<Rightarrow> hash256) \<Rightarrow> pool \<Rightarrow> transaction list" where
  "Pool_Ordered sha p = sort_Slice (TxLess sha) (pool_txs p)"

definition Pool_Len :: "pool \<Rightarrow> nat" where
  "Pool_Len p = length (pool_txs p)"

definition Pool_Clear :: "pool \<Rightarrow> pool" where
  "Pool_Clear p = p\<lparr>pool_txs := []\<rparr>"

section \<open>Correctness of the sort\<close>

lemma mset_insert_left: "mset (insert_left lt x ys) = add_mset x (mset ys)"
  by (induction ys) auto

lemma mset_sort_fold: "mset (foldl (\<lambda>pre x. insert_left lt x pre) ys xs) = mset ys + mset xs"
  by (induction xs arbitrary: ys) (auto simp: mset_insert_left)

lemma mset_sort_Slice [simp]: "mset (sort_Slice lt xs) = mset xs"
  by (simp add: sort_Slice_def mset_sort_fold)

lemma set_sort_Slice [simp]: "set (sort_Slice lt xs) = set xs"
  by (metis mset_sort_Slice set_mset_mset)

lemma length_sort_Slice [simp]: "length (sort_Slice lt xs) = length xs"
  by (metis mset_sort_Slice size_mset)

context weak_order
begin

abbreviation ordered :: "'a list \<Rightarrow> bool" where
  "ordered \<equiv> sorted_wrt (\<lambda>x y. \<not> less y x)"

lemma insert_left_sorted:
  "sorted_wrt (\<lambda>y x. \<not> less y x) ys \<Longrightarrow> sorted_wrt (\<lambda>y x. \<not> less y x) (insert_left less x ys)"
proof (induction ys)
  case (Cons y ys)
  have "set (insert_left less x ys) = insert x (set ys)"
    using mset_insert_left [of less x ys] by (metis set_mset_add_mset_insert set_mset_mset)
  then show ?case using Cons neg_trans asym by (auto; blast)
qed simp

lemma sort_Slice_ordered: "ordered (sort_Slice less xs)"
proof -
  have "sorted_wrt (\<lambda>y x. \<not> less y x) ys \<Longrightarrow>
      sorted_wrt (\<lambda>y x. \<not> less y x) (foldl (\<lambda>pre x. insert_left less x pre) ys xs)" for ys
    by (induction xs arbitrary: ys) (auto simp: insert_left_sorted)
  from this [of "[]"] show ?thesis by (simp add: sort_Slice_def sorted_wrt_rev)
qed

lemma ordered_unique:
  assumes "ordered xs" and "ordered ys" and "mset xs = mset ys"
    and "\<And>x y. x \<in> set xs \<Longrightarrow> y \<in> set xs \<Longrightarrow> x \<noteq> y \<Longrightarrow> less x y \<or> less y x"
  shows "xs = ys"
  using assms
proof (induction xs arbitrary: ys)
  case (Cons x xs)
  then obtain y zs where ys: "ys = y # zs" by (cases ys) auto
  have set: "set ys = set (x # xs)" using Cons.prems(3) by (metis set_mset_mset)
  have "x = y"
  proof (rule ccontr)
    assume ne: "x \<noteq> y"
    have "y \<in> set xs" and "x \<in> set zs" using set ne by (auto simp: ys)
    then have "\<not> less y x" and "\<not> less x y" using Cons.prems(1,2) by (auto simp: ys)
    then show False using Cons.prems(4) ne set by (auto simp: ys)
  qed
  then show ?case using Cons ys by auto
qed simp

end

text \<open>C16: the execution order of a block is a function of its set of transactions: when their
  identifiers are distinct, two nodes that saw the transactions in different orders execute the
  same list, and any other sorting algorithm gives it too.\<close>

theorem block_order_deterministic:
  assumes "mset xs = mset ys" and "inj_on (TxID sha) (set xs)"
    and "mset zs = mset xs" and "sorted_wrt (\<lambda>t u. \<not> TxLess sha u t) zs"
  shows "sort_Slice (TxLess sha) xs = sort_Slice (TxLess sha) ys \<and> sort_Slice (TxLess sha) xs = zs"
proof -
  have sets: "set zs = set xs" "set ys = set xs" using assms(1,3) by (metis set_mset_mset)+
  have sep: "TxLess sha t u \<or> TxLess sha u t" if "t \<in> set xs" "u \<in> set xs" "t \<noteq> u" for t u
    using TxLess_total [of sha t u] that assms(2) by (auto dest: inj_onD)
  have "sort_Slice (TxLess sha) vs = zs" if m: "mset vs = mset xs" for vs
  proof -
    have "set vs = set xs" using m by (rule mset_eq_setD)
    then show ?thesis
      by (intro tx_order.ordered_unique [OF tx_order.sort_Slice_ordered assms(4)])
        (use m assms(3) sep in auto)
  qed
  then show ?thesis using assms(1) by metis
qed

text \<open>The ordered pool is a rearrangement of the transactions added, dearer ones first, and
  among equally priced ones those of higher priority first.\<close>

theorem pool_ordered_by_price:
  "mset (Pool_Ordered sha p) = mset (pool_txs p) \<and>
   sorted_wrt (\<lambda>t u. tx_GasPrice u \<le> tx_GasPrice t \<and>
     (tx_GasPrice u = tx_GasPrice t \<longrightarrow> tx_Priority u \<le> tx_Priority t)) (Pool_Ordered sha p)"
proof -
  have "sorted_wrt (\<lambda>t u. \<not> TxLess sha u t) (Pool_Ordered sha p)"
    unfolding Pool_Ordered_def by (rule tx_order.sort_Slice_ordered)
  then have "sorted_wrt (\<lambda>t u. tx_GasPrice u \<le> tx_GasPrice t \<and>
     (tx_GasPrice u = tx_GasPrice t \<longrightarrow> tx_Priority u \<le> tx_Priority t)) (Pool_Ordered sha p)"
    by (rule sorted_wrt_mono_rel [rotated]) (auto simp: TxLess_def split: if_splits)
  then show ?thesis by (simp add: Pool_Ordered_def)
qed

definition sample_tx :: "uint64 \<Rightarrow> uint64 \<Rightarrow> transaction" where
  "sample_tx nonce price =
     \<lparr>tx_Version = 1, tx_Nonce = nonce, tx_From = 5, tx_To = 6, tx_Value = 0, tx_GasPrice = price,
      tx_GasLimit = 1000, tx_Priority = 0, tx_Data = [], tx_Signature = 0\<rparr>"

theorem pool_ordered_by_price_witness:
  "sorted_wrt (\<lambda>t u. tx_GasPrice u \<le> tx_GasPrice t \<and>
     (tx_GasPrice u = tx_GasPrice t \<longrightarrow> tx_Priority u \<le> tx_Priority t))
     (Pool_Ordered be_word (Pool_Add (Pool_Add Pool_New (sample_tx 0 3)) (sample_tx 1 7)))"
  using pool_ordered_by_price by blast

theorem block_order_deterministic_witness:
  "sort_Slice (TxLess (\<lambda>bs. if length bs = 32 then be_word bs else be_word (take 9 bs)))
     [sample_tx 0 3, sample_tx 1 7] =
   sort_Slice (TxLess (\<lambda>bs. if length bs = 32 then be_word bs else be_word (take 9 bs)))
     [sample_tx 1 7, sample_tx 0 3]"
proof -
  let ?sha = "\<lambda>bs. if length bs = 32 then be_word bs else be_word (take 9 bs) :: hash256"
  have "TxID ?sha (sample_tx n p) = be_word (1 # be_bytes 8 n)" for n p
    by (simp add: TxID_def DoubleSha256_def txid_preimage_def sample_tx_def uint64ToBytes_eq)
      (simp add: hash_bytes_def)
  moreover have "(be_word (1 # be_bytes 8 (0 :: uint64)) :: hash256) \<noteq> be_word (1 # be_bytes 8 (1 :: uint64))"
    by (simp add: be_word_def be_bytes_def upt_rec numeral_eq_Suc)
  ultimately have inj: "inj_on (TxID ?sha) (set [sample_tx 0 3, sample_tx 1 7])"
    by (auto simp: inj_on_def)
  have ord: "sorted_wrt (\<lambda>t u. \<not> TxLess ?sha u t) [sample_tx 1 7, sample_tx 0 3]"
    by (simp add: TxLess_def sample_tx_def)
  show ?thesis
    using block_order_deterministic [of "[sample_tx 0 3, sample_tx 1 7]" "[sample_tx 1 7, sample_tx 0 3]" ?sha
        "[sample_tx 1 7, sample_tx 0 3]", OF _ inj _ ord] by simp
qed

end
