(* ===== verification/Tyl_Executor.thy ===== *)
theory Tyl_Executor
  imports Tyl_HTLC Tyl_Mempool
begin

text \<open>
  The package \<open>internal/executor\<close>: the execution of one transaction (\<open>executeTx\<close> with its three
  ways to run code: the native HTLC handler, contract creation and contract calls followed by the
  settlement of an exchange) and of a block (\<open>ProcessBlock\<close>). The result \<open>None\<close> of the
  transaction and block functions is the panic of the interpreter, which nothing in the source
  recovers from.
\<close>

section \<open>Executor and receipts\<close>

datatype settle_error =
    SettleTokenNotFound uint64 | SettleTokenBalance uint64 uint64
  | SettleCallerBalance uint64 uint64 | SettlePoolBalance uint64 uint64

datatype tx_error =
    ErrInvalidSignature | ErrCodeSize | ErrCallDataSize | ErrIntrinsicGas | ErrGasCostOverflow
  | ErrValueGasOverflow | ErrInsufficientBalance | ErrNonceMismatch uint64 uint64 | ErrClaimValue
  | ErrHTLC htlc_error | ErrVM vm_error | ErrSettle settle_error

record Receipt =
  rc_TxID :: hash256
  rc_Height :: uint64
  rc_Success :: bool
  rc_GasUsed :: uint64
  rc_Err :: "tx_error option"

record executor =
  ex_stateDB :: statedb
  ex_currentHeight :: uint64
  ex_coinbase :: address
  ex_contractByID :: "uint64 \<rightharpoonup> address"

definition Executor_New :: "statedb \<Rightarrow> executor" where
  "Executor_New s = \<lparr>ex_stateDB = s, ex_currentHeight = 0, ex_coinbase = 0, ex_contractByID = Map.empty\<rparr>"

definition SetCoinbase :: "executor \<Rightarrow> address \<Rightarrow> executor" where
  "SetCoinbase e addr = e\<lparr>ex_coinbase := addr\<rparr>"

definition RegisterContract :: "executor \<Rightarrow> uint64 \<Rightarrow> address \<Rightarrow> executor" where
  "RegisterContract e callerID addr = e\<lparr>ex_contractByID := (ex_contractByID e)(callerID \<mapsto> addr)\<rparr>"

definition TxBaseGas :: uint64 where "TxBaseGas = 200"
definition CreateBaseGas :: uint64 where "CreateBaseGas = 300"
definition MaxCodeSize :: nat where "MaxCodeSize = 100000"
definition MaxCallDataSize :: nat where "MaxCallDataSize = 65536"
definition ammSlotTokenA :: uint64 where "ammSlotTokenA = 3"
definition ammSlotSettleDebitA :: uint64 where "ammSlotSettleDebitA = 300"
definition ammSlotSettleCreditA :: uint64 where "ammSlotSettleCreditA = 301"
definition ammSlotSettleDebitB :: uint64 where "ammSlotSettleDebitB = 302"
definition ammSlotSettleCreditB :: uint64 where "ammSlotSettleCreditB = 303"
definition tokenSlotBalanceBase :: uint64 where "tokenSlotBalanceBase = 1000"

lemmas exec_consts = TxBaseGas_def CreateBaseGas_def MaxCodeSize_def MaxCallDataSize_def ammSlotTokenA_def
  ammSlotSettleDebitA_def ammSlotSettleCreditA_def ammSlotSettleDebitB_def ammSlotSettleCreditB_def
  tokenSlotBalanceBase_def

definition fail_receipt :: "hash256 \<Rightarrow> uint64 \<Rightarrow> tx_error \<Rightarrow> Receipt" where
  "fail_receipt txid gas err =
     \<lparr>rc_TxID = txid, rc_Height = 0, rc_Success = False, rc_GasUsed = gas, rc_Err = Some err\<rparr>"

definition ok_receipt :: "hash256 \<Rightarrow> uint64 \<Rightarrow> Receipt" where
  "ok_receipt txid gas =
     \<lparr>rc_TxID = txid, rc_Height = 0, rc_Success = True, rc_GasUsed = gas, rc_Err = None\<rparr>"

section \<open>Call data\<close>

text \<open>The full 8-byte groups of the call data, each as a big-endian word.\<close>

function data_words :: "bytes \<Rightarrow> uint64 list" where
  "data_words d =
     (if 8 \<le> length d
      then foldl (\<lambda>val b. push_bit 8 val OR ucast b) 0 (take 8 d) # data_words (drop 8 d)
      else [])"
  by pat_completeness auto
termination by (relation "measure length") auto

declare data_words.simps [simp del]

fun write_args :: "hashfn \<Rightarrow> statedb \<Rightarrow> address \<Rightarrow> uint64 \<Rightarrow> uint64 list \<Rightarrow> statedb" where
  "write_args sha s contract slot [] = s"
| "write_args sha s contract slot (val # vals) =
     (let s = SetStorage sha s contract (putUint64 slot) (putUint64 val);
          slot = slot + 1;
          slot = (if slot = 103 then 104 else slot)
      in write_args sha s contract slot vals)"

definition writeCallData :: "hashfn \<Rightarrow> statedb \<Rightarrow> address \<Rightarrow> address \<Rightarrow> bytes \<Rightarrow> statedb" where
  "writeCallData sha s contract caller data =
     SetStorage sha (write_args sha s contract 100 (data_words data)) contract
       (putUint64 103) (putUint64 (CallerID caller))"

definition isHTLCClaim :: "transaction \<Rightarrow> bool" where
  "isHTLCClaim tx =
     (if tx_To tx \<noteq> HTLCSystemAddress \<or> length (tx_Data tx) < 8 then False
      else foldl (\<lambda>val b. push_bit 8 val OR ucast b) 0 (take 8 (tx_Data tx)) = HTLCFnClaim)"

definition deriveContractAddress :: "hashfn \<Rightarrow> address \<Rightarrow> uint64 \<Rightarrow> address" where
  "deriveContractAddress sha creator nonce =
     be_word (take 20 (hash_bytes (sha (addr_bytes creator @ uint64ToBytes nonce))))"

section \<open>AMM settlement\<close>

definition transferToken ::
  "hashfn \<Rightarrow> statedb \<Rightarrow> address \<Rightarrow> uint64 \<Rightarrow> uint64 \<Rightarrow> uint64 \<Rightarrow> settle_error option \<times> statedb" where
  "transferToken sha s tokenAddr fromID toID amount =
     (let (fromBal, s) = readStorageUint64 sha s tokenAddr (tokenSlotBalanceBase + fromID)
      in if fromBal < amount then (Some (SettleTokenBalance fromBal amount), s)
         else
           let (toBal, s) = readStorageUint64 sha s tokenAddr (tokenSlotBalanceBase + toID);
               s = writeStorageUint64 sha s tokenAddr (tokenSlotBalanceBase + fromID) (fromBal - amount);
               s = writeStorageUint64 sha s tokenAddr (tokenSlotBalanceBase + toID) (toBal + amount)
           in (None, s))"

definition settle_A ::
  "hashfn \<Rightarrow> address \<Rightarrow> uint64 \<Rightarrow> uint64 \<Rightarrow> uint64 \<Rightarrow> statedb \<Rightarrow> settle_error option \<times> statedb" where
  "settle_A sha tokenAddr fromID toID amount s =
     (if amount > 0 then transferToken sha s tokenAddr fromID toID amount else (None, s))"

text \<open>A transfer of native balance with its balance check, \<open>debitB\<close> and \<open>creditB\<close> of the source.\<close>

definition settle_B ::
  "hashfn \<Rightarrow> (uint64 \<Rightarrow> settle_error) \<Rightarrow> address \<Rightarrow> address \<Rightarrow> uint64 \<Rightarrow> statedb \<Rightarrow> settle_error option \<times> statedb" where
  "settle_B sha err from to amount s =
     (if amount > 0 then
        let fromAcct = GetOrCreateAccount sha s from
        in if acct_Balance fromAcct < amount then (Some (err (acct_Balance fromAcct)), s)
           else
             let s = SetAccount sha s from (fromAcct\<lparr>acct_Balance := acct_Balance fromAcct - amount\<rparr>);
                 toAcct = GetOrCreateAccount sha s to;
                 s = SetAccount sha s to (toAcct\<lparr>acct_Balance := acct_Balance toAcct + amount\<rparr>)
             in (None, s)
      else (None, s))"

definition settleAMM ::
  "hashfn \<Rightarrow> (uint64 \<rightharpoonup> address) \<Rightarrow> address \<Rightarrow> address \<Rightarrow> statedb \<Rightarrow> settle_error option \<times> statedb" where
  "settleAMM sha contractByID contract caller s =
     (let (tokenAID, s) = readStorageUint64 sha s contract ammSlotTokenA
      in if tokenAID = 0 then (None, s)
         else
           let (debitA, s) = readStorageUint64 sha s contract ammSlotSettleDebitA;
               (creditA, s) = readStorageUint64 sha s contract ammSlotSettleCreditA;
               (debitB, s) = readStorageUint64 sha s contract ammSlotSettleDebitB;
               (creditB, s) = readStorageUint64 sha s contract ammSlotSettleCreditB
           in if debitA = 0 \<and> creditA = 0 \<and> debitB = 0 \<and> creditB = 0 then (None, s)
              else
                (case contractByID tokenAID of
                   None \<Rightarrow> (Some (SettleTokenNotFound tokenAID), s)
                 | Some tokenAddr \<Rightarrow>
                     let callerID = CallerID caller; ammID = CallerID contract
                     in (case settle_A sha tokenAddr callerID ammID debitA s of (Some e, s) \<Rightarrow> (Some e, s)
                        | (None, s) \<Rightarrow>
                     (case settle_A sha tokenAddr ammID callerID creditA s of (Some e, s) \<Rightarrow> (Some e, s)
                        | (None, s) \<Rightarrow>
                     (case settle_B sha (\<lambda>have. SettleCallerBalance have debitB) caller contract debitB s of
                          (Some e, s) \<Rightarrow> (Some e, s)
                        | (None, s) \<Rightarrow>
                     (case settle_B sha (\<lambda>have. SettlePoolBalance have creditB) contract caller creditB s of
                          (Some e, s) \<Rightarrow> (Some e, s)
                        | (None, s) \<Rightarrow>
                            let s = writeStorageUint64 sha s contract ammSlotSettleDebitA 0;
                                s = writeStorageUint64 sha s contract ammSlotSettleCreditA 0;
                                s = writeStorageUint64 sha s contract ammSlotSettleDebitB 0;
                                s = writeStorageUint64 sha s contract ammSlotSettleCreditB 0
                            in (None, s)))))))"

section \<open>Executing a transaction\<close>

text \<open>The three places that undo a failed call and charge its gas.\<close>

definition revert_and_charge ::
  "hashfn \<Rightarrow> executor \<Rightarrow> statedb \<Rightarrow> nat \<Rightarrow> transaction \<Rightarrow> uint64 \<Rightarrow> executor" where
  "revert_and_charge sha e s snap tx gasUsed =
     (let s = RevertToSnapshot sha s snap;
          sender = GetOrCreateAccount sha s (tx_From tx);
          sender = sender\<lparr>acct_Nonce := acct_Nonce sender + 1,
                          acct_Balance := acct_Balance sender - tx_GasPrice tx * gasUsed\<rparr>
      in e\<lparr>ex_stateDB := SetAccount sha s (tx_From tx) sender\<rparr>)"

definition executeHTLCClaim :: "extern \<Rightarrow> executor \<Rightarrow> transaction \<Rightarrow> Receipt \<times> executor" where
  "executeHTLCClaim x e tx =
     (let sha = sha256 x; txid = TxID sha tx; s = ex_stateDB e in
      if tx_Value tx \<noteq> 0 then (fail_receipt txid 0 ErrClaimValue, e)
      else
        let sender = GetOrCreateAccount sha s (tx_From tx)
        in if tx_Nonce tx \<noteq> acct_Nonce sender
           then (fail_receipt txid 0 (ErrNonceMismatch (acct_Nonce sender) (tx_Nonce tx)), e)
           else
             let (snap, s) = Snapshot s;
                 s = SetAccount sha s (tx_From tx) (sender\<lparr>acct_Nonce := acct_Nonce sender + 1\<rparr>);
                 s = writeCallData sha s (tx_To tx) (tx_From tx) (tx_Data tx)
             in (case processHTLC sha (ex_currentHeight e) tx s of
                   (Some err, s) \<Rightarrow>
                     let s = RevertToSnapshot sha s snap;
                         sender = GetOrCreateAccount sha s (tx_From tx);
                         s = SetAccount sha s (tx_From tx) (sender\<lparr>acct_Nonce := acct_Nonce sender + 1\<rparr>)
                     in (fail_receipt txid 0 (ErrHTLC err), e\<lparr>ex_stateDB := s\<rparr>)
                 | (None, s) \<Rightarrow> (ok_receipt txid 0, e\<lparr>ex_stateDB := s\<rparr>)))"

text \<open>The outcome of the code a transaction runs: a panic (of the interpreter, or of \<open>Err.Error()\<close>
  on a nil error), a failure with the gas it used, or the new executor with the gas used.\<close>

datatype run_result =
    RunPanic
  | RunFailed statedb uint64 tx_error
  | RunDone executor uint64

text \<open>A call of deployed code: call data into the slots, the interpreter, the settlement.\<close>

definition call_contract :: "extern \<Rightarrow> executor \<Rightarrow> transaction \<Rightarrow> statedb \<Rightarrow> uint64 \<Rightarrow> bytes \<Rightarrow> run_result" where
  "call_contract x e tx s intrinsicGas code =
     (let sha = sha256 x;
          s = writeCallData sha s (tx_To tx) (tx_From tx) (tx_Data tx);
          ctx = \<lparr>ctx_Caller = tx_From tx, ctx_Target = tx_To tx, ctx_Value = tx_Value tx,
                 ctx_GasLeft = tx_GasLimit tx - intrinsicGas, ctx_Code = code\<rparr>
      in case Execute (StateDB_accessor sha) ctx s of
           None \<Rightarrow> RunPanic
         | Some (result, s) \<Rightarrow>
             let gasUsed = intrinsicGas + er_GasUsed result
             in if \<not> er_Success result
                then (case er_Err result of None \<Rightarrow> RunPanic | Some err \<Rightarrow> RunFailed s gasUsed (ErrVM err))
                else (case settleAMM sha (ex_contractByID e) (tx_To tx) (tx_From tx) s of
                        (Some err, s) \<Rightarrow> RunFailed s gasUsed (ErrSettle err)
                      | (None, s) \<Rightarrow> RunDone (e\<lparr>ex_stateDB := s\<rparr>) gasUsed))"

definition run_code :: "extern \<Rightarrow> executor \<Rightarrow> transaction \<Rightarrow> statedb \<Rightarrow> uint64 \<Rightarrow> run_result" where
  "run_code x e tx s intrinsicGas =
     (let sha = sha256 x in
      if tx_To tx = HTLCSystemAddress \<and> length (tx_Data tx) > 0 then
        (let s = writeCallData sha s (tx_To tx) (tx_From tx) (tx_Data tx)
         in case processHTLC sha (ex_currentHeight e) tx s of
              (Some err, s) \<Rightarrow> RunFailed s intrinsicGas (ErrHTLC err)
            | (None, s) \<Rightarrow> RunDone (e\<lparr>ex_stateDB := s\<rparr>) intrinsicGas)
      else if tx_To tx = ZeroAddress then
        (let contractAddr = deriveContractAddress sha (tx_From tx) (tx_Nonce tx);
             s = SetCode sha s contractAddr (tx_Data tx)
         in RunDone (e\<lparr>ex_stateDB := s,
              ex_contractByID := (ex_contractByID e)(CallerID contractAddr \<mapsto> contractAddr)\<rparr>) intrinsicGas)
      else if length (tx_Data tx) > 0 then
        (case GetAccount sha s (tx_To tx) of
           None \<Rightarrow> RunDone (e\<lparr>ex_stateDB := s\<rparr>) intrinsicGas
         | Some callee \<Rightarrow>
             if \<not> IsContract callee then RunDone (e\<lparr>ex_stateDB := s\<rparr>) intrinsicGas
             else (case GetCode s (acct_CodeHash callee) of
                     None \<Rightarrow> RunDone (e\<lparr>ex_stateDB := s\<rparr>) intrinsicGas
                   | Some code \<Rightarrow> call_contract x e tx s intrinsicGas code))
      else RunDone (e\<lparr>ex_stateDB := s\<rparr>) intrinsicGas)"

text \<open>A deposit from the first chain: the sender is the zero address.\<close>

definition execute_deposit :: "extern \<Rightarrow> executor \<Rightarrow> transaction \<Rightarrow> Receipt \<times> executor" where
  "execute_deposit x e tx =
     (let sha = sha256 x; s = ex_stateDB e;
          recipient = GetOrCreateAccount sha s (tx_To tx)
      in (ok_receipt (TxID sha tx) 0,
          if tx_Value tx > 0
          then e\<lparr>ex_stateDB := SetAccount sha s (tx_To tx)
                   (recipient\<lparr>acct_Balance := acct_Balance recipient + tx_Value tx\<rparr>)\<rparr>
          else e))"

definition intrinsic_gas :: "transaction \<Rightarrow> uint64" where
  "intrinsic_gas tx = (if tx_To tx = ZeroAddress then TxBaseGas + CreateBaseGas else TxBaseGas)"

text \<open>The checks before anything is written, in the order of the source.\<close>

definition precheck :: "extern \<Rightarrow> executor \<Rightarrow> transaction \<Rightarrow> tx_error option" where
  "precheck x e tx =
     (let sender = GetOrCreateAccount (sha256 x) (ex_stateDB e) (tx_From tx);
          gasCost = tx_GasPrice tx * tx_GasLimit tx;
          maxCost = tx_Value tx + gasCost
      in if tx_To tx = ZeroAddress \<and> length (tx_Data tx) > MaxCodeSize then Some ErrCodeSize
         else if tx_To tx \<noteq> ZeroAddress \<and> length (tx_Data tx) > MaxCallDataSize then Some ErrCallDataSize
         else if tx_GasLimit tx < intrinsic_gas tx then Some ErrIntrinsicGas
         else if tx_GasPrice tx \<noteq> 0 \<and> gasCost div tx_GasPrice tx \<noteq> tx_GasLimit tx then Some ErrGasCostOverflow
         else if maxCost < tx_Value tx then Some ErrValueGasOverflow
         else if acct_Balance sender < maxCost then Some ErrInsufficientBalance
         else if tx_Nonce tx \<noteq> acct_Nonce sender then Some (ErrNonceMismatch (acct_Nonce sender) (tx_Nonce tx))
         else None)"

text \<open>Up-front payment: nonce and the maximal cost from the sender, the value to the recipient.\<close>

definition pay_upfront :: "hashfn \<Rightarrow> transaction \<Rightarrow> statedb \<Rightarrow> statedb" where
  "pay_upfront sha tx s =
     (let sender = GetOrCreateAccount sha s (tx_From tx);
          maxCost = tx_Value tx + tx_GasPrice tx * tx_GasLimit tx;
          s = SetAccount sha s (tx_From tx)
                (sender\<lparr>acct_Nonce := acct_Nonce sender + 1, acct_Balance := acct_Balance sender - maxCost\<rparr>)
      in if tx_Value tx > 0 then
           let recipient = GetOrCreateAccount sha s (tx_To tx)
           in SetAccount sha s (tx_To tx) (recipient\<lparr>acct_Balance := acct_Balance recipient + tx_Value tx\<rparr>)
         else s)"

definition refund_gas :: "hashfn \<Rightarrow> transaction \<Rightarrow> uint64 \<Rightarrow> statedb \<Rightarrow> statedb" where
  "refund_gas sha tx gasUsed s =
     (let refund = (tx_GasLimit tx - gasUsed) * tx_GasPrice tx;
          sender = GetOrCreateAccount sha s (tx_From tx)
      in SetAccount sha s (tx_From tx) (sender\<lparr>acct_Balance := acct_Balance sender + refund\<rparr>))"

definition executeTx :: "extern \<Rightarrow> executor \<Rightarrow> transaction \<Rightarrow> (Receipt \<times> executor) option" where
  "executeTx x e tx =
     (let sha = sha256 x; txid = TxID sha tx in
      if tx_From tx = ZeroAddress then Some (execute_deposit x e tx)
      else if \<not> VerifySender x (SigningHash sha tx) (tx_Signature tx) (tx_From tx)
        then Some (fail_receipt txid 0 ErrInvalidSignature, e)
      else if isHTLCClaim tx then Some (executeHTLCClaim x e tx)
      else (case precheck x e tx of
              Some err \<Rightarrow> Some (fail_receipt txid 0 err, e)
            | None \<Rightarrow>
                let (snap, s) = Snapshot (ex_stateDB e);
                    s = pay_upfront sha tx s
                in (case run_code x e tx s (intrinsic_gas tx) of
                      RunPanic \<Rightarrow> None
                    | RunFailed s gasUsed err \<Rightarrow>
                        Some (fail_receipt txid gasUsed err, revert_and_charge sha e s snap tx gasUsed)
                    | RunDone e gasUsed \<Rightarrow>
                        Some (ok_receipt txid gasUsed,
                              e\<lparr>ex_stateDB := refund_gas sha tx gasUsed (ex_stateDB e)\<rparr>))))"

section \<open>Executing a block\<close>

definition computeTxRoot :: "hashfn \<Rightarrow> transaction list \<Rightarrow> hash256" where
  "computeTxRoot sha txs =
     (if txs = [] then ZeroHash else sha (concat (map (\<lambda>tx. hash_bytes (TxID sha tx)) txs)))"

definition computeReceiptRoot :: "hashfn \<Rightarrow> Receipt list \<Rightarrow> hash256" where
  "computeReceiptRoot sha receipts =
     (if receipts = [] then ZeroHash
      else sha (concat (map (\<lambda>r. hash_bytes (rc_TxID r) @ [if rc_Success r then 1 else 0]) receipts)))"

text \<open>The loop over the ordered transactions, with the running totals of gas and fees.\<close>

fun execute_all :: "extern \<Rightarrow> executor \<Rightarrow> transaction list \<Rightarrow> (Receipt list \<times> uint64 \<times> uint64 \<times> executor) option" where
  "execute_all x e [] = Some ([], 0, 0, e)"
| "execute_all x e (tx # txs) =
     (case executeTx x e tx of
        None \<Rightarrow> None
      | Some (r, e) \<Rightarrow>
          (case execute_all x e txs of
             None \<Rightarrow> None
           | Some (rs, gas, fees, e') \<Rightarrow>
               Some (r\<lparr>rc_Height := ex_currentHeight e\<rparr> # rs, rc_GasUsed r + gas,
                     rc_GasUsed r * tx_GasPrice tx + fees, e')))"

definition pay_coinbase :: "hashfn \<Rightarrow> executor \<Rightarrow> uint64 \<Rightarrow> executor" where
  "pay_coinbase sha e totalFees =
     (if ex_coinbase e \<noteq> ZeroAddress \<and> totalFees > 0 then
        let miner = GetOrCreateAccount sha (ex_stateDB e) (ex_coinbase e)
        in e\<lparr>ex_stateDB := SetAccount sha (ex_stateDB e) (ex_coinbase e)
               (miner\<lparr>acct_Balance := acct_Balance miner + totalFees\<rparr>)\<rparr>
      else e)"

definition ProcessBlock ::
  "extern \<Rightarrow> executor \<Rightarrow> uint64 \<Rightarrow> hash256 \<Rightarrow> transaction list \<Rightarrow> (block \<times> Receipt list \<times> executor) option" where
  "ProcessBlock x e height l1BlockHash txs =
     (let sha = sha256 x;
          e = e\<lparr>ex_currentHeight := height\<rparr>;
          prevRoot = state_Root sha (ex_stateDB e);
          ordered = sort_Slice (TxLess sha) txs
      in case execute_all x e ordered of
           None \<Rightarrow> None
         | Some (receipts, totalGas, totalFees, e) \<Rightarrow>
             let e = pay_coinbase sha e totalFees;
                 (stateRoot, s) = Commit sha (ex_stateDB e);
                 e = e\<lparr>ex_stateDB := s\<rparr>
             in Some (\<lparr>blk_Height = height, blk_L1BlockHash = l1BlockHash, blk_PrevStateRoot = prevRoot,
                       blk_StateRoot = stateRoot, blk_TxRoot = computeTxRoot sha ordered,
                       blk_ReceiptRoot = computeReceiptRoot sha receipts, blk_Transactions = ordered,
                       blk_GasUsed = totalGas, blk_Coinbase = ex_coinbase e\<rparr>, receipts, e))"

end
