(* ===== verification/Tyl_HTLC_Facts.thy ===== *)
theory Tyl_HTLC_Facts
  imports Tyl_HTLC
begin

text \<open>
  What the HTLC handler does, in terms of the slots and balances it works on: each operation is
  shown to be a conditional block of slot writes and at most one payment; then the records are read
  as a table of contracts, with the conditions under which one changes and the solvency of the
  system account.
\<close>

section \<open>Slots and payments\<close>

abbreviation hslot :: "hashfn \<Rightarrow> statedb \<Rightarrow> uint64 \<Rightarrow> uint64" where
  "hslot sha s \<equiv> slot_of sha s HTLCSystemAddress"

abbreviation hcache :: "hashfn \<Rightarrow> statedb \<Rightarrow> statedb" where
  "hcache sha s \<equiv> cache_trie sha s HTLCSystemAddress"

abbreviation hwrite :: "hashfn \<Rightarrow> statedb \<Rightarrow> (uint64 \<times> uint64) list \<Rightarrow> statedb" where
  "hwrite sha \<equiv> state_slots.write_all sha HTLCSystemAddress"

lemma readSlot_eq: "readSlot sha s k = (hslot sha s k, hcache sha s)"
  by (simp add: readSlot_def GetStorage_eq slot_of_def)

lemma writeSlot_eq: "writeSlot sha s k v = writeStorageUint64 sha s HTLCSystemAddress k v"
  by (simp add: writeSlot_def writeStorageUint64_eq)

definition rec_slot :: "uint64 \<Rightarrow> uint64 \<Rightarrow> uint64" where
  "rec_slot i off = htlcSlotBase + i * htlcSlotStride + off"

lemma lock_eq:
  "htlc_lock sha height tx sid s =
     (if tx_Value tx = 0 then (Some LockZeroAmount, hcache sha s)
      else if hslot sha s 102 \<le> height then (Some LockTimelockPast, hcache sha s)
      else (let i = hslot sha s 0; f = hslot sha s in
        (None, hwrite sha (hcache sha s)
          [(0, i + 1), (rec_slot i 0, sid), (rec_slot i 1, f 101), (rec_slot i 2, tx_Value tx),
           (rec_slot i 3, f 104), (rec_slot i 4, f 105), (rec_slot i 5, f 106), (rec_slot i 6, f 107),
           (rec_slot i 7, f 102), (rec_slot i 8, 0), (200, i)])))"
  by (simp add: htlc_lock_def readSlot_eq writeSlot_eq rec_slot_def Let_def htlcSlotCounter_def htlcStatusPending_def)

lemma claim_eq:
  "htlc_claim sha tx cid s =
     (let f = hslot sha s; i = f 101; s = hcache sha s in
      if f 0 \<le> i then (Some (HtlcNotExist i), s)
      else if f (rec_slot i 8) \<noteq> 0 then (Some (HtlcNotPending i (f (rec_slot i 8))), s)
      else if cid \<noteq> f (rec_slot i 1) then (Some (HtlcNotRecipient i), s)
      else if sha (words_hash (f 102) (f 104) (f 105) (f 106)) \<noteq>
              be_word (words_hash (f (rec_slot i 3)) (f (rec_slot i 4)) (f (rec_slot i 5)) (f (rec_slot i 6)))
        then (Some (HtlcBadPreimage i), s)
      else (case pay_out sha i (f (rec_slot i 2)) (tx_From tx) s of
              (Some e, s) \<Rightarrow> (Some e, s)
            | (None, s) \<Rightarrow> (None, hwrite sha s
                [(rec_slot i 8, 1), (rec_slot i 9, f 102), (rec_slot i 10, f 104),
                 (rec_slot i 11, f 105), (rec_slot i 12, f 106)])))"
  by (simp add: htlc_claim_def readSlot_eq writeSlot_eq rec_slot_def Let_def htlcSlotCounter_def
      htlcStatusPending_def htlcStatusClaimed_def cong: option.case_cong prod.case_cong)

lemma refund_eq:
  "htlc_refund sha height tx cid s =
     (let f = hslot sha s; i = f 101; s = hcache sha s in
      if f 0 \<le> i then (Some (HtlcNotExist i), s)
      else if f (rec_slot i 8) \<noteq> 0 then (Some (HtlcNotPending i (f (rec_slot i 8))), s)
      else if cid \<noteq> f (rec_slot i 0) then (Some (HtlcNotSender i), s)
      else if height < f (rec_slot i 7) then (Some (HtlcNotExpired i), s)
      else (case pay_out sha i (f (rec_slot i 2)) (tx_From tx) s of
              (Some e, s) \<Rightarrow> (Some e, s)
            | (None, s) \<Rightarrow> (None, hwrite sha s [(rec_slot i 8, 2)])))"
  by (simp add: htlc_refund_def readSlot_eq writeSlot_eq rec_slot_def Let_def htlcSlotCounter_def
      htlcStatusPending_def htlcStatusRefunded_def cong: option.case_cong prod.case_cong)

section \<open>Payments\<close>

text \<open>Moving an amount between two entries of a balance sheet, in the order of the source.\<close>

definition move :: "address \<Rightarrow> address \<Rightarrow> uint64 \<Rightarrow> (address \<Rightarrow> uint64) \<Rightarrow> address \<Rightarrow> uint64" where
  "move from to v f = (let f = f(from := f from - v) in f(to := f to + v))"

abbreviation bal :: "hashfn \<Rightarrow> statedb \<Rightarrow> address \<Rightarrow> uint64" where
  "bal \<equiv> GetBalance"

lemma SetBalance_laws:
  assumes ok: "state_ok sha A s" and a: "a \<in> A"
  shows "evolves sha A s (SetBalance sha s a v)"
    and "b \<in> A \<Longrightarrow> storage sha (SetBalance sha s a v) b = storage sha s b"
    and "b \<in> A \<Longrightarrow> acct sha (SetBalance sha s a v) b =
           (if b = a then (acct sha s a)\<lparr>acct_Balance := v\<rparr> else acct sha s b)"
    and "codes (SetBalance sha s a v) = codes s"
  unfolding SetBalance_def
  using evolves_SetAccount [OF ok a] storage_SetAccount [OF ok a] acct_SetAccount [OF ok a] by simp_all

text \<open>Two databases that differ in balances only.\<close>

definition same_but_bal :: "hashfn \<Rightarrow> address set \<Rightarrow> statedb \<Rightarrow> statedb \<Rightarrow> bool" where
  "same_but_bal sha A s s' \<longleftrightarrow> codes s' = codes s \<and>
     (\<forall>b\<in>A. storage sha s' b = storage sha s b \<and> acct_Nonce (acct sha s' b) = acct_Nonce (acct sha s b) \<and>
        acct_CodeHash (acct sha s' b) = acct_CodeHash (acct sha s b))"

lemma same_but_bal_SetBalance:
  assumes "state_ok sha A s" and "a \<in> A"
  shows "same_but_bal sha A s (SetBalance sha s a v)"
  using SetBalance_laws [OF assms] by (simp add: same_but_bal_def)

lemma same_but_bal_trans:
  "same_but_bal sha A s s' \<Longrightarrow> same_but_bal sha A s' s'' \<Longrightarrow> same_but_bal sha A s s''"
  by (simp add: same_but_bal_def)

lemma same_but_bal_slot: "same_but_bal sha A s s' \<Longrightarrow> b \<in> A \<Longrightarrow> slot_of sha s' b = slot_of sha s b"
  by (simp add: same_but_bal_def slot_of_def fun_eq_iff)

lemma transfer_laws:
  assumes ok: "state_ok sha A s" and a: "a \<in> A" and b: "b \<in> A"
    and s1: "s1 = SetBalance sha s a (bal sha s a - v)"
    and s2: "s2 = SetBalance sha s1 b (bal sha s1 b + v)"
  shows "evolves sha A s s2" and "same_but_bal sha A s s2"
    and "c \<in> A \<Longrightarrow> bal sha s2 c = move a b v (bal sha s) c"
proof -
  have e1: "evolves sha A s s1" unfolding s1 by (rule SetBalance_laws(1) [OF ok a])
  note ok1 = evolves_ok [OF e1]
  have e2: "evolves sha A s1 s2" unfolding s2 by (rule SetBalance_laws(1) [OF ok1 b])
  from e1 e2 show "evolves sha A s s2" by (rule evolves_trans)
  show "same_but_bal sha A s s2"
    using same_but_bal_trans same_but_bal_SetBalance [OF ok a] same_but_bal_SetBalance [OF ok1 b]
    unfolding s1 s2 by blast
  have "bal sha s1 c = (if c = a then bal sha s a - v else bal sha s c)" if "c \<in> A" for c
    using SetBalance_laws(3) [OF ok a that] by (simp add: s1 GetBalance_eq)
  moreover have "bal sha s2 c = (if c = b then bal sha s1 b + v else bal sha s1 c)" if "c \<in> A" for c
    using SetBalance_laws(3) [OF ok1 b that] by (simp add: s2 GetBalance_eq)
  ultimately show "c \<in> A \<Longrightarrow> bal sha s2 c = move a b v (bal sha s) c"
    using b by (auto simp: move_def)
qed

lemma pay_out_eq:
  "pay_out sha i amount to s =
     (if bal sha s HTLCSystemAddress < amount then (Some (HtlcSystemBalance i), s)
      else let s1 = SetBalance sha s HTLCSystemAddress (bal sha s HTLCSystemAddress - amount)
           in (None, SetBalance sha s1 to (bal sha s1 to + amount)))"
  by (simp add: pay_out_def SetBalance_def GetBalance_eq Let_def)

text \<open>The total of the balances in a set of accounts: a transfer that the payer can afford keeps it.\<close>

definition total_bal :: "address set \<Rightarrow> (address \<Rightarrow> uint64) \<Rightarrow> nat" where
  "total_bal A f = (\<Sum>a\<in>A. unat (f a))"

lemma finite_address [simp]: "finite (A :: address set)"
  by (rule finite_subset [OF subset_UNIV]) simp

lemma total_upd: "a \<in> A \<Longrightarrow> total_bal A (f(a := v)) + unat (f a) = total_bal A f + unat v"
  unfolding total_bal_def by (simp add: sum.remove [of A a])

lemma total_member: "a \<in> A \<Longrightarrow> unat (f a) \<le> total_bal A f"
  unfolding total_bal_def by (rule member_le_sum) simp_all

lemma total_cong: "(\<And>a. a \<in> A \<Longrightarrow> f a = g a) \<Longrightarrow> total_bal A f = total_bal A g"
  unfolding total_bal_def by (rule sum.cong) simp_all

lemma total_debit: "a \<in> A \<Longrightarrow> v \<le> f a \<Longrightarrow> total_bal A (f(a := f a - v)) + unat v = total_bal A f"
  using total_upd [of a A f "f a - v"] by (simp add: unat_sub_le word_le_nat_alt)

lemma total_credit:
  assumes "a \<in> A" and "total_bal A f + unat v < 2 ^ 64"
  shows "total_bal A (f(a := f a + v)) = total_bal A f + unat v"
proof -
  have "unat (f a + v) = unat (f a) + unat v"
    using total_member [OF assms(1), of f] assms(2) by (simp add: unat_add_no_wrap)
  with total_upd [OF assms(1), of f "f a + v"] show ?thesis by simp
qed

lemma total_move:
  assumes "a \<in> A" and "b \<in> A" and "v \<le> f a" and "total_bal A f < 2 ^ 64"
  shows "total_bal A (move a b v f) = total_bal A f"
  using total_credit [OF assms(2), of "f(a := f a - v)" v] total_debit [of a A v f, OF assms(1,3)] assms(4)
  by (simp add: move_def Let_def)

section \<open>The table of contracts\<close>

record htlc_rec =
  h_sender :: uint64
  h_recipient :: uint64
  h_amount :: uint64
  h_lock :: bytes
  h_timelock :: uint64
  h_status :: uint64

definition htlc_at :: "(uint64 \<Rightarrow> uint64) \<Rightarrow> uint64 \<Rightarrow> htlc_rec" where
  "htlc_at f i =
     \<lparr>h_sender = f (rec_slot i 0), h_recipient = f (rec_slot i 1), h_amount = f (rec_slot i 2),
      h_lock = words_hash (f (rec_slot i 3)) (f (rec_slot i 4)) (f (rec_slot i 5)) (f (rec_slot i 6)),
      h_timelock = f (rec_slot i 7), h_status = f (rec_slot i 8)\<rparr>"

text \<open>Below \<open>2 ^ 59\<close> contracts the slot numbers do not wrap: records are disjoint from each other,
  from the counter, the call data and the return slots.\<close>

definition max_htlcs :: nat where "max_htlcs = 2 ^ 59"

lemma unat_rec_slot:
  assumes "unat i < max_htlcs" and "unat off < 14"
  shows "unat (rec_slot i off) = 10000 + unat i * 14 + unat off"
proof -
  have i: "unat i < 2 ^ 59" using assms(1) by (simp add: max_htlcs_def)
  have m: "unat (i * 14) = unat i * 14"
    using i by (subst unat_mult_no_wrap) simp_all
  have "unat (10000 + i * 14) = 10000 + unat i * 14"
    using i by (subst unat_add_no_wrap) (simp_all add: m)
  then show ?thesis
    using i assms(2) unfolding rec_slot_def htlcSlotBase_def htlcSlotStride_def
    by (subst unat_add_no_wrap) simp_all
qed

lemma rec_slot_inject:
  assumes "unat i < max_htlcs" "unat j < max_htlcs" "unat off < 14" "unat off' < 14"
  shows "rec_slot i off = rec_slot j off' \<longleftrightarrow> i = j \<and> off = off'"
proof
  assume "rec_slot i off = rec_slot j off'"
  then have "unat i * 14 + unat off = unat j * 14 + unat off'"
    using unat_rec_slot [OF assms(1,3)] unat_rec_slot [OF assms(2,4)] by simp
  then have "unat i = unat j \<and> unat off = unat off'" using assms(3,4) by presburger
  then show "i = j \<and> off = off'" by (simp add: word_unat_eq_iff)
qed simp

lemma rec_slot_high:
  assumes "unat i < max_htlcs" "unat off < 14" "unat k < 10000"
  shows "rec_slot i off \<noteq> k" and "k \<noteq> rec_slot i off"
  using unat_rec_slot [OF assms(1,2)] assms(3) by auto

lemma htlc_at_upd_low:
  "unat i < max_htlcs \<Longrightarrow> unat k < 10000 \<Longrightarrow> htlc_at (f(k := v)) i = htlc_at f i"
  by (simp add: htlc_at_def rec_slot_high)

lemma htlc_at_upd_other:
  "unat i < max_htlcs \<Longrightarrow> unat j < max_htlcs \<Longrightarrow> i \<noteq> j \<Longrightarrow> unat off < 14 \<Longrightarrow>
   htlc_at (f(rec_slot j off := v)) i = htlc_at f i"
  by (simp add: htlc_at_def rec_slot_inject)

text \<open>What a contract still holds, and the sum of it over the table.\<close>

definition pending :: "htlc_rec \<Rightarrow> nat" where
  "pending h = (if h_status h = htlcStatusPending then unat (h_amount h) else 0)"

definition pending_total :: "(uint64 \<Rightarrow> uint64) \<Rightarrow> nat" where
  "pending_total f = (\<Sum>n<unat (f htlcSlotCounter). pending (htlc_at f (of_nat n)))"

lemma pending_total_split:
  assumes "unat i < unat (f 0)"
  shows "pending_total f =
    pending (htlc_at f i) + (\<Sum>n\<in>{..<unat (f 0)} - {unat i}. pending (htlc_at f (of_nat n)))"
  unfolding pending_total_def htlcSlotCounter_def using assms
  by (subst sum.remove [of _ "unat i"]) simp_all

section \<open>Effects of the operations\<close>

text \<open>\<open>keeps_rest\<close>: an operation on the slots of the system address leaves balances, nonces, code and
  every other storage alone.\<close>

abbreviation keeps_rest :: "hashfn \<Rightarrow> address set \<Rightarrow> statedb \<Rightarrow> statedb \<Rightarrow> bool" where
  "keeps_rest sha A s s' \<equiv>
     rest_of sha A HTLCSystemAddress s' = rest_of sha A HTLCSystemAddress s"

abbreviation upds :: "(uint64 \<Rightarrow> uint64) \<Rightarrow> (uint64 \<times> uint64) list \<Rightarrow> uint64 \<Rightarrow> uint64" where
  "upds f kvs \<equiv> foldl (\<lambda>f (k, v). f(k := v)) f kvs"

lemma keeps_rest_bal: "keeps_rest sha A s s' \<Longrightarrow> a \<in> A \<Longrightarrow> bal sha s' a = bal sha s a"
  by (simp add: rest_of_eq_iff core_eq_iff GetBalance_eq)

lemma hcache_laws:
  assumes "state_ok sha A s"
  shows "evolves sha A s (hcache sha s)" and "keeps_rest sha A s (hcache sha s)"
  using evolves_cache [OF assms] by (simp_all add: rest_of_eq_iff)

lemma hwrite_laws:
  assumes ok: "state_ok sha A s" and h: "HTLCSystemAddress \<in> A"
  shows "evolves sha A s (hwrite sha s kvs)" and "keeps_rest sha A s (hwrite sha s kvs)"
    and "hslot sha (hwrite sha s kvs) = upds (hslot sha s) kvs"
  using evolves_write_all [OF ok h] state_slots.write_all_keeps [of sha A s HTLCSystemAddress]
    state_slots.write_all_slots [of sha A s HTLCSystemAddress] ok h
  by simp_all

lemma hwrite_hcache_laws:
  assumes ok: "state_ok sha A s" and h: "HTLCSystemAddress \<in> A"
  shows "evolves sha A s (hwrite sha (hcache sha s) kvs)" and "keeps_rest sha A s (hwrite sha (hcache sha s) kvs)"
    and "hslot sha (hwrite sha (hcache sha s) kvs) = upds (hslot sha s) kvs"
proof -
  note c = hcache_laws [OF ok]
  note w = hwrite_laws [OF evolves_ok [OF c(1)] h, of kvs]
  show "evolves sha A s (hwrite sha (hcache sha s) kvs)" by (rule evolves_trans [OF c(1) w(1)])
  show "keeps_rest sha A s (hwrite sha (hcache sha s) kvs)" using c(2) w(2) by simp
  show "hslot sha (hwrite sha (hcache sha s) kvs) = upds (hslot sha s) kvs" using w(3) by simp
qed

lemma copySlot_eq: "copySlot sha s d c = hwrite sha (hcache sha s) [(d, hslot sha s c)]"
  by (simp add: copySlot_def readSlot_eq writeSlot_eq)

lemma copies_laws:
  assumes "state_ok sha A s" and h: "HTLCSystemAddress \<in> A"
    and s': "s' = foldl (\<lambda>s (d, c). copySlot sha s d c) s dcs"
  shows "evolves sha A s s' \<and> keeps_rest sha A s s' \<and> (\<forall>k. k \<notin> fst ` set dcs \<longrightarrow> hslot sha s' k = hslot sha s k)"
  using assms(1) unfolding s'
proof (induction dcs arbitrary: s)
  case (Cons dc dcs)
  obtain d c where dc: "dc = (d, c)" by (cases dc)
  let ?s = "copySlot sha s d c"
  note w = hwrite_hcache_laws [OF Cons.prems h, of "[(d, hslot sha s c)]", folded copySlot_eq]
  from Cons.IH [OF evolves_ok [OF w(1)]] w show ?case
    by (auto simp: dc intro: evolves_trans)
qed (simp add: evolves_refl)

lemma query_eq:
  "htlc_query sha s =
     (let i = hslot sha s 101 in
      if hslot sha s 0 \<le> i then (Some (HtlcNotExist i), hcache sha s)
      else (None, foldl (\<lambda>s (d, c). copySlot sha s d c) (hcache sha s)
        [(200, rec_slot i 0), (201, rec_slot i 1), (202, rec_slot i 2), (203, rec_slot i 7), (204, rec_slot i 8),
         (205, rec_slot i 9), (206, rec_slot i 10), (207, rec_slot i 11), (208, rec_slot i 12)]))"
  by (simp add: htlc_query_def readSlot_eq rec_slot_def Let_def htlcSlotCounter_def)

lemma pay_out_laws:
  assumes ok: "state_ok sha A s" and h: "HTLCSystemAddress \<in> A" and t: "to \<in> A"
    and p: "pay_out sha i v to s = (None, s')"
  shows "evolves sha A s s'" and "same_but_bal sha A s s'"
    and "c \<in> A \<Longrightarrow> bal sha s' c = move HTLCSystemAddress to v (bal sha s) c"
    and "v \<le> bal sha s HTLCSystemAddress"
  using transfer_laws [OF ok h t refl refl] p
  by (auto simp: pay_out_eq Let_def split: if_splits)

lemma pay_out_fail:
  "pay_out sha i v to s = (Some e, s') \<Longrightarrow> s' = s \<and> bal sha s HTLCSystemAddress < v"
  by (auto simp: pay_out_eq Let_def split: if_splits)

text \<open>A successful claim or refund: a payment, then writes into the record of the contract.\<close>

lemma paid_laws:
  assumes ok: "state_ok sha A s" and h: "HTLCSystemAddress \<in> A" and t: "to \<in> A"
    and p: "pay_out sha i v to (hcache sha s) = (None, s1)" and s': "s' = hwrite sha s1 kvs"
  shows "evolves sha A s s'" and "c \<in> A \<Longrightarrow> bal sha s' c = move HTLCSystemAddress to v (bal sha s) c"
    and "hslot sha s' = upds (hslot sha s) kvs" and "v \<le> bal sha s HTLCSystemAddress"
    and "c \<in> A \<Longrightarrow> acct_Nonce (acct sha s' c) = acct_Nonce (acct sha s c) \<and>
           acct_CodeHash (acct sha s' c) = acct_CodeHash (acct sha s c)"
    and "c \<in> A \<Longrightarrow> c \<noteq> HTLCSystemAddress \<Longrightarrow> storage sha s' c = storage sha s c"
    and "codes s' = codes s"
proof -
  note c0 = hcache_laws [OF ok]
  note p1 = pay_out_laws [OF evolves_ok [OF c0(1)] h t p]
  note w = hwrite_laws [OF evolves_ok [OF p1(1)] h, of kvs, folded s']
  have e: "bal sha (hcache sha s) = bal sha s" by (simp add: GetBalance_eq fun_eq_iff)
  show "evolves sha A s s'" using c0(1) p1(1) w(1) by (blast intro: evolves_trans)
  show "c \<in> A \<Longrightarrow> bal sha s' c = move HTLCSystemAddress to v (bal sha s) c"
    using keeps_rest_bal [OF w(2)] p1(3) by (simp add: e)
  show "hslot sha s' = upds (hslot sha s) kvs"
    using w(3) same_but_bal_slot [OF p1(2) h] by simp
  show "v \<le> bal sha s HTLCSystemAddress" using p1(4) by (simp add: e)
  show "c \<in> A \<Longrightarrow> acct_Nonce (acct sha s' c) = acct_Nonce (acct sha s c) \<and>
      acct_CodeHash (acct sha s' c) = acct_CodeHash (acct sha s c)"
    using w(2) p1(2) by (simp add: rest_of_eq_iff core_eq_iff same_but_bal_def)
  show "c \<in> A \<Longrightarrow> c \<noteq> HTLCSystemAddress \<Longrightarrow> storage sha s' c = storage sha s c" "codes s' = codes s"
    using w(2) p1(2) by (simp_all add: rest_of_eq_iff same_but_bal_def)
qed

section \<open>The table after an operation\<close>

abbreviation claim_writes :: "(uint64 \<Rightarrow> uint64) \<Rightarrow> uint64 \<Rightarrow> (uint64 \<times> uint64) list" where
  "claim_writes f i \<equiv> [(rec_slot i 8, 1), (rec_slot i 9, f 102), (rec_slot i 10, f 104),
     (rec_slot i 11, f 105), (rec_slot i 12, f 106)]"

abbreviation lock_writes :: "(uint64 \<Rightarrow> uint64) \<Rightarrow> uint64 \<Rightarrow> uint64 \<Rightarrow> (uint64 \<times> uint64) list" where
  "lock_writes f sid v \<equiv> (let i = f 0 in
     [(0, i + 1), (rec_slot i 0, sid), (rec_slot i 1, f 101), (rec_slot i 2, v),
      (rec_slot i 3, f 104), (rec_slot i 4, f 105), (rec_slot i 5, f 106), (rec_slot i 6, f 107),
      (rec_slot i 7, f 102), (rec_slot i 8, 0), (200, i)])"

lemma settle_table:
  assumes i: "unat i < max_htlcs" and j: "unat j < max_htlcs"
  shows "htlc_at (upds f (claim_writes g i)) j = (if j = i then (htlc_at f i)\<lparr>h_status := 1\<rparr> else htlc_at f j)"
    and "htlc_at (upds f [(rec_slot i 8, 2)]) j = (if j = i then (htlc_at f i)\<lparr>h_status := 2\<rparr> else htlc_at f j)"
    and "unat k < 10000 \<Longrightarrow> upds f (claim_writes g i) k = f k"
    and "unat k < 10000 \<Longrightarrow> upds f [(rec_slot i 8, 2)] k = f k"
  using i j by (auto simp: htlc_at_def rec_slot_inject rec_slot_high)

lemma lock_table:
  assumes i: "unat (f 0) < max_htlcs" and j: "unat j < max_htlcs"
  shows "htlc_at (upds f (lock_writes f sid v)) j =
      (if j = f 0 then \<lparr>h_sender = sid, h_recipient = f 101, h_amount = v,
         h_lock = words_hash (f 104) (f 105) (f 106) (f 107), h_timelock = f 102, h_status = 0\<rparr>
       else htlc_at f j)"
    and "upds f (lock_writes f sid v) 0 = f 0 + 1"
  using i j by (auto simp: htlc_at_def rec_slot_inject rec_slot_high Let_def)

lemma counter_bound: "n < c \<Longrightarrow> c < max_htlcs \<Longrightarrow> unat (of_nat n :: uint64) = n"
  by (simp add: unat_of_nat_small max_htlcs_def)

lemma pending_settle:
  assumes i: "unat i < unat (f 0)" and m: "unat (f 0) < max_htlcs" and f': "f' 0 = f 0"
    and pend: "h_status (htlc_at f i) = 0" and fin: "h_status (htlc_at f' i) \<noteq> 0"
    and other: "\<And>j. unat j < max_htlcs \<Longrightarrow> j \<noteq> i \<Longrightarrow> htlc_at f' j = htlc_at f j"
  shows "pending_total f' + unat (h_amount (htlc_at f i)) = pending_total f"
proof -
  have "(\<Sum>n\<in>{..<unat (f 0)} - {unat i}. pending (htlc_at f' (of_nat n))) =
      (\<Sum>n\<in>{..<unat (f 0)} - {unat i}. pending (htlc_at f (of_nat n)))"
  proof (rule sum.cong)
    fix n
    assume n: "n \<in> {..<unat (f 0)} - {unat i}"
    then have "unat (of_nat n :: uint64) = n" using counter_bound [of n "unat (f 0)"] m by simp
    then have "htlc_at f' (of_nat n) = htlc_at f (of_nat n)"
      using n m by (intro other) auto
    then show "pending (htlc_at f' (of_nat n)) = pending (htlc_at f (of_nat n))" by simp
  qed simp
  moreover have "pending (htlc_at f i) = unat (h_amount (htlc_at f i))" "pending (htlc_at f' i) = 0"
    using pend fin by (simp_all add: pending_def htlcStatusPending_def)
  ultimately show ?thesis
    using pending_total_split [of i f] pending_total_split [of i f'] i f' by simp
qed

lemma pending_lock:
  assumes m: "unat (f 0) + 1 < max_htlcs" and f': "f' 0 = f 0 + 1"
    and new: "pending (htlc_at f' (f 0)) = v"
    and other: "\<And>j. unat j < max_htlcs \<Longrightarrow> j \<noteq> f 0 \<Longrightarrow> htlc_at f' j = htlc_at f j"
  shows "pending_total f' = pending_total f + v"
proof -
  have c: "unat (f' 0) = Suc (unat (f 0))"
    using m unfolding f' by (subst unat_add_no_wrap) (simp_all add: max_htlcs_def)
  have "(\<Sum>n<unat (f 0). pending (htlc_at f' (of_nat n))) = (\<Sum>n<unat (f 0). pending (htlc_at f (of_nat n)))"
  proof (rule sum.cong)
    fix n
    assume n: "n \<in> {..<unat (f 0)}"
    then have "unat (of_nat n :: uint64) = n" using counter_bound [of n "unat (f 0)"] m by simp
    then have "htlc_at f' (of_nat n) = htlc_at f (of_nat n)"
      using n m by (intro other) auto
    then show "pending (htlc_at f' (of_nat n)) = pending (htlc_at f (of_nat n))" by simp
  qed simp
  then show ?thesis using new c by (simp add: pending_total_def htlcSlotCounter_def)
qed

lemma pending_same:
  assumes m: "unat (f 0) < max_htlcs" and f': "f' 0 = f 0"
    and same: "\<And>j. unat j < max_htlcs \<Longrightarrow> htlc_at f' j = htlc_at f j"
  shows "pending_total f' = pending_total f"
  unfolding pending_total_def htlcSlotCounter_def f'
proof (rule sum.cong)
  fix n
  assume "n \<in> {..<unat (f 0)}"
  then have "unat (of_nat n :: uint64) < max_htlcs" using counter_bound [of n "unat (f 0)"] m by simp
  then show "pending (htlc_at f' (of_nat n)) = pending (htlc_at f (of_nat n))" by (simp add: same)
qed simp

section \<open>Claims\<close>

lemma claim_effect:
  assumes "state_ok sha A s" and "HTLCSystemAddress \<in> A" and "tx_From tx \<in> A"
    and f: "f = slot_of sha s HTLCSystemAddress" and h: "h = htlc_at f (f 101)"
    and m: "unat (f htlcSlotCounter) < max_htlcs"
    and run: "htlc_claim sha tx callerID s = (err, s')"
  shows "(err = None \<longleftrightarrow> f 101 < f htlcSlotCounter \<and> h_status h = htlcStatusPending \<and> callerID = h_recipient h \<and>
      sha (words_hash (f 102) (f 104) (f 105) (f 106)) = be_word (h_lock h) \<and>
      h_amount h \<le> GetBalance sha s HTLCSystemAddress) \<and>
    (err = None \<longrightarrow>
      (\<forall>a\<in>A. GetBalance sha s' a = move HTLCSystemAddress (tx_From tx) (h_amount h) (GetBalance sha s) a) \<and>
      (\<forall>j. unat j < max_htlcs \<longrightarrow> htlc_at (slot_of sha s' HTLCSystemAddress) j =
         (if j = f 101 then h\<lparr>h_status := htlcStatusClaimed\<rparr> else htlc_at f j))) \<and>
    (err \<noteq> None \<longrightarrow> (\<forall>a\<in>A. GetBalance sha s' a = GetBalance sha s a) \<and> slot_of sha s' HTLCSystemAddress = f)"
proof -
  let ?i = "f 101" and ?H = HTLCSystemAddress
  let ?c = "f 101 < f 0 \<and> h_status h = 0 \<and> callerID = h_recipient h \<and>
      sha (words_hash (f 102) (f 104) (f 105) (f 106)) = be_word (h_lock h)"
  have e: "bal sha (hcache sha s) = bal sha s" by (simp add: GetBalance_eq fun_eq_iff)
  have fail: "err \<noteq> None \<and> s' = hcache sha s" if "\<not> ?c"
    using that run unfolding claim_eq h htlc_at_def f [symmetric] by (auto simp: Let_def not_less split: if_splits)
  have go: "(err, s') = (case pay_out sha ?i (h_amount h) (tx_From tx) (hcache sha s) of
      (Some e, s) \<Rightarrow> (Some e, s) | (None, s) \<Rightarrow> (None, hwrite sha s (claim_writes f ?i)))" if "?c"
    using that run unfolding claim_eq h htlc_at_def f [symmetric] by (auto simp: Let_def split: if_splits)
  show ?thesis
  proof (cases "?c")
    case False
    then show ?thesis using fail by (auto simp: htlc_consts e f)
  next
    case c: True
    show ?thesis
    proof (cases "h_amount h \<le> bal sha s ?H")
      case False
      then have "pay_out sha ?i (h_amount h) (tx_From tx) (hcache sha s) = (Some (HtlcSystemBalance ?i), hcache sha s)"
        by (simp add: pay_out_eq e not_le)
      then show ?thesis using go [OF c] False by (simp add: e f)
    next
      case True
      then obtain s1 where p: "pay_out sha ?i (h_amount h) (tx_From tx) (hcache sha s) = (None, s1)"
        by (simp add: pay_out_eq e Let_def not_less)
      then have s': "err = None" "s' = hwrite sha s1 (claim_writes f ?i)" using go [OF c] by simp_all
      note l = paid_laws [OF assms(1-3) p s'(2)]
      have "unat ?i < max_htlcs"
        using c m by (simp add: htlcSlotCounter_def word_less_nat_alt)
      then show ?thesis
        using c True l(2) settle_table(1) [of ?i] by (simp add: s'(1) l(3) f [symmetric] h htlc_consts)
    qed
  qed
qed

text \<open>C7: a claim succeeds exactly when the contract exists, is pending, the caller is its recipient,
  the revealed preimage hashes to its lock and the system account can pay; it then pays the locked
  amount to the caller, marks this contract claimed and changes no other contract. In every other
  case nothing changes.\<close>

theorem htlc_claim_correct:
  assumes "state_ok sha A s" and "HTLCSystemAddress \<in> A" and "tx_From tx \<in> A"
    and f: "f = slot_of sha s HTLCSystemAddress" and h: "h = htlc_at f (f 101)"
    and m: "unat (f htlcSlotCounter) < max_htlcs"
    and run: "htlc_claim sha tx callerID s = (err, s')"
  shows "(err = None \<longleftrightarrow> f 101 < f htlcSlotCounter \<and> h_status h = htlcStatusPending \<and> callerID = h_recipient h \<and>
      sha (words_hash (f 102) (f 104) (f 105) (f 106)) = be_word (h_lock h) \<and>
      h_amount h \<le> GetBalance sha s HTLCSystemAddress) \<and>
    (err = None \<longrightarrow>
      (\<forall>a\<in>A. GetBalance sha s' a = move HTLCSystemAddress (tx_From tx) (h_amount h) (GetBalance sha s) a) \<and>
      (\<forall>j. unat j < max_htlcs \<longrightarrow> htlc_at (slot_of sha s' HTLCSystemAddress) j =
         (if j = f 101 then h\<lparr>h_status := htlcStatusClaimed\<rparr> else htlc_at f j))) \<and>
    (err \<noteq> None \<longrightarrow> (\<forall>a\<in>A. GetBalance sha s' a = GetBalance sha s a) \<and> slot_of sha s' HTLCSystemAddress = f)"
  by (rule claim_effect [OF assms])

text \<open>Databases with 70 in the system account and given slots.\<close>

definition htlc_db :: "(uint64 \<times> uint64) list \<Rightarrow> statedb" where
  "htlc_db kvs = state_slots.write_all be_word HTLCSystemAddress
     (SetBalance be_word (NewStateDB Map.empty) HTLCSystemAddress 70) kvs"

lemma fresh_obs:
  "slot_of sha (NewStateDB st) a k = 0" "GetBalance sha (NewStateDB st) a = 0"
  by (simp_all add: slot_of_def storage_def stor_data_def storage_trie_def load_trie_def GetAccount_def
      acct_data_def decode_acct_def NewStateDB_def storage_value_def hash_slot_def GetBalance_def)

lemma htlc_db_obs:
  "state_ok be_word UNIV (htlc_db kvs)"
  "slot_of be_word (htlc_db kvs) HTLCSystemAddress = upds (\<lambda>_. 0) kvs"
  "GetBalance be_word (htlc_db kvs) a = (if a = HTLCSystemAddress then 70 else 0)"
proof -
  let ?s = "SetBalance be_word (NewStateDB Map.empty) HTLCSystemAddress 70"
  have b: "state_ok be_word UNIV ?s" "hslot be_word ?s k = 0"
    "GetBalance be_word ?s a = (if a = HTLCSystemAddress then 70 else 0)" for k
    using SetBalance_laws(1) [OF state_ok_toy [of UNIV Map.empty] UNIV_I, of HTLCSystemAddress 70]
      SetBalance_laws(2,3) [OF state_ok_toy [of UNIV Map.empty] UNIV_I UNIV_I] fresh_obs [of be_word Map.empty]
    by (auto simp: slot_of_def GetBalance_eq dest: evolves_ok)
  have f: "hslot be_word ?s = (\<lambda>_. 0)" using b(2) by auto
  note w = hwrite_laws [OF b(1) UNIV_I, of kvs, folded htlc_db_def]
  show "state_ok be_word UNIV (htlc_db kvs)" by (rule evolves_ok [OF w(1)])
  show "hslot be_word (htlc_db kvs) = upds (\<lambda>_. 0) kvs" using w(3) by (simp add: f)
  show "GetBalance be_word (htlc_db kvs) a = (if a = HTLCSystemAddress then 70 else 0)"
    using keeps_rest_bal [OF w(2)] b(3) by simp
qed

text \<open>A database with one pending contract of 50 for the caller 9.\<close>

definition one_htlc :: statedb where
  "one_htlc = htlc_db [(0, 1), (rec_slot 0 1, 9), (rec_slot 0 2, 50)]"

lemma one_htlc_obs:
  "state_ok be_word UNIV one_htlc"
  "slot_of be_word one_htlc HTLCSystemAddress = (\<lambda>_. 0)(0 := 1, rec_slot 0 1 := 9, rec_slot 0 2 := 50)"
  "GetBalance be_word one_htlc a = (if a = HTLCSystemAddress then 70 else 0)"
  using htlc_db_obs [of "[(0, 1), (rec_slot 0 1, 9), (rec_slot 0 2, 50)]"] by (simp_all add: one_htlc_def)

lemma one_htlc_at:
  "htlc_at (slot_of be_word one_htlc HTLCSystemAddress) 0 =
     \<lparr>h_sender = 0, h_recipient = 9, h_amount = 50, h_lock = words_hash 0 0 0 0, h_timelock = 0, h_status = 0\<rparr>"
  by (simp add: one_htlc_obs htlc_at_def rec_slot_def htlcSlotBase_def htlcSlotStride_def)

definition claimer_tx :: transaction where
  "claimer_tx = \<lparr>tx_Version = 1, tx_Nonce = 0, tx_From = 9, tx_To = HTLCSystemAddress, tx_Value = 0,
     tx_GasPrice = 0, tx_GasLimit = 0, tx_Priority = 0, tx_Data = [], tx_Signature = 0\<rparr>"

lemma claimer_tx_From [simp]: "tx_From claimer_tx = 9"
  by (simp add: claimer_tx_def)

lemma HTLCSystemAddress_eq: "HTLCSystemAddress = 1"
  by (simp add: HTLCSystemAddress_def BytesToAddress_def be_word_def)

theorem htlc_claim_correct_witness:
  "fst (htlc_claim be_word claimer_tx 9 one_htlc) = None \<and>
   GetBalance be_word (snd (htlc_claim be_word claimer_tx 9 one_htlc)) 9 = 50"
proof -
  have f: "slot_of be_word one_htlc HTLCSystemAddress k = 0" if "k \<in> {101, 102, 104, 105, 106}" for k
    using that by (auto simp: one_htlc_obs rec_slot_def htlcSlotBase_def htlcSlotStride_def)
  have c: "slot_of be_word one_htlc HTLCSystemAddress 0 = 1"
    by (simp add: one_htlc_obs rec_slot_def htlcSlotBase_def htlcSlotStride_def)
  obtain err s' where run: "htlc_claim be_word claimer_tx 9 one_htlc = (err, s')" by fastforce
  show ?thesis
    using htlc_claim_correct [OF one_htlc_obs(1) UNIV_I UNIV_I refl refl _ run]
    unfolding HTLCSystemAddress_eq
    by (simp add: f [unfolded HTLCSystemAddress_eq] c [unfolded HTLCSystemAddress_eq] one_htlc_at [unfolded HTLCSystemAddress_eq]
        one_htlc_obs(3) htlc_consts max_htlcs_def run move_def HTLCSystemAddress_eq)
qed

lemma refund_effect:
  assumes "state_ok sha A s" and "HTLCSystemAddress \<in> A" and "tx_From tx \<in> A"
    and f: "f = slot_of sha s HTLCSystemAddress" and h: "h = htlc_at f (f 101)"
    and m: "unat (f htlcSlotCounter) < max_htlcs"
    and run: "htlc_refund sha height tx callerID s = (err, s')"
  shows "(err = None \<longleftrightarrow> f 101 < f htlcSlotCounter \<and> h_status h = htlcStatusPending \<and> callerID = h_sender h \<and>
      h_timelock h \<le> height \<and> h_amount h \<le> GetBalance sha s HTLCSystemAddress) \<and>
    (err = None \<longrightarrow>
      (\<forall>a\<in>A. GetBalance sha s' a = move HTLCSystemAddress (tx_From tx) (h_amount h) (GetBalance sha s) a) \<and>
      (\<forall>j. unat j < max_htlcs \<longrightarrow> htlc_at (slot_of sha s' HTLCSystemAddress) j =
         (if j = f 101 then h\<lparr>h_status := htlcStatusRefunded\<rparr> else htlc_at f j))) \<and>
    (err \<noteq> None \<longrightarrow> (\<forall>a\<in>A. GetBalance sha s' a = GetBalance sha s a) \<and> slot_of sha s' HTLCSystemAddress = f)"
proof -
  let ?i = "f 101" and ?H = HTLCSystemAddress
  let ?c = "f 101 < f 0 \<and> h_status h = 0 \<and> callerID = h_sender h \<and> h_timelock h \<le> height"
  have e: "bal sha (hcache sha s) = bal sha s" by (simp add: GetBalance_eq fun_eq_iff)
  have fail: "err \<noteq> None \<and> s' = hcache sha s" if "\<not> ?c"
    using that run unfolding refund_eq h htlc_at_def f [symmetric] by (auto simp: Let_def not_less split: if_splits)
  have go: "(err, s') = (case pay_out sha ?i (h_amount h) (tx_From tx) (hcache sha s) of
      (Some e, s) \<Rightarrow> (Some e, s) | (None, s) \<Rightarrow> (None, hwrite sha s [(rec_slot ?i 8, 2)]))" if "?c"
    using that run unfolding refund_eq h htlc_at_def f [symmetric] by (auto simp: Let_def split: if_splits)
  show ?thesis
  proof (cases "?c")
    case False
    then show ?thesis using fail by (auto simp: htlc_consts e f)
  next
    case c: True
    show ?thesis
    proof (cases "h_amount h \<le> bal sha s ?H")
      case False
      then have "pay_out sha ?i (h_amount h) (tx_From tx) (hcache sha s) = (Some (HtlcSystemBalance ?i), hcache sha s)"
        by (simp add: pay_out_eq e not_le)
      then show ?thesis using go [OF c] False by (simp add: e f)
    next
      case True
      then obtain s1 where p: "pay_out sha ?i (h_amount h) (tx_From tx) (hcache sha s) = (None, s1)"
        by (simp add: pay_out_eq e Let_def not_less)
      then have s': "err = None" "s' = hwrite sha s1 [(rec_slot ?i 8, 2)]" using go [OF c] by simp_all
      note l = paid_laws [OF assms(1-3) p s'(2)]
      have "unat ?i < max_htlcs"
        using c m by (simp add: htlcSlotCounter_def word_less_nat_alt)
      then show ?thesis
        using c True l(2) settle_table(2) [of ?i] by (simp add: s'(1) l(3) f [symmetric] h htlc_consts)
    qed
  qed
qed

text \<open>A refund succeeds exactly when the contract exists, is pending, the caller is its sender,
  the chain has reached its time lock and the system account can pay; it then pays the locked amount
  back, marks this contract refunded and changes no other contract. In every other case nothing
  changes.\<close>

theorem htlc_refund_correct:
  assumes "state_ok sha A s" and "HTLCSystemAddress \<in> A" and "tx_From tx \<in> A"
    and f: "f = slot_of sha s HTLCSystemAddress" and h: "h = htlc_at f (f 101)"
    and m: "unat (f htlcSlotCounter) < max_htlcs"
    and run: "htlc_refund sha height tx callerID s = (err, s')"
  shows "(err = None \<longleftrightarrow> f 101 < f htlcSlotCounter \<and> h_status h = htlcStatusPending \<and> callerID = h_sender h \<and>
      h_timelock h \<le> height \<and> h_amount h \<le> GetBalance sha s HTLCSystemAddress) \<and>
    (err = None \<longrightarrow>
      (\<forall>a\<in>A. GetBalance sha s' a = move HTLCSystemAddress (tx_From tx) (h_amount h) (GetBalance sha s) a) \<and>
      (\<forall>j. unat j < max_htlcs \<longrightarrow> htlc_at (slot_of sha s' HTLCSystemAddress) j =
         (if j = f 101 then h\<lparr>h_status := htlcStatusRefunded\<rparr> else htlc_at f j))) \<and>
    (err \<noteq> None \<longrightarrow> (\<forall>a\<in>A. GetBalance sha s' a = GetBalance sha s a) \<and> slot_of sha s' HTLCSystemAddress = f)"
  by (rule refund_effect [OF assms])

theorem htlc_refund_correct_witness:
  "fst (htlc_refund be_word 5 claimer_tx 0 one_htlc) = None \<and>
   GetBalance be_word (snd (htlc_refund be_word 5 claimer_tx 0 one_htlc)) HTLCSystemAddress = 20"
proof -
  have f: "slot_of be_word one_htlc HTLCSystemAddress 101 = 0" "slot_of be_word one_htlc HTLCSystemAddress 0 = 1"
    by (simp_all add: one_htlc_obs rec_slot_def htlcSlotBase_def htlcSlotStride_def)
  obtain err s' where run: "htlc_refund be_word 5 claimer_tx 0 one_htlc = (err, s')" by fastforce
  show ?thesis
    using htlc_refund_correct [OF one_htlc_obs(1) UNIV_I UNIV_I refl refl _ run]
    unfolding HTLCSystemAddress_eq
    by (simp add: f [unfolded HTLCSystemAddress_eq] one_htlc_at [unfolded HTLCSystemAddress_eq]
        one_htlc_obs(3) htlc_consts max_htlcs_def run move_def HTLCSystemAddress_eq)
qed

lemma lock_effect:
  assumes ok: "state_ok sha A s" and h: "HTLCSystemAddress \<in> A"
    and f: "f = slot_of sha s HTLCSystemAddress" and m: "unat (f htlcSlotCounter) < max_htlcs"
    and run: "htlc_lock sha height tx senderID s = (err, s')"
  shows "(err = None \<longleftrightarrow> tx_Value tx \<noteq> 0 \<and> height < f 102) \<and>
    (\<forall>a\<in>A. GetBalance sha s' a = GetBalance sha s a) \<and>
    (err = None \<longrightarrow>
      slot_of sha s' HTLCSystemAddress htlcSlotCounter = f htlcSlotCounter + 1 \<and>
      slot_of sha s' HTLCSystemAddress 200 = f htlcSlotCounter \<and>
      (\<forall>j. unat j < max_htlcs \<longrightarrow> htlc_at (slot_of sha s' HTLCSystemAddress) j =
         (if j = f htlcSlotCounter
          then \<lparr>h_sender = senderID, h_recipient = f 101, h_amount = tx_Value tx,
                h_lock = words_hash (f 104) (f 105) (f 106) (f 107), h_timelock = f 102,
                h_status = htlcStatusPending\<rparr>
          else htlc_at f j))) \<and>
    (err \<noteq> None \<longrightarrow> slot_of sha s' HTLCSystemAddress = f)"
proof (cases "tx_Value tx = 0 \<or> f 102 \<le> height")
  case True
  then have "err \<noteq> None \<and> s' = hcache sha s"
    using run unfolding lock_eq f [symmetric] by (auto split: if_splits)
  then show ?thesis using True by (auto simp: f GetBalance_eq)
next
  case False
  then have e: "err = None" "s' = hwrite sha (hcache sha s) (lock_writes f senderID (tx_Value tx))"
    using run unfolding lock_eq f [symmetric]
    by (auto simp: Let_def split: if_splits simp del: state_slots.write_all_simps)
  note w = hwrite_hcache_laws [OF ok h, of "lock_writes f senderID (tx_Value tx)", folded e(2)]
  have m0: "unat (f 0) < max_htlcs" using m by (simp add: htlcSlotCounter_def)
  have "upds f (lock_writes f senderID (tx_Value tx)) 200 = f 0" by (simp add: Let_def)
  then show ?thesis
    using False lock_table(1) [of f _ senderID "tx_Value tx", OF m0]
      lock_table(2) [of f "f 0" senderID "tx_Value tx", OF m0 m0] keeps_rest_bal [OF w(2)]
    by (simp add: e(1) w(3) f [symmetric] htlcSlotCounter_def htlcStatusPending_def not_le)
qed

text \<open>A lock succeeds exactly when it carries value and its time lock lies in the future; it then
  appends a pending contract with the amount of the transaction, the caller as sender and the
  arguments as recipient, time lock and hash lock, returns its number, and changes no other contract
  and no balance.\<close>

theorem htlc_lock_correct:
  assumes "state_ok sha A s" and "HTLCSystemAddress \<in> A"
    and "f = slot_of sha s HTLCSystemAddress" and "unat (f htlcSlotCounter) < max_htlcs"
    and "htlc_lock sha height tx senderID s = (err, s')"
  shows "(err = None \<longleftrightarrow> tx_Value tx \<noteq> 0 \<and> height < f 102) \<and>
    (\<forall>a\<in>A. GetBalance sha s' a = GetBalance sha s a) \<and>
    (err = None \<longrightarrow>
      slot_of sha s' HTLCSystemAddress htlcSlotCounter = f htlcSlotCounter + 1 \<and>
      slot_of sha s' HTLCSystemAddress 200 = f htlcSlotCounter \<and>
      (\<forall>j. unat j < max_htlcs \<longrightarrow> htlc_at (slot_of sha s' HTLCSystemAddress) j =
         (if j = f htlcSlotCounter
          then \<lparr>h_sender = senderID, h_recipient = f 101, h_amount = tx_Value tx,
                h_lock = words_hash (f 104) (f 105) (f 106) (f 107), h_timelock = f 102,
                h_status = htlcStatusPending\<rparr>
          else htlc_at f j))) \<and>
    (err \<noteq> None \<longrightarrow> slot_of sha s' HTLCSystemAddress = f)"
  by (rule lock_effect [OF assms])

theorem htlc_lock_correct_witness:
  "fst (htlc_lock be_word 5 (claimer_tx\<lparr>tx_Value := 8\<rparr>) 3 one_htlc) \<noteq> None"
proof -
  have f: "slot_of be_word one_htlc HTLCSystemAddress 102 = 0" "slot_of be_word one_htlc HTLCSystemAddress 0 = 1"
    by (simp_all add: one_htlc_obs rec_slot_def htlcSlotBase_def htlcSlotStride_def)
  obtain err s' where run: "htlc_lock be_word 5 (claimer_tx\<lparr>tx_Value := 8\<rparr>) 3 one_htlc = (err, s')" by fastforce
  show ?thesis
    using htlc_lock_correct [OF one_htlc_obs(1) UNIV_I refl _ run]
    by (simp add: f htlcSlotCounter_def max_htlcs_def run)
qed

section \<open>The handler as a whole\<close>

text \<open>What every call of the handler keeps, whatever it returns: it can be undone, moves balances
  without creating any, and touches the storage of the system address only.\<close>

definition htlc_frame :: "hashfn \<Rightarrow> address set \<Rightarrow> statedb \<Rightarrow> statedb \<Rightarrow> bool" where
  "htlc_frame sha A s s' \<longleftrightarrow> evolves sha A s s' \<and> codes s' = codes s \<and>
     (\<forall>c\<in>A. acct_Nonce (acct sha s' c) = acct_Nonce (acct sha s c) \<and>
        acct_CodeHash (acct sha s' c) = acct_CodeHash (acct sha s c) \<and>
        (c \<noteq> HTLCSystemAddress \<longrightarrow> storage sha s' c = storage sha s c)) \<and>
     (total_bal A (bal sha s) < 2 ^ 64 \<longrightarrow> total_bal A (bal sha s') = total_bal A (bal sha s))"

lemma htlc_frame_rest:
  "evolves sha A s s' \<Longrightarrow> keeps_rest sha A s s' \<Longrightarrow> htlc_frame sha A s s'"
  using total_cong [of A "bal sha s'" "bal sha s"]
  by (simp add: htlc_frame_def rest_of_eq_iff core_eq_iff GetBalance_eq)

lemma htlc_frame_paid:
  assumes "state_ok sha A s" and h: "HTLCSystemAddress \<in> A" and t: "to \<in> A"
    and p: "pay_out sha i v to (hcache sha s) = (None, s1)" and s': "s' = hwrite sha s1 kvs"
  shows "htlc_frame sha A s s'"
proof -
  note l = paid_laws [OF assms]
  have "total_bal A (bal sha s') = total_bal A (move HTLCSystemAddress to v (bal sha s))"
    by (rule total_cong) (rule l(2))
  then have "total_bal A (bal sha s) < 2 ^ 64 \<longrightarrow> total_bal A (bal sha s') = total_bal A (bal sha s)"
    using total_move [of HTLCSystemAddress A to v "bal sha s"] h t l(4) by simp
  then show ?thesis using l(1,5,6,7) by (simp add: htlc_frame_def)
qed

lemma process_eq:
  "processHTLC sha height tx s =
     (let f = hslot sha s; s = hcache sha s in
      if f 100 = HTLCFnLock then htlc_lock sha height tx (f 103) s
      else if f 100 = HTLCFnClaim then htlc_claim sha tx (f 103) s
      else if f 100 = HTLCFnRefund then htlc_refund sha height tx (f 103) s
      else if f 100 = HTLCFnQuery then htlc_query sha s
      else (Some (UnknownFunction (f 100)), s))"
  by (simp add: processHTLC_def readSlot_eq Let_def)

lemma handlers_hcache:
  "htlc_lock sha height tx sid (hcache sha s) = htlc_lock sha height tx sid s"
  "htlc_claim sha tx cid (hcache sha s) = htlc_claim sha tx cid s"
  "htlc_refund sha height tx cid (hcache sha s) = htlc_refund sha height tx cid s"
  "htlc_query sha (hcache sha s) = htlc_query sha s"
  unfolding lock_eq claim_eq refund_eq query_eq by (simp_all add: Let_def cong: if_cong)

lemma handlers_frame:
  assumes ok: "state_ok sha A s" and h: "HTLCSystemAddress \<in> A" and t: "tx_From tx \<in> A"
  shows "htlc_frame sha A s (snd (htlc_lock sha height tx sid s))"
    and "htlc_frame sha A s (snd (htlc_claim sha tx cid s))"
    and "htlc_frame sha A s (snd (htlc_refund sha height tx cid s))"
    and "htlc_frame sha A s (snd (htlc_query sha s))"
proof -
  have cache: "htlc_frame sha A s (hcache sha s)" by (rule htlc_frame_rest [OF hcache_laws [OF ok]])
  have wrote: "htlc_frame sha A s (hwrite sha (hcache sha s) kvs)" for kvs
    by (rule htlc_frame_rest [OF hwrite_hcache_laws(1,2) [OF ok h]])
  have pay: "htlc_frame sha A s (snd (case pay_out sha i v (tx_From tx) (hcache sha s) of
      (Some e, s) \<Rightarrow> (Some e, s) | (None, s) \<Rightarrow> (None, hwrite sha s kvs)))" for i v kvs
    by (auto split: prod.split option.split
        intro: htlc_frame_paid [OF ok h t _ refl] dest!: pay_out_fail intro: cache)
  show "htlc_frame sha A s (snd (htlc_lock sha height tx sid s))"
    unfolding lock_eq using cache wrote by (simp add: Let_def del: state_slots.write_all_simps)
  show "htlc_frame sha A s (snd (htlc_claim sha tx cid s))"
    unfolding claim_eq Let_def using cache pay by (simp del: state_slots.write_all_simps)
  show "htlc_frame sha A s (snd (htlc_refund sha height tx cid s))"
    unfolding refund_eq Let_def using cache pay by (simp del: state_slots.write_all_simps)
  have "evolves sha A s (foldl (\<lambda>s (d, c). copySlot sha s d c) (hcache sha s) dcs) \<and>
      keeps_rest sha A s (foldl (\<lambda>s (d, c). copySlot sha s d c) (hcache sha s) dcs)" for dcs
    using copies_laws [OF evolves_ok [OF hcache_laws(1) [OF ok]] h refl, of dcs] hcache_laws [OF ok]
    by (auto intro: evolves_trans)
  then have copies: "htlc_frame sha A s (foldl (\<lambda>s (d, c). copySlot sha s d c) (hcache sha s) dcs)" for dcs
    by (blast intro: htlc_frame_rest)
  show "htlc_frame sha A s (snd (htlc_query sha s))"
    unfolding query_eq Let_def using cache copies by (simp del: foldl_Cons foldl_Nil)
qed

lemma process_frame:
  assumes ok: "state_ok sha A s" and h: "HTLCSystemAddress \<in> A" and t: "tx_From tx \<in> A"
    and run: "processHTLC sha height tx s = (err, s')"
  shows "htlc_frame sha A s s'"
proof -
  have "htlc_frame sha A s (hcache sha s)" by (rule htlc_frame_rest [OF hcache_laws [OF ok]])
  then have "htlc_frame sha A s (snd (processHTLC sha height tx s))"
    unfolding process_eq Let_def handlers_hcache using handlers_frame [OF ok h t] by simp
  then show ?thesis by (simp add: run)
qed

section \<open>Solvency\<close>

text \<open>The system account holds what the pending contracts lock.\<close>

definition solvent :: "hashfn \<Rightarrow> statedb \<Rightarrow> bool" where
  "solvent sha s \<longleftrightarrow>
     pending_total (slot_of sha s HTLCSystemAddress) \<le> unat (GetBalance sha s HTLCSystemAddress)"

lemma move_payer: "from \<noteq> to \<Longrightarrow> move from to v f from = f from - v"
  by (simp add: move_def)

lemma solvent_settled:
  assumes "unat (f (0 :: uint64)) < max_htlcs" and "f (101 :: uint64) < f 0" and "h = htlc_at f (f 101)"
    and "h_status h = 0" and "st \<noteq> 0" and "f' 0 = f 0" and "h_amount h \<le> b" and "pending_total f \<le> unat b"
    and "\<And>j. unat j < max_htlcs \<Longrightarrow> htlc_at f' j = (if j = f 101 then h\<lparr>h_status := st\<rparr> else htlc_at f j)"
  shows "pending_total f' \<le> unat (b - h_amount h)"
proof -
  have i: "unat (f 101) < unat (f 0)" using assms(2) by (simp add: word_less_nat_alt)
  then have "unat (f 101) < max_htlcs" using assms(1) by simp
  then have "pending_total f' + unat (h_amount (htlc_at f (f 101))) = pending_total f"
    using assms(3-6,9) by (intro pending_settle [of "f 101" f f', OF i assms(1,6)]) simp_all
  moreover have "unat (b - h_amount h) = unat b - unat (h_amount h)"
    using assms(7) by (rule unat_sub_le)
  moreover have "unat (h_amount h) \<le> unat b" using assms(7) by (simp add: word_le_nat_alt)
  ultimately show ?thesis using assms(3,8) by simp
qed

lemma counter_kept:
  assumes "htlc_claim sha tx cid s = (None, s')" and "state_ok sha A s" and "HTLCSystemAddress \<in> A"
    and "tx_From tx \<in> A" and "unat (hslot sha s 0) < max_htlcs"
  shows "hslot sha s' 0 = hslot sha s 0"
proof -
  let ?f = "hslot sha s" and ?i = "hslot sha s 101"
  obtain s1 where lt: "?i < ?f 0" and p: "pay_out sha ?i (?f (rec_slot ?i 2)) (tx_From tx) (hcache sha s) = (None, s1)"
    and s': "s' = hwrite sha s1 (claim_writes ?f ?i)"
    using assms(1) unfolding claim_eq by (auto simp: Let_def not_le split: if_splits prod.splits option.splits)
  have "unat ?i < max_htlcs" using lt assms(5) by (simp add: word_less_nat_alt)
  then show ?thesis
    using paid_laws(3) [OF assms(2-4) p s'] settle_table(3) [of ?i ?i 0 ?f ?f] by simp
qed

lemma counter_kept_refund:
  assumes "htlc_refund sha height tx cid s = (None, s')" and "state_ok sha A s" and "HTLCSystemAddress \<in> A"
    and "tx_From tx \<in> A" and "unat (hslot sha s 0) < max_htlcs"
  shows "hslot sha s' 0 = hslot sha s 0"
proof -
  let ?f = "hslot sha s" and ?i = "hslot sha s 101"
  obtain s1 where lt: "?i < ?f 0" and p: "pay_out sha ?i (?f (rec_slot ?i 2)) (tx_From tx) (hcache sha s) = (None, s1)"
    and s': "s' = hwrite sha s1 [(rec_slot ?i 8, 2)]"
    using assms(1) unfolding refund_eq by (auto simp: Let_def not_le split: if_splits prod.splits option.splits)
  have "unat ?i < max_htlcs" using lt assms(5) by (simp add: word_less_nat_alt)
  then show ?thesis
    using paid_laws(3) [OF assms(2-4) p s'] settle_table(4) [of ?i ?i 0 ?f] by simp
qed

lemma process_solvent:
  assumes ok: "state_ok sha A s" and h: "HTLCSystemAddress \<in> A" and t: "tx_From tx \<in> A"
    and ne: "tx_From tx \<noteq> HTLCSystemAddress"
    and m: "unat (hslot sha s 0) + 1 < max_htlcs"
    and sol: "pending_total (hslot sha s) + (if hslot sha s 100 = HTLCFnLock then unat (tx_Value tx) else 0)
                \<le> unat (bal sha s HTLCSystemAddress)"
    and run: "processHTLC sha height tx s = (None, s')"
  shows "solvent sha s'"
proof -
  let ?f = "hslot sha s" and ?f' = "hslot sha s'" and ?H = HTLCSystemAddress
  have m': "unat (?f 0) < max_htlcs" "unat (?f htlcSlotCounter) < max_htlcs"
    using m by (simp_all add: htlcSlotCounter_def)
  consider (lock) "?f 100 = HTLCFnLock" "htlc_lock sha height tx (?f 103) s = (None, s')"
    | (claim) "?f 100 \<noteq> HTLCFnLock" "htlc_claim sha tx (?f 103) s = (None, s')"
    | (refund) "?f 100 \<noteq> HTLCFnLock" "htlc_refund sha height tx (?f 103) s = (None, s')"
    | (query) "?f 100 \<noteq> HTLCFnLock" "htlc_query sha s = (None, s')"
    using run unfolding process_eq Let_def handlers_hcache by (auto split: if_splits)
  then show ?thesis
  proof cases
    case lock
    note l = lock_effect [OF ok h refl m'(2) lock(2)]
    have "pending_total ?f' = pending_total ?f + unat (tx_Value tx)"
      by (rule pending_lock [of ?f, OF m])
        (use l m' in \<open>simp_all add: htlcSlotCounter_def pending_def htlcStatusPending_def\<close>)
    then show ?thesis using sol lock(1) l h by (simp add: solvent_def)
  next
    case claim
    note c = claim_effect [OF ok h t refl refl m'(2) claim(2)]
    have "pending_total ?f' \<le> unat (bal sha s ?H - h_amount (htlc_at ?f (?f 101)))"
      by (rule solvent_settled [where f = ?f and st = 1, OF m'(1) _ refl])
        (use c sol claim(1) counter_kept [OF claim(2) ok h t m'(1)] in \<open>auto simp: htlc_consts\<close>)
    then show ?thesis using c h ne by (simp add: solvent_def move_payer)
  next
    case refund
    note c = refund_effect [OF ok h t refl refl m'(2) refund(2)]
    have "pending_total ?f' \<le> unat (bal sha s ?H - h_amount (htlc_at ?f (?f 101)))"
      by (rule solvent_settled [where f = ?f and st = 2, OF m'(1) _ refl])
        (use c sol refund(1) counter_kept_refund [OF refund(2) ok h t m'(1)] in \<open>auto simp: htlc_consts\<close>)
    then show ?thesis using c h ne by (simp add: solvent_def move_payer)
  next
    case query
    then obtain dcs where dcs: "s' = foldl (\<lambda>s (d, c). copySlot sha s d c) (hcache sha s) dcs"
      and low: "\<forall>k\<in>fst ` set dcs. 200 \<le> unat k \<and> unat k \<le> 208"
      unfolding query_eq by (force simp: Let_def split: if_splits simp del: foldl_Cons)
    note cl = copies_laws [OF evolves_ok [OF hcache_laws(1) [OF ok]] h dcs]
    have f': "?f' k = ?f k" if "unat k < 200 \<or> 208 < unat k" for k
      using cl low that by (metis leD slot_cache)
    have rec: "?f' (rec_slot j off) = ?f (rec_slot j off)" if "unat j < max_htlcs" "unat off < 14" for j off
      using unat_rec_slot [OF that] by (intro f') simp
    have "htlc_at ?f' j = htlc_at ?f j" if "unat j < max_htlcs" for j
      using that by (simp add: htlc_at_def rec)
    then have "pending_total ?f' = pending_total ?f"
      by (intro pending_same [of ?f, OF m'(1)]) (simp_all add: f')
    moreover have "bal sha s' ?H = bal sha s ?H"
      using cl keeps_rest_bal [of sha A "hcache sha s" s' ?H] h by (simp add: GetBalance_eq)
    ultimately show ?thesis using sol query(1) by (simp add: solvent_def)
  qed
qed

end
