(* ===== verification/Tyl_Executor_Facts.thy ===== *)
theory Tyl_Executor_Facts
  imports Tyl_Executor Tyl_HTLC_Facts
begin

text \<open>
  The laws of transaction execution: what the call data does to the slots of the callee, what each
  way of running code keeps, and the shape of an execution: up-front payment, code, refund of the
  unused gas; or rollback and a charge.
\<close>

section \<open>Call data\<close>

text \<open>The slot of argument number \<open>i\<close>: slot 103 is left out.\<close>

definition arg_slot :: "nat \<Rightarrow> uint64" where
  "arg_slot i = (if i < 3 then 100 + of_nat i else 101 + of_nat i)"

lemma unat_arg_slot: "i < 2 ^ 32 \<Longrightarrow> unat (arg_slot i) = (if i < 3 then 100 + i else 101 + i)"
  unfolding arg_slot_def by (auto simp: unat_word_ariths unat_of_nat)

lemma arg_slot_Suc:
  assumes "Suc i < 2 ^ 32"
  shows "arg_slot (Suc i) = (if arg_slot i + 1 = 103 then 104 else arg_slot i + 1)"
proof -
  have "unat (arg_slot i + 1) = unat (arg_slot i) + 1"
    using assms unat_arg_slot [of i] by (subst unat_add_no_wrap) (auto split: if_splits)
  then show ?thesis
    using assms unat_arg_slot [of i] unat_arg_slot [of "Suc i"]
    by (auto simp: word_unat_eq_iff split: if_splits)
qed

definition arg_writes :: "nat \<Rightarrow> uint64 list \<Rightarrow> (uint64 \<times> uint64) list" where
  "arg_writes i vs = zip (map arg_slot [i..<i + length vs]) vs"

lemma arg_writes_simps [simp]:
  "arg_writes i [] = []" "arg_writes i (v # vs) = (arg_slot i, v) # arg_writes (Suc i) vs"
  by (simp_all add: arg_writes_def upt_conv_Cons del: upt_Suc)

lemma write_args_eq:
  "i + length vs < 2 ^ 32 \<Longrightarrow>
   write_args sha s a (arg_slot i) vs = state_slots.write_all sha a s (arg_writes i vs)"
proof (induction vs arbitrary: i s)
  case (Cons v vs)
  have "Suc i < 2 ^ 32" using Cons.prems by simp
  from arg_slot_Suc [OF this] show ?case
    using Cons.IH [of "Suc i" "writeStorageUint64 sha s a (arg_slot i) v"] Cons.prems
    by (simp add: Let_def writeStorageUint64_def [symmetric])
qed simp

lemma length_data_words: "length (data_words d) = length d div 8"
  by (induction d rule: data_words.induct) (subst data_words.simps, auto simp: div_if)

definition call_writes :: "address \<Rightarrow> bytes \<Rightarrow> (uint64 \<times> uint64) list" where
  "call_writes caller d = arg_writes 0 (data_words d) @ [(103, CallerID caller)]"

lemma write_all_append:
  "state_slots.write_all sha a s (xs @ ys) = state_slots.write_all sha a (state_slots.write_all sha a s xs) ys"
  by (simp add: state_slots.write_all_def)

lemma writeCallData_eq:
  assumes "length d < 2 ^ 32"
  shows "writeCallData sha s a caller d = state_slots.write_all sha a s (call_writes caller d)"
proof -
  have "length (data_words d) < 2 ^ 32" using assms by (simp add: length_data_words)
  then have "write_args sha s a 100 (data_words d) = state_slots.write_all sha a s (arg_writes 0 (data_words d))"
    using write_args_eq [of 0 "data_words d" sha s a] by (simp add: arg_slot_def)
  then show ?thesis
    by (simp add: writeCallData_def call_writes_def write_all_append writeStorageUint64_def)
qed

text \<open>The slots call data reaches: below 10000 for call data within the size limit.\<close>

lemma call_writes_slots:
  assumes "length d < 2 ^ 32" and "k \<in> fst ` set (call_writes caller d)"
  shows "100 \<le> unat k \<and> unat k \<le> 103 + length d div 8"
proof -
  let ?n = "length (data_words d)"
  have n: "?n < 2 ^ 32" using assms(1) by (simp add: length_data_words)
  from assms(2) consider "k = 103" | i where "i < ?n" "k = arg_slot i"
    by (auto simp: call_writes_def arg_writes_def in_set_zip)
  then show ?thesis
  proof cases
    case 2
    then show ?thesis using n unat_arg_slot [of i] by (auto simp: length_data_words split: if_splits)
  qed simp
qed

lemma writeCallData_laws:
  assumes ok: "state_ok sha A s" and a: "a \<in> A" and d: "length d < 2 ^ 32"
    and s': "s' = writeCallData sha s a caller d"
  shows "evolves sha A s s'" and "rest_of sha A a s' = rest_of sha A a s"
    and "slot_of sha s' a = upds (slot_of sha s a) (call_writes caller d)"
    and "unat k < 100 \<or> 103 + length d div 8 < unat k \<Longrightarrow> slot_of sha s' a k = slot_of sha s a k"
proof -
  have s'': "s' = state_slots.write_all sha a s (call_writes caller d)"
    unfolding s' by (rule writeCallData_eq [OF d])
  show "evolves sha A s s'" unfolding s'' by (rule evolves_write_all [OF ok a])
  show "rest_of sha A a s' = rest_of sha A a s"
    using state_slots.write_all_keeps [of sha A s a] ok a by (simp add: s'')
  show "slot_of sha s' a = upds (slot_of sha s a) (call_writes caller d)"
    using state_slots.write_all_slots [of sha A s a] ok a by (simp add: s'')
  assume k: "unat k < 100 \<or> 103 + length d div 8 < unat k"
  have "k \<notin> fst ` set (call_writes caller d)"
  proof
    assume "k \<in> fst ` set (call_writes caller d)"
    from call_writes_slots [OF d this] k show False by linarith
  qed
  then show "slot_of sha s' a k = slot_of sha s a k"
    using state_slots.write_all_other [of sha A s a] ok a by (simp add: s'')
qed

section \<open>What running code keeps\<close>

text \<open>\<open>run_frame\<close>: the step can be undone, creates no balance and touches no nonce.\<close>

definition run_frame :: "hashfn \<Rightarrow> address set \<Rightarrow> statedb \<Rightarrow> statedb \<Rightarrow> bool" where
  "run_frame sha A s s' \<longleftrightarrow> evolves sha A s s' \<and>
     (\<forall>c\<in>A. acct_Nonce (acct sha s' c) = acct_Nonce (acct sha s c)) \<and>
     (total_bal A (bal sha s) < 2 ^ 64 \<longrightarrow> total_bal A (bal sha s') = total_bal A (bal sha s))"

lemma run_frame_trans:
  "run_frame sha A s s' \<Longrightarrow> run_frame sha A s' s'' \<Longrightarrow> run_frame sha A s s''"
  unfolding run_frame_def by (metis evolves_trans)

lemma run_frame_ok: "run_frame sha A s s' \<Longrightarrow> state_ok sha A s'"
  by (auto simp: run_frame_def dest: evolves_ok)

lemma run_frame_refl: "state_ok sha A s \<Longrightarrow> run_frame sha A s s"
  by (simp add: run_frame_def evolves_refl)

lemma run_frame_core:
  assumes "evolves sha A s s'" and "\<And>c. c \<in> A \<Longrightarrow> core (acct sha s' c) = core (acct sha s c)"
  shows "run_frame sha A s s'"
  using assms total_cong [of A "bal sha s'" "bal sha s"]
  by (simp add: run_frame_def core_eq_iff GetBalance_eq)

lemma run_frame_rest: "evolves sha A s s' \<Longrightarrow> rest_of sha A a s' = rest_of sha A a s \<Longrightarrow> run_frame sha A s s'"
  by (rule run_frame_core) (simp_all add: rest_of_eq_iff)

lemma run_frame_htlc: "htlc_frame sha A s s' \<Longrightarrow> run_frame sha A s s'"
  by (simp add: htlc_frame_def run_frame_def)

lemma run_frame_cache: "state_ok sha A s \<Longrightarrow> run_frame sha A s (cache_trie sha s a)"
  by (rule run_frame_core [OF evolves_cache]) simp_all

lemma run_frame_writeU:
  assumes "state_ok sha A s" and "a \<in> A"
  shows "run_frame sha A s (writeStorageUint64 sha s a k v)"
  by (rule run_frame_rest [OF evolves_writeStorageUint64 [OF assms]])
    (rule state_slots.wr_frame, use assms in simp)

lemma run_frame_calldata:
  assumes "state_ok sha A s" and "a \<in> A" and "length d < 2 ^ 32"
  shows "run_frame sha A s (writeCallData sha s a caller d)"
  using writeCallData_laws(1,2) [OF assms refl] by (rule run_frame_rest)

lemma run_frame_Execute:
  assumes "Execute (StateDB_accessor sha) ctx s = Some (r, s')" and "state_ok sha A s" and "ctx_Target ctx \<in> A"
  shows "run_frame sha A s s'"
  by (rule run_frame_core [OF evolves_Execute [OF assms]])
    (use acct_Execute [OF assms] in \<open>simp add: core_eq_iff\<close>)

lemma acct_SetCode:
  assumes "state_ok sha A s" and "a \<in> A" and "c \<in> A"
  shows "acct sha (SetCode sha s a code) c = (if c = a then (acct sha s a)\<lparr>acct_CodeHash := sha code\<rparr> else acct sha s c)"
proof -
  have "state_ok sha A (s\<lparr>codes := (codes s)(sha code \<mapsto> code)\<rparr>)" using assms(1) by simp
  from acct_SetAccount [OF this assms(2,3)] show ?thesis by (simp add: SetCode_def Let_def)
qed

lemma run_frame_SetCode:
  assumes "state_ok sha A s" and "a \<in> A"
  shows "run_frame sha A s (SetCode sha s a code)"
proof -
  note ac = acct_SetCode [OF assms]
  have "total_bal A (bal sha (SetCode sha s a code)) = total_bal A (bal sha s)"
    by (rule total_cong) (simp add: GetBalance_eq ac)
  then show ?thesis
    using evolves_SetCode [OF assms] by (simp add: run_frame_def ac)
qed

lemma run_frame_transfer:
  assumes "state_ok sha A s" and "a \<in> A" and "b \<in> A" and "v \<le> bal sha s a"
    and s1: "s1 = SetBalance sha s a (bal sha s a - v)"
    and s2: "s2 = SetBalance sha s1 b (bal sha s1 b + v)"
  shows "run_frame sha A s s2"
proof -
  note l = transfer_laws [OF assms(1-3) s1 s2]
  have "total_bal A (bal sha s2) = total_bal A (move a b v (bal sha s))"
    by (rule total_cong) (rule l(3))
  then show ?thesis
    using l(1,2) total_move [OF assms(2,3), of v "bal sha s"] assms(4)
    by (simp add: run_frame_def same_but_bal_def)
qed

subsection \<open>Settlement\<close>

lemma run_frame_transferToken:
  assumes ok: "state_ok sha A s" and a: "a \<in> A"
  shows "run_frame sha A s (snd (transferToken sha s a i j v))"
proof -
  have c: "run_frame sha A s (cache_trie sha s a)" by (rule run_frame_cache [OF ok])
  have w1: "run_frame sha A s (writeStorageUint64 sha (cache_trie sha s a) a k w)" for k w
    by (rule run_frame_trans [OF c run_frame_writeU [OF run_frame_ok [OF c] a]])
  have w2: "run_frame sha A s (writeStorageUint64 sha (writeStorageUint64 sha (cache_trie sha s a) a k w) a k' w')"
    for k w k' w'
    by (rule run_frame_trans [OF w1 run_frame_writeU [OF run_frame_ok [OF w1] a]])
  show ?thesis using c w2 by (simp add: transferToken_def readStorageUint64_eq Let_def)
qed

lemma run_frame_settle_A:
  "state_ok sha A s \<Longrightarrow> a \<in> A \<Longrightarrow> run_frame sha A s (snd (settle_A sha a i j v s))"
  by (simp add: settle_A_def run_frame_transferToken run_frame_refl)

lemma settle_B_eq:
  "settle_B sha err from to v s =
     (if v > 0 then
        if bal sha s from < v then (Some (err (bal sha s from)), s)
        else let s1 = SetBalance sha s from (bal sha s from - v)
             in (None, SetBalance sha s1 to (bal sha s1 to + v))
      else (None, s))"
  by (simp add: settle_B_def SetBalance_def GetBalance_eq Let_def)

lemma run_frame_settle_B:
  assumes ok: "state_ok sha A s" and a: "a \<in> A" and b: "b \<in> A"
  shows "run_frame sha A s (snd (settle_B sha err a b v s))"
  using run_frame_transfer [OF ok a b _ refl refl, of v] run_frame_refl [OF ok]
  by (simp add: settle_B_eq Let_def)

lemma settle_reads:
  "settleAMM sha reg contract caller s =
     (let f = slot_of sha s contract; s = cache_trie sha s contract in
      if f 3 = 0 then (None, s)
      else if f 300 = 0 \<and> f 301 = 0 \<and> f 302 = 0 \<and> f 303 = 0 then (None, s)
      else (case reg (f 3) of
         None \<Rightarrow> (Some (SettleTokenNotFound (f 3)), s)
       | Some token \<Rightarrow>
           (case settle_A sha token (CallerID caller) (CallerID contract) (f 300) s of (Some e, s) \<Rightarrow> (Some e, s)
            | (None, s) \<Rightarrow>
           (case settle_A sha token (CallerID contract) (CallerID caller) (f 301) s of (Some e, s) \<Rightarrow> (Some e, s)
            | (None, s) \<Rightarrow>
           (case settle_B sha (\<lambda>have. SettleCallerBalance have (f 302)) caller contract (f 302) s of (Some e, s) \<Rightarrow> (Some e, s)
            | (None, s) \<Rightarrow>
           (case settle_B sha (\<lambda>have. SettlePoolBalance have (f 303)) contract caller (f 303) s of (Some e, s) \<Rightarrow> (Some e, s)
            | (None, s) \<Rightarrow>
                (None, state_slots.write_all sha contract s [(300, 0), (301, 0), (302, 0), (303, 0)])))))))"
  by (simp add: settleAMM_def readStorageUint64_eq Let_def exec_consts cong: option.case_cong prod.case_cong)

text \<open>A step that may fail, followed by the rest of the work.\<close>

lemma frame_bind:
  assumes "P (snd r)" and "\<And>s. P s \<Longrightarrow> P (snd (g s))"
  shows "P (snd (case r of (Some e, s) \<Rightarrow> (Some e, s) | (None, s) \<Rightarrow> g s))"
  using assms by (auto split: prod.split option.split)

lemma run_frame_settle:
  assumes ok: "state_ok sha A s" and c: "contract \<in> A" and a: "caller \<in> A" and reg: "ran reg \<subseteq> A"
  shows "run_frame sha A s (snd (settleAMM sha reg contract caller s))"
proof -
  let ?P = "run_frame sha A s"
  have step: "?P s1 \<Longrightarrow> run_frame sha A s1 s2 \<Longrightarrow> ?P s2" for s1 s2
    by (rule run_frame_trans)
  have A: "?P s1 \<Longrightarrow> ?P (snd (settle_A sha t i j v s1))" if "reg k = Some t" for s1 t i j v k
    using step run_frame_settle_A [OF run_frame_ok] that reg by (meson ranI subsetD)
  have B: "?P s1 \<Longrightarrow> p \<in> A \<Longrightarrow> q \<in> A \<Longrightarrow> ?P (snd (settle_B sha er p q v s1))" for s1 er p q v
    using step run_frame_settle_B [OF run_frame_ok] by blast
  have W: "?P s1 \<Longrightarrow> ?P (state_slots.write_all sha contract s1 kvs)" for s1 kvs
  proof (rule step [OF _ run_frame_rest], assumption)
    assume "?P s1"
    then have ok1: "state_ok sha A s1" by (rule run_frame_ok)
    show "evolves sha A s1 (state_slots.write_all sha contract s1 kvs)" by (rule evolves_write_all [OF ok1 c])
    show "rest_of sha A contract (state_slots.write_all sha contract s1 kvs) = rest_of sha A contract s1"
      using state_slots.write_all_keeps [of sha A s1 contract kvs] ok1 c by simp
  qed
  have C: "?P (cache_trie sha s contract)" by (rule run_frame_cache [OF ok])
  show ?thesis
    unfolding settle_reads Let_def
    using C a c
    by (auto split: option.split simp del: state_slots.write_all_simps
        intro!: frame_bind [of ?P] elim!: A B W intro: A B W)
qed

section \<open>Running the code of a transaction\<close>

text \<open>The addresses a transaction touches, within a set of addresses that do not collide.\<close>

definition covered :: "extern \<Rightarrow> address set \<Rightarrow> executor \<Rightarrow> transaction \<Rightarrow> bool" where
  "covered x A e tx \<longleftrightarrow> HTLCSystemAddress \<in> A \<and> tx_From tx \<in> A \<and> tx_To tx \<in> A \<and>
     deriveContractAddress (sha256 x) (tx_From tx) (tx_Nonce tx) \<in> A \<and> ran (ex_contractByID e) \<subseteq> A"

lemma gas_sum:
  fixes i l g :: uint64
  assumes "i \<le> l" and "g \<le> l - i"
  shows "unat (i + g) = unat i + unat g" and "i + g \<le> l" and "i \<le> i + g"
proof -
  have "unat i \<le> unat l" "unat g \<le> unat l - unat i"
    using assms by (simp_all add: word_le_nat_alt unat_sub_le)
  moreover have "unat l < 2 ^ 64" using unsigned_less [of l] by simp
  ultimately show s: "unat (i + g) = unat i + unat g" by (simp add: unat_add_no_wrap)
  show "i + g \<le> l" "i \<le> i + g"
    using s \<open>unat g \<le> unat l - unat i\<close> \<open>unat i \<le> unat l\<close> by (simp_all add: word_le_nat_alt)
qed

fun run_good :: "hashfn \<Rightarrow> address set \<Rightarrow> executor \<Rightarrow> transaction \<Rightarrow> uint64 \<Rightarrow> statedb \<Rightarrow> run_result \<Rightarrow> bool" where
  "run_good sha A e tx ig s RunPanic = True"
| "run_good sha A e tx ig s (RunFailed s' g err) = (run_frame sha A s s' \<and> ig \<le> g \<and> g \<le> tx_GasLimit tx)"
| "run_good sha A e tx ig s (RunDone e' g) =
     (run_frame sha A s (ex_stateDB e') \<and> ig \<le> g \<and> g \<le> tx_GasLimit tx \<and>
      ran (ex_contractByID e') \<subseteq> A \<and> ex_currentHeight e' = ex_currentHeight e \<and> ex_coinbase e' = ex_coinbase e)"

lemma call_contract_good:
  assumes ok: "state_ok (sha256 x) A s" and cov: "covered x A e tx" and d: "length (tx_Data tx) < 2 ^ 32"
    and ig: "ig \<le> tx_GasLimit tx"
  shows "run_good (sha256 x) A e tx ig s (call_contract x e tx s ig code)"
proof -
  let ?sha = "sha256 x" and ?to = "tx_To tx" and ?from = "tx_From tx"
  let ?s = "writeCallData ?sha s ?to ?from (tx_Data tx)"
  let ?ctx = "\<lparr>ctx_Caller = ?from, ctx_Target = ?to, ctx_Value = tx_Value tx,
     ctx_GasLeft = tx_GasLimit tx - ig, ctx_Code = code\<rparr>"
  have a: "?from \<in> A" "?to \<in> A" "ran (ex_contractByID e) \<subseteq> A" using cov by (simp_all add: covered_def)
  have F: "run_frame ?sha A s ?s" by (rule run_frame_calldata [OF ok a(2) d])
  show ?thesis
  proof (cases "Execute (StateDB_accessor ?sha) ?ctx ?s")
    case None
    then show ?thesis by (simp add: call_contract_def)
  next
    case (Some rs)
    obtain r s1 where rs: "rs = (r, s1)" by fastforce
    note run = Some [unfolded rs]
    have F1: "run_frame ?sha A s s1"
      using run_frame_trans [OF F run_frame_Execute [OF run run_frame_ok [OF F]]] a(2) by simp
    have F2: "run_frame ?sha A s (snd (settleAMM ?sha (ex_contractByID e) ?to ?from s1))"
      by (rule run_frame_trans [OF F1 run_frame_settle [OF run_frame_ok [OF F1] a(2,1,3)]])
    have g: "ig \<le> ig + er_GasUsed r \<and> ig + er_GasUsed r \<le> tx_GasLimit tx"
      using gas_sum(2,3) [OF ig] Execute_gas_used [OF run] by simp
    show ?thesis
      using F1 F2 g a(3) run by (auto simp: call_contract_def Let_def split: option.split prod.split)
  qed
qed

lemma run_code_good:
  assumes ok: "state_ok (sha256 x) A s" and cov: "covered x A e tx" and d: "length (tx_Data tx) < 2 ^ 32"
    and ig: "ig \<le> tx_GasLimit tx"
  shows "run_good (sha256 x) A e tx ig s (run_code x e tx s ig)"
proof -
  let ?sha = "sha256 x" and ?to = "tx_To tx" and ?from = "tx_From tx"
  have a: "HTLCSystemAddress \<in> A" "?from \<in> A" "?to \<in> A" "ran (ex_contractByID e) \<subseteq> A"
    "deriveContractAddress ?sha ?from (tx_Nonce tx) \<in> A"
    using cov by (simp_all add: covered_def)
  let ?s = "writeCallData ?sha s ?to ?from (tx_Data tx)"
  have F: "run_frame ?sha A s ?s" by (rule run_frame_calldata [OF ok a(3) d])
  have H: "run_frame ?sha A s (snd (processHTLC ?sha h tx ?s))" for h
    using run_frame_trans [OF F run_frame_htlc [OF process_frame [OF run_frame_ok [OF F] a(1,2)]]]
    by (metis prod.collapse)
  have refl: "run_frame ?sha A s s" by (rule run_frame_refl [OF ok])
  have code: "run_frame ?sha A s (SetCode ?sha s (deriveContractAddress ?sha ?from (tx_Nonce tx)) c)" for c
    by (rule run_frame_SetCode [OF ok a(5)])
  have "ran ((ex_contractByID e)(k \<mapsto> v)) \<subseteq> A" if "v \<in> A" for k v
    using a(4) that by (auto simp: ran_def split: if_splits)
  note ran_upd = this [OF a(5)]
  have plain: "run_good ?sha A e tx ig s (RunDone (e\<lparr>ex_stateDB := s\<rparr>) ig)"
    using refl ig a(4) by simp
  consider (htlc) "?to = HTLCSystemAddress" "tx_Data tx \<noteq> []"
    | (create) "\<not> (?to = HTLCSystemAddress \<and> tx_Data tx \<noteq> [])" "?to = ZeroAddress"
    | (rest) "\<not> (?to = HTLCSystemAddress \<and> tx_Data tx \<noteq> [])" "?to \<noteq> ZeroAddress" by blast
  then show ?thesis
  proof cases
    case htlc
    then show ?thesis
      using H [of "ex_currentHeight e"] ig a(4) by (auto simp: run_code_def Let_def split: prod.split option.split)
  next
    case create
    then show ?thesis using code ran_upd ig by (auto simp: run_code_def Let_def)
  next
    case rest
    then show ?thesis
      using plain call_contract_good [OF assms]
      by (auto simp: run_code_def Let_def simp del: run_good.simps split: option.split)
  qed
qed

section \<open>Payment, refund and rollback\<close>

lemma precheck_None:
  assumes "precheck x e tx = None"
  defines "sender \<equiv> acct (sha256 x) (ex_stateDB e) (tx_From tx)"
  shows "intrinsic_gas tx \<le> tx_GasLimit tx" and "length (tx_Data tx) \<le> 100000"
    and "tx_To tx \<noteq> ZeroAddress \<Longrightarrow> length (tx_Data tx) \<le> 65536"
    and "unat (tx_GasPrice tx) * unat (tx_GasLimit tx) < 2 ^ 64"
    and "unat (tx_Value tx + tx_GasPrice tx * tx_GasLimit tx) =
         unat (tx_Value tx) + unat (tx_GasPrice tx) * unat (tx_GasLimit tx)"
    and "tx_Value tx + tx_GasPrice tx * tx_GasLimit tx \<le> acct_Balance sender"
    and "tx_Nonce tx = acct_Nonce sender"
proof -
  let ?P = "tx_GasPrice tx" and ?L = "tx_GasLimit tx" and ?V = "tx_Value tx"
  note pc = assms(1) [unfolded precheck_def Let_def]
  show "intrinsic_gas tx \<le> ?L" "length (tx_Data tx) \<le> 100000"
    "tx_To tx \<noteq> ZeroAddress \<Longrightarrow> length (tx_Data tx) \<le> 65536"
    "?V + ?P * ?L \<le> acct_Balance sender" "tx_Nonce tx = acct_Nonce sender"
    using pc by (auto simp: sender_def MaxCodeSize_def MaxCallDataSize_def split: if_splits)
  show m: "unat ?P * unat ?L < 2 ^ 64"
  proof (cases "?P = 0")
    case False
    then have "(?P * ?L) div ?P = ?L" using pc by (auto split: if_splits)
    then show ?thesis using mult_overflow_iff [OF False, of ?L] by simp
  qed simp
  have u: "unat (?P * ?L) = unat ?P * unat ?L" using m by (simp add: unat_mult_no_wrap)
  have "\<not> ?V + ?P * ?L < ?V" using pc by (auto split: if_splits)
  then have "unat ?V + unat (?P * ?L) < 2 ^ 64" using add_overflow_iff [of ?V "?P * ?L"] by simp
  then show "unat (?V + ?P * ?L) = unat ?V + unat ?P * unat ?L"
    by (simp add: unat_add_no_wrap u)
qed

text \<open>Writing nonce and balance of an account.\<close>

lemma set_core:
  assumes ok: "state_ok sha A s" and a: "a \<in> A"
    and s': "s' = SetAccount sha s a ((acct sha s a)\<lparr>acct_Nonce := n, acct_Balance := b\<rparr>)"
  shows "evolves sha A s s'"
    and "c \<in> A \<Longrightarrow> acct sha s' c = (if c = a then (acct sha s a)\<lparr>acct_Nonce := n, acct_Balance := b\<rparr> else acct sha s c)"
    and "c \<in> A \<Longrightarrow> storage sha s' c = storage sha s c"
    and "c \<in> A \<Longrightarrow> bal sha s' c = ((bal sha s)(a := b)) c"
    and "total_bal A (bal sha s') + unat (bal sha s a) = total_bal A (bal sha s) + unat b"
proof -
  show "evolves sha A s s'" unfolding s' by (rule evolves_SetAccount [OF ok a]) simp
  show ac: "c \<in> A \<Longrightarrow> acct sha s' c = (if c = a then (acct sha s a)\<lparr>acct_Nonce := n, acct_Balance := b\<rparr> else acct sha s c)" for c
    unfolding s' by (rule acct_SetAccount [OF ok a])
  show "c \<in> A \<Longrightarrow> storage sha s' c = storage sha s c"
    unfolding s' by (rule storage_SetAccount [OF ok a]) simp_all
  show bb: "c \<in> A \<Longrightarrow> bal sha s' c = ((bal sha s)(a := b)) c" for c
    by (simp add: GetBalance_eq ac)
  have "total_bal A (bal sha s') = total_bal A ((bal sha s)(a := b))"
    by (rule total_cong) (rule bb)
  then show "total_bal A (bal sha s') + unat (bal sha s a) = total_bal A (bal sha s) + unat b"
    using total_upd [OF a, of "bal sha s" b] by simp
qed

lemma same_nonce: "r\<lparr>acct_Nonce := acct_Nonce r, acct_Balance := b\<rparr> = r\<lparr>acct_Balance := b\<rparr>"
  by (cases r) simp

lemma same_balance: "r\<lparr>acct_Nonce := n, acct_Balance := acct_Balance r\<rparr> = r\<lparr>acct_Nonce := n\<rparr>"
  by (cases r) simp

text \<open>Crediting an account, when the total stays in range.\<close>

lemma credit_laws:
  assumes ok: "state_ok sha A s" and a: "a \<in> A"
    and s': "s' = SetAccount sha s a ((acct sha s a)\<lparr>acct_Balance := acct_Balance (acct sha s a) + v\<rparr>)"
  shows "evolves sha A s s'" and "c \<in> A \<Longrightarrow> acct_Nonce (acct sha s' c) = acct_Nonce (acct sha s c)"
    and "c \<in> A \<Longrightarrow> storage sha s' c = storage sha s c"
    and "total_bal A (bal sha s) + unat v < 2 ^ 64 \<Longrightarrow> total_bal A (bal sha s') = total_bal A (bal sha s) + unat v"
proof -
  note l = set_core [OF ok a, where n = "acct_Nonce (acct sha s a)" and b = "acct_Balance (acct sha s a) + v",
      unfolded same_nonce, OF s']
  show "evolves sha A s s'" by (rule l(1))
  show "c \<in> A \<Longrightarrow> acct_Nonce (acct sha s' c) = acct_Nonce (acct sha s c)" by (simp add: l(2))
  show "c \<in> A \<Longrightarrow> storage sha s' c = storage sha s c" by (rule l(3))
  assume t: "total_bal A (bal sha s) + unat v < 2 ^ 64"
  have "unat (bal sha s a + v) = unat (bal sha s a) + unat v"
    using t total_member [OF a, of "bal sha s"] by (simp add: unat_add_no_wrap)
  then show "total_bal A (bal sha s') = total_bal A (bal sha s) + unat v"
    using l(5) by (simp add: GetBalance_eq)
qed

lemma pay_upfront_laws:
  assumes ok: "state_ok sha A s" and a: "tx_From tx \<in> A" and b: "tx_To tx \<in> A"
    and afford: "tx_Value tx + tx_GasPrice tx * tx_GasLimit tx \<le> bal sha s (tx_From tx)"
    and u: "unat (tx_Value tx + tx_GasPrice tx * tx_GasLimit tx) =
         unat (tx_Value tx) + unat (tx_GasPrice tx) * unat (tx_GasLimit tx)"
    and T: "total_bal A (bal sha s) < 2 ^ 64" and s': "s' = pay_upfront sha tx s"
  shows "evolves sha A s s'"
    and "c \<in> A \<Longrightarrow> acct_Nonce (acct sha s' c) = acct_Nonce (acct sha s c) + (if c = tx_From tx then 1 else 0)"
    and "total_bal A (bal sha s') + unat (tx_GasPrice tx) * unat (tx_GasLimit tx) = total_bal A (bal sha s)"
proof -
  let ?m = "tx_Value tx + tx_GasPrice tx * tx_GasLimit tx" and ?from = "tx_From tx"
  define s1 where s1: "s1 = SetAccount sha s ?from ((acct sha s ?from)\<lparr>acct_Nonce := acct_Nonce (acct sha s ?from) + 1,
      acct_Balance := acct_Balance (acct sha s ?from) - ?m\<rparr>)"
  note l1 = set_core [OF ok a s1]
  note ok1 = evolves_ok [OF l1(1)]
  define s2 where s2: "s2 = SetAccount sha s1 (tx_To tx) ((acct sha s1 (tx_To tx))
      \<lparr>acct_Balance := acct_Balance (acct sha s1 (tx_To tx)) + tx_Value tx\<rparr>)"
  note l2 = credit_laws [OF ok1 b s2]
  have s'_eq: "s' = (if tx_Value tx > 0 then s2 else s1)"
    by (simp add: s' pay_upfront_def Let_def s1 s2)
  have "unat ?m \<le> unat (bal sha s ?from)" using afford by (simp add: word_le_nat_alt)
  then have t1: "total_bal A (bal sha s1) + unat ?m = total_bal A (bal sha s)"
    using l1(5) afford by (simp add: unat_sub_le GetBalance_eq)
  show "evolves sha A s s'" unfolding s'_eq using evolves_trans [OF l1(1) l2(1)] l1(1) by simp
  show "c \<in> A \<Longrightarrow> acct_Nonce (acct sha s' c) = acct_Nonce (acct sha s c) + (if c = tx_From tx then 1 else 0)"
    unfolding s'_eq using l2(2) l1(2) a by simp
  have "total_bal A (bal sha s1) + unat (tx_Value tx) < 2 ^ 64" using t1 T u by simp
  then show "total_bal A (bal sha s') + unat (tx_GasPrice tx) * unat (tx_GasLimit tx) = total_bal A (bal sha s)"
    unfolding s'_eq using l2(4) t1 u by (auto simp: word_gt_0)
qed

text \<open>A rolled-back transaction: the database before it, but for nonce and balance of the sender.\<close>

definition charged :: "hashfn \<Rightarrow> address set \<Rightarrow> address \<Rightarrow> uint64 \<Rightarrow> statedb \<Rightarrow> statedb \<Rightarrow> bool" where
  "charged sha A a fee s s' \<longleftrightarrow> state_ok sha A s' \<and> (\<forall>c\<in>A. storage sha s' c = storage sha s c) \<and>
     (\<forall>c\<in>A. acct sha s' c = (if c = a then (acct sha s a)\<lparr>acct_Nonce := acct_Nonce (acct sha s a) + 1,
        acct_Balance := acct_Balance (acct sha s a) - fee\<rparr> else acct sha s c))"

lemma charged_revert:
  assumes ok: "state_ok sha A s" and snap: "Snapshot s = (i, s0)" and ev: "evolves sha A s0 s1" and a: "a \<in> A"
    and R: "R = RevertToSnapshot sha s1 i"
    and s': "s' = SetAccount sha R a ((acct sha R a)\<lparr>acct_Nonce := acct_Nonce (acct sha R a) + 1,
        acct_Balance := acct_Balance (acct sha R a) - fee\<rparr>)"
  shows "charged sha A a fee s s'"
proof -
  note r = revert_undoes [OF ok snap ev, folded R]
  note l = set_core [OF r(1) a s']
  show ?thesis
    using evolves_ok [OF l(1)] l(2,3) view_obs [OF r(2)] by (simp add: charged_def)
qed

lemma charged_total:
  assumes "charged sha A a fee s s'" and "a \<in> A" and "fee \<le> bal sha s a"
  shows "total_bal A (bal sha s') + unat fee = total_bal A (bal sha s)"
proof -
  have "total_bal A (bal sha s') = total_bal A ((bal sha s)(a := bal sha s a - fee))"
    using assms(1) by (intro total_cong) (auto simp: charged_def GetBalance_eq)
  then show ?thesis using total_debit [of a A fee "bal sha s"] assms(2,3) by simp
qed

section \<open>The shape of an execution\<close>

text \<open>The four ways a transaction from a real sender ends: refused, rolled back with a charge, an HTLC
  claim that went through, and a run that went through.\<close>

definition refused :: "Receipt \<Rightarrow> executor \<Rightarrow> executor \<Rightarrow> bool" where
  "refused r e e' \<longleftrightarrow> \<not> rc_Success r \<and> rc_GasUsed r = 0 \<and> e' = e"

definition rolled_back :: "hashfn \<Rightarrow> address set \<Rightarrow> transaction \<Rightarrow> Receipt \<Rightarrow> executor \<Rightarrow> executor \<Rightarrow> bool" where
  "rolled_back sha A tx r e e' \<longleftrightarrow> \<not> rc_Success r \<and> rc_GasUsed r \<le> tx_GasLimit tx \<and>
     unat (tx_GasPrice tx) * unat (rc_GasUsed r) \<le> unat (bal sha (ex_stateDB e) (tx_From tx)) \<and>
     charged sha A (tx_From tx) (tx_GasPrice tx * rc_GasUsed r) (ex_stateDB e) (ex_stateDB e') \<and>
     e' = e\<lparr>ex_stateDB := ex_stateDB e'\<rparr>"

definition went_through :: "hashfn \<Rightarrow> address set \<Rightarrow> transaction \<Rightarrow> Receipt \<Rightarrow> executor \<Rightarrow> executor \<Rightarrow> bool" where
  "went_through sha A tx r e e' \<longleftrightarrow> rc_Success r \<and> rc_GasUsed r \<le> tx_GasLimit tx \<and>
     state_ok sha A (ex_stateDB e') \<and> ran (ex_contractByID e') \<subseteq> A \<and>
     ex_currentHeight e' = ex_currentHeight e \<and> ex_coinbase e' = ex_coinbase e \<and>
     total_bal A (bal sha (ex_stateDB e')) + unat (tx_GasPrice tx) * unat (rc_GasUsed r) =
       total_bal A (bal sha (ex_stateDB e)) \<and>
     (\<forall>c\<in>A. acct_Nonce (acct sha (ex_stateDB e') c) =
        acct_Nonce (acct sha (ex_stateDB e) c) + (if c = tx_From tx then 1 else 0))"

lemma Snapshot_obs:
  assumes "Snapshot s = (i, s0)"
  shows "acct sha s0 = acct sha s" and "bal sha s0 = bal sha s" and "storage sha s0 = storage sha s"
    and "state_ok sha A s \<Longrightarrow> state_ok sha A s0"
  using assms by (auto simp: Snapshot_def Journal_Snapshot_def GetBalance_eq fun_eq_iff)

lemma claim_shape:
  assumes ok: "state_ok (sha256 x) A (ex_stateDB e)" and cov: "covered x A e tx" and d: "length (tx_Data tx) < 2 ^ 32"
    and T: "total_bal A (bal (sha256 x) (ex_stateDB e)) < 2 ^ 64"
    and run: "executeHTLCClaim x e tx = (r, e')"
  shows "refused r e e' \<or> (rc_GasUsed r = 0 \<and> rolled_back (sha256 x) A tx r e e') \<or>
    (rc_GasUsed r = 0 \<and> went_through (sha256 x) A tx r e e')"
proof (cases "tx_Value tx \<noteq> 0 \<or> tx_Nonce tx \<noteq> acct_Nonce (acct (sha256 x) (ex_stateDB e) (tx_From tx))")
  case True
  then have "refused r e e'"
    using run by (auto simp: executeHTLCClaim_def Let_def refused_def fail_receipt_def split: if_splits)
  then show ?thesis by simp
next
  case False
  let ?sha = "sha256 x" and ?s = "ex_stateDB e" and ?from = "tx_From tx"
  have a: "HTLCSystemAddress \<in> A" "?from \<in> A" "tx_To tx \<in> A" "ran (ex_contractByID e) \<subseteq> A"
    using cov by (simp_all add: covered_def)
  obtain i s0 where snap: "Snapshot ?s = (i, s0)" by fastforce
  note so = Snapshot_obs [OF snap]
  define s1 where s1: "s1 = SetAccount ?sha s0 ?from ((acct ?sha s0 ?from)
      \<lparr>acct_Nonce := acct_Nonce (acct ?sha s0 ?from) + 1, acct_Balance := acct_Balance (acct ?sha s0 ?from)\<rparr>)"
  note l1 = set_core [OF so(4) [OF ok] a(2) s1]
  define s2 where "s2 = writeCallData ?sha s1 (tx_To tx) ?from (tx_Data tx)"
  have F2: "run_frame ?sha A s1 s2"
    unfolding s2_def by (rule run_frame_calldata [OF evolves_ok [OF l1(1)] a(3) d])
  obtain err s3 where p: "processHTLC ?sha (ex_currentHeight e) tx s2 = (err, s3)" by fastforce
  have F3: "run_frame ?sha A s1 s3"
    by (rule run_frame_trans [OF F2 run_frame_htlc [OF process_frame [OF run_frame_ok [OF F2] a(1,2) p]]])
  have ev: "evolves ?sha A s0 s3" using l1(1) F3 by (auto simp: run_frame_def intro: evolves_trans)
  have t: "total_bal A (bal ?sha s1) = total_bal A (bal ?sha ?s)" using l1(5) by (simp add: so GetBalance_eq)
  show ?thesis
  proof (cases err)
    case None
    then have "r = ok_receipt (TxID ?sha tx) 0" "e' = e\<lparr>ex_stateDB := s3\<rparr>"
      using run False p by (auto simp: executeHTLCClaim_def Let_def snap s1 s2_def so same_balance)
    then have "went_through ?sha A tx r e e'"
      using F3 evolves_ok [OF ev] l1(2) t T a(2,4)
      by (simp add: went_through_def ok_receipt_def run_frame_def so)
    then show ?thesis by (simp add: \<open>r = _\<close> ok_receipt_def)
  next
    case (Some er)
    let ?R = "RevertToSnapshot ?sha s3 i"
    have e': "r = fail_receipt (TxID ?sha tx) 0 (ErrHTLC er)"
      "e' = e\<lparr>ex_stateDB := SetAccount ?sha ?R ?from ((acct ?sha ?R ?from)\<lparr>acct_Nonce := acct_Nonce (acct ?sha ?R ?from) + 1,
         acct_Balance := acct_Balance (acct ?sha ?R ?from) - 0\<rparr>)\<rparr>"
      using run False p Some by (auto simp: executeHTLCClaim_def Let_def snap s1 s2_def so same_balance)
    have "charged ?sha A ?from 0 ?s (ex_stateDB e')"
      by (rule charged_revert [OF ok snap ev a(2) refl]) (simp add: e'(2))
    then show ?thesis by (simp add: rolled_back_def e' fail_receipt_def)
  qed
qed

lemma price_times_gas:
  fixes p g l :: uint64
  assumes "g \<le> l" and "unat p * unat l < 2 ^ 64"
  shows "unat (p * g) = unat p * unat g" and "unat p * unat g \<le> unat p * unat l"
    and "unat ((l - g) * p) + unat p * unat g = unat p * unat l"
proof -
  have g: "unat g \<le> unat l" using assms(1) by (simp add: word_le_nat_alt)
  then show le: "unat p * unat g \<le> unat p * unat l" by simp
  then have "unat p * unat g < 2 ^ 64" using assms(2) by (rule le_less_trans)
  then show "unat (p * g) = unat p * unat g" by (simp add: unat_mult_no_wrap)
  have l: "unat (l - g) = unat l - unat g" using assms(1) by (rule unat_sub_le)
  have "unat (l - g) * unat p \<le> unat p * unat l" using l by (simp add: mult.commute)
  then have "unat (l - g) * unat p < 2 ^ 64" using assms(2) by (rule le_less_trans)
  then have "unat ((l - g) * p) = (unat l - unat g) * unat p" by (simp add: unat_mult_no_wrap l)
  then show "unat ((l - g) * p) + unat p * unat g = unat p * unat l"
    using le by (simp add: algebra_simps diff_mult_distrib)
qed

lemma run_shape:
  assumes ok: "state_ok (sha256 x) A (ex_stateDB e)" and cov: "covered x A e tx"
    and T: "total_bal A (bal (sha256 x) (ex_stateDB e)) < 2 ^ 64"
    and pre: "precheck x e tx = None" and snap: "Snapshot (ex_stateDB e) = (i, s0)"
    and s1: "s1 = pay_upfront (sha256 x) tx s0"
  shows "case run_code x e tx s1 (intrinsic_gas tx) of
      RunPanic \<Rightarrow> True
    | RunFailed s2 g err \<Rightarrow>
        rolled_back (sha256 x) A tx (fail_receipt txid g err) e (revert_and_charge (sha256 x) e s2 i tx g)
    | RunDone e2 g \<Rightarrow>
        went_through (sha256 x) A tx (ok_receipt txid g) e (e2\<lparr>ex_stateDB := refund_gas (sha256 x) tx g (ex_stateDB e2)\<rparr>)"
proof -
  let ?sha = "sha256 x" and ?s = "ex_stateDB e" and ?from = "tx_From tx" and ?P = "tx_GasPrice tx" and ?L = "tx_GasLimit tx"
  have a: "?from \<in> A" "tx_To tx \<in> A" using cov by (simp_all add: covered_def)
  note so = Snapshot_obs [OF snap]
  note pc = precheck_None [OF pre]
  have afford: "tx_Value tx + ?P * ?L \<le> bal ?sha s0 ?from" using pc(6) by (simp add: so GetBalance_eq)
  have T0: "total_bal A (bal ?sha s0) < 2 ^ 64" using T by (simp add: so)
  note up = pay_upfront_laws [OF so(4) [OF ok] a afford pc(5) T0 s1]
  have d: "length (tx_Data tx) < 2 ^ 32" using pc(2) by simp
  have G: "run_good ?sha A e tx (intrinsic_gas tx) s1 (run_code x e tx s1 (intrinsic_gas tx))"
    by (rule run_code_good [OF evolves_ok [OF up(1)] cov d pc(1)])
  show ?thesis
  proof (cases "run_code x e tx s1 (intrinsic_gas tx)")
    case (RunFailed s2 g err)
    then have F: "run_frame ?sha A s1 s2" and g: "g \<le> ?L" using G by simp_all
    have ev: "evolves ?sha A s0 s2" using up(1) F by (auto simp: run_frame_def intro: evolves_trans)
    note pg = price_times_gas [OF g pc(4)]
    have "unat ?P * unat ?L \<le> unat (bal ?sha ?s ?from)"
      using pc(5,6) by (simp add: word_le_nat_alt GetBalance_eq)
    then have "unat ?P * unat g \<le> unat (bal ?sha ?s ?from)" using pg(2) by (rule le_trans [rotated])
    moreover have "charged ?sha A ?from (?P * g) ?s (ex_stateDB (revert_and_charge ?sha e s2 i tx g))"
      by (rule charged_revert [OF ok snap ev a(1) refl]) (simp add: revert_and_charge_def Let_def)
    ultimately have "rolled_back ?sha A tx (fail_receipt txid g err) e (revert_and_charge ?sha e s2 i tx g)"
      using g by (simp add: rolled_back_def fail_receipt_def) (simp add: revert_and_charge_def Let_def)
    then show ?thesis by (simp add: RunFailed)
  next
    case (RunDone e2 g)
    then have F: "run_frame ?sha A s1 (ex_stateDB e2)" and g: "g \<le> ?L" and reg: "ran (ex_contractByID e2) \<subseteq> A"
      and hc: "ex_currentHeight e2 = ex_currentHeight e" "ex_coinbase e2 = ex_coinbase e" using G by simp_all
    let ?s2 = "ex_stateDB e2" and ?v = "(?L - g) * ?P"
    define s3 where "s3 = refund_gas ?sha tx g ?s2"
    have s3: "s3 = SetAccount ?sha ?s2 ?from ((acct ?sha ?s2 ?from)\<lparr>acct_Balance := acct_Balance (acct ?sha ?s2 ?from) + ?v\<rparr>)"
      by (simp add: s3_def refund_gas_def Let_def)
    note cr = credit_laws [OF run_frame_ok [OF F] a(1) s3]
    note pg = price_times_gas [OF g pc(4)]
    have t2: "total_bal A (bal ?sha ?s2) + unat ?P * unat ?L = total_bal A (bal ?sha ?s)"
      using F up(3) T by (simp add: run_frame_def so)
    then have "total_bal A (bal ?sha ?s2) + unat ?v < 2 ^ 64" using pg(3) T by simp
    then have t3: "total_bal A (bal ?sha s3) + unat ?P * unat g = total_bal A (bal ?sha ?s)"
      using cr(4) pg(3) t2 by simp
    have "acct_Nonce (acct ?sha s3 c) = acct_Nonce (acct ?sha ?s c) + (if c = ?from then 1 else 0)" if "c \<in> A" for c
      using F up(2) [OF that] cr(2) [OF that] that by (simp add: run_frame_def so)
    then have "went_through ?sha A tx (ok_receipt txid g) e (e2\<lparr>ex_stateDB := s3\<rparr>)"
      using evolves_ok [OF cr(1)] reg hc g t3 by (simp add: went_through_def ok_receipt_def)
    then show ?thesis by (simp add: RunDone s3_def)
  qed simp
qed

lemma executeTx_shape:
  assumes ok: "state_ok (sha256 x) A (ex_stateDB e)" and cov: "covered x A e tx" and d: "length (tx_Data tx) < 2 ^ 32"
    and T: "total_bal A (bal (sha256 x) (ex_stateDB e)) < 2 ^ 64" and nz: "tx_From tx \<noteq> ZeroAddress"
    and run: "executeTx x e tx = Some (r, e')"
  shows "refused r e e' \<or> rolled_back (sha256 x) A tx r e e' \<or> went_through (sha256 x) A tx r e e'"
proof (cases "VerifySender x (SigningHash (sha256 x) tx) (tx_Signature tx) (tx_From tx)")
  case False
  then show ?thesis using run nz by (auto simp: executeTx_def Let_def refused_def fail_receipt_def)
next
  case sig: True
  show ?thesis
  proof (cases "isHTLCClaim tx")
    case True
    then have "executeHTLCClaim x e tx = (r, e')" using run nz sig by (simp add: executeTx_def Let_def)
    from claim_shape [OF ok cov d T this] show ?thesis by blast
  next
    case noclaim: False
    show ?thesis
    proof (cases "precheck x e tx")
      case (Some err)
      then show ?thesis
        using run nz sig noclaim by (auto simp: executeTx_def Let_def refused_def fail_receipt_def)
    next
      case None
      obtain i s0 where snap: "Snapshot (ex_stateDB e) = (i, s0)" by fastforce
      have res: "(case run_code x e tx (pay_upfront (sha256 x) tx s0) (intrinsic_gas tx) of
            RunPanic \<Rightarrow> None
          | RunFailed s g err \<Rightarrow> Some (fail_receipt (TxID (sha256 x) tx) g err, revert_and_charge (sha256 x) e s i tx g)
          | RunDone e g \<Rightarrow> Some (ok_receipt (TxID (sha256 x) tx) g, e\<lparr>ex_stateDB := refund_gas (sha256 x) tx g (ex_stateDB e)\<rparr>))
          = Some (r, e')"
        using run nz sig noclaim None by (simp add: executeTx_def Let_def snap)
      from run_shape [OF ok cov T None snap refl, of "TxID (sha256 x) tx"] res show ?thesis
        by (auto split: run_result.splits)
    qed
  qed
qed

text \<open>Only a transaction with the sender's next nonce changes anything.\<close>

lemma stale_nonce_refused:
  assumes "tx_From tx \<noteq> ZeroAddress"
    and "tx_Nonce tx \<noteq> acct_Nonce (acct (sha256 x) (ex_stateDB e) (tx_From tx))"
  shows "\<exists>r. executeTx x e tx = Some (r, e) \<and> \<not> rc_Success r \<and> rc_GasUsed r = 0"
proof -
  have "precheck x e tx \<noteq> None" using precheck_None(7) [of x e tx] assms(2) by auto
  then show ?thesis
    using assms by (auto simp: executeTx_def executeHTLCClaim_def Let_def fail_receipt_def)
qed

lemma executed_nonce:
  assumes "tx_From tx \<noteq> ZeroAddress" and "executeTx x e tx = Some (r, e')" and "e' \<noteq> e"
  shows "tx_Nonce tx = acct_Nonce (acct (sha256 x) (ex_stateDB e) (tx_From tx))"
  using stale_nonce_refused [OF assms(1), of x e] assms(2,3) by auto

end
