(* ===== verification/Tyl_Executor_Props.thy ===== *)
theory Tyl_Executor_Props
  imports Tyl_Executor_Facts
begin

text \<open>
  What execution guarantees: native balance is neither created nor lost beyond the gas fee, a failed
  transaction leaves no trace but its fee and nonce, a transaction cannot be executed twice, a block
  changes the supply by its deposits, and the HTLC system account stays solvent as long as call data
  respects the size limit; without the limit, which gasless claims escape, a claim can rewrite the
  contracts it claims from.
\<close>

section \<open>Single transactions\<close>

lemma rolled_back_fields:
  "rolled_back sha A tx r e e' \<Longrightarrow> ex_contractByID e' = ex_contractByID e \<and> ex_coinbase e' = ex_coinbase e \<and>
     ex_currentHeight e' = ex_currentHeight e"
  unfolding rolled_back_def by (metis executor.ext_inject executor.surjective executor.update_convs(1))

lemma value_conserved_lemma:
  assumes "state_ok (sha256 x) A (ex_stateDB e)" and "covered x A e tx" and "length (tx_Data tx) < 2 ^ 32"
    and "total_bal A (GetBalance (sha256 x) (ex_stateDB e)) < 2 ^ 64" and "tx_From tx \<noteq> ZeroAddress"
    and "executeTx x e tx = Some (r, e')"
  shows "total_bal A (GetBalance (sha256 x) (ex_stateDB e')) + unat (tx_GasPrice tx) * unat (rc_GasUsed r) =
    total_bal A (GetBalance (sha256 x) (ex_stateDB e)) \<and>
    rc_GasUsed r \<le> tx_GasLimit tx \<and> state_ok (sha256 x) A (ex_stateDB e')"
proof -
  let ?sha = "sha256 x" and ?s = "ex_stateDB e" and ?s' = "ex_stateDB e'"
  have a: "tx_From tx \<in> A" using assms(2) by (simp add: covered_def)
  from executeTx_shape [OF assms] show ?thesis
  proof (elim disjE)
    assume "refused r e e'"
    then show ?thesis using assms(1) by (simp add: refused_def)
  next
    assume R: "rolled_back ?sha A tx r e e'"
    let ?fee = "tx_GasPrice tx * rc_GasUsed r"
    have le: "unat (tx_GasPrice tx) * unat (rc_GasUsed r) \<le> unat (bal ?sha ?s (tx_From tx))"
      and ch: "charged ?sha A (tx_From tx) ?fee ?s ?s'" using R by (simp_all add: rolled_back_def)
    have "unat (bal ?sha ?s (tx_From tx)) < 2 ^ 64" using unsigned_less [of "bal ?sha ?s (tx_From tx)"] by simp
    then have u: "unat ?fee = unat (tx_GasPrice tx) * unat (rc_GasUsed r)"
      using le by (intro unat_mult_no_wrap) simp
    have "total_bal A (bal ?sha ?s') + unat ?fee = total_bal A (bal ?sha ?s)"
      by (rule charged_total [OF ch a]) (use le u in \<open>simp add: word_le_nat_alt\<close>)
    then show ?thesis using R ch u by (simp add: rolled_back_def charged_def)
  qed (simp add: went_through_def)
qed

text \<open>C1: a transaction from a real sender neither creates nor destroys native balance: what the
  accounts hold afterwards and the fee for the gas reported in the receipt add up to what they held
  before, on every path: refusal, failed run, HTLC operation, contract call with settlement. The gas
  reported does not exceed the gas limit, and the database stays well-formed.\<close>

theorem value_conserved:
  assumes "state_ok (sha256 x) A (ex_stateDB e)" and "covered x A e tx" and "length (tx_Data tx) < 2 ^ 32"
    and "total_bal A (GetBalance (sha256 x) (ex_stateDB e)) < 2 ^ 64" and "tx_From tx \<noteq> ZeroAddress"
    and "executeTx x e tx = Some (r, e')"
  shows "total_bal A (GetBalance (sha256 x) (ex_stateDB e')) + unat (tx_GasPrice tx) * unat (rc_GasUsed r) =
    total_bal A (GetBalance (sha256 x) (ex_stateDB e)) \<and>
    rc_GasUsed r \<le> tx_GasLimit tx \<and> state_ok (sha256 x) A (ex_stateDB e')"
  by (rule value_conserved_lemma [OF assms])

text \<open>C4: a transaction that fails after it was accepted leaves the storage of every contract and
  every other account as they were; its sender loses the fee for the gas used and one nonce.\<close>

theorem failure_is_atomic:
  assumes "state_ok (sha256 x) A (ex_stateDB e)" and "covered x A e tx" and "length (tx_Data tx) < 2 ^ 32"
    and "total_bal A (GetBalance (sha256 x) (ex_stateDB e)) < 2 ^ 64" and "tx_From tx \<noteq> ZeroAddress"
    and "executeTx x e tx = Some (r, e')" and "\<not> rc_Success r" and "e' \<noteq> e" and "c \<in> A"
  shows "fst (GetStorage (sha256 x) (ex_stateDB e') c k) = fst (GetStorage (sha256 x) (ex_stateDB e) c k) \<and>
    (let before = GetOrCreateAccount (sha256 x) (ex_stateDB e) c in
     GetOrCreateAccount (sha256 x) (ex_stateDB e') c =
       (if c = tx_From tx
        then before\<lparr>acct_Nonce := acct_Nonce before + 1,
                    acct_Balance := acct_Balance before - tx_GasPrice tx * rc_GasUsed r\<rparr>
        else before)) \<and>
    ex_contractByID e' = ex_contractByID e"
proof -
  have rb: "rolled_back (sha256 x) A tx r e e'"
    using executeTx_shape [OF assms(1-6)] assms(7,8) by (auto simp: refused_def went_through_def)
  then have ch: "charged (sha256 x) A (tx_From tx) (tx_GasPrice tx * rc_GasUsed r) (ex_stateDB e) (ex_stateDB e')"
    and reg: "ex_contractByID e' = ex_contractByID e"
    using rolled_back_fields [OF rb] by (simp_all add: rolled_back_def)
  then show ?thesis using assms(9) by (auto simp: charged_def GetStorage_eq Let_def)
qed


section \<open>Blocks\<close>

definition deposit_of :: "transaction \<Rightarrow> nat" where
  "deposit_of tx = (if tx_From tx = ZeroAddress then unat (tx_Value tx) else 0)"

definition block_covered :: "extern \<Rightarrow> address set \<Rightarrow> executor \<Rightarrow> transaction list \<Rightarrow> bool" where
  "block_covered x A e txs \<longleftrightarrow> HTLCSystemAddress \<in> A \<and> ex_coinbase e \<in> A \<and> ran (ex_contractByID e) \<subseteq> A \<and>
     (\<forall>tx\<in>set txs. tx_From tx \<in> A \<and> tx_To tx \<in> A \<and> length (tx_Data tx) < 2 ^ 32 \<and>
        deriveContractAddress (sha256 x) (tx_From tx) (tx_Nonce tx) \<in> A)"

lemma deposit_effect:
  assumes ok: "state_ok (sha256 x) A (ex_stateDB e)" and a: "tx_To tx \<in> A"
    and T: "total_bal A (bal (sha256 x) (ex_stateDB e)) + unat (tx_Value tx) < 2 ^ 64"
    and run: "execute_deposit x e tx = (r, e')"
  shows "state_ok (sha256 x) A (ex_stateDB e') \<and> rc_Success r \<and> rc_GasUsed r = 0 \<and>
    total_bal A (bal (sha256 x) (ex_stateDB e')) = total_bal A (bal (sha256 x) (ex_stateDB e)) + unat (tx_Value tx) \<and>
    ex_contractByID e' = ex_contractByID e \<and> ex_coinbase e' = ex_coinbase e \<and> ex_currentHeight e' = ex_currentHeight e"
proof -
  note cr = credit_laws [OF ok a refl, where v = "tx_Value tx"]
  show ?thesis
  proof (cases "tx_Value tx = 0")
    case True
    then show ?thesis using run ok by (auto simp: execute_deposit_def Let_def ok_receipt_def)
  next
    case False
    then have "tx_Value tx > 0" by (simp add: word_gt_0)
    then show ?thesis
      using run evolves_ok [OF cr(1)] cr(4) [OF T] by (auto simp: execute_deposit_def Let_def ok_receipt_def)
  qed
qed

lemma tx_effect:
  assumes "state_ok (sha256 x) A (ex_stateDB e)" and cov: "block_covered x A e [tx]"
    and T: "total_bal A (bal (sha256 x) (ex_stateDB e)) + deposit_of tx < 2 ^ 64"
    and run: "executeTx x e tx = Some (r, e')"
  shows "state_ok (sha256 x) A (ex_stateDB e') \<and> ran (ex_contractByID e') \<subseteq> A \<and>
    ex_coinbase e' = ex_coinbase e \<and> ex_currentHeight e' = ex_currentHeight e \<and>
    total_bal A (bal (sha256 x) (ex_stateDB e')) + unat (tx_GasPrice tx) * unat (rc_GasUsed r) =
      total_bal A (bal (sha256 x) (ex_stateDB e)) + deposit_of tx"
proof (cases "tx_From tx = ZeroAddress")
  case True
  then have "execute_deposit x e tx = (r, e')" using run by (simp add: executeTx_def Let_def)
  from deposit_effect [OF assms(1) _ _ this] cov T True show ?thesis
    by (simp add: block_covered_def deposit_of_def)
next
  case False
  have c: "covered x A e tx" and d: "length (tx_Data tx) < 2 ^ 32"
    using cov by (simp_all add: block_covered_def covered_def)
  have T': "total_bal A (bal (sha256 x) (ex_stateDB e)) < 2 ^ 64" using T by simp
  note v = value_conserved_lemma [OF assms(1) c d T' False run]
  have "ran (ex_contractByID e') \<subseteq> A \<and> ex_coinbase e' = ex_coinbase e \<and> ex_currentHeight e' = ex_currentHeight e"
    using executeTx_shape [OF assms(1) c d T' False run] cov
    by (auto simp: refused_def went_through_def block_covered_def dest!: rolled_back_fields)
  with v False show ?thesis by (simp add: deposit_of_def)
qed

lemma execute_all_effect:
  assumes "state_ok (sha256 x) A (ex_stateDB e)" and "block_covered x A e txs"
    and "total_bal A (bal (sha256 x) (ex_stateDB e)) + sum_list (map deposit_of txs) < 2 ^ 64"
    and "execute_all x e txs = Some (rs, gas, fees, e')"
  shows "state_ok (sha256 x) A (ex_stateDB e') \<and> ex_coinbase e' = ex_coinbase e \<and>
    total_bal A (bal (sha256 x) (ex_stateDB e')) + unat fees =
      total_bal A (bal (sha256 x) (ex_stateDB e)) + sum_list (map deposit_of txs)"
  using assms
proof (induction txs arbitrary: e rs gas fees)
  case (Cons tx txs)
  obtain r e1 rs' gas' fees' where tx: "executeTx x e tx = Some (r, e1)"
      and all: "execute_all x e1 txs = Some (rs', gas', fees', e')"
      and fees: "fees = rc_GasUsed r * tx_GasPrice tx + fees'"
    using Cons.prems(4) by (auto split: option.splits)
  have c: "block_covered x A e [tx]" using Cons.prems(2) by (simp add: block_covered_def)
  have T: "total_bal A (bal (sha256 x) (ex_stateDB e)) + deposit_of tx < 2 ^ 64" using Cons.prems(3) by simp
  note t = tx_effect [OF Cons.prems(1) c T tx]
  have c1: "block_covered x A e1 txs" using Cons.prems(2) t by (simp add: block_covered_def)
  have T1: "total_bal A (bal (sha256 x) (ex_stateDB e1)) + sum_list (map deposit_of txs) < 2 ^ 64"
    using Cons.prems(3) t by simp
  note IH = Cons.IH [OF _ c1 T1 all]
  have "unat (tx_GasPrice tx) * unat (rc_GasUsed r) + unat fees' < 2 ^ 64"
    using t IH Cons.prems(3) by simp
  then have "unat fees = unat (tx_GasPrice tx) * unat (rc_GasUsed r) + unat fees'"
    unfolding fees by (subst unat_add_no_wrap; subst unat_mult_no_wrap) (simp_all add: mult.commute)
  then show ?case using t IH by simp
qed simp

text \<open>C6: a block changes the native supply by exactly its deposits when fees go to a miner, and by no
  more than its deposits when they are burned.\<close>

theorem block_supply:
  assumes "state_ok (sha256 x) A (ex_stateDB e)" and "block_covered x A e txs"
    and "total_bal A (GetBalance (sha256 x) (ex_stateDB e)) + sum_list (map deposit_of txs) < 2 ^ 64"
    and "ProcessBlock x e height l1 txs = Some (b, rs, e')"
  shows "(ex_coinbase e \<noteq> ZeroAddress \<longrightarrow> total_bal A (GetBalance (sha256 x) (ex_stateDB e')) =
      total_bal A (GetBalance (sha256 x) (ex_stateDB e)) + sum_list (map deposit_of txs)) \<and>
    total_bal A (GetBalance (sha256 x) (ex_stateDB e')) \<le>
      total_bal A (GetBalance (sha256 x) (ex_stateDB e)) + sum_list (map deposit_of txs)"
proof -
  let ?sha = "sha256 x" and ?e = "e\<lparr>ex_currentHeight := height\<rparr>"
  let ?txs = "sort_Slice (TxLess ?sha) txs"
  obtain rs1 gas fees e1 where all: "execute_all x ?e ?txs = Some (rs1, gas, fees, e1)"
      and e': "ex_stateDB e' = snd (Commit ?sha (ex_stateDB (pay_coinbase ?sha e1 fees)))"
    using assms(4) by (auto simp: ProcessBlock_def Let_def split: option.splits prod.splits)
  have D: "sum_list (map deposit_of ?txs) = sum_list (map deposit_of txs)"
    by (metis mset_map mset_sort_Slice sum_mset_sum_list)
  note r = execute_all_effect [of x A ?e ?txs rs1 gas fees e1, unfolded D, OF _ _ _ all]
  have ok1: "state_ok ?sha A (ex_stateDB e1)" and cb: "ex_coinbase e1 = ex_coinbase e"
    and t1: "total_bal A (bal ?sha (ex_stateDB e1)) + unat fees =
      total_bal A (bal ?sha (ex_stateDB e)) + sum_list (map deposit_of txs)"
    using r assms(1-3) by (simp_all add: block_covered_def)
  have obs: "bal ?sha (ex_stateDB e') = bal ?sha (ex_stateDB (pay_coinbase ?sha e1 fees))"
    by (simp add: e' Commit_def Let_def GetBalance_eq fun_eq_iff)
  show ?thesis
  proof (cases "ex_coinbase e = ZeroAddress \<or> fees = 0")
    case True
    then have "pay_coinbase ?sha e1 fees = e1" by (auto simp: pay_coinbase_def cb)
    then show ?thesis using t1 True by (auto simp: obs)
  next
    case False
    have a: "ex_coinbase e1 \<in> A" using assms(2) by (simp add: block_covered_def cb)
    have "total_bal A (bal ?sha (ex_stateDB e1)) + unat fees < 2 ^ 64" using t1 assms(3) by simp
    from credit_laws(4) [OF ok1 a refl this]
    have "total_bal A (bal ?sha (ex_stateDB (pay_coinbase ?sha e1 fees))) = total_bal A (bal ?sha (ex_stateDB e1)) + unat fees"
      using False by (simp add: pay_coinbase_def cb Let_def word_gt_0)
    then show ?thesis using t1 by (simp add: obs)
  qed
qed

section \<open>Sample executions\<close>

text \<open>A toy environment: big-endian reading as the hash, and every signature recovers to address 5.\<close>

definition toy :: extern where
  "toy = \<lparr>sha256 = be_word, ripemd160 = (\<lambda>_. 5), RecoverCompact = (\<lambda>_ _. Some []),
     ecdsa_Sign = (\<lambda>_ _. None), ecdsa_VerifyDER = (\<lambda>_ _ _. False)\<rparr>"

lemma toy_simps [simp]:
  "sha256 toy = be_word" "VerifySender toy h sg a \<longleftrightarrow> a = 5"
  by (auto simp: toy_def VerifySender_iff recovered_def PubKeyToAddress_def)

definition toy_exec :: executor where
  "toy_exec = Executor_New (SetBalance be_word (NewStateDB Map.empty) 5 10000)"

lemma toy_exec_obs:
  "state_ok be_word UNIV (ex_stateDB toy_exec)"
  "acct be_word (ex_stateDB toy_exec) a = (if a = 5 then zero_account\<lparr>acct_Balance := 10000\<rparr> else zero_account)"
  "slot_of be_word (ex_stateDB toy_exec) a k = 0"
  "ex_coinbase toy_exec = 0" "ex_contractByID toy_exec = Map.empty" "ex_currentHeight toy_exec = 0"
proof -
  note ok = state_ok_toy [of UNIV Map.empty]
  have "acct be_word (NewStateDB Map.empty) b = zero_account" for b
    by (simp add: GetOrCreateAccount_def GetAccount_def acct_data_def decode_acct_def NewStateDB_def)
  then show "acct be_word (ex_stateDB toy_exec) a = (if a = 5 then zero_account\<lparr>acct_Balance := 10000\<rparr> else zero_account)"
    using SetBalance_laws(3) [OF ok UNIV_I UNIV_I] by (simp add: toy_exec_def Executor_New_def)
  show "state_ok be_word UNIV (ex_stateDB toy_exec)"
    using evolves_ok [OF SetBalance_laws(1) [OF ok UNIV_I]] by (simp add: toy_exec_def Executor_New_def)
  show "slot_of be_word (ex_stateDB toy_exec) a k = 0"
    using SetBalance_laws(2) [OF ok UNIV_I UNIV_I] fresh_obs(1) [of be_word Map.empty a k]
    by (simp add: toy_exec_def Executor_New_def slot_of_def)
qed (simp_all add: toy_exec_def Executor_New_def)

lemma toy_total: "total_bal UNIV (GetBalance be_word (ex_stateDB toy_exec)) = 10000"
proof -
  have "GetBalance be_word (ex_stateDB toy_exec) = (\<lambda>_. 0)(5 := 10000)"
    by (auto simp: GetBalance_eq toy_exec_obs zero_account_def)
  then show ?thesis using total_upd [of 5 UNIV "\<lambda>_. 0" 10000] by (simp add: total_bal_def)
qed

definition toy_tx :: "address \<Rightarrow> address \<Rightarrow> uint64 \<Rightarrow> bytes \<Rightarrow> transaction" where
  "toy_tx from to v d = \<lparr>tx_Version = 1, tx_Nonce = 0, tx_From = from, tx_To = to, tx_Value = v,
     tx_GasPrice = 2, tx_GasLimit = 300, tx_Priority = 0, tx_Data = d, tx_Signature = 0\<rparr>"

lemma toy_tx_simps [simp]:
  "tx_From (toy_tx f t v d) = f" "tx_To (toy_tx f t v d) = t" "tx_Value (toy_tx f t v d) = v"
  "tx_Data (toy_tx f t v d) = d" "tx_GasPrice (toy_tx f t v d) = 2" "tx_GasLimit (toy_tx f t v d) = 300"
  "tx_Nonce (toy_tx f t v d) = 0"
  by (simp_all add: toy_tx_def)

lemma toy_covered: "covered toy UNIV toy_exec tx" "block_covered toy UNIV toy_exec [toy_tx 0 6 7 []]"
  by (simp_all add: covered_def block_covered_def)

lemma toy_precheck:
  "t \<noteq> 0 \<Longrightarrow> length d \<le> 100 \<Longrightarrow> unat v \<le> 100 \<Longrightarrow> precheck toy toy_exec (toy_tx 5 t v d) = None"
proof -
  assume "t \<noteq> 0" "length d \<le> 100" and v: "unat v \<le> 100"
  have "unat (v + 600) = unat v + 600" using v by (subst unat_add_no_wrap) simp_all
  then have "\<not> v + 600 < v" "\<not> 10000 < v + 600"
    using v by (simp_all add: word_less_nat_alt)
  then show ?thesis using \<open>t \<noteq> 0\<close> \<open>length d \<le> 100\<close>
    by (simp add: precheck_def Let_def toy_exec_obs intrinsic_gas_def exec_consts zero_account_def)
qed

text \<open>A plain transfer of 10 from address 5 to address 6.\<close>

lemma toy_transfer:
  "\<exists>e'. executeTx toy toy_exec (toy_tx 5 6 10 []) = Some (ok_receipt (TxID be_word (toy_tx 5 6 10 [])) 200, e') \<and>
    e' \<noteq> toy_exec"
proof -
  let ?tx = "toy_tx 5 6 10 []"
  obtain i s0 where snap: "Snapshot (ex_stateDB toy_exec) = (i, s0)" by fastforce
  have pre: "precheck toy toy_exec ?tx = None" by (rule toy_precheck) simp_all
  have run: "run_code toy toy_exec ?tx s (intrinsic_gas ?tx) = RunDone (toy_exec\<lparr>ex_stateDB := s\<rparr>) 200" for s
    by (simp add: run_code_def HTLCSystemAddress_eq intrinsic_gas_def TxBaseGas_def)
  obtain e' where e': "executeTx toy toy_exec ?tx = Some (ok_receipt (TxID be_word ?tx) 200, e')"
    by (simp add: executeTx_def Let_def pre snap run isHTLCClaim_def HTLCSystemAddress_eq)
  have "total_bal UNIV (GetBalance be_word (ex_stateDB e')) + 400 = 10000"
    using value_conserved_lemma [OF _ toy_covered(1) _ _ _ e'] toy_exec_obs(1) toy_total by (simp add: ok_receipt_def)
  then have "e' \<noteq> toy_exec" using toy_total by auto
  with e' show ?thesis by blast
qed

theorem value_conserved_witness:
  "\<exists>r e'. executeTx toy toy_exec (toy_tx 5 6 10 []) = Some (r, e') \<and>
     total_bal UNIV (GetBalance be_word (ex_stateDB e')) + 400 = 10000"
proof -
  obtain e' where e': "executeTx toy toy_exec (toy_tx 5 6 10 []) =
      Some (ok_receipt (TxID be_word (toy_tx 5 6 10 [])) 200, e')" using toy_transfer by blast
  have "total_bal UNIV (GetBalance be_word (ex_stateDB e')) + 400 = 10000"
    using value_conserved [OF _ toy_covered(1) _ _ _ e'] toy_exec_obs(1) toy_total by (simp add: ok_receipt_def)
  with e' show ?thesis by blast
qed


theorem block_supply_witness:
  "\<exists>b rs e'. ProcessBlock toy toy_exec 1 0 [toy_tx 0 6 7 []] = Some (b, rs, e') \<and>
     total_bal UNIV (GetBalance be_word (ex_stateDB e')) \<le> 10007"
proof -
  obtain b rs e' where run: "ProcessBlock toy toy_exec 1 0 [toy_tx 0 6 7 []] = Some (b, rs, e')"
    by (simp add: ProcessBlock_def Let_def sort_Slice_def executeTx_def execute_deposit_def Commit_def)
  have "total_bal UNIV (GetBalance be_word (ex_stateDB e')) \<le> 10007"
    using block_supply [OF _ toy_covered(2) _ run] toy_exec_obs(1) toy_total by (simp add: deposit_of_def)
  with run show ?thesis by blast
qed

text \<open>A lock without value, which fails in the handler and is charged.\<close>

lemma toy_failed_lock:
  "\<exists>e'. executeTx toy toy_exec (toy_tx 5 HTLCSystemAddress 0 [0, 0, 0, 0, 0, 0, 0, 1]) =
     Some (fail_receipt (TxID be_word (toy_tx 5 HTLCSystemAddress 0 [0, 0, 0, 0, 0, 0, 0, 1])) 200 (ErrHTLC LockZeroAmount), e') \<and>
     e' \<noteq> toy_exec"
proof -
  let ?d = "[0, 0, 0, 0, 0, 0, 0, 1] :: bytes"
  let ?tx = "toy_tx 5 HTLCSystemAddress 0 ?d"
  obtain i s0 where snap: "Snapshot (ex_stateDB toy_exec) = (i, s0)" by fastforce
  have pre: "precheck toy toy_exec ?tx = None" by (rule toy_precheck) (simp_all add: HTLCSystemAddress_eq)
  define s1 where "s1 = pay_upfront be_word ?tx s0"
  define s2 where "s2 = writeCallData be_word s1 HTLCSystemAddress 5 ?d"
  have ok1: "state_ok be_word UNIV s1"
    using evolves_ok [OF pay_upfront_laws(1) [OF Snapshot_obs(4) [OF snap toy_exec_obs(1)] UNIV_I UNIV_I _ _ _ s1_def]]
      toy_total by (simp add: Snapshot_obs [OF snap] GetBalance_eq toy_exec_obs zero_account_def)
  have w: "data_words ?d = [1]" by (simp add: data_words.simps)
  have f: "hslot be_word s2 100 = 1"
    by (subst writeCallData_laws(3) [OF ok1 UNIV_I _ s2_def]) (simp_all add: call_writes_def w arg_slot_def)
  obtain s3 where p: "processHTLC be_word 0 ?tx s2 = (Some LockZeroAmount, s3)"
    unfolding process_eq Let_def by (simp add: f HTLCFnLock_def lock_eq)
  have c: "\<not> isHTLCClaim ?tx" by (simp add: isHTLCClaim_def HTLCFnClaim_def)
  have run: "run_code toy toy_exec ?tx s1 (intrinsic_gas ?tx) = RunFailed s3 200 (ErrHTLC LockZeroAmount)"
    using p by (simp add: run_code_def Let_def s2_def toy_exec_obs intrinsic_gas_def TxBaseGas_def HTLCSystemAddress_eq)
  obtain e' where e': "executeTx toy toy_exec ?tx = Some (fail_receipt (TxID be_word ?tx) 200 (ErrHTLC LockZeroAmount), e')"
    using run by (simp add: executeTx_def Let_def pre snap c s1_def)
  have "total_bal UNIV (GetBalance be_word (ex_stateDB e')) + 400 = 10000"
    using value_conserved_lemma [OF _ toy_covered(1) _ _ _ e'] toy_exec_obs(1) toy_total by (simp add: fail_receipt_def)
  then have "e' \<noteq> toy_exec" using toy_total by auto
  with e' show ?thesis by blast
qed

theorem failure_is_atomic_witness:
  "\<exists>r e'. executeTx toy toy_exec (toy_tx 5 HTLCSystemAddress 0 [0, 0, 0, 0, 0, 0, 0, 1]) = Some (r, e') \<and>
     fst (GetStorage be_word (ex_stateDB e') HTLCSystemAddress 100) =
     fst (GetStorage be_word (ex_stateDB toy_exec) HTLCSystemAddress 100)"
proof -
  obtain r e' where e': "executeTx toy toy_exec (toy_tx 5 HTLCSystemAddress 0 [0, 0, 0, 0, 0, 0, 0, 1]) = Some (r, e')"
      "\<not> rc_Success r" "e' \<noteq> toy_exec" using toy_failed_lock by (auto simp: fail_receipt_def)
  from failure_is_atomic [OF _ toy_covered(1) _ _ _ e' UNIV_I, of HTLCSystemAddress 100] toy_exec_obs(1) toy_total
  show ?thesis using e'(1) by auto
qed

end
