(* ===== verification/Tyl_Solvency.thy ===== *)
theory Tyl_Solvency
  imports Tyl_Executor_Props
begin

text \<open>
  The HTLC system account across whole transactions: it stays solvent when call data respects the
  size limit, and the way around it, the gasless claims that are dispatched before the limit is
  checked: their call data can reach the records of existing contracts.
\<close>

section \<open>What leaves the system address alone\<close>

definition sys_same :: "hashfn \<Rightarrow> address set \<Rightarrow> statedb \<Rightarrow> statedb \<Rightarrow> bool" where
  "sys_same sha A s s' \<longleftrightarrow> run_frame sha A s s' \<and>
     storage sha s' HTLCSystemAddress = storage sha s HTLCSystemAddress \<and>
     bal sha s' HTLCSystemAddress = bal sha s HTLCSystemAddress"

lemma sys_same_trans: "sys_same sha A s s' \<Longrightarrow> sys_same sha A s' s'' \<Longrightarrow> sys_same sha A s s''"
  unfolding sys_same_def by (metis run_frame_trans)

lemma sys_same_ok: "sys_same sha A s s' \<Longrightarrow> state_ok sha A s'"
  by (auto simp: sys_same_def dest: run_frame_ok)

lemma sys_same_refl: "state_ok sha A s \<Longrightarrow> sys_same sha A s s"
  by (simp add: sys_same_def run_frame_refl)

lemma slot_of_cong: "storage sha s' a = storage sha s a \<Longrightarrow> slot_of sha s' a = slot_of sha s a"
  by (simp add: slot_of_def fun_eq_iff)

lemma sys_same_slot: "sys_same sha A s s' \<Longrightarrow> hslot sha s' = hslot sha s"
  by (simp add: sys_same_def slot_of_def fun_eq_iff)

lemma solvent_sys_same: "sys_same sha A s s' \<Longrightarrow> solvent sha s' = solvent sha s"
  using sys_same_slot [of sha A s s'] by (simp add: solvent_def sys_same_def)

lemma sys_same_rest:
  assumes "run_frame sha A s s'" and "rest_of sha A a s' = rest_of sha A a s" and "a \<noteq> HTLCSystemAddress"
    and "HTLCSystemAddress \<in> A"
  shows "sys_same sha A s s'"
  using assms by (simp add: sys_same_def rest_of_eq_iff core_eq_iff GetBalance_eq)

lemma sys_same_cache: "state_ok sha A s \<Longrightarrow> sys_same sha A s (cache_trie sha s a)"
  by (simp add: sys_same_def run_frame_cache GetBalance_eq)

lemma sys_same_write_all:
  assumes "state_ok sha A s" and "a \<in> A" and "a \<noteq> HTLCSystemAddress" and H: "HTLCSystemAddress \<in> A"
  shows "sys_same sha A s (state_slots.write_all sha a s kvs)"
proof -
  have r: "rest_of sha A a (state_slots.write_all sha a s kvs) = rest_of sha A a s"
    using state_slots.write_all_keeps [of sha A s a kvs] assms by simp
  show ?thesis
    by (rule sys_same_rest [OF run_frame_rest [OF evolves_write_all [OF assms(1,2)] r] r assms(3) H])
qed

lemma sys_same_transferToken:
  assumes ok: "state_ok sha A s" and a: "a \<in> A" "a \<noteq> HTLCSystemAddress" and H: "HTLCSystemAddress \<in> A"
  shows "sys_same sha A s (snd (transferToken sha s a i j v))"
proof -
  have c: "sys_same sha A s (cache_trie sha s a)" by (rule sys_same_cache [OF ok])
  have "sys_same sha A s (state_slots.write_all sha a (cache_trie sha s a) kvs)" for kvs
    by (rule sys_same_trans [OF c sys_same_write_all [OF sys_same_ok [OF c] a H]])
  from c this [of "[_, _]"] show ?thesis
    by (auto simp: transferToken_def readStorageUint64_eq Let_def)
qed

lemma sys_same_settle_B:
  assumes ok: "state_ok sha A s" and a: "a \<in> A" "a \<noteq> HTLCSystemAddress" and b: "b \<in> A" "b \<noteq> HTLCSystemAddress"
    and H: "HTLCSystemAddress \<in> A"
  shows "sys_same sha A s (snd (settle_B sha err a b v s))"
proof -
  note f = run_frame_settle_B [OF ok a(1) b(1), of err v]
  note t = transfer_laws [OF ok a(1) b(1) refl refl, where v = v]
  show ?thesis
    using f t(2) t(3) [OF H] a(2) b(2) H
    by (auto simp: sys_same_def settle_B_eq Let_def same_but_bal_def move_def)
qed

lemma sys_same_settle:
  assumes ok: "state_ok sha A s" and c: "contract \<in> A" "contract \<noteq> HTLCSystemAddress"
    and a: "caller \<in> A" "caller \<noteq> HTLCSystemAddress" and reg: "ran reg \<subseteq> A - {HTLCSystemAddress}"
    and H: "HTLCSystemAddress \<in> A"
  shows "sys_same sha A s (snd (settleAMM sha reg contract caller s))"
proof -
  let ?P = "sys_same sha A s"
  have A: "?P s1 \<Longrightarrow> ?P (snd (settle_A sha t i j v s1))" if "reg k = Some t" for s1 t i j v k
  proof -
    assume p: "?P s1"
    have "t \<in> A" "t \<noteq> HTLCSystemAddress" using reg that by (auto intro: ranI)
    from sys_same_trans [OF p sys_same_transferToken [OF sys_same_ok [OF p] this H]] p show ?thesis
      by (simp add: settle_A_def)
  qed
  have B: "?P s1 \<Longrightarrow> ?P (snd (settle_B sha er p q v s1))" if "p \<in> {contract, caller}" "q \<in> {contract, caller}" for s1 er p q v
    using sys_same_trans sys_same_settle_B [OF sys_same_ok _ _ _ _ H] that c a by blast
  have W: "?P s1 \<Longrightarrow> ?P (state_slots.write_all sha contract s1 kvs)" for s1 kvs
    using sys_same_trans sys_same_write_all [OF sys_same_ok c H] by blast
  have C: "?P (cache_trie sha s contract)" by (rule sys_same_cache [OF ok])
  show ?thesis
    unfolding settle_reads Let_def
    using C
    by (auto split: option.split simp del: state_slots.write_all_simps
        intro!: frame_bind [of ?P] elim!: A B W intro: A B W)
qed

lemma sys_same_calldata:
  assumes "state_ok sha A s" and "a \<in> A" and "a \<noteq> HTLCSystemAddress" and "length d < 2 ^ 32"
    and H: "HTLCSystemAddress \<in> A"
  shows "sys_same sha A s (writeCallData sha s a caller d)"
  unfolding writeCallData_eq [OF assms(4)] by (rule sys_same_write_all [OF assms(1-3) H])

lemma sys_same_Execute:
  assumes run: "Execute (StateDB_accessor sha) ctx s = Some (r, s')" and ok: "state_ok sha A s"
    and a: "ctx_Target ctx \<in> A" "ctx_Target ctx \<noteq> HTLCSystemAddress" and H: "HTLCSystemAddress \<in> A"
  shows "sys_same sha A s s'"
  using statedb.Execute_keeps(2,3) [OF run ok a(1) H] run_frame_Execute [OF run ok a(1)] a(2)
  by (auto simp: sys_same_def)

lemma sys_SetAccount:
  assumes ok: "state_ok sha A s" and a: "a \<in> A" "a \<noteq> HTLCSystemAddress" and H: "HTLCSystemAddress \<in> A"
    and h: "root_kept sha s a r"
  shows "storage sha (SetAccount sha s a r) HTLCSystemAddress = storage sha s HTLCSystemAddress"
    and "bal sha (SetAccount sha s a r) HTLCSystemAddress = bal sha s HTLCSystemAddress"
  using storage_SetAccount [OF ok a(1) H h] acct_SetAccount [OF ok a(1) H] a(2) by (simp_all add: GetBalance_eq)

lemma sys_same_SetCode:
  assumes ok: "state_ok sha A s" and a: "a \<in> A" "a \<noteq> HTLCSystemAddress" and H: "HTLCSystemAddress \<in> A"
  shows "sys_same sha A s (SetCode sha s a code)"
proof -
  let ?s = "s\<lparr>codes := (codes s)(sha code \<mapsto> code)\<rparr>"
  have "state_ok sha A ?s" using ok by simp
  from sys_SetAccount [OF this a H] run_frame_SetCode [OF ok a(1)] show ?thesis
    by (simp add: sys_same_def SetCode_def Let_def GetBalance_eq storage_def)
qed

section \<open>Running code\<close>

text \<open>Call data within the limit stays below the records.\<close>

lemma calldata_records:
  assumes ok: "state_ok sha A s" and H: "HTLCSystemAddress \<in> A" and d: "length d \<le> 65536"
    and s': "s' = writeCallData sha s HTLCSystemAddress caller d" and m: "unat (hslot sha s 0) < max_htlcs"
  shows "hslot sha s' 0 = hslot sha s 0" and "pending_total (hslot sha s') = pending_total (hslot sha s)"
    and "bal sha s' HTLCSystemAddress = bal sha s HTLCSystemAddress"
proof -
  have d': "length d < 2 ^ 32" using d by simp
  note w = writeCallData_laws [OF ok H d' s']
  have "length d div 8 \<le> 8192" using d by simp
  then have f: "hslot sha s' k = hslot sha s k" if "unat k < 100 \<or> 10000 \<le> unat k" for k
    using that by (intro w(4)) linarith
  show c: "hslot sha s' 0 = hslot sha s 0" by (rule f) simp
  have "hslot sha s' (rec_slot j off) = hslot sha s (rec_slot j off)" if "unat j < max_htlcs" "unat off < 14" for j off
    using unat_rec_slot [OF that] by (intro f) simp
  then have "htlc_at (hslot sha s') j = htlc_at (hslot sha s) j" if "unat j < max_htlcs" for j
    using that by (simp add: htlc_at_def)
  then show "pending_total (hslot sha s') = pending_total (hslot sha s)"
    by (intro pending_same [where f = "hslot sha s" and f' = "hslot sha s'", OF m c])
  show "bal sha s' HTLCSystemAddress = bal sha s HTLCSystemAddress"
    by (rule keeps_rest_bal [OF w(2) H])
qed

lemma handler_solvent:
  assumes ok: "state_ok sha A s" and H: "HTLCSystemAddress \<in> A" and t: "tx_From tx \<in> A"
    and ne: "tx_From tx \<noteq> HTLCSystemAddress" and d: "length (tx_Data tx) \<le> 65536"
    and m: "unat (hslot sha s 0) + 1 < max_htlcs"
    and sol: "pending_total (hslot sha s) + unat (tx_Value tx) \<le> unat (bal sha s HTLCSystemAddress)"
    and run: "processHTLC sha height tx (writeCallData sha s HTLCSystemAddress (tx_From tx) (tx_Data tx)) = (None, s')"
  shows "solvent sha s'"
proof -
  define s1 where s1: "s1 = writeCallData sha s HTLCSystemAddress (tx_From tx) (tx_Data tx)"
  have m': "unat (hslot sha s 0) < max_htlcs" using m by simp
  have d': "length (tx_Data tx) < 2 ^ 32" using d by simp
  note c = calldata_records [OF ok H d s1 m']
  have ok1: "state_ok sha A s1" by (rule evolves_ok [OF writeCallData_laws(1) [OF ok H d' s1]])
  show ?thesis
    by (rule process_solvent [OF ok1 H t ne _ _ run [folded s1]]) (use c m sol in auto)
qed

text \<open>The conditions a transaction meets when nobody controls the system address.\<close>

definition outsider :: "extern \<Rightarrow> executor \<Rightarrow> transaction \<Rightarrow> bool" where
  "outsider x e tx \<longleftrightarrow> tx_From tx \<noteq> HTLCSystemAddress \<and>
     deriveContractAddress (sha256 x) (tx_From tx) (tx_Nonce tx) \<noteq> HTLCSystemAddress \<and>
     HTLCSystemAddress \<notin> ran (ex_contractByID e)"

lemma call_solvent:
  assumes ok: "state_ok (sha256 x) A s" and cov: "covered x A e tx" and out: "outsider x e tx"
    and d: "length (tx_Data tx) < 2 ^ 32" and to: "tx_To tx \<noteq> HTLCSystemAddress"
    and run: "call_contract x e tx s ig code = RunDone e2 g"
  shows "sys_same (sha256 x) A s (ex_stateDB e2)"
proof -
  let ?sha = "sha256 x" and ?to = "tx_To tx" and ?from = "tx_From tx"
  have a: "HTLCSystemAddress \<in> A" "?from \<in> A" "?to \<in> A" "ran (ex_contractByID e) \<subseteq> A - {HTLCSystemAddress}"
    and ne: "?from \<noteq> HTLCSystemAddress"
    using cov out by (auto simp: covered_def outsider_def)
  let ?s = "writeCallData ?sha s ?to ?from (tx_Data tx)"
  let ?ctx = "\<lparr>ctx_Caller = ?from, ctx_Target = ?to, ctx_Value = tx_Value tx,
     ctx_GasLeft = tx_GasLimit tx - ig, ctx_Code = code\<rparr>"
  obtain r s1 where ex: "Execute (StateDB_accessor ?sha) ?ctx ?s = Some (r, s1)"
    and st: "settleAMM ?sha (ex_contractByID e) ?to ?from s1 = (None, ex_stateDB e2)"
    using run by (auto simp: call_contract_def Let_def split: option.splits if_splits prod.splits)
  have F: "sys_same ?sha A s ?s" by (rule sys_same_calldata [OF ok a(3) to d a(1)])
  have F1: "sys_same ?sha A s s1"
    by (rule sys_same_trans [OF F sys_same_Execute [OF ex sys_same_ok [OF F]]]) (use a to in simp_all)
  from sys_same_trans [OF F1 sys_same_settle [OF sys_same_ok [OF F1] a(3) to a(2) ne a(4,1)]] st
  show ?thesis by simp
qed

lemma run_solvent:
  assumes ok: "state_ok (sha256 x) A s" and cov: "covered x A e tx" and out: "outsider x e tx"
    and d: "length (tx_Data tx) < 2 ^ 32" and dl: "tx_To tx \<noteq> ZeroAddress \<Longrightarrow> length (tx_Data tx) \<le> 65536"
    and m: "unat (hslot (sha256 x) s 0) + 1 < max_htlcs"
    and sol: "pending_total (hslot (sha256 x) s) + (if tx_To tx = HTLCSystemAddress then unat (tx_Value tx) else 0)
        \<le> unat (bal (sha256 x) s HTLCSystemAddress)"
    and run: "run_code x e tx s ig = RunDone e2 g"
  shows "solvent (sha256 x) (ex_stateDB e2)"
proof -
  let ?sha = "sha256 x" and ?to = "tx_To tx" and ?from = "tx_From tx" and ?H = HTLCSystemAddress
  have a: "?H \<in> A" "?from \<in> A" "deriveContractAddress ?sha ?from (tx_Nonce tx) \<in> A"
    and ne: "?from \<noteq> ?H" "deriveContractAddress ?sha ?from (tx_Nonce tx) \<noteq> ?H"
    using cov out by (auto simp: covered_def outsider_def)
  have S: "solvent ?sha s" using sol by (simp add: solvent_def)
  consider (htlc) "?to = ?H" "tx_Data tx \<noteq> []"
    | (create) "\<not> (?to = ?H \<and> tx_Data tx \<noteq> [])" "?to = ZeroAddress"
    | (rest) "\<not> (?to = ?H \<and> tx_Data tx \<noteq> [])" "?to \<noteq> ZeroAddress" by blast
  then show ?thesis
  proof cases
    case htlc
    have d': "length (tx_Data tx) \<le> 65536" using dl htlc(1) by (simp add: HTLCSystemAddress_eq)
    obtain h where p: "processHTLC ?sha h tx (writeCallData ?sha s ?H ?from (tx_Data tx)) = (None, ex_stateDB e2)"
      using run htlc by (auto simp: run_code_def Let_def split: prod.splits option.splits)
    show ?thesis by (rule handler_solvent [OF ok a(1,2) ne(1) d' m _ p]) (use sol htlc(1) in simp)
  next
    case create
    then have "sys_same ?sha A s (ex_stateDB e2)"
      using run sys_same_SetCode [OF ok a(3) ne(2) a(1)] by (auto simp: run_code_def Let_def)
    then show ?thesis using S solvent_sys_same by blast
  next
    case rest
    then consider "ex_stateDB e2 = s"
      | code where "tx_Data tx \<noteq> []" "call_contract x e tx s ig code = RunDone e2 g"
      using run by (auto simp: run_code_def Let_def split: option.splits if_splits)
    then show ?thesis
    proof cases
      case 2
      then have "?to \<noteq> ?H" using rest(1) by simp
      from call_solvent [OF ok cov out d this 2(2)] S show ?thesis using solvent_sys_same by blast
    qed (use S in simp)
  qed
qed

section \<open>Transactions\<close>

lemma charged_sys:
  assumes "charged sha A a fee s s'" and "HTLCSystemAddress \<in> A" and "a \<noteq> HTLCSystemAddress"
  shows "solvent sha s' = solvent sha s"
  using assms slot_of_cong [of sha s' HTLCSystemAddress s] by (simp add: charged_def solvent_def GetBalance_eq)

text \<open>The up-front payment leaves the records alone and brings the value to the system account.\<close>

lemma pay_upfront_sys:
  assumes ok: "state_ok sha A s" and a: "tx_From tx \<in> A" "tx_To tx \<in> A" "HTLCSystemAddress \<in> A"
    and ne: "tx_From tx \<noteq> HTLCSystemAddress" and s': "s' = pay_upfront sha tx s"
  shows "hslot sha s' = hslot sha s"
    and "bal sha s' HTLCSystemAddress = bal sha s HTLCSystemAddress +
           (if tx_To tx = HTLCSystemAddress then tx_Value tx else 0)"
proof -
  let ?m = "tx_Value tx + tx_GasPrice tx * tx_GasLimit tx" and ?from = "tx_From tx" and ?H = HTLCSystemAddress
  define s1 where s1: "s1 = SetAccount sha s ?from ((acct sha s ?from)\<lparr>acct_Nonce := acct_Nonce (acct sha s ?from) + 1,
      acct_Balance := acct_Balance (acct sha s ?from) - ?m\<rparr>)"
  note l1 = set_core [OF ok a(1) s1]
  define s2 where s2: "s2 = SetAccount sha s1 (tx_To tx) ((acct sha s1 (tx_To tx))
      \<lparr>acct_Nonce := acct_Nonce (acct sha s1 (tx_To tx)), acct_Balance := acct_Balance (acct sha s1 (tx_To tx)) + tx_Value tx\<rparr>)"
  note l2 = set_core [OF evolves_ok [OF l1(1)] a(2) s2]
  have s'_eq: "s' = (if tx_Value tx > 0 then s2 else s1)"
    by (simp add: s' pay_upfront_def Let_def s1 s2 same_nonce)
  show "hslot sha s' = hslot sha s"
    unfolding s'_eq using l1(3) [OF a(3)] l2(3) [OF a(3)] by (simp add: slot_of_def fun_eq_iff)
  show "bal sha s' ?H = bal sha s ?H + (if tx_To tx = ?H then tx_Value tx else 0)"
    unfolding s'_eq using l1(2) [OF a(3)] l2(2) [OF a(3)] ne by (auto simp: GetBalance_eq word_gt_0)
qed

lemma claim_solvent:
  assumes ok: "state_ok (sha256 x) A (ex_stateDB e)" and cov: "covered x A e tx" and out: "outsider x e tx"
    and d: "length (tx_Data tx) \<le> 65536" and to: "tx_To tx = HTLCSystemAddress"
    and T: "total_bal A (bal (sha256 x) (ex_stateDB e)) < 2 ^ 64"
    and m: "unat (hslot (sha256 x) (ex_stateDB e) 0) + 1 < max_htlcs"
    and sol: "solvent (sha256 x) (ex_stateDB e)" and run: "executeHTLCClaim x e tx = (r, e')"
  shows "solvent (sha256 x) (ex_stateDB e')"
proof -
  let ?sha = "sha256 x" and ?s = "ex_stateDB e" and ?from = "tx_From tx" and ?H = HTLCSystemAddress
  have a: "?H \<in> A" "?from \<in> A" and ne: "?from \<noteq> ?H" using cov out by (auto simp: covered_def outsider_def)
  have "length (tx_Data tx) < 2 ^ 32" using d by simp
  from claim_shape [OF ok cov this T run] consider "e' = e" | "rolled_back ?sha A tx r e e'" | "rc_Success r"
    by (auto simp: refused_def went_through_def)
  then show ?thesis
  proof cases
    case 2
    then show ?thesis using sol charged_sys [OF _ a(1) ne] by (auto simp: rolled_back_def)
  next
    case 3
    obtain i s0 where snap: "Snapshot ?s = (i, s0)" by fastforce
    note so = Snapshot_obs [OF snap]
    define s1 where s1: "s1 = SetAccount ?sha s0 ?from ((acct ?sha s0 ?from)
        \<lparr>acct_Nonce := acct_Nonce (acct ?sha s0 ?from) + 1, acct_Balance := acct_Balance (acct ?sha s0 ?from)\<rparr>)"
    note l1 = set_core [OF so(4) [OF ok] a(2) s1]
    have v: "tx_Value tx = 0" and p: "processHTLC ?sha (ex_currentHeight e) tx (writeCallData ?sha s1 ?H ?from (tx_Data tx)) =
        (None, ex_stateDB e')"
      using run 3 to snap
      by (auto simp: executeHTLCClaim_def Let_def fail_receipt_def s1 so same_balance split: if_splits prod.splits option.splits)
    have f: "hslot ?sha s1 = hslot ?sha ?s" using l1(3) [OF a(1)] by (simp add: slot_of_def so fun_eq_iff)
    have b: "bal ?sha s1 ?H = bal ?sha ?s ?H" using l1(2) [OF a(1)] ne by (simp add: GetBalance_eq so)
    show ?thesis
      by (rule handler_solvent [OF evolves_ok [OF l1(1)] a ne d _ _ p])
        (use m sol in \<open>simp_all add: f b v solvent_def\<close>)
  qed (use sol in simp)
qed

lemma refund_gas_sys:
  assumes ok: "state_ok sha A s" and a: "tx_From tx \<in> A" "HTLCSystemAddress \<in> A" and ne: "tx_From tx \<noteq> HTLCSystemAddress"
  shows "solvent sha (refund_gas sha tx g s) = solvent sha s"
proof -
  let ?r = "(acct sha s (tx_From tx))\<lparr>acct_Balance := acct_Balance (acct sha s (tx_From tx)) + (tx_GasLimit tx - g) * tx_GasPrice tx\<rparr>"
  have "refund_gas sha tx g s = SetAccount sha s (tx_From tx) ?r" by (simp add: refund_gas_def Let_def)
  with sys_SetAccount [OF ok a(1) ne a(2), of ?r] show ?thesis
    using slot_of_cong [of sha "SetAccount sha s (tx_From tx) ?r" HTLCSystemAddress s] by (simp add: solvent_def)
qed

lemma executed_solvent:
  assumes ok: "state_ok (sha256 x) A (ex_stateDB e)" and cov: "covered x A e tx" and out: "outsider x e tx"
    and T: "total_bal A (bal (sha256 x) (ex_stateDB e)) < 2 ^ 64"
    and m: "unat (hslot (sha256 x) (ex_stateDB e) 0) + 1 < max_htlcs"
    and sol: "solvent (sha256 x) (ex_stateDB e)" and pre: "precheck x e tx = None"
    and snap: "Snapshot (ex_stateDB e) = (i, s0)"
    and run: "run_code x e tx (pay_upfront (sha256 x) tx s0) (intrinsic_gas tx) = RunDone e2 g"
  shows "solvent (sha256 x) (refund_gas (sha256 x) tx g (ex_stateDB e2))"
proof -
  let ?sha = "sha256 x" and ?s = "ex_stateDB e" and ?from = "tx_From tx" and ?H = HTLCSystemAddress
  have a: "?H \<in> A" "?from \<in> A" "tx_To tx \<in> A" and ne: "?from \<noteq> ?H"
    using cov out by (auto simp: covered_def outsider_def)
  note so = Snapshot_obs [OF snap] and pc = precheck_None [OF pre]
  define s1 where s1: "s1 = pay_upfront ?sha tx s0"
  have afford: "tx_Value tx + tx_GasPrice tx * tx_GasLimit tx \<le> bal ?sha s0 ?from" using pc(6) by (simp add: so GetBalance_eq)
  have T0: "total_bal A (bal ?sha s0) < 2 ^ 64" using T by (simp add: so)
  note up = pay_upfront_laws [OF so(4) [OF ok] a(2,3) afford pc(5) T0 s1]
  note us = pay_upfront_sys [OF so(4) [OF ok] a(2,3,1) ne s1]
  have "unat (tx_Value tx) \<le> unat (bal ?sha ?s ?from)"
    using pc(5,6) by (simp add: word_le_nat_alt GetBalance_eq)
  moreover have "unat (bal ?sha ?s ?from) + unat (bal ?sha ?s ?H) \<le> total_bal A (bal ?sha ?s)"
  proof -
    have "sum (\<lambda>c. unat (bal ?sha ?s c)) {?from, ?H} \<le> total_bal A (bal ?sha ?s)"
      unfolding total_bal_def by (rule sum_mono2) (use a in auto)
    then show ?thesis using ne by simp
  qed
  ultimately have w: "unat (bal ?sha ?s ?H) + unat (tx_Value tx) < 2 ^ 64" using T by linarith
  have d: "length (tx_Data tx) < 2 ^ 32" using pc(2) by simp
  have "unat (bal ?sha s1 ?H) = unat (bal ?sha ?s ?H) + (if tx_To tx = ?H then unat (tx_Value tx) else 0)"
    using us(2) w by (simp add: so unat_add_no_wrap)
  moreover have f: "hslot ?sha s1 = hslot ?sha ?s" using us(1) by (simp add: slot_of_def so fun_eq_iff)
  ultimately have "solvent ?sha (ex_stateDB e2)"
    using sol m by (intro run_solvent [OF evolves_ok [OF up(1)] cov out d pc(3) _ _ run [folded s1]])
      (auto simp: solvent_def)
  moreover have "state_ok ?sha A (ex_stateDB e2)"
    using run_code_good [OF evolves_ok [OF up(1)] cov d pc(1)] run by (auto simp: s1 dest: run_frame_ok)
  ultimately show ?thesis using refund_gas_sys [OF _ a(2,1) ne] by blast
qed

text \<open>C2: the HTLC system account stays solvent: whatever a transaction does (lock, claim, refund, query,
  contract creation, a call of any contract with its settlement), if the account held at least the
  amounts of all pending contracts before, it does afterwards, provided call data respects the size
  limit and nobody signs for the system address.\<close>

theorem htlc_solvency_preserved:
  assumes ok: "state_ok (sha256 x) A (ex_stateDB e)" and cov: "covered x A e tx" and out: "outsider x e tx"
    and T: "total_bal A (GetBalance (sha256 x) (ex_stateDB e)) < 2 ^ 64" and nz: "tx_From tx \<noteq> ZeroAddress"
    and claim: "isHTLCClaim tx \<Longrightarrow> length (tx_Data tx) \<le> MaxCallDataSize"
    and m: "unat (slot_of (sha256 x) (ex_stateDB e) HTLCSystemAddress htlcSlotCounter) + 1 < max_htlcs"
    and sol: "solvent (sha256 x) (ex_stateDB e)" and run: "executeTx x e tx = Some (r, e')"
  shows "solvent (sha256 x) (ex_stateDB e')"
proof -
  let ?sha = "sha256 x" and ?H = HTLCSystemAddress
  have H: "?H \<in> A" and ne: "tx_From tx \<noteq> ?H" using cov out by (auto simp: covered_def outsider_def)
  have m': "unat (hslot ?sha (ex_stateDB e) 0) + 1 < max_htlcs" using m by (simp add: htlcSlotCounter_def)
  show ?thesis
  proof (cases "isHTLCClaim tx \<and> VerifySender x (SigningHash ?sha tx) (tx_Signature tx) (tx_From tx)")
    case True
    then have c: "executeHTLCClaim x e tx = (r, e')" and "tx_To tx = ?H" "length (tx_Data tx) \<le> 65536"
      using run nz claim by (auto simp: executeTx_def Let_def isHTLCClaim_def MaxCallDataSize_def split: if_splits)
    then show ?thesis using claim_solvent [OF ok cov out _ _ T m' sol c] by blast
  next
    case False
    show ?thesis
    proof (cases "rc_Success r")
      case fail: False
      have "refused r e e' \<or> rolled_back ?sha A tx r e e'"
      proof (cases "precheck x e tx")
        case None
        have "length (tx_Data tx) < 2 ^ 32" using precheck_None(2) [OF None] by simp
        from executeTx_shape [OF ok cov this T nz run] fail show ?thesis by (auto simp: went_through_def)
      next
        case (Some er)
        then show ?thesis
          using run nz False by (auto simp: executeTx_def Let_def refused_def fail_receipt_def split: if_splits)
      qed
      then show ?thesis using sol charged_sys [OF _ H ne] by (auto simp: refused_def rolled_back_def)
    next
      case True
      obtain i s0 where snap: "Snapshot (ex_stateDB e) = (i, s0)" by fastforce
      obtain e2 g where pre: "precheck x e tx = None"
        and rc: "run_code x e tx (pay_upfront ?sha tx s0) (intrinsic_gas tx) = RunDone e2 g"
        and e': "ex_stateDB e' = refund_gas ?sha tx g (ex_stateDB e2)"
        using run nz False True snap
        by (auto simp: executeTx_def Let_def fail_receipt_def split: if_splits option.splits run_result.splits)
      from executed_solvent [OF ok cov out T m' sol pre snap rc] show ?thesis by (simp add: e')
    qed
  qed
qed

lemma toy_derive: "deriveContractAddress be_word 5 0 \<noteq> 1"
  by code_simp

theorem htlc_solvency_preserved_witness:
  "\<exists>r e'. executeTx toy toy_exec (toy_tx 5 6 10 []) = Some (r, e') \<and> rc_Success r \<and> solvent be_word (ex_stateDB e')"
proof -
  obtain e' where e': "executeTx toy toy_exec (toy_tx 5 6 10 []) =
      Some (ok_receipt (TxID be_word (toy_tx 5 6 10 [])) 200, e')" using toy_transfer by blast
  have out: "outsider toy toy_exec (toy_tx 5 6 10 [])"
    by (simp add: outsider_def toy_exec_obs HTLCSystemAddress_eq toy_derive)
  have "solvent be_word (ex_stateDB e')"
    using htlc_solvency_preserved [OF _ toy_covered(1) out _ _ _ _ _ e'] toy_exec_obs(1) toy_total
    by (simp add: toy_exec_obs(3) solvent_def pending_total_def max_htlcs_def isHTLCClaim_def HTLCSystemAddress_eq)
  with e' show ?thesis by (auto simp: ok_receipt_def)
qed

section \<open>Claims with oversized call data\<close>

text \<open>Gasless claims are dispatched before the size limit is checked, and word \<open>i\<close> of the call data goes to
  slot \<open>101 + i\<close>: word 9899 is the first one of the record of contract 0.\<close>

lemma arg_writes_snoc: "arg_writes i (vs @ [v]) = arg_writes i vs @ [(arg_slot (i + length vs), v)]"
  by (simp add: arg_writes_def)

lemma arg_slot_inject:
  assumes "i < 2 ^ 32" and "j < 2 ^ 32"
  shows "arg_slot i = arg_slot j \<longleftrightarrow> i = j"
proof
  assume "arg_slot i = arg_slot j"
  then have "unat (arg_slot i) = unat (arg_slot j)" by simp
  then show "i = j" unfolding unat_arg_slot [OF assms(1)] unat_arg_slot [OF assms(2)] by (simp split: if_splits)
qed simp

lemma arg_lookup:
  "length ws < 2 ^ 32 \<Longrightarrow> i < length ws \<Longrightarrow> upds f (arg_writes 0 ws) (arg_slot i) = ws ! i"
proof (induction ws rule: rev_induct)
  case (snoc w ws)
  then show ?case
    by (auto simp: arg_writes_snoc nth_append arg_slot_inject less_Suc_eq)
qed simp

lemma data_words_words: "data_words (concat (map (be_bytes 8) ws)) = ws"
proof (induction ws)
  case (Cons w ws)
  have "foldl (\<lambda>val b. push_bit 8 val OR ucast b) 0 (be_bytes 8 w) = w"
    using be_word_be_bytes_id [of 8 w] by (simp add: be_word_def)
  with Cons show ?case by (subst data_words.simps) simp
qed (simp add: data_words.simps)

definition hash_words :: "hash256 \<Rightarrow> uint64 list" where
  "hash_words h = map (\<lambda>i. be_word (take 8 (drop (8 * i) (hash_bytes h)))) [0, 1, 2, 3]"

lemma words_hash_words:
  "words_hash (hash_words h ! 0) (hash_words h ! 1) (hash_words h ! 2) (hash_words h ! 3) = hash_bytes h"
proof -
  have l: "length (take 8 (drop (8 * i) (hash_bytes h))) = 8" if "i < 4" for i
    using that by (simp add: hash_bytes_def)
  have "be_bytes 8 (be_word (take 8 (drop (8 * i) (hash_bytes h))) :: uint64) = take 8 (drop (8 * i) (hash_bytes h))"
    if "i < 4" for i by (rule be_bytes_be_word) (use l [OF that] in simp_all)
  from this [of 0] this [of 1] this [of 2] this [of 3]
  have "words_hash (hash_words h ! 0) (hash_words h ! 1) (hash_words h ! 2) (hash_words h ! 3) =
      take 8 (hash_bytes h) @ take 8 (drop 8 (hash_bytes h)) @ take 8 (drop 16 (hash_bytes h)) @ take 8 (drop 24 (hash_bytes h))"
    by (simp add: words_hash_def hash_words_def)
  also have "\<dots> = take 32 (hash_bytes h)"
    using take_add [of 8 8 "hash_bytes h"] take_add [of 16 8 "hash_bytes h"] take_add [of 24 8 "hash_bytes h"] by simp
  finally show ?thesis by (simp add: hash_bytes_def)
qed

text \<open>A claim of contract 0 whose call data brings its own record: the claimer as the recipient, any
  amount, a lock that the zero preimage opens, and the status pending.\<close>

definition forged_words :: "hashfn \<Rightarrow> uint64 \<Rightarrow> uint64 \<Rightarrow> uint64 list" where
  "forged_words sha callerID amount =
     HTLCFnClaim # replicate 9899 0 @ [callerID, amount] @ hash_words (sha (words_hash 0 0 0 0)) @ [0, 0]"

definition forged_data :: "hashfn \<Rightarrow> uint64 \<Rightarrow> uint64 \<Rightarrow> bytes" where
  "forged_data sha callerID amount = concat (map (be_bytes 8) (forged_words sha callerID amount))"

lemma forged_length: "length (data_words (forged_data sha c v)) = 9908"
  unfolding forged_data_def data_words_words by (simp add: forged_words_def hash_words_def)

lemma upds_other: "k \<notin> fst ` set kvs \<Longrightarrow> upds f kvs k = f k"
  by (induction kvs arbitrary: f) auto

lemma forged_lookup:
  assumes f: "f = upds g (call_writes caller (forged_data sha c v))"
  shows "f 0 = g 0" and "f 100 = HTLCFnClaim" and "f 101 = 0" and "f 102 = 0" and "f 103 = CallerID caller"
    and "f 104 = 0" and "f 105 = 0" and "f 106 = 0" and "f (rec_slot 0 1) = c" and "f (rec_slot 0 2) = v"
    and "k < 4 \<Longrightarrow> f (rec_slot 0 (3 + of_nat k)) = hash_words (sha (words_hash 0 0 0 0)) ! k" and "f (rec_slot 0 8) = 0"
proof -
  let ?ws = "forged_words sha c v"
  have n: "length ?ws = 9908" by (simp add: forged_words_def hash_words_def)
  have w: "data_words (forged_data sha c v) = ?ws" by (simp add: forged_data_def data_words_words)
  have l: "length (forged_data sha c v) < 2 ^ 32"
    using length_data_words [of "forged_data sha c v"] by (simp add: w n)
  have at: "f (arg_slot i) = ?ws ! i" if "i < 9908" for i
  proof -
    have "unat (arg_slot i) \<noteq> 103" using unat_arg_slot [of i] that by (auto split: if_splits)
    then have "arg_slot i \<noteq> 103" by auto
    then show ?thesis using arg_lookup [of ?ws i g] that by (simp add: f call_writes_def w n)
  qed
  have rec: "rec_slot 0 off = arg_slot (9899 + unat off)" if "unat off < 14" for off
  proof -
    have "unat (rec_slot 0 off) = 10000 + unat off"
      using unat_rec_slot [of 0 off] that by (simp add: max_htlcs_def)
    moreover have "unat (arg_slot (9899 + unat off)) = 10000 + unat off"
      using unat_arg_slot [of "9899 + unat off"] that by simp
    ultimately show ?thesis by (simp add: word_unat_eq_iff)
  qed
  note ws = forged_words_def hash_words_def nth_append
  show "f 103 = CallerID caller" by (simp add: f call_writes_def)
  show "f 100 = HTLCFnClaim" using at [of 0] by (simp add: ws arg_slot_def)
  show "f 101 = 0" "f 102 = 0" "f 104 = 0" "f 105 = 0" "f 106 = 0"
    using at [of 1] at [of 2] at [of 3] at [of 4] at [of 5] by (simp_all add: ws arg_slot_def)
  show "f (rec_slot 0 1) = c" "f (rec_slot 0 2) = v" "f (rec_slot 0 8) = 0"
    using at [of 9900] at [of 9901] at [of 9907] by (simp_all add: ws rec)
  show "f (rec_slot 0 (3 + of_nat k)) = hash_words (sha (words_hash 0 0 0 0)) ! k" if "k < 4"
  proof -
    have u: "unat (3 + of_nat k :: uint64) = 3 + k" using that by (simp add: unat_word_ariths unat_of_nat)
    have "?ws ! (9902 + k) = hash_words (sha (words_hash 0 0 0 0)) ! k"
      using that by (auto simp: ws nth_Cons')
    then show ?thesis using at [of "9902 + k"] that by (simp add: rec u)
  qed
  have "k \<notin> fst ` set (call_writes caller (forged_data sha c v))" if "unat k < 100" for k
    using call_writes_slots [OF l, of k caller] that by auto
  then have "(0 :: uint64) \<notin> fst ` set (call_writes caller (forged_data sha c v))" by simp
  then show "f 0 = g 0" unfolding f by (rule upds_other)
qed

lemma forged_claim:
  assumes ok: "state_ok sha A s" and H: "HTLCSystemAddress \<in> A" and t: "tx_From tx \<in> A"
    and ne: "tx_From tx \<noteq> HTLCSystemAddress" and c: "0 < hslot sha s 0" "unat (hslot sha s 0) < max_htlcs"
    and d: "tx_Data tx = forged_data sha (CallerID (tx_From tx)) (bal sha s HTLCSystemAddress)"
    and s1: "s1 = writeCallData sha s HTLCSystemAddress (tx_From tx) (tx_Data tx)"
  shows "\<exists>s2. processHTLC sha h tx s1 = (None, s2) \<and> bal sha s2 HTLCSystemAddress = 0 \<and>
    bal sha s2 (tx_From tx) = bal sha s (tx_From tx) + bal sha s HTLCSystemAddress"
proof -
  let ?H = HTLCSystemAddress and ?from = "tx_From tx" and ?f = "hslot sha s1"
  let ?hw = "hash_words (sha (words_hash 0 0 0 0))"
  have "length (data_words (tx_Data tx)) = 9908"
    by (simp add: d forged_length)
  then have l: "length (tx_Data tx) < 2 ^ 32" by (simp add: length_data_words)
  note w = writeCallData_laws [OF ok H l s1]
  note f = forged_lookup [OF w(3) [unfolded d]]
  have b: "bal sha s1 a = bal sha s a" if "a \<in> A" for a by (rule keeps_rest_bal [OF w(2) that])
  have lock: "h_lock (htlc_at ?f 0) = hash_bytes (sha (words_hash 0 0 0 0))"
    using f(11) [of 0] f(11) [of 1] f(11) [of 2] f(11) [of 3] words_hash_words [of "sha (words_hash 0 0 0 0)"]
    by (simp add: htlc_at_def)
  have rec: "h_status (htlc_at ?f 0) = 0" "h_recipient (htlc_at ?f 0) = CallerID ?from" "h_amount (htlc_at ?f 0) = bal sha s ?H"
    using f by (simp_all add: htlc_at_def)
  obtain err s2 where run: "htlc_claim sha tx (CallerID ?from) s1 = (err, s2)" by fastforce
  have "unat (?f htlcSlotCounter) < max_htlcs" using c(2) f(1) by (simp add: htlcSlotCounter_def)
  note e = claim_effect [OF evolves_ok [OF w(1)] H t refl refl this run]
  have "be_word (hash_bytes h) = h" for h :: hash256 by (simp add: hash_bytes_def)
  then have "err = None" using e c(1) by (simp add: f rec lock htlc_consts b H)
  moreover from this have "bal sha s2 ?H = 0" "bal sha s2 ?from = bal sha s ?from + bal sha s ?H"
    using e H t ne by (auto simp: f rec b move_def)
  moreover have "processHTLC sha h tx s1 = htlc_claim sha tx (CallerID ?from) s1"
    unfolding process_eq Let_def handlers_hcache by (simp add: f htlc_consts)
  ultimately show ?thesis using run by simp
qed

text \<open>C3: the size limit is not checked for gasless claims: as soon as one contract was ever locked,
  anyone can take the whole balance of the system account in one transaction, without gas and
  without knowing any preimage, by a claim whose call data overwrites the record of contract 0 with
  one of their own.\<close>

theorem oversized_claim_drains:
  assumes ok: "state_ok (sha256 x) A (ex_stateDB e)" and cov: "HTLCSystemAddress \<in> A" "tx_From tx \<in> A"
    and src: "tx_From tx \<noteq> ZeroAddress" "tx_From tx \<noteq> HTLCSystemAddress"
    and sig: "VerifySender x (SigningHash (sha256 x) tx) (tx_Signature tx) (tx_From tx)"
    and nonce: "tx_Nonce tx = acct_Nonce (GetOrCreateAccount (sha256 x) (ex_stateDB e) (tx_From tx))"
    and tx: "tx_To tx = HTLCSystemAddress" "tx_Value tx = 0"
      "tx_Data tx = forged_data (sha256 x) (CallerID (tx_From tx))
         (GetBalance (sha256 x) (ex_stateDB e) HTLCSystemAddress)"
    and c: "0 < slot_of (sha256 x) (ex_stateDB e) HTLCSystemAddress htlcSlotCounter"
      "unat (slot_of (sha256 x) (ex_stateDB e) HTLCSystemAddress htlcSlotCounter) < max_htlcs"
  shows "MaxCallDataSize < length (tx_Data tx) \<and>
    (\<exists>e'. executeTx x e tx = Some (ok_receipt (TxID (sha256 x) tx) 0, e') \<and>
      GetBalance (sha256 x) (ex_stateDB e') HTLCSystemAddress = 0 \<and>
      GetBalance (sha256 x) (ex_stateDB e') (tx_From tx) =
        GetBalance (sha256 x) (ex_stateDB e) (tx_From tx) + GetBalance (sha256 x) (ex_stateDB e) HTLCSystemAddress)"
proof -
  let ?sha = "sha256 x" and ?s = "ex_stateDB e" and ?from = "tx_From tx" and ?H = HTLCSystemAddress
  have "length (data_words (tx_Data tx)) = 9908"
    by (simp add: tx forged_length)
  then have big: "MaxCallDataSize < length (tx_Data tx)" by (simp add: length_data_words MaxCallDataSize_def)
  have "take 8 (tx_Data tx) = be_bytes 8 HTLCFnClaim" by (simp add: tx forged_data_def forged_words_def)
  then have isc: "isHTLCClaim tx"
    using big be_word_be_bytes_id [of 8 HTLCFnClaim]
    by (simp add: isHTLCClaim_def tx(1) MaxCallDataSize_def be_word_def)
  obtain i s0 where snap: "Snapshot ?s = (i, s0)" by fastforce
  note so = Snapshot_obs [OF snap]
  define s1 where s1: "s1 = SetAccount ?sha s0 ?from ((acct ?sha s0 ?from)
      \<lparr>acct_Nonce := acct_Nonce (acct ?sha s0 ?from) + 1, acct_Balance := acct_Balance (acct ?sha s0 ?from)\<rparr>)"
  note l1 = set_core [OF so(4) [OF ok] cov(2) s1]
  have f: "hslot ?sha s1 = hslot ?sha ?s" using l1(3) [OF cov(1)] by (intro slot_of_cong) (simp add: so)
  have b: "bal ?sha s1 a = bal ?sha ?s a" if "a \<in> A" for a using l1(4) [OF that] by (simp add: so GetBalance_eq)
  define s2 where s2: "s2 = writeCallData ?sha s1 ?H ?from (tx_Data tx)"
  obtain s3 where p: "processHTLC ?sha (ex_currentHeight e) tx s2 = (None, s3)"
    and r: "bal ?sha s3 ?H = 0" "bal ?sha s3 ?from = bal ?sha ?s ?from + bal ?sha ?s ?H"
    using forged_claim [OF evolves_ok [OF l1(1)] cov src(2) _ _ _ s2] c tx(3)
    by (auto simp: f b cov htlcSlotCounter_def)
  have "executeTx x e tx = Some (ok_receipt (TxID ?sha tx) 0, e\<lparr>ex_stateDB := s3\<rparr>)"
    using p by (simp add: executeTx_def executeHTLCClaim_def Let_def src sig isc tx(1,2) nonce snap s1 s2 so same_balance)
  with big r show ?thesis by simp
qed

text \<open>A claim against the sample database, which locks 50 for somebody else.\<close>

definition drain_exec :: executor where "drain_exec = Executor_New one_htlc"

definition drain_tx :: transaction where
  "drain_tx = \<lparr>tx_Version = 1, tx_Nonce = acct_Nonce (GetOrCreateAccount be_word one_htlc 5), tx_From = 5,
     tx_To = HTLCSystemAddress, tx_Value = 0, tx_GasPrice = 0, tx_GasLimit = 0, tx_Priority = 0,
     tx_Data = forged_data be_word (CallerID 5) 70, tx_Signature = 0\<rparr>"

theorem oversized_claim_drains_witness:
  "\<exists>r e'. executeTx toy drain_exec drain_tx = Some (r, e') \<and> GetBalance be_word (ex_stateDB e') 5 = 70"
proof -
  have o: "ex_stateDB drain_exec = one_htlc" by (simp add: drain_exec_def Executor_New_def)
  have f: "slot_of be_word one_htlc HTLCSystemAddress htlcSlotCounter = 1"
    by (simp add: one_htlc_obs rec_slot_def htlcSlotBase_def htlcSlotStride_def htlcSlotCounter_def)
  have d: "tx_From drain_tx = 5" "tx_To drain_tx = HTLCSystemAddress" "tx_Value drain_tx = 0"
    "tx_Nonce drain_tx = acct_Nonce (GetOrCreateAccount be_word one_htlc 5)"
    "tx_Data drain_tx = forged_data be_word (CallerID 5) 70" by (simp_all add: drain_tx_def)
  have "MaxCallDataSize < length (tx_Data drain_tx) \<and>
    (\<exists>e'. executeTx toy drain_exec drain_tx = Some (ok_receipt (TxID be_word drain_tx) 0, e') \<and>
      GetBalance be_word (ex_stateDB e') HTLCSystemAddress = 0 \<and>
      GetBalance be_word (ex_stateDB e') 5 = GetBalance be_word one_htlc 5 + GetBalance be_word one_htlc HTLCSystemAddress)"
    using oversized_claim_drains [of toy UNIV drain_exec drain_tx]
    by (simp add: o d f one_htlc_obs(1,3) max_htlcs_def) (simp add: HTLCSystemAddress_eq)
  then show ?thesis by (auto simp: one_htlc_obs(3) HTLCSystemAddress_eq)
qed

end
