(* ===== verification/Tyl_Asm.thy ===== *)
theory Tyl_Asm
  imports Tyl_VM
begin

text \<open>
  The assembler of \<open>contracts/asm.go\<close> and the call data of \<open>contracts/calldata.go\<close>, and how the
  interpreter runs assembled straight-line code: the code a chain of assembler calls emits is the
  encoding of a list of instructions, which has a semantics of its own on a stack and a function from
  slots to values.
\<close>

section \<open>The assembler\<close>

type_synonym asm = bytes

definition NewAsm :: asm where "NewAsm = []"

definition Emit :: "bytes \<Rightarrow> asm \<Rightarrow> asm" where "Emit b a = a @ b"

definition Asm_Op :: "byte \<Rightarrow> asm \<Rightarrow> asm" where "Asm_Op opc a = Emit [opc] a"

text \<open>The loop that counts the bytes of a value.\<close>

function byte_count :: "uint64 \<Rightarrow> nat" where
  "byte_count v = (if v > 0 then Suc (byte_count (drop_bit 8 v)) else 0)"
  by pat_completeness auto
termination
proof (relation "measure unat")
  fix v :: uint64
  assume "0 < v"
  then have "0 < unat v" by (simp add: word_less_nat_alt)
  moreover have "unat (drop_bit 8 v) = unat v div 256" by (simp add: drop_bit_eq_div unat_div_distrib)
  ultimately show "(drop_bit 8 v, v) \<in> measure unat" by simp
qed simp

declare byte_count.simps [simp del]

definition Asm_Push :: "uint64 \<Rightarrow> asm \<Rightarrow> asm" where
  "Asm_Push val a =
     (if val = 0 then Emit [OpPush, 1, 0] a
      else let n = byte_count val;
               a = Emit [OpPush, of_nat n] a
           in foldl (\<lambda>a i. Emit [ucast (drop_bit (i * 8) val)] a) a (rev [0..<n]))"

definition Asm_Halt :: "asm \<Rightarrow> asm" where "Asm_Halt = Asm_Op OpHalt"
definition Asm_Add :: "asm \<Rightarrow> asm" where "Asm_Add = Asm_Op OpAdd"
definition Asm_Sub :: "asm \<Rightarrow> asm" where "Asm_Sub = Asm_Op OpSub"
definition Asm_Mul :: "asm \<Rightarrow> asm" where "Asm_Mul = Asm_Op OpMul"
definition Asm_Div :: "asm \<Rightarrow> asm" where "Asm_Div = Asm_Op OpDiv"
definition Asm_Eq :: "asm \<Rightarrow> asm" where "Asm_Eq = Asm_Op OpEq"
definition Asm_Lt :: "asm \<Rightarrow> asm" where "Asm_Lt = Asm_Op OpLt"
definition Asm_Not :: "asm \<Rightarrow> asm" where "Asm_Not = Asm_Op OpNot"
definition Asm_Sload :: "asm \<Rightarrow> asm" where "Asm_Sload = Asm_Op OpSload"
definition Asm_Sstore :: "asm \<Rightarrow> asm" where "Asm_Sstore = Asm_Op OpSstore"
definition Asm_Jump :: "asm \<Rightarrow> asm" where "Asm_Jump = Asm_Op OpJump"
definition Asm_Jumpi :: "asm \<Rightarrow> asm" where "Asm_Jumpi = Asm_Op OpJumpi"
definition Asm_Pop :: "asm \<Rightarrow> asm" where "Asm_Pop = Asm_Op OpPop"
definition Asm_Dup :: "asm \<Rightarrow> asm" where "Asm_Dup = Asm_Op OpDup"
definition Asm_Swap :: "asm \<Rightarrow> asm" where "Asm_Swap = Asm_Op OpSwap"
definition Asm_Len :: "asm \<Rightarrow> nat" where "Asm_Len a = length a"

text \<open>A chain of calls on the assembler.\<close>

definition chain :: "(asm \<Rightarrow> asm) list \<Rightarrow> asm \<Rightarrow> asm" where
  "chain fs a = foldl (\<lambda>a f. f a) a fs"

definition RequireNonZero :: "asm \<Rightarrow> asm" where
  "RequireNonZero = chain [Asm_Push 1, Asm_Div, Asm_Pop]"

definition RequireLTE :: "asm \<Rightarrow> asm" where
  "RequireLTE = chain [Asm_Lt, Asm_Not, Asm_Push 1, Asm_Div, Asm_Pop]"

definition PackCallData :: "uint64 list \<Rightarrow> bytes" where
  "PackCallData args = concat (map (be_bytes 8) args)"

section \<open>Instructions\<close>

datatype instr = IPush uint64 | IOp byte

definition push_code :: "uint64 \<Rightarrow> bytes" where
  "push_code v = (if v = 0 then [OpPush, 1, 0] else OpPush # of_nat (byte_count v) # be_bytes (byte_count v) v)"

primrec enc :: "instr \<Rightarrow> bytes" where
  "enc (IPush v) = push_code v"
| "enc (IOp b) = [b]"

abbreviation encs :: "instr list \<Rightarrow> bytes" where
  "encs is \<equiv> concat (map enc is)"

lemma Emit_foldl: "foldl (\<lambda>a i. Emit [g i] a) a xs = a @ map g xs"
  by (induction xs arbitrary: a) (simp_all add: Emit_def)

lemma Asm_Push_eq: "Asm_Push v a = a @ push_code v"
  by (simp add: Asm_Push_def push_code_def Let_def Emit_foldl) (simp add: Emit_def be_bytes_def mult.commute)

lemma Asm_Op_eq: "Asm_Op b a = a @ [b]"
  by (simp add: Asm_Op_def Emit_def)

text \<open>What an assembler call emits.\<close>

definition emits :: "(asm \<Rightarrow> asm) \<Rightarrow> instr list \<Rightarrow> bool" where
  "emits f is \<longleftrightarrow> (\<forall>a. f a = a @ encs is)"

lemma emits_push: "emits (Asm_Push v) [IPush v]"
  by (simp add: emits_def Asm_Push_eq)

lemma emits_op: "emits (Asm_Op b) [IOp b]"
  by (simp add: emits_def Asm_Op_eq)

lemmas emits_ops = emits_op [of OpHalt, folded Asm_Halt_def] emits_op [of OpAdd, folded Asm_Add_def]
  emits_op [of OpSub, folded Asm_Sub_def] emits_op [of OpMul, folded Asm_Mul_def]
  emits_op [of OpDiv, folded Asm_Div_def] emits_op [of OpEq, folded Asm_Eq_def]
  emits_op [of OpLt, folded Asm_Lt_def] emits_op [of OpNot, folded Asm_Not_def]
  emits_op [of OpSload, folded Asm_Sload_def] emits_op [of OpSstore, folded Asm_Sstore_def]
  emits_op [of OpJump, folded Asm_Jump_def] emits_op [of OpJumpi, folded Asm_Jumpi_def]
  emits_op [of OpPop, folded Asm_Pop_def] emits_op [of OpDup, folded Asm_Dup_def]
  emits_op [of OpSwap, folded Asm_Swap_def]

lemma emits_chain_Nil: "emits (chain []) []"
  by (simp add: emits_def chain_def)

lemma emits_chain_Cons: "emits f is \<Longrightarrow> emits (chain fs) js \<Longrightarrow> emits (chain (f # fs)) (is @ js)"
  by (simp add: emits_def chain_def)

lemmas emits_intros = emits_push emits_ops emits_chain_Nil emits_chain_Cons

lemma emits_RequireNonZero: "emits RequireNonZero [IPush 1, IOp OpDiv, IOp OpPop]"
  using emits_chain_Cons [OF emits_push emits_chain_Cons [OF emits_ops(5) emits_chain_Cons [OF emits_ops(13) emits_chain_Nil]]]
  by (simp add: RequireNonZero_def)

lemma emits_RequireLTE: "emits RequireLTE [IOp OpLt, IOp OpNot, IPush 1, IOp OpDiv, IOp OpPop]"
  using emits_chain_Cons [OF emits_ops(7) emits_chain_Cons [OF emits_ops(8) emits_chain_Cons [OF emits_push
    emits_chain_Cons [OF emits_ops(5) emits_chain_Cons [OF emits_ops(13) emits_chain_Nil]]]]]
  by (simp add: RequireLTE_def)

lemma emitsD: "emits f is \<Longrightarrow> f NewAsm = encs is"
  by (simp add: emits_def NewAsm_def)

section \<open>Reading a pushed value\<close>

lemma unat_drop8: "unat (drop_bit 8 (v :: uint64)) = unat v div 256"
  by (simp add: drop_bit_eq_div unat_div_distrib)

lemma byte_count_le: "unat v < 256 ^ n \<Longrightarrow> byte_count v \<le> n"
proof (induction n arbitrary: v)
  case 0
  then show ?case by (simp add: byte_count.simps unat_eq_zero)
next
  case (Suc n)
  then have "unat (drop_bit 8 v) < 256 ^ n" by (simp add: unat_drop8 less_mult_imp_div_less mult.commute)
  with Suc.IH show ?case by (subst byte_count.simps) simp
qed

lemma byte_count_8: "byte_count v \<le> 8"
  using byte_count_le [of v 8] unsigned_less [of v] by simp

lemma less_byte_count: "unat v < 256 ^ byte_count v"
proof (induction v rule: byte_count.induct)
  case (1 v)
  show ?case
  proof (cases "v > 0")
    case True
    then have "unat v div 256 < 256 ^ byte_count (drop_bit 8 v)" using 1 by (simp add: unat_drop8)
    then have "unat v < 256 * 256 ^ byte_count (drop_bit 8 v)" by (simp add: div_less_iff_less_mult mult.commute)
    then show ?thesis using True by (subst byte_count.simps) simp
  qed (simp add: byte_count.simps word_gt_0)
qed

lemma byte_count_pos: "v \<noteq> 0 \<Longrightarrow> 0 < byte_count v"
  by (subst byte_count.simps) (simp add: word_gt_0)

lemma be_word_count: "be_word (be_bytes (byte_count v) v) = v"
proof -
  have "unat v < 2 ^ (8 * byte_count v)" using less_byte_count [of v] by (simp add: power_mult)
  then have "take_bit (8 * byte_count v) v = v"
    by (simp add: word_unat_eq_iff unsigned_take_bit_eq take_bit_nat_eq_self)
  then show ?thesis by (simp add: be_word_be_bytes)
qed

definition push_bytes :: "uint64 \<Rightarrow> bytes" where
  "push_bytes v = (if v = 0 then [0] else be_bytes (byte_count v) v)"

lemma push_code_eq: "push_code v = OpPush # of_nat (length (push_bytes v)) # push_bytes v"
  by (simp add: push_code_def push_bytes_def)

lemma push_bytes_facts: "0 < length (push_bytes v)" "length (push_bytes v) \<le> 8" "be_word (push_bytes v) = v"
proof -
  have "be_word [0 :: byte] = (0 :: uint64)" by (simp add: be_word_def)
  then show "0 < length (push_bytes v)" "length (push_bytes v) \<le> 8" "be_word (push_bytes v) = v"
    using byte_count_pos [of v] byte_count_8 [of v] by (auto simp: push_bytes_def be_word_count)
qed

lemma length_push_code: "length (push_code v) = 2 + length (push_bytes v)"
  by (simp add: push_code_eq)

lemma op_push_code:
  assumes "code = pre @ push_code v @ post" and "m_pc m = int (length pre)" and "length (m_stack m) < MaxStackDepth"
  shows "op_push code m = VmRun (m\<lparr>m_pc := int (length pre + length (push_code v)), m_stack := v # m_stack m\<rparr>)"
proof -
  let ?n = "length (push_bytes v)"
  have u: "unat (of_nat ?n :: byte) = ?n" using push_bytes_facts(2) [of v] by (simp add: unat_of_nat)
  have c: "code = pre @ OpPush # of_nat ?n # push_bytes v @ post" by (simp add: assms(1) push_code_eq)
  have "code ! (length pre + 1) = of_nat ?n" by (simp add: c nth_append)
  moreover have "slice (length pre + 2) ?n code = push_bytes v" by (simp add: c slice_def)
  moreover have "foldl (\<lambda>val b. push_bit 8 val OR ucast b) 0 (push_bytes v) = v"
    using push_bytes_facts(3) [of v] by (simp add: be_word_def)
  ultimately show ?thesis
    using assms(2,3) push_bytes_facts(1,2) [of v]
    by (simp add: op_push_def Let_def u Stack_Push_def length_push_code numeral_eq_Suc) (simp add: c)
qed

section \<open>Straight-line code\<close>

type_synonym cfg = "uint64 list \<times> (uint64 \<Rightarrow> uint64)"

text \<open>What an instruction that does not jump does to the stack and the slots; instructions outside the
  list, and stacks too short, are errors.\<close>

fun sem1 :: "instr \<Rightarrow> cfg \<Rightarrow> vm_error + cfg" where
  "sem1 (IPush v) (stk, f) = Inr (v # stk, f)"
| "sem1 (IOp b) (stk, f) =
     (if b = OpPop then (case stk of x # stk \<Rightarrow> Inr (stk, f) | _ \<Rightarrow> Inl StackUnderflow)
      else if b = OpDup then (case stk of x # stk \<Rightarrow> Inr (x # x # stk, f) | _ \<Rightarrow> Inl StackEmpty)
      else if b = OpSwap then (case stk of x # y # stk \<Rightarrow> Inr (y # x # stk, f) | _ \<Rightarrow> Inl StackUnderflow)
      else if b = OpAdd then (case stk of x # y # stk \<Rightarrow> Inr ((x + y) # stk, f) | _ \<Rightarrow> Inl StackUnderflow)
      else if b = OpSub then (case stk of x # y # stk \<Rightarrow> Inr ((x - y) # stk, f) | _ \<Rightarrow> Inl StackUnderflow)
      else if b = OpMul then (case stk of x # y # stk \<Rightarrow> Inr ((x * y) # stk, f) | _ \<Rightarrow> Inl StackUnderflow)
      else if b = OpDiv then
        (case stk of x # y # stk \<Rightarrow> if y = 0 then Inl DivisionByZero else Inr ((x div y) # stk, f) | _ \<Rightarrow> Inl StackUnderflow)
      else if b = OpEq then
        (case stk of x # y # stk \<Rightarrow> Inr ((if x = y then 1 else 0) # stk, f) | _ \<Rightarrow> Inl StackUnderflow)
      else if b = OpLt then
        (case stk of x # y # stk \<Rightarrow> Inr ((if x < y then 1 else 0) # stk, f) | _ \<Rightarrow> Inl StackUnderflow)
      else if b = OpNot then
        (case stk of x # stk \<Rightarrow> Inr ((if x = 0 then 1 else 0) # stk, f) | _ \<Rightarrow> Inl StackUnderflow)
      else if b = OpSload then (case stk of k # stk \<Rightarrow> Inr (f k # stk, f) | _ \<Rightarrow> Inl StackUnderflow)
      else if b = OpSstore then (case stk of k # v # stk \<Rightarrow> Inr (stk, f(k := v)) | _ \<Rightarrow> Inl StackUnderflow)
      else Inl (InvalidOpcode b 0))"

fun sems :: "instr list \<Rightarrow> cfg \<Rightarrow> vm_error + cfg" where
  "sems [] c = Inr c"
| "sems (i # is) c = (case sem1 i c of Inl e \<Rightarrow> Inl e | Inr c \<Rightarrow> sems is c)"

fun straight :: "instr \<Rightarrow> bool" where
  "straight (IPush v) = True"
| "straight (IOp b) = (b \<in> {OpPop, OpDup, OpSwap, OpAdd, OpSub, OpMul, OpDiv, OpEq, OpLt, OpNot, OpSload, OpSstore})"

fun cost1 :: "instr \<Rightarrow> nat" where
  "cost1 (IPush v) = 2"
| "cost1 (IOp b) = (case GasCost b of None \<Rightarrow> 0 | Some c \<Rightarrow> unat c)"

definition cost :: "instr list \<Rightarrow> nat" where "cost is = sum_list (map cost1 is)"

lemma cost_simps [simp]: "cost [] = 0" "cost (i # is) = cost1 i + cost is"
  by (simp_all add: cost_def)

text \<open>The slots of an address, as the interpreter reads and writes them.\<close>

definition slots_at :: "address \<Rightarrow> (address \<Rightarrow> hash256 \<Rightarrow> hash256) \<Rightarrow> uint64 \<Rightarrow> uint64" where
  "slots_at a s k = hash_slot (s a (slot_hash k))"

lemma hash_slot_hash [simp]: "hash_slot (slot_hash k) = k"
  unfolding hash_slot_def slot_hash_def by (rule bit_word_eqI) (simp add: bit_simps)

lemma asm_slot_inject [simp]: "slot_hash k = slot_hash l \<longleftrightarrow> k = l"
  by (metis hash_slot_hash)

lemma slots_at_upd: "slots_at a (s(a := (s a)(slot_hash k := slot_hash v))) = (slots_at a s)(k := v)"
  by (auto simp: slots_at_def fun_eq_iff)

type_synonym flat_machine = "(address \<Rightarrow> hash256 \<Rightarrow> hash256) machine"

definition at_cfg :: "address \<Rightarrow> cfg \<Rightarrow> flat_machine \<Rightarrow> bool" where
  "at_cfg t c m \<longleftrightarrow> m_stack m = fst c \<and> slots_at t (m_state m) = snd c"

lemma at_cfg_simps [simp]:
  "at_cfg t c (m\<lparr>m_pc := p\<rparr>) = at_cfg t c m" "at_cfg t c (m\<lparr>m_gasLeft := g\<rparr>) = at_cfg t c m"
  "at_cfg t c (m\<lparr>m_gasUsed := g\<rparr>) = at_cfg t c m"
  by (simp_all add: at_cfg_def)

text \<open>One instruction at the program counter: with enough gas the machine does what the instruction
  means, an error ends the run, and so does missing gas.\<close>

abbreviation charge :: "nat \<Rightarrow> flat_machine \<Rightarrow> flat_machine" where
  "charge n m \<equiv> m\<lparr>m_gasLeft := m_gasLeft m - of_nat n, m_gasUsed := m_gasUsed m + of_nat n\<rparr>"

lemma GasCost_straight: "straight (IOp b) \<Longrightarrow> GasCost b = Some (of_nat (cost1 (IOp b)))"
  by (auto simp: GasCost_def)

lemma exec_straight:
  assumes "straight i" and "code = pre @ enc i @ post" and "m_pc m = int (length pre)" and "at_cfg t c m"
    and "length (fst c) < MaxStackDepth"
  shows "case sem1 i c of
      Inl e \<Rightarrow> \<exists>r s. exec_op flat_acc t code (hd (enc i)) m = VmDone r s \<and> \<not> er_Success r
    | Inr c' \<Rightarrow> \<exists>m'. exec_op flat_acc t code (hd (enc i)) m = VmRun m' \<and> at_cfg t c' m' \<and>
        m_pc m' = int (length pre + length (enc i)) \<and> m_gasLeft m' = m_gasLeft m"
proof (cases i)
  case (IPush v)
  have "code = pre @ push_code v @ post" using assms(2) by (simp add: IPush)
  from op_push_code [OF this assms(3)] assms(4,5) show ?thesis
    by (cases c) (simp add: IPush push_code_eq exec_op_def at_cfg_def)
next
  case (IOp b)
  obtain stk f where c: "c = (stk, f)" by (cases c)
  have m: "m_stack m = stk" "slots_at t (m_state m) = f" using assms(4) by (simp_all add: at_cfg_def c)
  then have g: "hash_slot (m_state m t (slot_hash k)) = f k" for k by (auto simp: slots_at_def)
  have b: "b \<in> {OpPop, OpDup, OpSwap, OpAdd, OpSub, OpMul, OpDiv, OpEq, OpLt, OpNot, OpSload, OpSstore}"
    using assms(1) by (simp add: IOp)
  consider "stk = []" | x where "stk = [x]" | x y r where "stk = x # y # r"
    by (metis list.exhaust)
  then show ?thesis
    using b assms(3,5) m
    by cases (elim insertE; simp add: IOp c exec_op_def vm_op_defs at_cfg_def slots_at_upd flat_acc_def g)+
qed

lemma GasCost_enc: "straight i \<Longrightarrow> GasCost (hd (enc i)) = Some (of_nat (cost1 i)) \<and> cost1 i \<le> 800"
  using GasCost_straight by (cases i) (auto simp: push_code_eq GasCost_def)

lemma straight_step:
  assumes i: "straight i" and code: "code = pre @ enc i @ post" and pc: "m_pc m = int (length pre)"
    and m: "at_cfg t c m" "length (fst c) < MaxStackDepth"
  shows "sem1 i c = Inr c' \<Longrightarrow> cost1 i \<le> unat (m_gasLeft m) \<Longrightarrow>
      \<exists>m'. vm_step flat_acc t code m = VmRun m' \<and> at_cfg t c' m' \<and> m_pc m' = int (length pre + length (enc i)) \<and>
        unat (m_gasLeft m') = unat (m_gasLeft m) - cost1 i"
    and "sem1 i c = Inl e \<or> unat (m_gasLeft m) < cost1 i \<Longrightarrow> \<exists>r s. vm_step flat_acc t code m = VmDone r s \<and> \<not> er_Success r"
    and "m_pc m < int (length code)"
proof -
  have ne: "enc i \<noteq> []" by (cases i) (simp_all add: push_code_eq)
  then have opc: "code ! nat (m_pc m) = hd (enc i)" by (simp add: code pc nth_append hd_conv_nth)
  note g = GasCost_enc [OF i]
  have u: "unat (of_nat (cost1 i) :: uint64) = cost1 i" using g by (simp add: unat_of_nat)
  have le: "m_gasLeft m < of_nat (cost1 i) \<longleftrightarrow> \<not> cost1 i \<le> unat (m_gasLeft m)" by (simp add: word_less_nat_alt u not_le)
  have step: "vm_step flat_acc t code m =
      (if cost1 i \<le> unat (m_gasLeft m) then exec_op flat_acc t code (hd (enc i)) (charge (cost1 i) m)
       else execErr m (OutOfGas (m_pc m)))"
    using g le pc opc by (simp add: vm_step_def Let_def)
  have ex: "case sem1 i c of
      Inl e \<Rightarrow> \<exists>r s. exec_op flat_acc t code (hd (enc i)) (charge (cost1 i) m) = VmDone r s \<and> \<not> er_Success r
    | Inr c' \<Rightarrow> \<exists>m'. exec_op flat_acc t code (hd (enc i)) (charge (cost1 i) m) = VmRun m' \<and> at_cfg t c' m' \<and>
        m_pc m' = int (length pre + length (enc i)) \<and> m_gasLeft m' = m_gasLeft m - of_nat (cost1 i)"
    using exec_straight [OF i code, of "charge (cost1 i) m" t c] pc m by (simp cong: sum.case_cong)
  show "sem1 i c = Inr c' \<Longrightarrow> cost1 i \<le> unat (m_gasLeft m) \<Longrightarrow>
      \<exists>m'. vm_step flat_acc t code m = VmRun m' \<and> at_cfg t c' m' \<and> m_pc m' = int (length pre + length (enc i)) \<and>
        unat (m_gasLeft m') = unat (m_gasLeft m) - cost1 i"
    using ex step unat_sub_le [of "of_nat (cost1 i)" "m_gasLeft m"] by (auto simp: u word_le_nat_alt)
  show "sem1 i c = Inl e \<or> unat (m_gasLeft m) < cost1 i \<Longrightarrow> \<exists>r s. vm_step flat_acc t code m = VmDone r s \<and> \<not> er_Success r"
    using ex step by (auto simp: execErr_def)
  have "length pre < length code" using ne by (simp add: code)
  then show "m_pc m < int (length code)" by (simp add: pc)
qed

lemma sem1_depth: "sem1 i c = Inr c' \<Longrightarrow> length (fst c') \<le> Suc (length (fst c))"
  by (cases i; cases c) (auto split: if_splits list.splits)

text \<open>A block of straight-line code.\<close>

lemma block_ok:
  assumes "list_all straight is" and "code = pre @ encs is @ post" and "m_pc m = int (length pre)"
    and "at_cfg t c m" and "length (fst c) + length is \<le> MaxStackDepth"
    and "sems is c = Inr c'" and "cost is \<le> unat (m_gasLeft m)"
  shows "\<exists>m'. vm_run flat_acc t code m = vm_run flat_acc t code m' \<and> at_cfg t c' m' \<and>
    m_pc m' = int (length pre + length (encs is)) \<and> unat (m_gasLeft m') = unat (m_gasLeft m) - cost is"
  using assms
proof (induction "is" arbitrary: pre m c)
  case Nil
  then show ?case by auto
next
  case (Cons i "is")
  obtain c1 where c1: "sem1 i c = Inr c1" "sems is c1 = Inr c'"
    using Cons.prems(6) by (auto split: sum.splits)
  have code: "code = pre @ enc i @ encs is @ post" using Cons.prems(2) by simp
  have d: "length (fst c) < MaxStackDepth" using Cons.prems(5) by simp
  note st = straight_step [OF _ code Cons.prems(3,4) d]
  obtain m1 where m1: "vm_step flat_acc t code m = VmRun m1" "at_cfg t c1 m1"
      "m_pc m1 = int (length (pre @ enc i))" "unat (m_gasLeft m1) = unat (m_gasLeft m) - cost1 i"
    using st(1) [OF _ c1(1)] Cons.prems(1,7) by auto
  have "vm_run flat_acc t code m = vm_run flat_acc t code m1"
    using st(3) Cons.prems(1) m1(1) by (simp add: vm_run.simps [of flat_acc t code m])
  moreover have "length (fst c1) + length is \<le> MaxStackDepth" using sem1_depth [OF c1(1)] Cons.prems(5) by simp
  ultimately show ?case
    using Cons.IH [of "pre @ enc i" m1 c1] Cons.prems(1,7) code m1 c1(2) by (simp add: add.assoc)
qed

lemma block_fail:
  assumes "list_all straight is" and "code = pre @ encs is @ post" and "m_pc m = int (length pre)"
    and "at_cfg t c m" and "length (fst c) + length is \<le> MaxStackDepth" and "sems is c = Inl e"
  shows "\<exists>r s. vm_run flat_acc t code m = Some (r, s) \<and> \<not> er_Success r"
  using assms
proof (induction "is" arbitrary: pre m c)
  case (Cons i "is")
  have code: "code = pre @ enc i @ encs is @ post" using Cons.prems(2) by simp
  have d: "length (fst c) < MaxStackDepth" using Cons.prems(5) by simp
  have i: "straight i" using Cons.prems(1) by simp
  note st = straight_step [OF i code Cons.prems(3,4) d]
  show ?case
  proof (cases "(\<exists>e. sem1 i c = Inl e) \<or> unat (m_gasLeft m) < cost1 i")
    case True
    then obtain r s where "vm_step flat_acc t code m = VmDone r s" "\<not> er_Success r" using st(2) by blast
    then show ?thesis using st(3) by (simp add: vm_run.simps [of flat_acc t code m])
  next
    case False
    then obtain c1 where c1: "sem1 i c = Inr c1" by (cases "sem1 i c") auto
    obtain m1 where m1: "vm_step flat_acc t code m = VmRun m1" "at_cfg t c1 m1" "m_pc m1 = int (length (pre @ enc i))"
      using st(1) [OF c1] False by auto
    have "vm_run flat_acc t code m = vm_run flat_acc t code m1"
      using st(3) m1(1) by (simp add: vm_run.simps [of flat_acc t code m])
    moreover have "length (fst c1) + length is \<le> MaxStackDepth" using sem1_depth [OF c1] Cons.prems(5) by simp
    ultimately show ?thesis
      using Cons.IH [of "pre @ enc i" m1 c1] Cons.prems(1,6) code m1 c1 by simp
  qed
qed simp

section \<open>Jumps and the end of a run\<close>

lemma halt_run:
  assumes "code = pre @ [OpHalt] @ post" and "m_pc m = int (length pre)" and "at_cfg t c m"
  shows "\<exists>r s. vm_run flat_acc t code m = Some (r, s) \<and> er_Success r \<and> slots_at t s = snd c"
  using assms by (subst vm_run.simps) (simp add: vm_step_def exec_op_def GasCost_def nth_append at_cfg_def)

lemma jumpi_run:
  assumes code: "code = pre @ [OpJumpi] @ post" and pc: "m_pc m = int (length pre)" and c: "at_cfg t (d # b # stk, f) m"
    and gas: "10 \<le> unat (m_gasLeft m)" and dest: "unat d < length code" "length code < 2 ^ 32"
  shows "\<exists>m'. vm_run flat_acc t code m = vm_run flat_acc t code m' \<and> at_cfg t (stk, f) m' \<and>
    m_pc m' = (if b \<noteq> 0 then int (unat d) else int (length pre + 1)) \<and> unat (m_gasLeft m') = unat (m_gasLeft m) - 10"
proof -
  have d: "unat d < 2 ^ 63" using dest by simp
  then have "\<not> bit d 63" using sint64_neg_iff [of d] by (simp add: sint_uint bit_uint_iff)
  moreover have "int (unat d) < int (2 ^ 63)" using d by (rule iffD2 [OF of_nat_less_iff])
  then have "take_bit 63 (uint d) = uint d" by (intro take_bit_int_eq_self) simp_all
  ultimately have sd: "sint d = int (unat d)"
    by (simp add: sint_uint signed_take_bit_eq_if_positive bit_uint_iff)
  have g: "\<not> m_gasLeft m < 10" using gas by (simp add: word_less_nat_alt)
  have "int (unat d) < int (length code)" using dest(1) by (rule iffD2 [OF of_nat_less_iff])
  then have nb: "\<not> 1 + (int (length pre) + int (length post)) \<le> uint d" by (simp add: code)
  have "unat (m_gasLeft m - 10) = unat (m_gasLeft m) - 10" using g by (simp add: unat_sub_le)
  define m' where "m' = (charge 10 m)\<lparr>m_pc := (if b \<noteq> 0 then int (unat d) else int (length pre + 1)), m_stack := stk\<rparr>"
  have "vm_step flat_acc t code m = VmRun m'"
    using pc c g nb
    by (simp add: vm_step_def code nth_append GasCost_def exec_op_def op_jumpi_def pop2_def at_cfg_def vm_goto_def
        sd vm_next_def m'_def)
  then have "vm_run flat_acc t code m = vm_run flat_acc t code m'"
    using pc by (subst vm_run.simps) (simp add: code)
  then show ?thesis
    using c \<open>unat (m_gasLeft m - 10) = _\<close> by (intro exI [of _ m']) (simp add: m'_def at_cfg_def)
qed

lemma byte_count_mono: "unat v \<le> unat w \<Longrightarrow> byte_count v \<le> byte_count w"
  by (rule byte_count_le) (use less_byte_count [of w] in simp)

end
