(* ===== verification/Tyl_Contract.thy ===== *)
theory Tyl_Contract
  imports Tyl_Asm
begin

text \<open>
  The layout shared by the contracts of \<open>contracts/token.go\<close> and \<open>contracts/amm.go\<close>: a preamble that
  initialises two slots on the first call, a dispatch table that jumps to the section of the selector
  in slot 100, and the sections. The offsets of the table depend on its own size, so the builders
  iterate: the loops are bounded as in the code, and running out of iterations is the panic \<open>None\<close>.
  The theory shows that the loops converge and that the interpreter runs built code as the
  initialisation followed by the selected section.
\<close>

section \<open>The dispatch table\<close>

fun section_offsets :: "nat \<Rightarrow> bytes list \<Rightarrow> nat list" where
  "section_offsets cur [] = []"
| "section_offsets cur (sec # secs) = cur # section_offsets (cur + length sec) secs"

definition dispatch_entry :: "uint64 \<Rightarrow> nat \<Rightarrow> asm \<Rightarrow> asm" where
  "dispatch_entry sel off =
     chain [Asm_Push 100, Asm_Sload, Asm_Push sel, Asm_Eq, Asm_Push (of_nat off), Asm_Jumpi]"

definition dispatch_table :: "(uint64 \<times> nat) list \<Rightarrow> bytes" where
  "dispatch_table es = Asm_Halt (foldl (\<lambda>d (sel, off). dispatch_entry sel off d) NewAsm es)"

text \<open>The inner loop, with the iterations left; \<open>pre\<close> is the code in front of the table. A selector
  without a section is an index out of range.\<close>

fun dispatch_loop :: "nat \<Rightarrow> nat \<Rightarrow> bytes \<Rightarrow> bytes list \<Rightarrow> uint64 list \<Rightarrow> bytes option" where
  "dispatch_loop 0 dSize pre secs sels = None"
| "dispatch_loop (Suc n) dSize pre secs sels =
     (if length secs < length sels then None
      else let d = dispatch_table (zip sels (section_offsets (length pre + dSize) secs))
           in if Asm_Len d = dSize then Some (pre @ d @ concat secs)
              else dispatch_loop n (Asm_Len d) pre secs sels)"

definition buildContractDispatch :: "bytes list \<Rightarrow> uint64 list \<Rightarrow> bytes option" where
  "buildContractDispatch secs sels = dispatch_loop 10 256 [] secs sels"

fun preamble_loop :: "nat \<Rightarrow> bytes \<Rightarrow> bytes list \<Rightarrow> uint64 list \<Rightarrow> bytes option" where
  "preamble_loop 0 pre secs sels = None"
| "preamble_loop (Suc n) pre secs sels =
     (case dispatch_loop 10 256 pre secs sels of
        Some code \<Rightarrow> Some code
      | None \<Rightarrow> if length secs < length sels then None else preamble_loop n pre secs sels)"

definition buildWithPreamble :: "bytes \<Rightarrow> bytes list \<Rightarrow> uint64 list \<Rightarrow> bytes option" where
  "buildWithPreamble preambleSeed secs sels = preamble_loop 10 preambleSeed secs sels"

section \<open>The self-initialising preamble\<close>

text \<open>\<open>buildTokenPreamble\<close> and \<open>buildAMMPreamble\<close> differ only in the slots: if slot \<open>k1\<close> is set, jump to
  the end of the preamble, else store \<open>v1\<close> in \<open>k1\<close> and \<open>v2\<close> in \<open>k2\<close>.\<close>

definition preamble_code :: "uint64 \<Rightarrow> uint64 \<Rightarrow> uint64 \<Rightarrow> uint64 \<Rightarrow> nat \<Rightarrow> bytes" where
  "preamble_code k1 v1 k2 v2 estimate =
     chain [Asm_Push k1, Asm_Sload, Asm_Push (of_nat estimate), Asm_Jumpi,
            Asm_Push v1, Asm_Push k1, Asm_Sstore, Asm_Push v2, Asm_Push k2, Asm_Sstore] NewAsm"

fun estimate_loop :: "nat \<Rightarrow> nat \<Rightarrow> (nat \<Rightarrow> bytes) \<Rightarrow> bytes option" where
  "estimate_loop 0 estimate build = None"
| "estimate_loop (Suc n) estimate build =
     (let a = build estimate in if Asm_Len a = estimate then Some a else estimate_loop n (Asm_Len a) build)"

section \<open>Emitted instructions\<close>

abbreviation entry_head :: "uint64 \<Rightarrow> nat \<Rightarrow> instr list" where
  "entry_head sel off \<equiv> [IPush 100, IOp OpSload, IPush sel, IOp OpEq, IPush (of_nat off)]"

lemma emits_entry: "emits (dispatch_entry sel off) (entry_head sel off @ [IOp OpJumpi])"
  by (simp add: emits_def dispatch_entry_def chain_def Asm_Push_eq Asm_Sload_def Asm_Eq_def Asm_Jumpi_def Asm_Op_eq)

lemma dispatch_table_eq:
  "dispatch_table es = concat (map (\<lambda>(sel, off). encs (entry_head sel off) @ [OpJumpi]) es) @ [OpHalt]"
proof -
  have "foldl (\<lambda>d (sel, off). dispatch_entry sel off d) a es =
      a @ concat (map (\<lambda>(sel, off). encs (entry_head sel off) @ [OpJumpi]) es)" for a
    using emits_entry by (induction es arbitrary: a) (auto simp: emits_def)
  then show ?thesis by (simp add: dispatch_table_def Asm_Halt_def Asm_Op_eq NewAsm_def)
qed

lemma preamble_code_eq:
  "preamble_code k1 v1 k2 v2 e =
     encs [IPush k1, IOp OpSload, IPush (of_nat e)] @ [OpJumpi] @
     encs [IPush v1, IPush k1, IOp OpSstore, IPush v2, IPush k2, IOp OpSstore]"
  by (simp add: preamble_code_def chain_def Asm_Push_eq Asm_Sload_def Asm_Sstore_def Asm_Jumpi_def Asm_Op_eq NewAsm_def)

section \<open>Convergence\<close>

abbreviation push_len :: "nat \<Rightarrow> nat" where "push_len n \<equiv> length (push_bytes (of_nat n))"

lemma length_push_bytes: "length (push_bytes v) = max 1 (byte_count v)"
  using byte_count_pos [of v] by (auto simp: push_bytes_def byte_count.simps [of 0])

lemma push_len_mono: "m \<le> n \<Longrightarrow> n < 2 ^ 64 \<Longrightarrow> push_len m \<le> push_len n"
  using byte_count_mono [of "of_nat m" "of_nat n"] by (simp add: length_push_bytes unat_of_nat)

lemma push_len_small: "n < 256 \<Longrightarrow> push_len n = 1"
  using byte_count_le [of "of_nat n" 1] by (simp add: length_push_bytes unat_of_nat)

lemma push_len_2: "n < 65536 \<Longrightarrow> push_len n \<le> 2"
  using byte_count_le [of "of_nat n" 2] by (simp add: length_push_bytes unat_of_nat)

lemma push_len_pos: "1 \<le> push_len n"
  by (simp add: length_push_bytes)

lemma preamble_length:
  "length (preamble_code k1 v1 k2 v2 e) =
     16 + 2 * length (push_bytes k1) + push_len e + length (push_bytes v1) + length (push_bytes v2) + length (push_bytes k2)"
  by (simp add: preamble_code_eq length_push_code)

lemma preamble_converges:
  "\<exists>L. estimate_loop 10 30 (preamble_code k1 v1 k2 v2) = Some (preamble_code k1 v1 k2 v2 L) \<and>
    length (preamble_code k1 v1 k2 v2 L) = L \<and> L < 100"
proof -
  let ?f = "\<lambda>e. length (preamble_code k1 v1 k2 v2 e)"
  have b: "?f e < 100" if "e < 256" for e
    using that push_bytes_facts(2) [of k1] push_bytes_facts(2) [of k2] push_bytes_facts(2) [of v1] push_bytes_facts(2) [of v2]
    by (simp add: preamble_length push_len_small)
  have "push_len (?f 30) = push_len 30" using b [of 30] by (subst (1 2) push_len_small) simp_all
  then have "?f (?f 30) = ?f 30" by (simp only: preamble_length)
  then show ?thesis using b [of 30] by (cases "?f 30 = 30") (auto simp: eval_nat_numeral Let_def Asm_Len_def)
qed

lemma dispatch_table_length:
  "length (dispatch_table es) = 1 + (\<Sum>(sel, off)\<leftarrow>es. 10 + length (push_bytes sel) + push_len off)"
  by (simp add: dispatch_table_eq length_concat comp_def split_def length_push_code push_len_small numeral_eq_Suc)
    (simp add: push_bytes_def byte_count.simps)

definition table_size :: "bytes \<Rightarrow> bytes list \<Rightarrow> uint64 list \<Rightarrow> nat \<Rightarrow> nat" where
  "table_size pre secs sels d = length (dispatch_table (zip sels (section_offsets (length pre + d) secs)))"

lemma length_section_offsets [simp]: "length (section_offsets cur secs) = length secs"
  by (induction secs arbitrary: cur) simp_all

lemma table_size_Cons:
  "length (dispatch_table (zip (sel # sels) (section_offsets c (sec # secs)))) =
   10 + length (push_bytes sel) + push_len c + length (dispatch_table (zip sels (section_offsets (c + length sec) secs)))"
  by (simp add: dispatch_table_length)

lemma table_mono_aux:
  "length secs = length sels \<Longrightarrow> c \<le> c' \<Longrightarrow> c' + length (concat secs) < 2 ^ 64 \<Longrightarrow>
   length (dispatch_table (zip sels (section_offsets c secs))) \<le> length (dispatch_table (zip sels (section_offsets c' secs)))"
proof (induction secs sels arbitrary: c c' rule: list_induct2)
  case (Cons sec secs sel sels)
  have "push_len c \<le> push_len c'" using Cons.prems by (intro push_len_mono) simp_all
  moreover have "length (dispatch_table (zip sels (section_offsets (c + length sec) secs)))
      \<le> length (dispatch_table (zip sels (section_offsets (c' + length sec) secs)))"
    using Cons.prems by (intro Cons.IH) simp_all
  ultimately show ?case unfolding table_size_Cons by linarith
qed simp

lemma table_size_mono:
  "length secs = length sels \<Longrightarrow> d \<le> d' \<Longrightarrow> length pre + d' + length (concat secs) < 2 ^ 64 \<Longrightarrow>
   table_size pre secs sels d \<le> table_size pre secs sels d'"
  unfolding table_size_def by (rule table_mono_aux) simp_all

lemma table_range_aux:
  "length secs = length sels \<Longrightarrow> c + length (concat secs) < 65536 \<Longrightarrow>
   length (dispatch_table (zip sels (section_offsets c secs)))
     \<in> {1 + (\<Sum>sel\<leftarrow>sels. 11 + length (push_bytes sel)) .. 1 + (\<Sum>sel\<leftarrow>sels. 12 + length (push_bytes sel))}"
proof (induction secs sels arbitrary: c rule: list_induct2)
  case (Cons sec secs sel sels)
  have "push_len c \<le> 2" "1 \<le> push_len c" using Cons.prems push_len_pos by (simp_all add: push_len_2)
  moreover have "length (dispatch_table (zip sels (section_offsets (c + length sec) secs)))
     \<in> {1 + (\<Sum>sel\<leftarrow>sels. 11 + length (push_bytes sel)) .. 1 + (\<Sum>sel\<leftarrow>sels. 12 + length (push_bytes sel))}"
    using Cons.prems by (intro Cons.IH) simp
  ultimately show ?case unfolding table_size_Cons by simp
qed (simp add: dispatch_table_length)

lemma dispatch_loop_Suc:
  "length secs = length sels \<Longrightarrow> dispatch_loop (Suc n) d pre secs sels =
    (if table_size pre secs sels d = d
     then Some (pre @ dispatch_table (zip sels (section_offsets (length pre + d) secs)) @ concat secs)
     else dispatch_loop n (table_size pre secs sels d) pre secs sels)"
  by (simp add: table_size_def Asm_Len_def Let_def)

lemma dispatch_loop_descends:
  assumes "length secs = length sels" and "length pre + d + length (concat secs) < 65536"
    and "table_size pre secs sels d \<le> d" and "\<And>d'. d' \<le> d \<Longrightarrow> lo \<le> table_size pre secs sels d'" and "d < lo + n"
  shows "\<exists>code. dispatch_loop n d pre secs sels = Some code"
  using assms
proof (induction n arbitrary: d)
  case 0
  from 0(4) [of d] 0(3,5) show ?case by simp
next
  case (Suc n)
  let ?d = "table_size pre secs sels d"
  show ?case
  proof (cases "?d = d")
    case False
    then have lt: "?d < d" using Suc.prems(3) by simp
    have "table_size pre secs sels ?d \<le> ?d"
      using lt Suc.prems(1,2) by (intro table_size_mono) simp_all
    then have "\<exists>code. dispatch_loop n ?d pre secs sels = Some code"
      using lt Suc.prems by (intro Suc.IH) simp_all
    then show ?thesis using False Suc.prems(1) by (simp add: dispatch_loop_Suc del: dispatch_loop.simps)
  qed (use Suc.prems(1) in \<open>simp add: dispatch_loop_Suc del: dispatch_loop.simps\<close>)
qed

text \<open>The builders find the offsets whenever the contract has at most seven small selectors and fits
  in 64 kilobytes.\<close>

lemma dispatch_converges:
  assumes "length secs = length sels" and "length sels \<le> 7" and "\<forall>sel\<in>set sels. unat sel < 256"
    and "length pre + 256 + length (concat secs) < 65536"
  shows "\<exists>code. dispatch_loop 10 256 pre secs sels = Some code"
proof -
  let ?lo = "1 + (\<Sum>sel\<leftarrow>sels. 11 + length (push_bytes sel))"
  let ?hi = "1 + (\<Sum>sel\<leftarrow>sels. 12 + length (push_bytes sel))"
  have hi: "?hi = ?lo + length sels" by (induction sels) simp_all
  have r: "table_size pre secs sels d \<in> {?lo..?hi}" if "d \<le> 256" for d
    unfolding table_size_def by (rule table_range_aux) (use assms(1,4) that in simp_all)
  have "length (push_bytes sel) = 1" if "sel \<in> set sels" for sel
    using push_len_small [of "unat sel"] assms(3) that by simp
  then have "map (\<lambda>sel. 12 + length (push_bytes sel)) sels = map (\<lambda>sel. 13) sels" by simp
  then have "?hi = 1 + 13 * length sels" by (simp only: sum_list_triv map_replicate_const [symmetric]) (simp add: sum_list_triv)
  then have le: "?hi \<le> 256" using assms(2) by simp
  let ?d = "table_size pre secs sels 256"
  have d: "?lo \<le> ?d" "?d \<le> ?hi" using r [of 256] by simp_all
  have desc: "table_size pre secs sels ?d \<le> ?d"
    using d le assms(1,4) by (intro table_size_mono) simp_all
  have "\<exists>code. dispatch_loop 9 ?d pre secs sels = Some code"
  proof (rule dispatch_loop_descends [OF assms(1) _ desc])
    show "length pre + ?d + length (concat secs) < 65536" using d le assms(4) by linarith
    show "?lo \<le> table_size pre secs sels d'" if "d' \<le> ?d" for d' using r [of d'] that d le by simp
    show "?d < ?lo + 9" using d hi assms(2) by linarith
  qed
  then show ?thesis
    using dispatch_loop_Suc [OF assms(1), of 9 256 pre] by (auto simp del: dispatch_loop.simps)
qed

lemma dispatch_loop_layout:
  "dispatch_loop n d pre secs sels = Some code \<Longrightarrow> length secs = length sels \<Longrightarrow>
   \<exists>t. code = pre @ t @ concat secs \<and> t = dispatch_table (zip sels (section_offsets (length pre + length t) secs))"
proof (induction n arbitrary: d)
  case (Suc n)
  show ?case
  proof (cases "table_size pre secs sels d = d")
    case True
    then show ?thesis
      using Suc.prems by (auto simp: dispatch_loop_Suc table_size_def simp del: dispatch_loop.simps)
  qed (use Suc in \<open>simp add: dispatch_loop_Suc del: dispatch_loop.simps\<close>)
qed simp

lemma buildWithPreamble_layout:
  assumes "buildWithPreamble pre secs sels = Some code" and "length secs = length sels"
  shows "\<exists>t. code = pre @ t @ concat secs \<and> t = dispatch_table (zip sels (section_offsets (length pre + length t) secs))"
proof -
  have "\<exists>n d. dispatch_loop n d pre secs sels = Some code" if "preamble_loop k pre secs sels = Some code" for k
    using that by (induction k) (auto simp del: dispatch_loop.simps split: option.splits if_splits)
  then obtain n d where "dispatch_loop n d pre secs sels = Some code" using assms(1) unfolding buildWithPreamble_def by metis
  then show ?thesis using assms(2) by (rule dispatch_loop_layout)
qed

lemma buildWithPreamble_converges:
  assumes "length secs = length sels" and "length sels \<le> 7" and "\<forall>sel\<in>set sels. unat sel < 256"
    and "length pre + 256 + length (concat secs) < 65536"
  shows "\<exists>code. buildWithPreamble pre secs sels = Some code"
proof -
  obtain code where "dispatch_loop 10 256 pre secs sels = Some code" using dispatch_converges [OF assms] by blast
  then have "preamble_loop (Suc 9) pre secs sels = Some code" by (simp only: preamble_loop.simps option.case)
  then show ?thesis by (simp add: buildWithPreamble_def del: preamble_loop.simps)
qed

lemma length_encs: "length (encs is) \<le> 10 * length is"
proof (induction "is")
  case (Cons i "is")
  have "length (enc i) \<le> 10" using push_bytes_facts(2) by (cases i) (simp_all add: length_push_code)
  then show ?case using Cons by simp
qed simp

lemma dispatch_table_le: "length (dispatch_table es) \<le> 1 + 26 * length es"
proof (induction es)
  case (Cons e es)
  then show ?case
    using push_bytes_facts(2) [of "fst e"] push_bytes_facts(2) [of "of_nat (snd e)"] by (simp add: dispatch_table_length split_def)
qed (simp add: dispatch_table_length)

lemma contract_build:
  assumes "length secs = length sels" and "length sels \<le> 7" and "\<forall>sel\<in>set sels. unat sel < 256"
    and "length pre < 100" and "length (concat secs) < 60000"
  shows "\<exists>code. buildWithPreamble pre secs sels = Some code \<and> length code < 300 + length (concat secs)"
proof -
  have "length pre + 256 + length (concat secs) < 65536" using assms(4,5) by linarith
  from buildWithPreamble_converges [OF assms(1-3) this] obtain code where code: "buildWithPreamble pre secs sels = Some code" by blast
  obtain T where T: "code = pre @ T @ concat secs" "T = dispatch_table (zip sels (section_offsets (length pre + length T) secs))"
    using buildWithPreamble_layout [OF code assms(1)] by blast
  have "length T \<le> 1 + 26 * 7"
    using dispatch_table_le [of "zip sels (section_offsets (length pre + length T) secs)"] assms(1,2)
    unfolding T(2) [symmetric] by simp
  then show ?thesis using code assms(4) by (simp add: T(1))
qed

section \<open>Running a contract\<close>

text \<open>What a call does to the slots of the contract: initialisation, then the section of the selector
  in slot 100; a selector without a section does nothing more.\<close>

definition init_slots :: "uint64 \<Rightarrow> uint64 \<Rightarrow> uint64 \<Rightarrow> uint64 \<Rightarrow> (uint64 \<Rightarrow> uint64) \<Rightarrow> uint64 \<Rightarrow> uint64" where
  "init_slots k1 v1 k2 v2 f = (if f k1 \<noteq> 0 then f else f(k1 := v1, k2 := v2))"

definition call_sem :: "(uint64 \<times> instr list) list \<Rightarrow> (uint64 \<Rightarrow> uint64) \<Rightarrow> vm_error + (uint64 \<Rightarrow> uint64)" where
  "call_sem secs f =
     (case map_of secs (f 100) of
        None \<Rightarrow> Inr f
      | Some is \<Rightarrow> (case sems is ([], f) of Inl e \<Rightarrow> Inl e | Inr (_, g) \<Rightarrow> Inr g))"

text \<open>The result of a run as the slots it leaves.\<close>

definition run_gives :: "address \<Rightarrow> (ExecResult \<times> (address \<Rightarrow> hash256 \<Rightarrow> hash256)) option \<Rightarrow>
    vm_error + (uint64 \<Rightarrow> uint64) \<Rightarrow> bool" where
  "run_gives t res out \<longleftrightarrow> (\<exists>r s. res = Some (r, s) \<and>
     (case out of Inl e \<Rightarrow> \<not> er_Success r | Inr g \<Rightarrow> er_Success r \<and> slots_at t s = g))"

lemma section_run:
  assumes code: "code = pre @ encs is @ [OpHalt] @ post" and "m_pc m = int (length pre)" and "at_cfg t ([], f) m"
    and "list_all straight is" and "length is \<le> MaxStackDepth" and "cost is \<le> unat (m_gasLeft m)"
  shows "run_gives t (vm_run flat_acc t code m)
    (case sems is ([], f) of Inl e \<Rightarrow> Inl e | Inr (_, g) \<Rightarrow> Inr g)"
proof (cases "sems is ([], f)")
  case (Inl e)
  then show ?thesis
    using block_fail [OF assms(4) code assms(2,3) _ Inl] assms(5) by (auto simp: run_gives_def)
next
  case (Inr c)
  obtain m' where m': "vm_run flat_acc t code m = vm_run flat_acc t code m'" "at_cfg t c m'"
      "m_pc m' = int (length (pre @ encs is))"
    using block_ok [OF assms(4) code assms(2,3) _ Inr assms(6)] assms(5) by auto
  have "code = (pre @ encs is) @ [OpHalt] @ post" by (simp add: code)
  from halt_run [OF this m'(3,2)] show ?thesis using m'(1) Inr by (cases c) (auto simp: run_gives_def)
qed

abbreviation entry_cost :: nat where "entry_cost \<equiv> cost (entry_head 0 0) + 10"

lemma cost_entry: "cost (entry_head sel off) + 10 = entry_cost"
  by simp

lemma dispatch_run:
  assumes "code = pre @ dispatch_table es @ post" and "m_pc m = int (length pre)" and "at_cfg t ([], f) m"
    and "\<forall>(sel, off)\<in>set es. off < length code" and "length code < 2 ^ 32"
    and "length es * entry_cost \<le> unat (m_gasLeft m)"
  shows "case map_of es (f 100) of
      None \<Rightarrow> run_gives t (vm_run flat_acc t code m) (Inr f)
    | Some off \<Rightarrow> \<exists>m'. vm_run flat_acc t code m = vm_run flat_acc t code m' \<and> at_cfg t ([], f) m' \<and>
        m_pc m' = int off \<and> unat (m_gasLeft m) \<le> unat (m_gasLeft m') + length es * entry_cost"
  using assms
proof (induction es arbitrary: pre m)
  case Nil
  have "code = pre @ [OpHalt] @ post" using Nil(1) by (simp add: dispatch_table_eq)
  from halt_run [OF this Nil(2,3)] show ?case by (auto simp: run_gives_def)
next
  case (Cons e es)
  obtain sel off where e: "e = (sel, off)" by (cases e)
  let ?head = "entry_head sel off"
  let ?c = "([of_nat off, if sel = f 100 then 1 else 0], f)"
  have code: "code = pre @ encs ?head @ ([OpJumpi] @ dispatch_table es @ post)"
    using Cons.prems(1) by (simp add: dispatch_table_eq e)
  have gas: "cost ?head + 10 + length es * entry_cost \<le> unat (m_gasLeft m)"
    using Cons.prems(6) by (simp del: cost_simps add: cost_entry [of sel off])
  have "list_all straight ?head" "length (fst ([] :: uint64 list, f)) + length ?head \<le> MaxStackDepth"
    by (simp_all add: MaxStackDepth_def)
  moreover have "sems ?head ([], f) = Inr ?c" by simp
  moreover have "cost ?head \<le> unat (m_gasLeft m)" using gas by linarith
  ultimately obtain m1 where m1: "vm_run flat_acc t code m = vm_run flat_acc t code m1" "at_cfg t ?c m1"
      "m_pc m1 = int (length (pre @ encs ?head))" "unat (m_gasLeft m1) = unat (m_gasLeft m) - cost ?head"
    using block_ok [OF _ code Cons.prems(2,3)] by (metis length_append)
  have off: "off < length code" using Cons.prems(4) by (simp add: e)
  then have u: "unat (of_nat off :: uint64) = off" using Cons.prems(5) by (simp add: unat_of_nat)
  have code1: "code = (pre @ encs ?head) @ [OpJumpi] @ (dispatch_table es @ post)" using code by simp
  obtain m2 where m2: "vm_run flat_acc t code m1 = vm_run flat_acc t code m2" "at_cfg t ([], f) m2"
      "m_pc m2 = (if sel = f 100 then int off else int (length (pre @ encs ?head @ [OpJumpi])))"
      "unat (m_gasLeft m2) = unat (m_gasLeft m1) - 10"
  proof -
    have g1: "10 \<le> unat (m_gasLeft m1)" using gas m1(4) by linarith
    have ud: "unat (of_nat off :: uint64) < length code" using off u by simp
    show ?thesis
      using jumpi_run [OF code1 m1(3,2) g1 ud Cons.prems(5)]
      by (elim exE conjE, intro that) (simp_all add: u del: cost_simps split: if_split_asm)
  qed
  show ?case
  proof (cases "sel = f 100")
    case True
    have "length (e # es) * entry_cost = entry_cost + length es * entry_cost" by (simp del: cost_simps)
    then have "unat (m_gasLeft m) \<le> unat (m_gasLeft m2) + length (e # es) * entry_cost"
      using gas m1(4) m2(4) cost_entry [of sel off] by linarith
    moreover have "map_of (e # es) (f 100) = Some off" using True by (simp add: e)
    moreover have "m_pc m2 = int off" using m2(3) True by simp
    ultimately show ?thesis using m1(1) m2(1,2) by (simp only: option.case) metis
  next
    case False
    have code2: "code = (pre @ encs ?head @ [OpJumpi]) @ dispatch_table es @ post" using code by simp
    have g2: "length es * entry_cost \<le> unat (m_gasLeft m2)" using gas m1(4) m2(4) by linarith
    have pc2: "m_pc m2 = int (length (pre @ encs ?head @ [OpJumpi]))" using m2(3) False by simp
    have offs: "\<forall>(sel, off)\<in>set es. off < length code" using Cons.prems(4) by simp
    have le: "unat (m_gasLeft m) = unat (m_gasLeft m2) + entry_cost"
      using gas m1(4) m2(4) cost_entry [of sel off] by linarith
    have mo: "map_of (e # es) (f 100) = map_of es (f 100)" using False by (simp add: e)
    show ?thesis
      using Cons.IH [OF code2 pc2 m2(2) offs Cons.prems(5) g2] m1(1) m2(1) le unfolding mo
      by (auto split: option.splits simp del: cost_simps)
  qed
qed

abbreviation init_cost :: nat where
  "init_cost \<equiv> cost [IPush 0, IOp OpSload, IPush 0] + 10 +
     cost [IPush 0, IPush 0, IOp OpSstore, IPush 0, IPush 0, IOp OpSstore]"

lemma preamble_run:
  assumes code: "code = preamble_code k1 v1 k2 v2 L @ post" and L: "length (preamble_code k1 v1 k2 v2 L) = L"
    and post: "post \<noteq> []" and "length code < 2 ^ 32" and m: "m_pc m = 0" "at_cfg t ([], f) m"
    and gas: "init_cost \<le> unat (m_gasLeft m)"
  shows "\<exists>m'. vm_run flat_acc t code m = vm_run flat_acc t code m' \<and> at_cfg t ([], init_slots k1 v1 k2 v2 f) m' \<and>
    m_pc m' = int L \<and> unat (m_gasLeft m) \<le> unat (m_gasLeft m') + init_cost"
proof -
  let ?is = "[IPush k1, IOp OpSload, IPush (of_nat L)]"
  let ?js = "[IPush v1, IPush k1, IOp OpSstore, IPush v2, IPush k2, IOp OpSstore]"
  let ?g = "f(k1 := v1, k2 := v2)"
  have c: "cost ?is + 10 + cost ?js = init_cost" by simp
  have code1: "code = [] @ encs ?is @ ([OpJumpi] @ encs ?js @ post)" by (simp add: code preamble_code_eq)
  have code2: "code = encs ?is @ [OpJumpi] @ (encs ?js @ post)" using code1 by simp
  have code3: "code = (encs ?is @ [OpJumpi]) @ encs ?js @ post" using code1 by simp
  have st: "list_all straight ?is" "list_all straight ?js"
    "length (fst ([] :: uint64 list, f)) + length ?is \<le> MaxStackDepth" "length (fst ([] :: uint64 list, f)) + length ?js \<le> MaxStackDepth"
    by (simp_all add: MaxStackDepth_def)
  have "sems ?is ([], f) = Inr ([of_nat L, f k1], f)" by simp
  moreover have "m_pc m = int (length ([] :: bytes))" using m(1) by simp
  moreover have "cost ?is \<le> unat (m_gasLeft m)" using gas c by linarith
  ultimately obtain m1 where m1: "vm_run flat_acc t code m = vm_run flat_acc t code m1" "at_cfg t ([of_nat L, f k1], f) m1"
      "m_pc m1 = int (length (encs ?is))" "unat (m_gasLeft m1) = unat (m_gasLeft m) - cost ?is"
    using block_ok [OF st(1) code1 _ m(2) st(3)] by (metis list.size(3) add_0)
  have lt: "L < length code" using post L by (simp add: code)
  then have u: "unat (of_nat L :: uint64) = L" using assms(4) by (simp add: unat_of_nat)
  have g1: "10 \<le> unat (m_gasLeft m1)" using gas c m1(4) by linarith
  have ud: "unat (of_nat L :: uint64) < length code" using lt u by simp
  obtain m2 where m2: "vm_run flat_acc t code m1 = vm_run flat_acc t code m2" "at_cfg t ([], f) m2"
      "m_pc m2 = (if f k1 \<noteq> 0 then int L else int (length (encs ?is @ [OpJumpi])))" "unat (m_gasLeft m2) = unat (m_gasLeft m1) - 10"
    using jumpi_run [OF code2 m1(3,2) g1 ud assms(4)]
    by (elim exE conjE, intro that) (simp_all add: u del: cost_simps split: if_split_asm)
  have L2: "int (length (encs ?is @ [OpJumpi]) + length (encs ?js)) = int L"
    using L by (simp add: preamble_code_eq)
  show ?thesis
  proof (cases "f k1 = 0")
    case False
    have "unat (m_gasLeft m) \<le> unat (m_gasLeft m2) + init_cost" using m1(4) m2(4) gas c by linarith
    then show ?thesis using m1(1) m2 False by (intro exI [of _ m2]) (simp add: init_slots_def del: cost_simps)
  next
    case True
    have s3: "sems ?js ([], f) = Inr ([], ?g)" by simp
    have g3: "cost ?js \<le> unat (m_gasLeft m2)" using m1(4) m2(4) gas c by linarith
    have pc: "m_pc m2 = int (length (encs ?is @ [OpJumpi]))" using m2(3) True by simp
    obtain m3 where m3: "vm_run flat_acc t code m2 = vm_run flat_acc t code m3" "at_cfg t ([], ?g) m3"
        "m_pc m3 = int L" "unat (m_gasLeft m3) = unat (m_gasLeft m2) - cost ?js"
      using block_ok [OF st(2) code3 pc m2(2) st(4) s3 g3] L2 by metis
    have "unat (m_gasLeft m) \<le> unat (m_gasLeft m3) + init_cost" using m1(4) m2(4) m3(4) gas c by linarith
    then show ?thesis
      using m1(1) m2(1) m3 True by (intro exI [of _ m3]) (simp add: init_slots_def del: cost_simps)
  qed
qed

abbreviation sec_code :: "instr list \<Rightarrow> bytes" where "sec_code is \<equiv> encs is @ [OpHalt]"

lemma offset_section:
  "case map_of ss k of
     None \<Rightarrow> map_of (zip (map fst ss) (section_offsets c (map (\<lambda>s. sec_code (snd s)) ss))) k = None
   | Some is \<Rightarrow> \<exists>pre post. map_of (zip (map fst ss) (section_offsets c (map (\<lambda>s. sec_code (snd s)) ss))) k = Some (c + length pre) \<and>
       concat (map (\<lambda>s. sec_code (snd s)) ss) = pre @ sec_code is @ post"
proof (induction ss arbitrary: c)
  case (Cons s ss)
  show ?case
  proof (cases "fst s = k")
    case True
    then show ?thesis by (auto intro!: exI [of _ "[]"])
  next
    case False
    let ?c = "c + length (sec_code (snd s))"
    show ?thesis
    proof (cases "map_of ss k")
      case None
      then show ?thesis using Cons.IH [of ?c] False by simp
    next
      case (Some "is")
      then obtain pre post where
        p: "map_of (zip (map fst ss) (section_offsets ?c (map (\<lambda>s. sec_code (snd s)) ss))) k = Some (?c + length pre)"
           "concat (map (\<lambda>s. sec_code (snd s)) ss) = pre @ sec_code is @ post"
        using Cons.IH [of ?c] by auto
      show ?thesis
        using p Some False
        by (simp add: add.assoc) (rule exI [of _ "sec_code (snd s) @ pre"], rule conjI, simp, rule exI [of _ post], simp)
    qed
  qed
qed simp

lemma offsets_bounded: "off \<in> set (section_offsets c (map (\<lambda>s. sec_code (snd s)) ss)) \<Longrightarrow> off < c + length (concat (map (\<lambda>s. sec_code (snd s)) ss))"
  by (induction ss arbitrary: c) fastforce+

lemma contract_run:
  assumes built: "buildWithPreamble (preamble_code k1 v1 k2 v2 L) (map (\<lambda>s. sec_code (snd s)) ss) (map fst ss) = Some code"
    and L: "length (preamble_code k1 v1 k2 v2 L) = L" and "length code < 2 ^ 32"
    and ss: "\<forall>s\<in>set ss. list_all straight (snd s) \<and> length (snd s) \<le> MaxStackDepth \<and> cost (snd s) \<le> B"
    and gas: "init_cost + length ss * entry_cost + B \<le> unat (ctx_GasLeft ctx)" and ctx: "ctx_Code ctx = code" "ctx_Target ctx = t"
  shows "run_gives t (Execute flat_acc ctx s) (call_sem ss (init_slots k1 v1 k2 v2 (slots_at t s)))"
proof -
  let ?pre = "preamble_code k1 v1 k2 v2 L" and ?secs = "map (\<lambda>s. sec_code (snd s)) ss"
  let ?f = "init_slots k1 v1 k2 v2 (slots_at t s)"
  obtain T where T: "code = ?pre @ T @ concat ?secs" "T = dispatch_table (zip (map fst ss) (section_offsets (length ?pre + length T) ?secs))"
    using buildWithPreamble_layout [OF built] by auto
  define es where "es = zip (map fst ss) (section_offsets (length ?pre + length T) ?secs)"
  have T': "T = dispatch_table es" using T(2) unfolding es_def .
  have les: "length es = length ss" by (simp add: es_def)
  have post: "dispatch_table es @ concat ?secs \<noteq> []" by (simp add: dispatch_table_eq)
  have code: "code = ?pre @ dispatch_table es @ concat ?secs" using T(1) unfolding T' .
  have i: "m_pc (vm_init ctx s) = 0" "at_cfg t ([], slots_at t s) (vm_init ctx s)" "m_gasLeft (vm_init ctx s) = ctx_GasLeft ctx"
    by (simp_all add: vm_init_def at_cfg_def)
  have g0: "init_cost \<le> unat (m_gasLeft (vm_init ctx s))" using gas i(3) by (simp del: cost_simps)
  obtain m1 where m1: "vm_run flat_acc t code (vm_init ctx s) = vm_run flat_acc t code m1" "at_cfg t ([], ?f) m1"
      "m_pc m1 = int (length ?pre)" "unat (ctx_GasLeft ctx) \<le> unat (m_gasLeft m1) + init_cost"
    using preamble_run [OF code L post assms(3) i(1,2) g0] L i(3) by metis
  have offs: "\<forall>(sel, off)\<in>set es. off < length code"
    using offsets_bounded [of _ "length ?pre + length T" ss] by (auto simp: es_def T(1) add.assoc dest!: set_zip_rightD)
  have g1: "length es * entry_cost \<le> unat (m_gasLeft m1)" using gas m1(4) les by (simp del: cost_simps)
  note run = dispatch_run [OF code m1(3,2) offs assms(3) g1]
  have ex: "Execute flat_acc ctx s = vm_run flat_acc t code m1" using m1(1) by (simp add: Execute_def ctx)
  note sec = offset_section [where ss = ss and k = "?f 100" and c = "length ?pre + length T"]
  show ?thesis
  proof (cases "map_of ss (?f 100)")
    case None
    then have "map_of es (?f 100) = None" using sec by (simp add: es_def)
    then show ?thesis using run None by (simp add: ex call_sem_def)
  next
    case (Some "is")
    then obtain p q where pq: "map_of es (?f 100) = Some (length ?pre + length T + length p)"
        "concat ?secs = p @ sec_code is @ q" using sec by (auto simp: es_def)
    obtain m2 where m2: "vm_run flat_acc t code m1 = vm_run flat_acc t code m2" "at_cfg t ([], ?f) m2"
        "m_pc m2 = int (length (?pre @ T @ p))" "unat (m_gasLeft m1) \<le> unat (m_gasLeft m2) + length es * entry_cost"
      using run pq(1) by auto
    have code2: "code = (?pre @ T @ p) @ encs is @ [OpHalt] @ q" using T(1) pq(2) by simp
    have "(?f 100, is) \<in> set ss" using Some by (rule map_of_SomeD)
    then have "list_all straight is" "length is \<le> MaxStackDepth" "cost is \<le> B" using ss by fastforce+
    moreover have "B \<le> unat (m_gasLeft m2)" using gas m1(4) m2(4) les by (simp del: cost_simps)
    ultimately show ?thesis
      using section_run [OF code2 m2(3,2)] Some by (simp add: ex m2(1) call_sem_def)
  qed
qed

end
