(* ===== verification/Tyl_Token.thy ===== *)
theory Tyl_Token
  imports Tyl_Contract
begin

text \<open>
  The token contract of \<open>contracts/token.go\<close>: the builders of its code, that they never panic, and what
  the interpreter does with the code: minting, transfers and balance queries as operations on the
  slots, with the conditions under which they fail.
\<close>

section \<open>The builders\<close>

definition SlotTotalSupply :: uint64 where "SlotTotalSupply = 0"
definition SlotOwner :: uint64 where "SlotOwner = 1"
definition SlotMaxSupply :: uint64 where "SlotMaxSupply = 2"
definition SlotBalanceBase :: uint64 where "SlotBalanceBase = 1000"

definition FnMint :: uint64 where "FnMint = 1"
definition FnTransfer :: uint64 where "FnTransfer = 2"
definition FnBalanceOf :: uint64 where "FnBalanceOf = 3"

definition buildTokenPreamble :: "uint64 \<Rightarrow> uint64 \<Rightarrow> bytes option" where
  "buildTokenPreamble ownerID maxSupply =
     estimate_loop 10 30 (preamble_code SlotOwner ownerID SlotMaxSupply maxSupply)"

definition buildMintSection :: "bool \<Rightarrow> bytes" where
  "buildMintSection hasCap =
    (let a = NewAsm;
         a = chain [Asm_Push 101, Asm_Sload, RequireNonZero] a;
         a = (if hasCap
              then chain [Asm_Push SlotTotalSupply, Asm_Sload, Asm_Push 101, Asm_Sload, Asm_Add,
                          Asm_Push SlotMaxSupply, Asm_Sload, RequireLTE] a
              else a)
     in chain [Asm_Push SlotTotalSupply, Asm_Sload, Asm_Push 101, Asm_Sload, Asm_Add,
               Asm_Push SlotTotalSupply, Asm_Sstore,
               Asm_Push 103, Asm_Sload, Asm_Push SlotBalanceBase, Asm_Add, Asm_Sload,
               Asm_Push 101, Asm_Sload, Asm_Add,
               Asm_Push 103, Asm_Sload, Asm_Push SlotBalanceBase, Asm_Add, Asm_Sstore,
               Asm_Halt] a)"

definition buildTransferSection :: bytes where
  "buildTransferSection =
     chain [Asm_Push 102, Asm_Sload, RequireNonZero,
            Asm_Push 102, Asm_Sload,
            Asm_Push 103, Asm_Sload, Asm_Push SlotBalanceBase, Asm_Add, Asm_Sload,
            RequireLTE,
            Asm_Push 102, Asm_Sload,
            Asm_Push 103, Asm_Sload, Asm_Push SlotBalanceBase, Asm_Add, Asm_Sload,
            Asm_Sub,
            Asm_Push 103, Asm_Sload, Asm_Push SlotBalanceBase, Asm_Add,
            Asm_Sstore,
            Asm_Push 101, Asm_Sload, Asm_Push SlotBalanceBase, Asm_Add, Asm_Sload,
            Asm_Push 102, Asm_Sload,
            Asm_Add,
            Asm_Push 101, Asm_Sload, Asm_Push SlotBalanceBase, Asm_Add,
            Asm_Sstore,
            Asm_Halt] NewAsm"

definition buildBalanceOfSection :: bytes where
  "buildBalanceOfSection =
     chain [Asm_Push 101, Asm_Sload, Asm_Push SlotBalanceBase, Asm_Add, Asm_Sload,
            Asm_Push 200, Asm_Sstore, Asm_Halt] NewAsm"

definition BuildTokenContract :: "uint64 \<Rightarrow> uint64 \<Rightarrow> bytes option" where
  "BuildTokenContract ownerID maxSupply =
     (let sections = [buildMintSection (maxSupply > 0), buildTransferSection, buildBalanceOfSection];
          selectors = [FnMint, FnTransfer, FnBalanceOf]
      in case buildTokenPreamble ownerID maxSupply of
           None \<Rightarrow> None
         | Some preamble \<Rightarrow> buildWithPreamble preamble sections selectors)"

section \<open>The instructions of the sections\<close>

abbreviation sload :: "uint64 \<Rightarrow> instr list" where "sload k \<equiv> [IPush k, IOp OpSload]"
abbreviation bal_slot :: "uint64 \<Rightarrow> instr list" where "bal_slot k \<equiv> sload k @ [IPush 1000, IOp OpAdd]"
abbreviation req_nonzero :: "instr list" where "req_nonzero \<equiv> [IPush 1, IOp OpDiv, IOp OpPop]"
abbreviation req_lte :: "instr list" where "req_lte \<equiv> [IOp OpLt, IOp OpNot] @ req_nonzero"

definition mint_instrs :: "bool \<Rightarrow> instr list" where
  "mint_instrs hasCap =
     sload 101 @ req_nonzero @
     (if hasCap then sload 0 @ sload 101 @ [IOp OpAdd] @ sload 2 @ req_lte else []) @
     sload 0 @ sload 101 @ [IOp OpAdd, IPush 0, IOp OpSstore] @
     bal_slot 103 @ [IOp OpSload] @ sload 101 @ [IOp OpAdd] @ bal_slot 103 @ [IOp OpSstore]"

definition transfer_instrs :: "instr list" where
  "transfer_instrs =
     sload 102 @ req_nonzero @
     sload 102 @ bal_slot 103 @ [IOp OpSload] @ req_lte @
     sload 102 @ bal_slot 103 @ [IOp OpSload, IOp OpSub] @ bal_slot 103 @ [IOp OpSstore] @
     bal_slot 101 @ [IOp OpSload] @ sload 102 @ [IOp OpAdd] @ bal_slot 101 @ [IOp OpSstore]"

definition balanceOf_instrs :: "instr list" where
  "balanceOf_instrs = bal_slot 101 @ [IOp OpSload, IPush 200, IOp OpSstore]"

lemma chain_simps: "chain [] a = a" "chain (f # fs) a = chain fs (f a)"
  by (simp_all add: chain_def)

lemmas asm_code = chain_simps Asm_Push_eq Asm_Op_eq RequireNonZero_def RequireLTE_def NewAsm_def
  Asm_Halt_def Asm_Add_def Asm_Sub_def Asm_Mul_def Asm_Div_def Asm_Eq_def Asm_Lt_def Asm_Not_def
  Asm_Sload_def Asm_Sstore_def Asm_Pop_def Asm_Dup_def Asm_Swap_def

lemmas token_consts = SlotTotalSupply_def SlotOwner_def SlotMaxSupply_def SlotBalanceBase_def
  FnMint_def FnTransfer_def FnBalanceOf_def

lemma mint_code: "buildMintSection hasCap = sec_code (mint_instrs hasCap)"
  by (simp add: buildMintSection_def mint_instrs_def asm_code token_consts)

lemma transfer_code: "buildTransferSection = sec_code transfer_instrs"
  by (simp add: buildTransferSection_def transfer_instrs_def asm_code token_consts)

lemma balanceOf_code: "buildBalanceOfSection = sec_code balanceOf_instrs"
  by (simp add: buildBalanceOfSection_def balanceOf_instrs_def asm_code token_consts)

definition token_sections :: "bool \<Rightarrow> (uint64 \<times> instr list) list" where
  "token_sections hasCap = [(1, mint_instrs hasCap), (2, transfer_instrs), (3, balanceOf_instrs)]"

lemma BuildTokenContract_eq:
  "\<exists>L. length (preamble_code 1 ownerID 2 maxSupply L) = L \<and> L < 100 \<and>
    BuildTokenContract ownerID maxSupply = buildWithPreamble (preamble_code 1 ownerID 2 maxSupply L)
      (map (\<lambda>s. sec_code (snd s)) (token_sections (maxSupply > 0))) (map fst (token_sections (maxSupply > 0)))"
  using preamble_converges [of 1 ownerID 2 maxSupply]
  by (auto simp: BuildTokenContract_def buildTokenPreamble_def token_consts mint_code transfer_code balanceOf_code token_sections_def)

lemma token_sections_ok:
  "\<forall>s\<in>set (token_sections hasCap). list_all straight (snd s) \<and> length (snd s) \<le> MaxStackDepth \<and> cost (snd s) \<le> 18000"
  by (simp add: token_sections_def mint_instrs_def transfer_instrs_def balanceOf_instrs_def MaxStackDepth_def GasCost_def)

text \<open>Building never runs out of iterations, and the code is small.\<close>

lemma token_build:
  "\<exists>L code. length (preamble_code 1 ownerID 2 maxSupply L) = L \<and> length code < 2000 \<and>
    BuildTokenContract ownerID maxSupply = Some code \<and>
    buildWithPreamble (preamble_code 1 ownerID 2 maxSupply L)
      (map (\<lambda>s. sec_code (snd s)) (token_sections (maxSupply > 0))) (map fst (token_sections (maxSupply > 0))) = Some code"
proof -
  let ?ss = "token_sections (maxSupply > 0)"
  let ?secs = "map (\<lambda>s. sec_code (snd s)) ?ss"
  obtain L where L: "length (preamble_code 1 ownerID 2 maxSupply L) = L" "L < 100"
      "BuildTokenContract ownerID maxSupply = buildWithPreamble (preamble_code 1 ownerID 2 maxSupply L) ?secs (map fst ?ss)"
    using BuildTokenContract_eq by blast
  have len: "length (concat ?secs) < 1200"
    using length_encs [of "mint_instrs (maxSupply > 0)"] length_encs [of transfer_instrs] length_encs [of balanceOf_instrs]
    by (simp add: token_sections_def) (simp add: mint_instrs_def transfer_instrs_def balanceOf_instrs_def split: if_splits)
  have sels: "\<forall>sel\<in>set (map fst ?ss). unat sel < 256" "length (map fst ?ss) \<le> 7" "length ?secs = length (map fst ?ss)"
    by (simp_all add: token_sections_def)
  have "length (preamble_code 1 ownerID 2 maxSupply L) < 100" "length (concat ?secs) < 60000" using L len by linarith+
  from contract_build [OF sels(3,2,1) this] obtain code where
    "buildWithPreamble (preamble_code 1 ownerID 2 maxSupply L) ?secs (map fst ?ss) = Some code" "length code < 2000"
    using len by force
  then show ?thesis using L by metis
qed

section \<open>The operations on the slots\<close>

definition token_balance :: "(uint64 \<Rightarrow> uint64) \<Rightarrow> uint64 \<Rightarrow> uint64" where
  "token_balance f h = f (SlotBalanceBase + h)"

definition token_init :: "uint64 \<Rightarrow> uint64 \<Rightarrow> (uint64 \<Rightarrow> uint64) \<Rightarrow> uint64 \<Rightarrow> uint64" where
  "token_init ownerID maxSupply f = init_slots SlotOwner ownerID SlotMaxSupply maxSupply f"

text \<open>Holders whose balance slot does not wrap around to the low slots.\<close>

definition holder :: "uint64 \<Rightarrow> bool" where "holder h \<longleftrightarrow> unat h + 1000 < 2 ^ 64"

lemma holder_slot: "holder h \<Longrightarrow> k < 1000 \<Longrightarrow> 1000 + h \<noteq> k \<and> k \<noteq> 1000 + h"
  by (auto simp: holder_def word_less_nat_alt unat_word_ariths)

lemma mint_sems:
  assumes "holder (f 103)"
  shows "f 101 \<noteq> 0 \<Longrightarrow> \<not> hasCap \<or> f 0 + f 101 \<le> f 2 \<Longrightarrow>
      sems (mint_instrs hasCap) ([], f) =
        Inr ([], f(0 := f 0 + f 101, 1000 + f 103 := f (1000 + f 103) + f 101))"
    and "f 101 = 0 \<or> hasCap \<and> \<not> f 0 + f 101 \<le> f 2 \<Longrightarrow> \<exists>e. sems (mint_instrs hasCap) ([], f) = Inl e"
  using holder_slot [OF assms, of 0] by (auto simp: mint_instrs_def not_less not_le add.commute [of "f 101" "f 0"])

lemma transfer_sems:
  assumes "holder (f 103)" and "holder (f 101)"
  shows "f 102 \<noteq> 0 \<Longrightarrow> f 102 \<le> f (1000 + f 103) \<Longrightarrow>
      sems transfer_instrs ([], f) =
        (let g = f(1000 + f 103 := f (1000 + f 103) - f 102)
         in Inr ([], g(1000 + f 101 := g (1000 + f 101) + f 102)))"
    and "f 102 = 0 \<or> \<not> f 102 \<le> f (1000 + f 103) \<Longrightarrow> \<exists>e. sems transfer_instrs ([], f) = Inl e"
  using holder_slot [OF assms(1), of 101] holder_slot [OF assms(1), of 102]
  by (auto simp: transfer_instrs_def Let_def not_less not_le)

lemma balanceOf_sems: "sems balanceOf_instrs ([], f) = Inr ([], f(200 := f (1000 + f 101)))"
  by (simp add: balanceOf_instrs_def)

lemma token_run:
  assumes "BuildTokenContract ownerID maxSupply = Some code" and "ctx_Code ctx = code" and "30000 \<le> ctx_GasLeft ctx"
  shows "run_gives (ctx_Target ctx) (Execute flat_acc ctx s)
    (call_sem (token_sections (maxSupply > 0)) (token_init ownerID maxSupply (slots_at (ctx_Target ctx) s)))"
proof -
  obtain L where L: "length (preamble_code 1 ownerID 2 maxSupply L) = L" "length code < 2000"
      "buildWithPreamble (preamble_code 1 ownerID 2 maxSupply L)
      (map (\<lambda>s. sec_code (snd s)) (token_sections (maxSupply > 0))) (map fst (token_sections (maxSupply > 0))) = Some code"
    using token_build [of ownerID maxSupply] assms(1) by auto
  have gas: "init_cost + length (token_sections (maxSupply > 0)) * entry_cost + 18000 \<le> unat (ctx_GasLeft ctx)"
    using assms(3) by (simp add: token_sections_def GasCost_def word_le_nat_alt)
  have len: "length code < 2 ^ 32" using L(2) by simp
  show ?thesis
    unfolding token_init_def token_consts by (rule contract_run [OF L(3,1) len token_sections_ok gas assms(2) refl])
qed

lemma token_call_cases:
  assumes "BuildTokenContract ownerID maxSupply = Some code" and "ctx_Code ctx = code" and "30000 \<le> ctx_GasLeft ctx"
    and f: "f = token_init ownerID maxSupply (slots_at (ctx_Target ctx) s)"
  shows "f 100 = FnMint \<Longrightarrow> run_gives (ctx_Target ctx) (Execute flat_acc ctx s)
      (case sems (mint_instrs (maxSupply > 0)) ([], f) of Inl e \<Rightarrow> Inl e | Inr (_, g) \<Rightarrow> Inr g)"
    and "f 100 = FnTransfer \<Longrightarrow> run_gives (ctx_Target ctx) (Execute flat_acc ctx s)
      (case sems transfer_instrs ([], f) of Inl e \<Rightarrow> Inl e | Inr (_, g) \<Rightarrow> Inr g)"
    and "f 100 = FnBalanceOf \<Longrightarrow> run_gives (ctx_Target ctx) (Execute flat_acc ctx s) (Inr (f(200 := token_balance f (f 101))))"
    and "f 100 \<notin> {FnMint, FnTransfer, FnBalanceOf} \<Longrightarrow> run_gives (ctx_Target ctx) (Execute flat_acc ctx s) (Inr f)"
  using token_run [OF assms(1-3), of s]
  by (simp_all add: f [symmetric] call_sem_def token_sections_def token_consts balanceOf_sems token_balance_def)

section \<open>Properties\<close>

text \<open>Building a token contract never panics, whatever the owner and the cap, and the code is far
  below the size limits.\<close>

theorem token_builds: "\<exists>code. BuildTokenContract ownerID maxSupply = Some code \<and> length code < 2000"
  using token_build by blast

text \<open>C20: a call of the transfer function returns, and succeeds exactly when the amount in slot 102 is
  not zero and covered by the balance of the caller; then it moves the amount to the recipient of
  slot 101 and changes no other slot (a transfer to oneself changes nothing).\<close>

theorem token_transfer_correct:
  assumes "BuildTokenContract ownerID maxSupply = Some code" and "ctx_Code ctx = code" and "30000 \<le> ctx_GasLeft ctx"
    and f: "f = token_init ownerID maxSupply (slots_at (ctx_Target ctx) s)"
    and "f 100 = FnTransfer" and "holder (f 103)" and "holder (f 101)"
  shows "\<exists>r s'. Execute flat_acc ctx s = Some (r, s') \<and>
    (er_Success r \<longleftrightarrow> f 102 \<noteq> 0 \<and> f 102 \<le> token_balance f (f 103)) \<and>
    (er_Success r \<longrightarrow> slots_at (ctx_Target ctx) s' =
      (if f 103 = f 101 then f
       else f(SlotBalanceBase + f 103 := token_balance f (f 103) - f 102,
              SlotBalanceBase + f 101 := token_balance f (f 101) + f 102)))"
proof -
  note run = token_call_cases(2) [OF assms(1-5)]
  note sem = transfer_sems [of f, OF assms(6,7)]
  show ?thesis
  proof (cases "f 102 \<noteq> 0 \<and> f 102 \<le> token_balance f (f 103)")
    case True
    then show ?thesis using run sem(1) by (auto simp: run_gives_def token_balance_def token_consts Let_def)
  next
    case False
    then obtain e where "sems transfer_instrs ([], f) = Inl e" using sem(2) by (auto simp: token_balance_def token_consts)
    then show ?thesis using run False by (auto simp: run_gives_def)
  qed
qed

text \<open>A call of the mint function returns, and succeeds exactly when the amount in slot 101 is not
  zero and, with a cap, the new supply modulo \<open>2 ^ 64\<close> is at most the cap; then it adds the amount to the
  supply and to the balance of the caller and changes no other slot. Nothing depends on the owner.\<close>

theorem token_mint_correct:
  assumes "BuildTokenContract ownerID maxSupply = Some code" and "ctx_Code ctx = code" and "30000 \<le> ctx_GasLeft ctx"
    and f: "f = token_init ownerID maxSupply (slots_at (ctx_Target ctx) s)"
    and "f 100 = FnMint" and "holder (f 103)"
  shows "\<exists>r s'. Execute flat_acc ctx s = Some (r, s') \<and>
    (er_Success r \<longleftrightarrow> f 101 \<noteq> 0 \<and> (maxSupply > 0 \<longrightarrow> f SlotTotalSupply + f 101 \<le> f SlotMaxSupply)) \<and>
    (er_Success r \<longrightarrow> slots_at (ctx_Target ctx) s' =
      f(SlotTotalSupply := f SlotTotalSupply + f 101,
        SlotBalanceBase + f 103 := token_balance f (f 103) + f 101))"
proof -
  note run = token_call_cases(1) [OF assms(1-5)]
  note sem = mint_sems [of f "maxSupply > 0", OF assms(6)]
  show ?thesis
  proof (cases "f 101 \<noteq> 0 \<and> (maxSupply > 0 \<longrightarrow> f SlotTotalSupply + f 101 \<le> f SlotMaxSupply)")
    case True
    then have "sems (mint_instrs (maxSupply > 0)) ([], f) =
        Inr ([], f(0 := f 0 + f 101, 1000 + f 103 := f (1000 + f 103) + f 101))"
      by (intro sem(1)) (auto simp: token_consts)
    then show ?thesis using run True by (simp add: run_gives_def token_balance_def token_consts) blast
  next
    case False
    then obtain e where "sems (mint_instrs (maxSupply > 0)) ([], f) = Inl e" using sem(2) by (auto simp: token_consts)
    then show ?thesis using run False by (auto simp: run_gives_def)
  qed
qed

text \<open>The mint call as a helper for the next two properties.\<close>

lemma mint_success:
  assumes "BuildTokenContract ownerID maxSupply = Some code" and "ctx_Code ctx = code" and "30000 \<le> ctx_GasLeft ctx"
    and "f = token_init ownerID maxSupply (slots_at (ctx_Target ctx) s)" and "f 100 = FnMint" and "holder (f 103)"
    and "Execute flat_acc ctx s = Some (r, s')" and "er_Success r"
  shows "slots_at (ctx_Target ctx) s' = f(0 := f 0 + f 101, 1000 + f 103 := f (1000 + f 103) + f 101)"
  using token_call_cases(1) [OF assms(1-5)] mint_sems [of f "maxSupply > 0", OF assms(6)] assms(7,8)
  by (cases "f 101 \<noteq> 0 \<and> (\<not> maxSupply > 0 \<or> f 0 + f 101 \<le> f 2)") (auto simp: run_gives_def)

text \<open>The supply cap does not hold: in a capped contract with any supply, minting the amount that
  makes the sum wrap to zero succeeds, sets the supply to zero and adds that amount to the balance of
  the caller.\<close>

theorem token_cap_bypassed:
  assumes "BuildTokenContract ownerID maxSupply = Some code" and "ctx_Code ctx = code" and "30000 \<le> ctx_GasLeft ctx"
    and f: "f = token_init ownerID maxSupply (slots_at (ctx_Target ctx) s)"
    and "f 100 = FnMint" and "holder (f 103)"
    and "f SlotTotalSupply \<noteq> 0" and "f 101 = - f SlotTotalSupply"
  shows "\<exists>r s'. Execute flat_acc ctx s = Some (r, s') \<and> er_Success r \<and>
    slots_at (ctx_Target ctx) s' SlotTotalSupply = 0 \<and>
    token_balance (slots_at (ctx_Target ctx) s') (f 103) = token_balance f (f 103) + f 101"
proof -
  note run = token_call_cases(1) [OF assms(1-5)]
  have "sems (mint_instrs (maxSupply > 0)) ([], f) =
      Inr ([], f(0 := f 0 + f 101, 1000 + f 103 := f (1000 + f 103) + f 101))"
    using assms(7,8) by (intro mint_sems [of f, OF assms(6)]) (auto simp: token_consts)
  then show ?thesis
    using run assms(8) holder_slot [OF assms(6), of 0] by (auto simp: run_gives_def token_balance_def token_consts)
qed

section \<open>The supply\<close>

text \<open>The balances of a set of holders, summed as the code adds them.\<close>

definition held :: "uint64 set \<Rightarrow> (uint64 \<Rightarrow> uint64) \<Rightarrow> uint64" where
  "held H f = (\<Sum>h\<in>H. token_balance f h)"

lemma held_upd: "finite H \<Longrightarrow> h \<in> H \<Longrightarrow> held H (f(1000 + h := v)) = held H f - token_balance f h + v"
proof -
  assume "finite H" "h \<in> H"
  moreover have "held (H - {h}) (f(1000 + h := v)) = held (H - {h}) f"
    by (auto simp: held_def token_balance_def token_consts intro!: sum.cong)
  ultimately show ?thesis by (simp add: held_def sum.remove [of H h] token_balance_def token_consts)
qed

lemma held_low: "\<forall>h\<in>H. holder h \<Longrightarrow> k < 1000 \<Longrightarrow> held H (f(k := v)) = held H f"
  unfolding held_def token_balance_def token_consts by (rule sum.cong) (auto simp: holder_slot)

text \<open>C21: the supply is backed by the balances: a successful call of any function keeps the difference
  between the balances of the holders and the total supply (modulo \<open>2 ^ 64\<close>), for any finite set of
  holders with the caller and, for a transfer, the recipient.\<close>

theorem token_supply_backed:
  assumes "BuildTokenContract ownerID maxSupply = Some code" and "ctx_Code ctx = code" and "30000 \<le> ctx_GasLeft ctx"
    and f: "f = token_init ownerID maxSupply (slots_at (ctx_Target ctx) s)"
    and "finite H" and "\<forall>h\<in>H. holder h" and "f 103 \<in> H" and "f 100 = FnTransfer \<Longrightarrow> f 101 \<in> H"
    and "Execute flat_acc ctx s = Some (r, s')" and "er_Success r"
  shows "held H (slots_at (ctx_Target ctx) s') - slots_at (ctx_Target ctx) s' SlotTotalSupply =
    held H (slots_at (ctx_Target ctx) s) - slots_at (ctx_Target ctx) s SlotTotalSupply"
proof -
  let ?g = "slots_at (ctx_Target ctx) s'"
  note cases = token_call_cases [OF assms(1-4)]
  have h: "holder (f 103)" using assms(6,7) by blast
  have init: "held H f = held H (slots_at (ctx_Target ctx) s)" "f 0 = slots_at (ctx_Target ctx) s 0"
    using assms(6) by (simp_all add: f token_init_def init_slots_def token_consts held_low)
  consider "f 100 = FnMint" | "f 100 = FnTransfer" | "f 100 = FnBalanceOf" | "f 100 \<notin> {FnMint, FnTransfer, FnBalanceOf}" by blast
  then have "held H ?g - ?g 0 = held H f - f 0"
  proof cases
    case 1
    have "?g = f(0 := f 0 + f 101, 1000 + f 103 := f (1000 + f 103) + f 101)"
      by (rule mint_success [OF assms(1-4) 1 h assms(9,10)])
    then show ?thesis
      using assms(5-7) holder_slot [OF h, of 0] by (simp add: held_upd held_low token_balance_def token_consts)
  next
    case 2
    have h1: "holder (f 101)" using assms(6,8) 2 by blast
    let ?f1 = "f(1000 + f 103 := f (1000 + f 103) - f 102)"
    have "?g = ?f1(1000 + f 101 := ?f1 (1000 + f 101) + f 102)"
      using cases(2) [OF 2] transfer_sems [of f, OF h h1] assms(9,10)
      by (cases "f 102 \<noteq> 0 \<and> f 102 \<le> f (1000 + f 103)") (auto simp: run_gives_def Let_def)
    moreover have "held H (?f1(1000 + f 101 := ?f1 (1000 + f 101) + f 102)) = held H ?f1 + f 102"
      using assms(5,8) 2 by (simp only: held_upd) (simp add: token_balance_def token_consts)
    moreover have "held H ?f1 = held H f - f 102"
      using assms(5,7) by (simp add: held_upd token_balance_def token_consts)
    moreover have "(?f1(1000 + f 101 := ?f1 (1000 + f 101) + f 102)) 0 = f 0"
      using holder_slot [OF h, of 0] holder_slot [OF h1, of 0] by simp
    ultimately show ?thesis by simp
  next
    case 3
    then show ?thesis
      using cases(3) assms(6,9,10) by (auto simp: run_gives_def held_low token_consts)
  qed (use cases(4) assms(9,10) in \<open>auto simp: run_gives_def\<close>)
  then show ?thesis using init by (simp add: token_consts)
qed

section \<open>Concrete calls\<close>

text \<open>A storage with given slots.\<close>

definition slots_state :: "(uint64 \<Rightarrow> uint64) \<Rightarrow> address \<Rightarrow> hash256 \<Rightarrow> hash256" where
  "slots_state g = (\<lambda>a h. slot_hash (g (hash_slot h)))"

lemma slots_at_state [simp]: "slots_at t (slots_state g) = g"
  by (simp add: slots_at_def slots_state_def fun_eq_iff)

text \<open>An initialised contract of owner 7 with cap 100 in which account 9 holds the supply of 20 units.\<close>

definition sample_call :: "uint64 \<Rightarrow> uint64 \<Rightarrow> uint64 \<Rightarrow> uint64 \<Rightarrow> uint64" where
  "sample_call fn arg1 arg2 =
     (\<lambda>k. 0)(0 := 20, 1 := 7, 2 := 100, 103 := 9, 1009 := 20, 100 := fn, 101 := arg1, 102 := arg2)"

lemma sample_slots:
  "sample_call a b c 0 = 20" "sample_call a b c 2 = 100" "sample_call a b c 103 = 9" "sample_call a b c 1009 = 20"
  "sample_call a b c 1008 = 0" "sample_call a b c 100 = a" "sample_call a b c 101 = b" "sample_call a b c 102 = c"
  by (simp_all add: sample_call_def)

lemma token_init_sample: "token_init 7 100 (sample_call a b c) = sample_call a b c"
  by (simp add: token_init_def init_slots_def token_consts sample_call_def)

lemma sample_holder: "holder 8" "holder 9"
  by (simp_all add: holder_def)

theorem token_transfer_correct_witness:
  "\<exists>code r s'. BuildTokenContract 7 100 = Some code \<and>
     Execute flat_acc (ctx_of code 50000) (slots_state (sample_call 2 8 5)) = Some (r, s') \<and>
     er_Success r \<and> slots_at 2 s' 1009 = 15 \<and> slots_at 2 s' 1008 = 5"
proof -
  obtain code where code: "BuildTokenContract 7 100 = Some code" using token_build by blast
  let ?f = "sample_call 2 8 5"
  have "\<exists>r s'. Execute flat_acc (ctx_of code 50000) (slots_state ?f) = Some (r, s') \<and>
    (er_Success r \<longleftrightarrow> ?f 102 \<noteq> 0 \<and> ?f 102 \<le> token_balance ?f (?f 103)) \<and>
    (er_Success r \<longrightarrow> slots_at (ctx_Target (ctx_of code 50000)) s' =
      (if ?f 103 = ?f 101 then ?f
       else ?f(SlotBalanceBase + ?f 103 := token_balance ?f (?f 103) - ?f 102,
              SlotBalanceBase + ?f 101 := token_balance ?f (?f 101) + ?f 102)))"
    by (rule token_transfer_correct [where f = ?f, OF code])
      (simp_all add: ctx_of_def token_init_sample sample_slots token_consts sample_holder)
  then show ?thesis using code by (auto simp: ctx_of_def sample_slots token_consts token_balance_def)
qed

theorem token_mint_correct_witness:
  "\<exists>code r s'. BuildTokenContract 7 100 = Some code \<and>
     Execute flat_acc (ctx_of code 50000) (slots_state (sample_call 1 81 0)) = Some (r, s') \<and> \<not> er_Success r"
proof -
  obtain code where code: "BuildTokenContract 7 100 = Some code" using token_build by blast
  let ?f = "sample_call 1 81 0"
  have "\<exists>r s'. Execute flat_acc (ctx_of code 50000) (slots_state ?f) = Some (r, s') \<and>
    (er_Success r \<longleftrightarrow> ?f 101 \<noteq> 0 \<and> ((100 :: uint64) > 0 \<longrightarrow> ?f SlotTotalSupply + ?f 101 \<le> ?f SlotMaxSupply)) \<and>
    (er_Success r \<longrightarrow> slots_at (ctx_Target (ctx_of code 50000)) s' =
      ?f(SlotTotalSupply := ?f SlotTotalSupply + ?f 101,
        SlotBalanceBase + ?f 103 := token_balance ?f (?f 103) + ?f 101))"
    by (rule token_mint_correct [where f = ?f, OF code])
      (simp_all add: ctx_of_def token_init_sample sample_slots token_consts sample_holder)
  then show ?thesis using code by (auto simp: sample_slots token_consts)
qed

theorem token_cap_bypassed_witness:
  "\<exists>code r s'. BuildTokenContract 7 100 = Some code \<and>
     Execute flat_acc (ctx_of code 50000) (slots_state (sample_call 1 (- 20) 0)) = Some (r, s') \<and>
     er_Success r \<and> slots_at 2 s' SlotTotalSupply = 0"
proof -
  obtain code where code: "BuildTokenContract 7 100 = Some code" using token_build by blast
  let ?f = "sample_call 1 (- 20) 0"
  have "\<exists>r s'. Execute flat_acc (ctx_of code 50000) (slots_state ?f) = Some (r, s') \<and> er_Success r \<and>
    slots_at (ctx_Target (ctx_of code 50000)) s' SlotTotalSupply = 0 \<and>
    token_balance (slots_at (ctx_Target (ctx_of code 50000)) s') (?f 103) = token_balance ?f (?f 103) + ?f 101"
    by (rule token_cap_bypassed [where f = ?f, OF code])
      (simp_all add: ctx_of_def token_init_sample sample_slots token_consts sample_holder)
  then show ?thesis using code by (auto simp: ctx_of_def)
qed

lemma sample_mint_run:
  "BuildTokenContract 7 100 = Some code \<Longrightarrow>
   \<exists>r s'. Execute flat_acc (ctx_of code 50000) (slots_state (sample_call 1 5 0)) = Some (r, s') \<and> er_Success r"
  using token_call_cases(1) [of 7 100 code "ctx_of code 50000" "sample_call 1 5 0"
      "slots_state (sample_call 1 5 0)"]
    mint_sems(1) [of "sample_call 1 5 0" True]
  by (auto simp: ctx_of_def token_init_sample sample_slots token_consts sample_holder run_gives_def)

theorem token_supply_backed_witness:
  "\<exists>code r s'. BuildTokenContract 7 100 = Some code \<and>
     Execute flat_acc (ctx_of code 50000) (slots_state (sample_call 1 5 0)) = Some (r, s') \<and>
     held {9} (slots_at 2 s') = slots_at 2 s' SlotTotalSupply"
proof -
  obtain code where code: "BuildTokenContract 7 100 = Some code" using token_build by blast
  let ?f = "sample_call 1 5 0" and ?c = "ctx_of code 50000"
  obtain r s' where run: "Execute flat_acc ?c (slots_state ?f) = Some (r, s')" "er_Success r" using sample_mint_run [OF code] by blast
  have "held {9} (slots_at (ctx_Target ?c) s') - slots_at (ctx_Target ?c) s' SlotTotalSupply =
      held {9} (slots_at (ctx_Target ?c) (slots_state ?f)) - slots_at (ctx_Target ?c) (slots_state ?f) SlotTotalSupply"
    by (rule token_supply_backed [where f = ?f, OF code _ _ _ _ _ _ _ run])
      (simp_all add: ctx_of_def token_init_sample sample_slots token_consts sample_holder)
  then have "held {9} (slots_at 2 s') = slots_at 2 s' SlotTotalSupply"
    by (simp add: ctx_of_def held_def token_balance_def token_consts sample_slots)
  then show ?thesis using code run by blast
qed

end
