(* ===== verification/Tyl_AMM.thy ===== *)
theory Tyl_AMM
  imports Tyl_Token
begin

text \<open>
  The exchange contract of \<open>contracts/amm.go\<close>: the builders of its code, that they never panic, and what
  the interpreter does with the code: deposits and withdrawals of liquidity and swaps as operations on
  the slots. The settlement slots 300 to 303 are read by the executor.
\<close>

section \<open>The builders\<close>

definition AMMSlotReserveA :: uint64 where "AMMSlotReserveA = 0"
definition AMMSlotReserveB :: uint64 where "AMMSlotReserveB = 1"
definition AMMSlotLPSupply :: uint64 where "AMMSlotLPSupply = 2"
definition AMMSlotTokenA :: uint64 where "AMMSlotTokenA = 3"
definition AMMSlotFeeNum :: uint64 where "AMMSlotFeeNum = 5"
definition AMMSlotLPBalBase :: uint64 where "AMMSlotLPBalBase = 1000"
definition AMMSlotSettleDebitA :: uint64 where "AMMSlotSettleDebitA = 300"
definition AMMSlotSettleCreditA :: uint64 where "AMMSlotSettleCreditA = 301"
definition AMMSlotSettleDebitB :: uint64 where "AMMSlotSettleDebitB = 302"
definition AMMSlotSettleCreditB :: uint64 where "AMMSlotSettleCreditB = 303"
definition AMMFnAddLiquidity :: uint64 where "AMMFnAddLiquidity = 1"
definition AMMFnRemoveLiquidity :: uint64 where "AMMFnRemoveLiquidity = 2"
definition AMMFnSwapAForB :: uint64 where "AMMFnSwapAForB = 3"
definition AMMFnSwapBForA :: uint64 where "AMMFnSwapBForA = 4"

lemmas amm_consts = AMMSlotReserveA_def AMMSlotReserveB_def AMMSlotLPSupply_def AMMSlotTokenA_def AMMSlotFeeNum_def
  AMMSlotLPBalBase_def AMMSlotSettleDebitA_def AMMSlotSettleCreditA_def AMMSlotSettleDebitB_def AMMSlotSettleCreditB_def
  AMMFnAddLiquidity_def AMMFnRemoveLiquidity_def AMMFnSwapAForB_def AMMFnSwapBForA_def

definition buildAMMPreamble :: "uint64 \<Rightarrow> uint64 \<Rightarrow> bytes option" where
  "buildAMMPreamble feeNumerator tokenAID =
     estimate_loop 10 30 (preamble_code AMMSlotFeeNum feeNumerator AMMSlotTokenA tokenAID)"

definition buildAddLiquidity :: bytes where
  "buildAddLiquidity =
     chain [Asm_Push 101, Asm_Sload, RequireNonZero,
            Asm_Push 102, Asm_Sload, RequireNonZero,
            Asm_Push AMMSlotReserveA, Asm_Sload, Asm_Push 101, Asm_Sload, Asm_Add, Asm_Push AMMSlotReserveA, Asm_Sstore,
            Asm_Push AMMSlotReserveB, Asm_Sload, Asm_Push 102, Asm_Sload, Asm_Add, Asm_Push AMMSlotReserveB, Asm_Sstore,
            Asm_Push AMMSlotLPSupply, Asm_Sload, Asm_Push 101, Asm_Sload, Asm_Add, Asm_Push AMMSlotLPSupply, Asm_Sstore,
            Asm_Push 103, Asm_Sload, Asm_Push AMMSlotLPBalBase, Asm_Add, Asm_Sload,
            Asm_Push 101, Asm_Sload, Asm_Add,
            Asm_Push 103, Asm_Sload, Asm_Push AMMSlotLPBalBase, Asm_Add, Asm_Sstore,
            Asm_Push 101, Asm_Sload, Asm_Push AMMSlotSettleDebitA, Asm_Sstore,
            Asm_Push 102, Asm_Sload, Asm_Push AMMSlotSettleDebitB, Asm_Sstore,
            Asm_Halt] NewAsm"

definition buildRemoveLiquidity :: bytes where
  "buildRemoveLiquidity =
     chain [Asm_Push 101, Asm_Sload, RequireNonZero,
            Asm_Push 101, Asm_Sload,
            Asm_Push 103, Asm_Sload, Asm_Push AMMSlotLPBalBase, Asm_Add, Asm_Sload,
            RequireLTE,
            Asm_Push AMMSlotLPSupply, Asm_Sload, Asm_Push AMMSlotReserveA, Asm_Sload, Asm_Push 101, Asm_Sload,
            Asm_Mul, Asm_Div, Asm_Push 200, Asm_Sstore,
            Asm_Push AMMSlotLPSupply, Asm_Sload, Asm_Push AMMSlotReserveB, Asm_Sload, Asm_Push 101, Asm_Sload,
            Asm_Mul, Asm_Div, Asm_Push 201, Asm_Sstore,
            Asm_Push 200, Asm_Sload, Asm_Push AMMSlotReserveA, Asm_Sload, Asm_Sub, Asm_Push AMMSlotReserveA, Asm_Sstore,
            Asm_Push 201, Asm_Sload, Asm_Push AMMSlotReserveB, Asm_Sload, Asm_Sub, Asm_Push AMMSlotReserveB, Asm_Sstore,
            Asm_Push 101, Asm_Sload, Asm_Push AMMSlotLPSupply, Asm_Sload, Asm_Sub, Asm_Push AMMSlotLPSupply, Asm_Sstore,
            Asm_Push 101, Asm_Sload,
            Asm_Push 103, Asm_Sload, Asm_Push AMMSlotLPBalBase, Asm_Add, Asm_Sload,
            Asm_Sub,
            Asm_Push 103, Asm_Sload, Asm_Push AMMSlotLPBalBase, Asm_Add,
            Asm_Sstore,
            Asm_Push 200, Asm_Sload, Asm_Push AMMSlotSettleCreditA, Asm_Sstore,
            Asm_Push 201, Asm_Sload, Asm_Push AMMSlotSettleCreditB, Asm_Sstore,
            Asm_Halt] NewAsm"

definition buildSwapAForB :: bytes where
  "buildSwapAForB =
     chain [Asm_Push 101, Asm_Sload, RequireNonZero,
            Asm_Push AMMSlotReserveA, Asm_Sload, RequireNonZero,
            Asm_Push AMMSlotReserveB, Asm_Sload, RequireNonZero,
            Asm_Push 101, Asm_Sload, Asm_Push AMMSlotFeeNum, Asm_Sload, Asm_Mul, Asm_Dup,
            Asm_Push AMMSlotReserveA, Asm_Sload, Asm_Push 1000, Asm_Mul, Asm_Add,
            Asm_Swap, Asm_Push AMMSlotReserveB, Asm_Sload, Asm_Mul,
            Asm_Div,
            Asm_Dup, RequireNonZero,
            Asm_Dup, Asm_Push 200, Asm_Sstore,
            Asm_Push AMMSlotReserveB, Asm_Sload, Asm_Sub, Asm_Push AMMSlotReserveB, Asm_Sstore,
            Asm_Push AMMSlotReserveA, Asm_Sload, Asm_Push 101, Asm_Sload, Asm_Add, Asm_Push AMMSlotReserveA, Asm_Sstore,
            Asm_Push 101, Asm_Sload, Asm_Push AMMSlotSettleDebitA, Asm_Sstore,
            Asm_Push 200, Asm_Sload, Asm_Push AMMSlotSettleCreditB, Asm_Sstore,
            Asm_Halt] NewAsm"

definition buildSwapBForA :: bytes where
  "buildSwapBForA =
     chain [Asm_Push 101, Asm_Sload, RequireNonZero,
            Asm_Push AMMSlotReserveA, Asm_Sload, RequireNonZero,
            Asm_Push AMMSlotReserveB, Asm_Sload, RequireNonZero,
            Asm_Push 101, Asm_Sload, Asm_Push AMMSlotFeeNum, Asm_Sload, Asm_Mul, Asm_Dup,
            Asm_Push AMMSlotReserveB, Asm_Sload, Asm_Push 1000, Asm_Mul, Asm_Add,
            Asm_Swap, Asm_Push AMMSlotReserveA, Asm_Sload, Asm_Mul,
            Asm_Div,
            Asm_Dup, RequireNonZero,
            Asm_Dup, Asm_Push 200, Asm_Sstore,
            Asm_Push AMMSlotReserveA, Asm_Sload, Asm_Sub, Asm_Push AMMSlotReserveA, Asm_Sstore,
            Asm_Push AMMSlotReserveB, Asm_Sload, Asm_Push 101, Asm_Sload, Asm_Add, Asm_Push AMMSlotReserveB, Asm_Sstore,
            Asm_Push 200, Asm_Sload, Asm_Push AMMSlotSettleCreditA, Asm_Sstore,
            Asm_Push 101, Asm_Sload, Asm_Push AMMSlotSettleDebitB, Asm_Sstore,
            Asm_Halt] NewAsm"

definition BuildAMMContract :: "uint64 \<Rightarrow> uint64 \<Rightarrow> bytes option" where
  "BuildAMMContract feeNumerator tokenAID =
     (let sections = [buildAddLiquidity, buildRemoveLiquidity, buildSwapAForB, buildSwapBForA];
          selectors = [AMMFnAddLiquidity, AMMFnRemoveLiquidity, AMMFnSwapAForB, AMMFnSwapBForA]
      in case buildAMMPreamble feeNumerator tokenAID of
           None \<Rightarrow> None
         | Some preamble \<Rightarrow> buildWithPreamble preamble sections selectors)"

section \<open>The instructions of the sections\<close>

definition add_instrs :: "instr list" where
  "add_instrs =
     sload 101 @ req_nonzero @ sload 102 @ req_nonzero @
     sload 0 @ sload 101 @ [IOp OpAdd, IPush 0, IOp OpSstore] @
     sload 1 @ sload 102 @ [IOp OpAdd, IPush 1, IOp OpSstore] @
     sload 2 @ sload 101 @ [IOp OpAdd, IPush 2, IOp OpSstore] @
     bal_slot 103 @ [IOp OpSload] @ sload 101 @ [IOp OpAdd] @ bal_slot 103 @ [IOp OpSstore] @
     sload 101 @ [IPush 300, IOp OpSstore] @ sload 102 @ [IPush 302, IOp OpSstore]"

definition remove_instrs :: "instr list" where
  "remove_instrs =
     sload 101 @ req_nonzero @ sload 101 @ bal_slot 103 @ [IOp OpSload] @ req_lte @
     sload 2 @ sload 0 @ sload 101 @ [IOp OpMul, IOp OpDiv, IPush 200, IOp OpSstore] @
     sload 2 @ sload 1 @ sload 101 @ [IOp OpMul, IOp OpDiv, IPush 201, IOp OpSstore] @
     sload 200 @ sload 0 @ [IOp OpSub, IPush 0, IOp OpSstore] @
     sload 201 @ sload 1 @ [IOp OpSub, IPush 1, IOp OpSstore] @
     sload 101 @ sload 2 @ [IOp OpSub, IPush 2, IOp OpSstore] @
     sload 101 @ bal_slot 103 @ [IOp OpSload, IOp OpSub] @ bal_slot 103 @ [IOp OpSstore] @
     sload 200 @ [IPush 301, IOp OpSstore] @ sload 201 @ [IPush 303, IOp OpSstore]"

text \<open>The two swaps differ in the reserves (\<open>i\<close> of the token paid in, \<open>j\<close> of the token paid out) and in
  the settlement.\<close>

definition swap_instrs :: "uint64 \<Rightarrow> uint64 \<Rightarrow> instr list \<Rightarrow> instr list" where
  "swap_instrs i j settle =
     sload 101 @ req_nonzero @ sload 0 @ req_nonzero @ sload 1 @ req_nonzero @
     sload 101 @ sload 5 @ [IOp OpMul, IOp OpDup] @ sload i @ [IPush 1000, IOp OpMul, IOp OpAdd] @
     [IOp OpSwap] @ sload j @ [IOp OpMul, IOp OpDiv, IOp OpDup] @ req_nonzero @
     [IOp OpDup, IPush 200, IOp OpSstore] @
     sload j @ [IOp OpSub, IPush j, IOp OpSstore] @
     sload i @ sload 101 @ [IOp OpAdd, IPush i, IOp OpSstore] @ settle"

abbreviation settle_AB :: "instr list" where
  "settle_AB \<equiv> sload 101 @ [IPush 300, IOp OpSstore] @ sload 200 @ [IPush 303, IOp OpSstore]"
abbreviation settle_BA :: "instr list" where
  "settle_BA \<equiv> sload 200 @ [IPush 301, IOp OpSstore] @ sload 101 @ [IPush 302, IOp OpSstore]"

definition amm_sections :: "(uint64 \<times> instr list) list" where
  "amm_sections = [(1, add_instrs), (2, remove_instrs), (3, swap_instrs 0 1 settle_AB), (4, swap_instrs 1 0 settle_BA)]"

lemmas amm_instrs = add_instrs_def remove_instrs_def swap_instrs_def

lemma amm_code:
  "buildAddLiquidity = sec_code add_instrs" "buildRemoveLiquidity = sec_code remove_instrs"
  "buildSwapAForB = sec_code (swap_instrs 0 1 settle_AB)" "buildSwapBForA = sec_code (swap_instrs 1 0 settle_BA)"
  by (simp_all add: buildAddLiquidity_def buildRemoveLiquidity_def buildSwapAForB_def buildSwapBForA_def
      amm_instrs asm_code amm_consts)

lemma amm_sections_ok:
  "\<forall>s\<in>set amm_sections. list_all straight (snd s) \<and> length (snd s) \<le> MaxStackDepth \<and> cost (snd s) \<le> 60000"
  by (simp add: amm_sections_def amm_instrs MaxStackDepth_def GasCost_def)

lemma amm_build:
  "\<exists>L code. length (preamble_code 5 feeNumerator 3 tokenAID L) = L \<and> length code < 3500 \<and>
    BuildAMMContract feeNumerator tokenAID = Some code \<and>
    buildWithPreamble (preamble_code 5 feeNumerator 3 tokenAID L)
      (map (\<lambda>s. sec_code (snd s)) amm_sections) (map fst amm_sections) = Some code"
proof -
  let ?secs = "map (\<lambda>s. sec_code (snd s)) amm_sections"
  obtain L where L: "length (preamble_code 5 feeNumerator 3 tokenAID L) = L" "L < 100"
      "BuildAMMContract feeNumerator tokenAID = buildWithPreamble (preamble_code 5 feeNumerator 3 tokenAID L) ?secs (map fst amm_sections)"
    using preamble_converges [of 5 feeNumerator 3 tokenAID]
    by (auto simp: BuildAMMContract_def buildAMMPreamble_def amm_consts amm_code amm_sections_def)
  have len: "length (concat ?secs) < 3200"
    using length_encs [of add_instrs] length_encs [of remove_instrs] length_encs [of "swap_instrs 0 1 settle_AB"]
      length_encs [of "swap_instrs 1 0 settle_BA"]
    by (simp add: amm_sections_def) (simp add: amm_instrs)
  have sels: "\<forall>sel\<in>set (map fst amm_sections). unat sel < 256" "length (map fst amm_sections) \<le> 7"
      "length ?secs = length (map fst amm_sections)"
    by (simp_all add: amm_sections_def)
  have "length (preamble_code 5 feeNumerator 3 tokenAID L) < 100" "length (concat ?secs) < 60000" using L len by linarith+
  from contract_build [OF sels(3,2,1) this] obtain code where
    "buildWithPreamble (preamble_code 5 feeNumerator 3 tokenAID L) ?secs (map fst amm_sections) = Some code" "length code < 3500"
    using len by force
  then show ?thesis using L by metis
qed

section \<open>The operations on the slots\<close>

definition amm_init :: "uint64 \<Rightarrow> uint64 \<Rightarrow> (uint64 \<Rightarrow> uint64) \<Rightarrow> uint64 \<Rightarrow> uint64" where
  "amm_init feeNumerator tokenAID f = init_slots AMMSlotFeeNum feeNumerator AMMSlotTokenA tokenAID f"

text \<open>The amount paid out for the amount in slot 101, in machine arithmetic.\<close>

definition amm_denom :: "(uint64 \<Rightarrow> uint64) \<Rightarrow> uint64 \<Rightarrow> uint64" where
  "amm_denom f i = 1000 * f i + f AMMSlotFeeNum * f 101"

definition amm_out :: "(uint64 \<Rightarrow> uint64) \<Rightarrow> uint64 \<Rightarrow> uint64 \<Rightarrow> uint64" where
  "amm_out f i j = (f j * (f AMMSlotFeeNum * f 101)) div amm_denom f i"

text \<open>When a swap of token \<open>i\<close> for token \<open>j\<close> is accepted, and the slots it leaves.\<close>

definition swap_accepted :: "(uint64 \<Rightarrow> uint64) \<Rightarrow> uint64 \<Rightarrow> uint64 \<Rightarrow> bool" where
  "swap_accepted f i j \<longleftrightarrow> f 101 \<noteq> 0 \<and> f AMMSlotReserveA \<noteq> 0 \<and> f AMMSlotReserveB \<noteq> 0 \<and> amm_denom f i \<noteq> 0 \<and> amm_out f i j \<noteq> 0"

definition swap_slots :: "(uint64 \<Rightarrow> uint64) \<Rightarrow> uint64 \<Rightarrow> uint64 \<Rightarrow> uint64 \<Rightarrow> uint64 \<Rightarrow> uint64 \<Rightarrow> uint64" where
  "swap_slots f i j debit credit =
     f(200 := amm_out f i j, j := f j - amm_out f i j, i := f i + f 101, debit := f 101, credit := amm_out f i j)"

lemma swap_sems:
  "swap_accepted f 0 1 \<Longrightarrow> sems (swap_instrs 0 1 settle_AB) ([], f) = Inr ([], swap_slots f 0 1 300 303)"
  "swap_accepted f 1 0 \<Longrightarrow> sems (swap_instrs 1 0 settle_BA) ([], f) = Inr ([], swap_slots f 1 0 302 301)"
  "\<not> swap_accepted f 0 1 \<Longrightarrow> \<exists>e. sems (swap_instrs 0 1 settle_AB) ([], f) = Inl e"
  "\<not> swap_accepted f 1 0 \<Longrightarrow> \<exists>e. sems (swap_instrs 1 0 settle_BA) ([], f) = Inl e"
  by (auto simp: swap_accepted_def swap_slots_def amm_out_def amm_denom_def swap_instrs_def amm_consts)

definition add_slots :: "(uint64 \<Rightarrow> uint64) \<Rightarrow> uint64 \<Rightarrow> uint64" where
  "add_slots f = f(0 := f 0 + f 101, 1 := f 1 + f 102, 2 := f 2 + f 101,
     1000 + f 103 := f (1000 + f 103) + f 101, 300 := f 101, 302 := f 102)"

lemma add_sems:
  assumes "holder (f 103)"
  shows "f 101 \<noteq> 0 \<Longrightarrow> f 102 \<noteq> 0 \<Longrightarrow> sems add_instrs ([], f) = Inr ([], add_slots f)"
    and "f 101 = 0 \<or> f 102 = 0 \<Longrightarrow> \<exists>e. sems add_instrs ([], f) = Inl e"
  using holder_slot [OF assms, of 0] holder_slot [OF assms, of 1] holder_slot [OF assms, of 2]
    holder_slot [OF assms, of 101] holder_slot [OF assms, of 102]
  by (auto simp: add_instrs_def add_slots_def)

abbreviation share :: "(uint64 \<Rightarrow> uint64) \<Rightarrow> uint64 \<Rightarrow> uint64" where
  "share f i \<equiv> (f 101 * f i) div f 2"

definition remove_slots :: "(uint64 \<Rightarrow> uint64) \<Rightarrow> uint64 \<Rightarrow> uint64" where
  "remove_slots f = f(200 := share f 0, 201 := share f 1, 0 := f 0 - share f 0, 1 := f 1 - share f 1,
     2 := f 2 - f 101, 1000 + f 103 := f (1000 + f 103) - f 101, 301 := share f 0, 303 := share f 1)"

lemma remove_sems:
  assumes "holder (f 103)"
  shows "f 101 \<noteq> 0 \<Longrightarrow> f 101 \<le> f (1000 + f 103) \<Longrightarrow> f 2 \<noteq> 0 \<Longrightarrow> sems remove_instrs ([], f) = Inr ([], remove_slots f)"
    and "f 101 = 0 \<or> \<not> f 101 \<le> f (1000 + f 103) \<or> f 2 = 0 \<Longrightarrow> \<exists>e. sems remove_instrs ([], f) = Inl e"
  using holder_slot [OF assms, of 0] holder_slot [OF assms, of 1] holder_slot [OF assms, of 2]
    holder_slot [OF assms, of 200] holder_slot [OF assms, of 201]
  by (auto simp: remove_instrs_def remove_slots_def not_le not_less)

lemma amm_run:
  assumes "BuildAMMContract feeNumerator tokenAID = Some code" and "ctx_Code ctx = code" and "80000 \<le> ctx_GasLeft ctx"
  shows "run_gives (ctx_Target ctx) (Execute flat_acc ctx s)
    (call_sem amm_sections (amm_init feeNumerator tokenAID (slots_at (ctx_Target ctx) s)))"
proof -
  obtain L where L: "length (preamble_code 5 feeNumerator 3 tokenAID L) = L" "length code < 3500"
      "buildWithPreamble (preamble_code 5 feeNumerator 3 tokenAID L)
      (map (\<lambda>s. sec_code (snd s)) amm_sections) (map fst amm_sections) = Some code"
    using amm_build [of feeNumerator tokenAID] assms(1) by auto
  have gas: "init_cost + length amm_sections * entry_cost + 60000 \<le> unat (ctx_GasLeft ctx)"
    using assms(3) by (simp add: amm_sections_def GasCost_def word_le_nat_alt)
  have len: "length code < 2 ^ 32" using L(2) by simp
  show ?thesis
    unfolding amm_init_def amm_consts by (rule contract_run [OF L(3,1) len amm_sections_ok gas assms(2) refl])
qed

lemma amm_swap_run:
  assumes "BuildAMMContract feeNumerator tokenAID = Some code" and "ctx_Code ctx = code" and "80000 \<le> ctx_GasLeft ctx"
    and f: "f = amm_init feeNumerator tokenAID (slots_at (ctx_Target ctx) s)"
    and "(f 100, i, j, debit, credit) \<in> {(AMMFnSwapAForB, 0, 1, 300, 303), (AMMFnSwapBForA, 1, 0, 302, 301)}"
  shows "if swap_accepted f i j then run_gives (ctx_Target ctx) (Execute flat_acc ctx s) (Inr (swap_slots f i j debit credit))
    else \<exists>e. run_gives (ctx_Target ctx) (Execute flat_acc ctx s) (Inl e)"
  using amm_run [OF assms(1-3), of s] assms(5) swap_sems [of f]
  by (cases "swap_accepted f i j") (auto simp: f [symmetric] call_sem_def amm_sections_def amm_consts split: sum.splits)

section \<open>Arithmetic of a swap\<close>

lemma out_le:
  fixes x y n d :: nat
  assumes "0 < d" and "d = 1000 * x + n"
  shows "y * n div d \<le> y"
proof -
  have "y * n \<le> y * d" using assms(2) by simp
  then have "y * n div d \<le> y * d div d" by (rule div_le_mono)
  then show ?thesis using assms(1) by simp
qed

text \<open>With a fee numerator of at most 1000 the product of the reserves does not fall.\<close>

lemma product_grows:
  fixes x y fee dx :: nat
  assumes "fee \<le> 1000" and "0 < 1000 * x + fee * dx"
  shows "x * y \<le> (x + dx) * (y - y * (fee * dx) div (1000 * x + fee * dx))"
proof -
  let ?d = "1000 * x + fee * dx"
  let ?out = "y * (fee * dx) div ?d"
  have le: "?out \<le> y" using out_le [of ?d x "fee * dx" y] assms(2) by simp
  have "?out * ?d \<le> y * (fee * dx)" by (rule div_times_less_eq_dividend)
  then have "1000 * (?out * x) + fee * (?out * dx) \<le> fee * (y * dx)" by (simp add: algebra_simps)
  then have "1000 * (?out * x) \<le> fee * ((y - ?out) * dx)" by (simp add: diff_mult_distrib algebra_simps)
  also have "\<dots> \<le> 1000 * ((y - ?out) * dx)" using assms(1) by (rule mult_le_mono1)
  finally have "?out * x \<le> (y - ?out) * dx" by simp
  moreover have "x * y = x * (y - ?out) + x * ?out" using le by (simp flip: distrib_left)
  moreover have "(x + dx) * (y - ?out) = x * (y - ?out) + (y - ?out) * dx" by (simp add: distrib_right mult.commute)
  ultimately show ?thesis by (simp only: mult.commute [of x ?out])
qed

lemma amm_out_unat:
  assumes "1000 * unat (f i) + unat (f 5) * unat (f 101) < 2 ^ 64" and "unat (f j) * (unat (f 5) * unat (f 101)) < 2 ^ 64"
  shows "unat (amm_denom f i) = 1000 * unat (f i) + unat (f 5) * unat (f 101)"
    and "unat (amm_out f i j) = unat (f j) * (unat (f 5) * unat (f 101)) div (1000 * unat (f i) + unat (f 5) * unat (f 101))"
proof -
  have m: "unat (f 5 * f 101) = unat (f 5) * unat (f 101)" using assms(1) by (simp add: unat_word_ariths)
  have "unat (1000 * f i) = 1000 * unat (f i)" using assms(1) by (simp add: unat_word_ariths)
  then show d: "unat (amm_denom f i) = 1000 * unat (f i) + unat (f 5) * unat (f 101)"
    using assms(1) m by (simp add: amm_denom_def amm_consts unat_word_ariths)
  have "unat (f j * (f 5 * f 101)) = unat (f j) * (unat (f 5) * unat (f 101))"
    using assms(2) m by (simp add: unat_word_ariths)
  then show "unat (amm_out f i j) = unat (f j) * (unat (f 5) * unat (f 101)) div (1000 * unat (f i) + unat (f 5) * unat (f 101))"
    using d by (simp add: amm_out_def amm_consts unat_div_distrib)
qed

section \<open>Properties\<close>

text \<open>C22: a swap in either direction returns, and succeeds exactly when the input, both reserves, the
  denominator and the output are not zero; then it moves the reserves by the input and the output and
  records both for the settlement. If nothing overflows and the fee numerator is at most 1000, the
  output is below the reserve it is paid from and the product of the reserves does not fall.\<close>

theorem amm_swap_keeps_product:
  assumes "BuildAMMContract feeNumerator tokenAID = Some code" and "ctx_Code ctx = code" and "80000 \<le> ctx_GasLeft ctx"
    and f: "f = amm_init feeNumerator tokenAID (slots_at (ctx_Target ctx) s)"
    and dir: "(f 100, i, j, debit, credit) \<in> {(AMMFnSwapAForB, 0, 1, 300, 303), (AMMFnSwapBForA, 1, 0, 302, 301)}"
  shows "\<exists>r s'. Execute flat_acc ctx s = Some (r, s') \<and> (er_Success r \<longleftrightarrow> swap_accepted f i j) \<and>
    (er_Success r \<longrightarrow> slots_at (ctx_Target ctx) s' = swap_slots f i j debit credit) \<and>
    (er_Success r \<and> unat (f AMMSlotFeeNum) \<le> 1000 \<and> unat (f i) + unat (f 101) < 2 ^ 64 \<and>
      1000 * unat (f i) + unat (f AMMSlotFeeNum) * unat (f 101) < 2 ^ 64 \<and>
      unat (f j) * (unat (f AMMSlotFeeNum) * unat (f 101)) < 2 ^ 64 \<longrightarrow>
      amm_out f i j < f j \<and>
      unat (f i) * unat (f j) \<le> unat (slots_at (ctx_Target ctx) s' i) * unat (slots_at (ctx_Target ctx) s' j))"
proof -
  note run = amm_swap_run [OF assms]
  have ij: "i \<in> {0, 1}" "j \<in> {0, 1}" "i \<noteq> j" "debit \<notin> {0, 1}" "credit \<notin> {0, 1}" using dir by auto
  have arith: "amm_out f i j < f j \<and> unat (f i) * unat (f j) \<le> unat (swap_slots f i j debit credit i) * unat (swap_slots f i j debit credit j)"
    if acc: "swap_accepted f i j" and b: "unat (f AMMSlotFeeNum) \<le> 1000" "unat (f i) + unat (f 101) < 2 ^ 64"
      "1000 * unat (f i) + unat (f AMMSlotFeeNum) * unat (f 101) < 2 ^ 64" "unat (f j) * (unat (f AMMSlotFeeNum) * unat (f 101)) < 2 ^ 64"
  proof -
    have nz: "f i \<noteq> 0" "f j \<noteq> 0" using acc ij by (auto simp: swap_accepted_def amm_consts)
    then have pos: "0 < unat (f i)" "0 < unat (f j)" by (simp_all add: unat_gt_0)
    note o = amm_out_unat [of f i j] b(3,4) [unfolded amm_consts]
    let ?n = "unat (f 5) * unat (f 101)"
    have "unat (f j) * ?n < unat (f j) * (1000 * unat (f i) + ?n)" using pos by simp
    then have "unat (f j) * ?n div (1000 * unat (f i) + ?n) < unat (f j)" by (rule less_mult_imp_div_less)
    then have lt: "unat (amm_out f i j) < unat (f j)" using o by simp
    have "unat (f i) * unat (f j) \<le> (unat (f i) + unat (f 101)) * (unat (f j) - unat (amm_out f i j))"
      using product_grows [of "unat (f 5)" "unat (f i)" "unat (f 101)" "unat (f j)"] b(1) pos o by (simp add: amm_consts)
    moreover have "unat (f i + f 101) = unat (f i) + unat (f 101)" using b(2) by (simp add: unat_word_ariths)
    moreover have "unat (f j - amm_out f i j) = unat (f j) - unat (amm_out f i j)"
      using lt by (intro unat_sub_le) (simp add: word_le_nat_alt)
    ultimately show ?thesis using lt ij by (auto simp: swap_slots_def word_less_nat_alt)
  qed
  show ?thesis
  proof (cases "swap_accepted f i j")
    case True
    then obtain r s' where "Execute flat_acc ctx s = Some (r, s')" "er_Success r"
        "slots_at (ctx_Target ctx) s' = swap_slots f i j debit credit"
      using run by (auto simp: run_gives_def)
    then show ?thesis using True arith by metis
  next
    case False
    then show ?thesis using run by (auto simp: run_gives_def)
  qed
qed

text \<open>An initialised pool of 1000 units of each token whose liquidity belongs to account 9; account 8
  calls.\<close>

definition sample_pool :: "uint64 \<Rightarrow> uint64 \<Rightarrow> uint64 \<Rightarrow> uint64 \<Rightarrow> uint64" where
  "sample_pool fn arg1 arg2 =
     (\<lambda>k. 0)(0 := 1000, 1 := 1000, 2 := 1000, 3 := 77, 5 := 997, 103 := 8, 1009 := 1000, 100 := fn, 101 := arg1, 102 := arg2)"

lemma sample_pool_slots:
  "sample_pool a b c 0 = 1000" "sample_pool a b c 1 = 1000" "sample_pool a b c 2 = 1000" "sample_pool a b c 5 = 997"
  "sample_pool a b c 103 = 8" "sample_pool a b c 1008 = 0" "sample_pool a b c 100 = a" "sample_pool a b c 101 = b"
  "sample_pool a b c 102 = c"
  by (simp_all add: sample_pool_def)

lemma amm_init_pool: "f 5 \<noteq> 0 \<Longrightarrow> amm_init 997 77 f = f"
  by (simp add: amm_init_def init_slots_def amm_consts)

theorem amm_swap_keeps_product_witness:
  "\<exists>code r s'. BuildAMMContract 997 77 = Some code \<and>
     Execute flat_acc (ctx_of code 90000) (slots_state (sample_pool 3 100 0)) = Some (r, s') \<and> er_Success r \<and>
     unat (1000 :: uint64) * unat (1000 :: uint64) \<le> unat (slots_at 2 s' 0) * unat (slots_at 2 s' 1)"
proof -
  obtain code where code: "BuildAMMContract 997 77 = Some code" using amm_build by blast
  let ?f = "sample_pool 3 100 0"
  have ok: "swap_accepted ?f 0 1"
    by (simp add: swap_accepted_def amm_out_def amm_denom_def amm_consts sample_pool_slots)
  have f: "?f = amm_init 997 77 (slots_at (ctx_Target (ctx_of code 90000)) (slots_state ?f))"
    by (simp add: amm_init_pool sample_pool_slots)
  have d: "(?f 100, 0, 1, 300, 303) \<in> {(AMMFnSwapAForB, 0 :: uint64, 1 :: uint64, 300 :: uint64, 303 :: uint64),
      (AMMFnSwapBForA, 1, 0, 302, 301)}" by (simp add: amm_consts sample_pool_slots)
  have "ctx_Code (ctx_of code 90000) = code" "80000 \<le> ctx_GasLeft (ctx_of code 90000)" by (simp_all add: ctx_of_def)
  from amm_swap_keeps_product [where i = 0 and j = 1 and debit = 300 and credit = 303, OF code this f d] ok
  show ?thesis using code by (auto simp: amm_consts sample_pool_slots ctx_of_def)
qed

section \<open>Liquidity\<close>

lemma amm_liquidity_run:
  assumes "BuildAMMContract feeNumerator tokenAID = Some code" and "ctx_Code ctx = code" and "80000 \<le> ctx_GasLeft ctx"
    and f: "f = amm_init feeNumerator tokenAID (slots_at (ctx_Target ctx) s)" and "holder (f 103)"
  shows "f 100 = AMMFnAddLiquidity \<Longrightarrow> f 101 \<noteq> 0 \<Longrightarrow> f 102 \<noteq> 0 \<Longrightarrow>
      run_gives (ctx_Target ctx) (Execute flat_acc ctx s) (Inr (add_slots f))"
    and "f 100 = AMMFnAddLiquidity \<Longrightarrow> f 101 = 0 \<or> f 102 = 0 \<Longrightarrow> \<exists>e. run_gives (ctx_Target ctx) (Execute flat_acc ctx s) (Inl e)"
    and "f 100 = AMMFnRemoveLiquidity \<Longrightarrow> f 101 \<noteq> 0 \<Longrightarrow> f 101 \<le> f (1000 + f 103) \<Longrightarrow> f 2 \<noteq> 0 \<Longrightarrow>
      run_gives (ctx_Target ctx) (Execute flat_acc ctx s) (Inr (remove_slots f))"
    and "f 100 = AMMFnRemoveLiquidity \<Longrightarrow> f 101 = 0 \<or> \<not> f 101 \<le> f (1000 + f 103) \<or> f 2 = 0 \<Longrightarrow>
      \<exists>e. run_gives (ctx_Target ctx) (Execute flat_acc ctx s) (Inl e)"
  using amm_run [OF assms(1-3), of s] add_sems [of f, OF assms(5)] remove_sems [of f, OF assms(5)]
  by (auto simp: f [symmetric] call_sem_def amm_sections_def amm_consts)

text \<open>The liquidity shares are backed: a successful call of any function keeps the difference between
  the shares of the accounts and the total share supply (modulo \<open>2 ^ 64\<close>), for any finite set of accounts
  with the caller; swaps change neither.\<close>

theorem amm_shares_backed:
  assumes "BuildAMMContract feeNumerator tokenAID = Some code" and "ctx_Code ctx = code" and "80000 \<le> ctx_GasLeft ctx"
    and f: "f = amm_init feeNumerator tokenAID (slots_at (ctx_Target ctx) s)"
    and "finite H" and "\<forall>h\<in>H. holder h" and "f 103 \<in> H"
    and "Execute flat_acc ctx s = Some (r, s')" and "er_Success r"
  shows "held H (slots_at (ctx_Target ctx) s') - slots_at (ctx_Target ctx) s' AMMSlotLPSupply =
    held H (slots_at (ctx_Target ctx) s) - slots_at (ctx_Target ctx) s AMMSlotLPSupply"
proof -
  let ?g = "slots_at (ctx_Target ctx) s'"
  have h: "holder (f 103)" using assms(6,7) by blast
  note liq = amm_liquidity_run [OF assms(1-4) h]
  have out: "?g = g" if "run_gives (ctx_Target ctx) (Execute flat_acc ctx s) (Inr g)" for g
    using that assms(8) by (auto simp: run_gives_def)
  have no: "\<not> run_gives (ctx_Target ctx) (Execute flat_acc ctx s) (Inl e)" for e
    using assms(8,9) by (auto simp: run_gives_def)
  have swap: "?g = swap_slots f i j debit credit"
    if "(f 100, i, j, debit, credit) \<in> {(AMMFnSwapAForB, 0, 1, 300, 303), (AMMFnSwapBForA, 1, 0, 302, 301)}" for i j debit credit
    using amm_swap_run [OF assms(1-4) that] no by (auto intro: out split: if_splits)
  have init: "held H f = held H (slots_at (ctx_Target ctx) s)" "f 2 = slots_at (ctx_Target ctx) s 2"
    using assms(6) by (simp_all add: f amm_init_def init_slots_def amm_consts held_low)
  note low = held_low [OF assms(6)] and up = held_upd [OF assms(5,7)] and nes = holder_slot [OF h, of 2]
  consider "f 100 = AMMFnAddLiquidity" | "f 100 = AMMFnRemoveLiquidity" | "f 100 = AMMFnSwapAForB" | "f 100 = AMMFnSwapBForA" |
    "f 100 \<notin> {AMMFnAddLiquidity, AMMFnRemoveLiquidity, AMMFnSwapAForB, AMMFnSwapBForA}" by blast
  then have "held H ?g - ?g 2 = held H f - f 2"
  proof cases
    case 1
    then have "?g = add_slots f" using liq(1,2) no out by blast
    then show ?thesis using nes holder_slot [OF h, of 0] holder_slot [OF h, of 1] by (simp add: add_slots_def low up token_balance_def token_consts)
  next
    case 2
    then have "?g = remove_slots f" using liq(3,4) no out by blast
    then show ?thesis
      using nes holder_slot [OF h, of 0] holder_slot [OF h, of 1] holder_slot [OF h, of 200] holder_slot [OF h, of 201]
      by (simp add: remove_slots_def low up token_balance_def token_consts)
  next
    case 3
    then have "?g = swap_slots f 0 1 300 303" by (intro swap) simp
    then show ?thesis by (simp add: swap_slots_def low)
  next
    case 4
    then have "?g = swap_slots f 1 0 302 301" by (intro swap) simp
    then show ?thesis by (simp add: swap_slots_def low)
  next
    case 5
    then have "?g = f" using amm_run [OF assms(1-3), of s] by (intro out) (simp add: f [symmetric] call_sem_def amm_sections_def amm_consts)
    then show ?thesis by simp
  qed
  then show ?thesis using init by (simp add: amm_consts)
qed

lemma sample_add:
  assumes "BuildAMMContract 997 77 = Some code"
  shows "\<exists>r s'. Execute flat_acc (ctx_of code 90000) (slots_state (sample_pool 1 1000 1)) = Some (r, s') \<and>
    er_Success r \<and> slots_at 2 s' = add_slots (sample_pool 1 1000 1)"
  using amm_liquidity_run(1) [OF assms, of "ctx_of code 90000" "sample_pool 1 1000 1" "slots_state (sample_pool 1 1000 1)"]
  by (auto simp: ctx_of_def amm_init_pool sample_pool_slots sample_holder amm_consts run_gives_def)

theorem amm_shares_backed_witness:
  "\<exists>code r s'. BuildAMMContract 997 77 = Some code \<and>
     Execute flat_acc (ctx_of code 90000) (slots_state (sample_pool 1 1000 1)) = Some (r, s') \<and>
     held {8, 9} (slots_at 2 s') = slots_at 2 s' AMMSlotLPSupply"
proof -
  obtain code where code: "BuildAMMContract 997 77 = Some code" using amm_build by blast
  let ?f = "sample_pool 1 1000 1" and ?c = "ctx_of code 90000"
  obtain r s' where run: "Execute flat_acc ?c (slots_state ?f) = Some (r, s')" "er_Success r" using sample_add [OF code] by blast
  have "held {8, 9} (slots_at (ctx_Target ?c) s') - slots_at (ctx_Target ?c) s' AMMSlotLPSupply =
      held {8, 9} (slots_at (ctx_Target ?c) (slots_state ?f)) - slots_at (ctx_Target ?c) (slots_state ?f) AMMSlotLPSupply"
    by (rule amm_shares_backed [where f = ?f, OF code _ _ _ _ _ _ run])
      (simp_all add: ctx_of_def amm_init_pool sample_pool_slots sample_holder)
  then have "held {8, 9} (slots_at 2 s') = slots_at 2 s' AMMSlotLPSupply"
    by (simp add: ctx_of_def held_def token_balance_def token_consts amm_consts sample_pool_def)
  then show ?thesis using code run by blast
qed

text \<open>Shares are issued for the amount of token A alone: in a pool of 1000 units of each token, account
  8 deposits 1000 units of A with one unit of B, redeems its shares, and is paid 1000 units of A and 500
  units of B.\<close>

theorem amm_one_sided_deposit_profits:
  "\<exists>code r s r' s'. BuildAMMContract 997 77 = Some code \<and>
     Execute flat_acc (ctx_of code 90000) (slots_state (sample_pool 1 1000 1)) = Some (r, s) \<and> er_Success r \<and>
     slots_at 2 s AMMSlotSettleDebitA = 1000 \<and> slots_at 2 s AMMSlotSettleDebitB = 1 \<and>
     Execute flat_acc (ctx_of code 90000) (slots_state ((slots_at 2 s)(100 := 2, 101 := 1000))) = Some (r', s') \<and> er_Success r' \<and>
     slots_at 2 s' AMMSlotSettleCreditA = 1000 \<and> slots_at 2 s' AMMSlotSettleCreditB = 500"
proof -
  obtain code where code: "BuildAMMContract 997 77 = Some code" using amm_build by blast
  let ?c = "ctx_of code 90000"
  obtain r s where 1: "Execute flat_acc ?c (slots_state (sample_pool 1 1000 1)) = Some (r, s)" "er_Success r"
      "slots_at 2 s = add_slots (sample_pool 1 1000 1)" using sample_add [OF code] by blast
  let ?f = "(add_slots (sample_pool 1 1000 1))(100 := 2, 101 := 1000)"
  have f: "?f 0 = 2000" "?f 1 = 1001" "?f 2 = 2000" "?f 5 = 997" "?f 100 = 2" "?f 101 = 1000" "?f 103 = 8" "?f 1008 = 1000"
    by (simp_all add: add_slots_def sample_pool_slots)
  have "run_gives (ctx_Target ?c) (Execute flat_acc ?c (slots_state ?f)) (Inr (remove_slots ?f))"
    using f by (intro amm_liquidity_run(3) [OF code]) (simp_all add: ctx_of_def amm_init_pool sample_holder amm_consts del: fun_upd_apply)
  then obtain r' s' where 2: "Execute flat_acc ?c (slots_state ?f) = Some (r', s')" "er_Success r'" "slots_at 2 s' = remove_slots ?f"
    by (auto simp: run_gives_def ctx_of_def)
  have "remove_slots ?f 301 = 1000" "remove_slots ?f 303 = 500"
    by (simp_all add: remove_slots_def add_slots_def sample_pool_slots)
  moreover have "add_slots (sample_pool 1 1000 1) 300 = 1000" "add_slots (sample_pool 1 1000 1) 302 = 1"
    by (simp_all add: add_slots_def sample_pool_slots)
  ultimately show ?thesis using code 1 2 unfolding amm_consts by metis
qed

end
