(* ===== verification/Tyl_Miner.thy ===== *)
theory Tyl_Miner
  imports Tyl_Crypto
begin

text \<open>
  The miner of \<open>internal/miner/miner.go\<close>: the search for the nonce whose attestation hash is closest to
  the state root, the signed checkpoint built from it, and the comparison of attestations. The nonces
  that the random source delivers before the context is cancelled are an argument; a read that fails is
  \<open>None\<close> and skipped, as in the loop.
\<close>

section \<open>Keys\<close>

text \<open>The two operations on keys of the third-party curve package: the compressed public key of a
  private key, and whether 33 bytes are a public key. A parsed key is kept in its compressed form.\<close>

record curve =
  PubKey :: "bytes \<Rightarrow> 264 word"
  ParsePubKey :: "bytes \<Rightarrow> bool"

definition PrivateKeyFromBytes :: "bytes \<Rightarrow> bytes option" where
  "PrivateKeyFromBytes b = (if length b \<noteq> 32 then None else Some b)"

definition CompressedBytes :: "264 word \<Rightarrow> bytes" where
  "CompressedBytes pub = be_bytes 33 pub"

definition PublicKey_Address :: "extern \<Rightarrow> 264 word \<Rightarrow> address" where
  "PublicKey_Address x pub = PubKeyToAddress (sha256 x) (ripemd160 x) (CompressedBytes pub)"

definition DecompressPubKey :: "curve \<Rightarrow> bytes \<Rightarrow> (264 word) option" where
  "DecompressPubKey c data = (if ParsePubKey c data then Some (be_word data) else None)"

section \<open>Attestations\<close>

text \<open>The distance of two hashes as a number.\<close>

definition Distance :: "hash256 \<Rightarrow> hash256 \<Rightarrow> nat" where
  "Distance a b = unat (a XOR b)"

fun bytes_Compare :: "bytes \<Rightarrow> bytes \<Rightarrow> int" where
  "bytes_Compare [] [] = 0"
| "bytes_Compare [] (b # bs) = -1"
| "bytes_Compare (a # as) [] = 1"
| "bytes_Compare (a # as) (b # bs) = (if a < b then -1 else if b < a then 1 else bytes_Compare as bs)"

definition big_Cmp :: "nat \<Rightarrow> nat \<Rightarrow> int" where
  "big_Cmp a b = (if a < b then -1 else if b < a then 1 else 0)"

definition CompareAttestations :: "checkpoint \<Rightarrow> checkpoint \<Rightarrow> hash256 \<Rightarrow> int" where
  "CompareAttestations a b stateRoot =
     (let distA = Distance (cp_AttestationHash a) stateRoot;
          distB = Distance (cp_AttestationHash b) stateRoot;
          cmp = big_Cmp distA distB
      in if cmp \<noteq> 0 then cmp
         else bytes_Compare (be_bytes 33 (cp_MinerPubKey a)) (be_bytes 33 (cp_MinerPubKey b)))"

definition checkpointSigningHash :: "extern \<Rightarrow> checkpoint \<Rightarrow> hash256" where
  "checkpointSigningHash x cp =
     DoubleSha256 (sha256 x)
       (hash_bytes (cp_StateRoot cp) @ hash_bytes (cp_PrevChecksum cp) @ be_bytes 32 (cp_MinerNonce cp) @
        hash_bytes (cp_AttestationHash cp) @ be_bytes 33 (cp_MinerPubKey cp))"

definition attestation :: "extern \<Rightarrow> 256 word \<Rightarrow> hash256 \<Rightarrow> hash256" where
  "attestation x nonce stateRoot = sha256 x (be_bytes 32 nonce @ hash_bytes stateRoot)"

section \<open>Mining\<close>

datatype mine_error = MineCancelled | MineSign "der_error option"

definition buildCheckpoint ::
  "extern \<Rightarrow> curve \<Rightarrow> bytes \<Rightarrow> hash256 \<Rightarrow> hash256 \<Rightarrow> 256 word \<Rightarrow> hash256 \<Rightarrow> mine_error + checkpoint" where
  "buildCheckpoint x c key stateRoot prevChecksum nonce attestHash =
     (let cp = \<lparr>cp_StateRoot = stateRoot, cp_PrevChecksum = prevChecksum, cp_TxRoot = 0, cp_GasCollected = 0,
                cp_MinerPubKey = PubKey c key, cp_MinerNonce = nonce, cp_AttestationHash = attestHash, cp_Signature = 0\<rparr>
      in case Sign x (checkpointSigningHash x cp) key of
           Inl e \<Rightarrow> Inl (MineSign e)
         | Inr sig \<Rightarrow> Inr (cp\<lparr>cp_Signature := sig\<rparr>))"

record search =
  s_Nonce :: "256 word"
  s_Hash :: hash256
  s_Dist :: nat
  s_found :: bool

fun mine_loop :: "extern \<Rightarrow> hash256 \<Rightarrow> (256 word) option list \<Rightarrow> search \<Rightarrow> search" where
  "mine_loop x stateRoot [] b = b"
| "mine_loop x stateRoot (None # reads) b = mine_loop x stateRoot reads b"
| "mine_loop x stateRoot (Some nonce # reads) b =
     (let candidate = attestation x nonce stateRoot;
          dist = Distance candidate stateRoot
      in mine_loop x stateRoot reads
           (if dist < s_Dist b then \<lparr>s_Nonce = nonce, s_Hash = candidate, s_Dist = dist, s_found = True\<rparr> else b))"

text \<open>32 bytes \<open>0xFF\<close> as a number.\<close>

definition maxDistance :: nat where "maxDistance = 2 ^ 256 - 1"

definition mine_search :: "extern \<Rightarrow> (256 word) option list \<Rightarrow> hash256 \<Rightarrow> search" where
  "mine_search x reads stateRoot =
     mine_loop x stateRoot reads \<lparr>s_Nonce = 0, s_Hash = 0, s_Dist = maxDistance, s_found = False\<rparr>"

definition Mine ::
  "extern \<Rightarrow> curve \<Rightarrow> bytes \<Rightarrow> (256 word) option list \<Rightarrow> hash256 \<Rightarrow> hash256 \<Rightarrow> mine_error + checkpoint" where
  "Mine x c key reads stateRoot prevChecksum =
     (let b = mine_search x reads stateRoot
      in if \<not> s_found b then Inl MineCancelled
         else buildCheckpoint x c key stateRoot prevChecksum (s_Nonce b) (s_Hash b))"

section \<open>The search finds the closest nonce\<close>

definition tried :: "(256 word) option list \<Rightarrow> 256 word set" where
  "tried reads = {n. Some n \<in> set reads}"

abbreviation ndist :: "extern \<Rightarrow> hash256 \<Rightarrow> 256 word \<Rightarrow> nat" where
  "ndist x root n \<equiv> Distance (attestation x n root) root"

text \<open>What the loop knows after some reads, starting from the distance \<open>d0\<close>.\<close>

definition search_ok :: "extern \<Rightarrow> hash256 \<Rightarrow> 256 word set \<Rightarrow> nat \<Rightarrow> search \<Rightarrow> bool" where
  "search_ok x root N d0 b \<longleftrightarrow>
     (if s_found b then s_Nonce b \<in> N \<and> s_Hash b = attestation x (s_Nonce b) root \<and> s_Dist b = ndist x root (s_Nonce b) \<and> s_Dist b < d0
      else s_Dist b = d0) \<and> (\<forall>n\<in>N. s_Dist b \<le> ndist x root n)"

lemma mine_loop_ok: "search_ok x root N d0 b \<Longrightarrow> search_ok x root (N \<union> tried reads) d0 (mine_loop x root reads b)"
proof (induction reads arbitrary: b N)
  case (Cons r reads)
  show ?case
  proof (cases r)
    case None
    then have "tried (r # reads) = tried reads" by (simp add: tried_def)
    then show ?thesis using Cons None by simp
  next
    case (Some n)
    let ?b = "if ndist x root n < s_Dist b
      then \<lparr>s_Nonce = n, s_Hash = attestation x n root, s_Dist = ndist x root n, s_found = True\<rparr> else b"
    have "search_ok x root (insert n N) d0 ?b"
      using Cons.prems by (auto simp: search_ok_def split: if_splits)
    from Cons.IH [OF this] have "search_ok x root (insert n N \<union> tried reads) d0 (mine_loop x root (r # reads) b)"
      by (simp add: Some Let_def)
    moreover have "N \<union> tried (r # reads) = insert n N \<union> tried reads" by (auto simp: Some tried_def)
    ultimately show ?thesis by simp
  qed
qed (simp add: tried_def)

lemma Distance_max: "Distance a b \<le> maxDistance"
proof -
  have "unat (a XOR b) < 2 ^ LENGTH(256)" by (rule unsigned_less)
  then show ?thesis by (simp add: Distance_def maxDistance_def)
qed

lemma mine_search_cases:
  fixes x root reads
  defines "b \<equiv> mine_search x reads root"
  shows "s_found b \<longleftrightarrow> (\<exists>n\<in>tried reads. ndist x root n < maxDistance)"
    and "s_found b \<Longrightarrow> s_Nonce b \<in> tried reads \<and> s_Hash b = attestation x (s_Nonce b) root \<and>
      (\<forall>n\<in>tried reads. ndist x root (s_Nonce b) \<le> ndist x root n)"
proof -
  have "search_ok x root {} maxDistance \<lparr>s_Nonce = 0, s_Hash = 0, s_Dist = maxDistance, s_found = False\<rparr>"
    by (simp add: search_ok_def)
  from mine_loop_ok [OF this, of reads] have ok: "search_ok x root (tried reads) maxDistance b"
    by (simp add: b_def mine_search_def)
  show "s_found b \<longleftrightarrow> (\<exists>n\<in>tried reads. ndist x root n < maxDistance)"
    using ok unfolding search_ok_def by (cases "s_found b") (auto simp: not_less)
  show "s_found b \<Longrightarrow> s_Nonce b \<in> tried reads \<and> s_Hash b = attestation x (s_Nonce b) root \<and>
      (\<forall>n\<in>tried reads. ndist x root (s_Nonce b) \<le> ndist x root n)"
    using ok unfolding search_ok_def by auto
qed

lemma mine_cp:
  assumes "Mine x c key reads stateRoot prevChecksum = Inr cp"
  shows "cp_StateRoot cp = stateRoot" "cp_PrevChecksum cp = prevChecksum"
    "cp_AttestationHash cp = attestation x (cp_MinerNonce cp) stateRoot" "cp_MinerPubKey cp = PubKey c key"
    "Sign x (checkpointSigningHash x cp) key = Inr (cp_Signature cp)"
  using assms mine_search_cases(2) [of x reads stateRoot]
  by (auto simp: Mine_def buildCheckpoint_def Let_def checkpointSigningHash_def split: if_splits sum.splits)

text \<open>Mining returns an error only when no nonce was tried that is closer than the maximal distance,
  or when signing fails; otherwise it returns a checkpoint for the state root with the correct
  attestation hash of a tried nonce, and no nonce that was tried is closer to the state root.\<close>

theorem mine_finds_best:
  "case Mine x c key reads stateRoot prevChecksum of
     Inl MineCancelled \<Rightarrow> \<forall>n\<in>tried reads. Distance (attestation x n stateRoot) stateRoot = maxDistance
   | Inl (MineSign e) \<Rightarrow> \<exists>h. Sign x h key = Inl e
   | Inr cp \<Rightarrow> cp_StateRoot cp = stateRoot \<and> cp_PrevChecksum cp = prevChecksum \<and> cp_MinerNonce cp \<in> tried reads \<and>
       cp_AttestationHash cp = attestation x (cp_MinerNonce cp) stateRoot \<and>
       (\<forall>n\<in>tried reads. Distance (cp_AttestationHash cp) stateRoot \<le> Distance (attestation x n stateRoot) stateRoot) \<and>
       Sign x (checkpointSigningHash x cp) key = Inr (cp_Signature cp)"
proof (cases "s_found (mine_search x reads stateRoot)")
  case False
  have "ndist x stateRoot n = maxDistance" if "n \<in> tried reads" for n
    using mine_search_cases(1) [of x reads stateRoot] False that Distance_max [of "attestation x n stateRoot" stateRoot]
    by (meson le_neq_implies_less)
  then show ?thesis using False by (simp add: Mine_def)
next
  case True
  from mine_search_cases(2) [OF True] True show ?thesis
    by (auto simp: Mine_def buildCheckpoint_def Let_def checkpointSigningHash_def split: sum.split)
qed

section \<open>The order of attestations\<close>

lemma bytes_Compare_zero: "bytes_Compare a b = 0 \<longleftrightarrow> a = b"
  by (induction a b rule: bytes_Compare.induct) auto

lemma bytes_Compare_flip: "bytes_Compare b a = - bytes_Compare a b"
  by (induction a b rule: bytes_Compare.induct) auto

lemma bytes_Compare_trans: "bytes_Compare a b < 0 \<Longrightarrow> bytes_Compare b c < 0 \<Longrightarrow> bytes_Compare a c < 0"
proof (induction a b arbitrary: c rule: bytes_Compare.induct)
  case (4 a as b bs)
  then show ?case by (cases c) (auto split: if_splits)
next
  case (2 b bs)
  then show ?case by (cases c) simp_all
qed simp_all

lemma Compare_flip: "CompareAttestations b a root = - CompareAttestations a b root"
  by (auto simp: CompareAttestations_def Let_def big_Cmp_def bytes_Compare_flip
      [of "be_bytes 33 (cp_MinerPubKey b)" "be_bytes 33 (cp_MinerPubKey a)"])

lemma xor_cancel: "a XOR r = b XOR r \<longleftrightarrow> a = (b :: hash256)"
proof
  assume "a XOR r = b XOR r"
  then have "(a XOR r) XOR r = (b XOR r) XOR r" by (rule arg_cong)
  then show "a = b" by (simp only: xor.assoc xor_self_eq) simp
qed simp

lemma Compare_zero:
  "CompareAttestations a b root = 0 \<longleftrightarrow>
     cp_AttestationHash a = cp_AttestationHash b \<and> cp_MinerPubKey a = cp_MinerPubKey b"
proof -
  define pa pb where "pa = be_bytes 33 (cp_MinerPubKey a)" and "pb = be_bytes 33 (cp_MinerPubKey b)"
  have d: "Distance (cp_AttestationHash a) root = Distance (cp_AttestationHash b) root \<longleftrightarrow> cp_AttestationHash a = cp_AttestationHash b"
    by (simp add: Distance_def xor_cancel flip: word_unat_eq_iff)
  have p: "pa = pb \<longleftrightarrow> cp_MinerPubKey a = cp_MinerPubKey b"
    unfolding pa_def pb_def by (rule be_bytes_inject) simp
  show ?thesis
    unfolding CompareAttestations_def Let_def pa_def [symmetric] pb_def [symmetric]
    using d p by (auto simp: big_Cmp_def bytes_Compare_zero)
qed

lemma Compare_trans:
  "CompareAttestations a b root < 0 \<Longrightarrow> CompareAttestations b c root < 0 \<Longrightarrow> CompareAttestations a c root < 0"
proof -
  define pa pb pc where "pa = be_bytes 33 (cp_MinerPubKey a)" and "pb = be_bytes 33 (cp_MinerPubKey b)"
    and "pc = be_bytes 33 (cp_MinerPubKey c)"
  show "CompareAttestations a b root < 0 \<Longrightarrow> CompareAttestations b c root < 0 \<Longrightarrow> CompareAttestations a c root < 0"
    unfolding CompareAttestations_def Let_def pa_def [symmetric] pb_def [symmetric] pc_def [symmetric]
    using bytes_Compare_trans [of pa pb pc] by (simp add: big_Cmp_def split: if_splits)
qed

text \<open>A miner whose hash function forgets its argument and whose signatures are constant.\<close>

definition sample_miner :: extern where
  "sample_miner = \<lparr>sha256 = (\<lambda>_. 7), ripemd160 = (\<lambda>_. 5), RecoverCompact = (\<lambda>_ _. None),
     ecdsa_Sign = (\<lambda>_ _. Some ([0x30, 68, 2, 32] @ replicate 32 1 @ [2, 32] @ replicate 32 1)), ecdsa_VerifyDER = (\<lambda>_ _ _. True)\<rparr>"

definition sample_curve :: curve where
  "sample_curve = \<lparr>PubKey = (\<lambda>_. 3), ParsePubKey = (\<lambda>_. True)\<rparr>"

lemma sample_parse: "\<exists>b. parseDERToCompact ([0x30, 68, 2, 32] @ replicate 32 1 @ [2, 32] @ replicate 32 1) = Inr b"
proof -
  have "case parseDERToCompact ([0x30, 68, 2, 32] @ replicate 32 1 @ [2, 32] @ replicate 32 1) of Inl e \<Rightarrow> False | Inr b \<Rightarrow> True"
    by code_simp
  then show ?thesis by (simp split: sum.splits)
qed

lemma sample_sign: "\<exists>sig. \<forall>h key. Sign sample_miner h key = Inr sig"
  using sample_parse by (auto simp: Sign_def sample_miner_def)

lemma sample_attestation: "attestation sample_miner n r = 7"
  by (simp add: attestation_def sample_miner_def)

lemma sample_mined: "\<exists>cp. Mine sample_miner sample_curve [] [None, Some 1, Some 2] 5 0 = Inr cp"
proof -
  have "s_found (mine_search sample_miner [None, Some 1, Some 2] 5)"
    using mine_search_cases(1) [of sample_miner "[None, Some 1, Some 2]" 5]
    by (auto simp: sample_attestation Distance_def tried_def maxDistance_def)
  then show ?thesis using sample_sign by (auto simp: Mine_def buildCheckpoint_def Let_def)
qed

theorem mine_finds_best_witness:
  "\<exists>cp. Mine sample_miner sample_curve [] [None, Some 1, Some 2] 5 0 = Inr cp \<and> cp_MinerNonce cp \<in> {1, 2} \<and>
     Distance (cp_AttestationHash cp) 5 \<le> 2"
proof -
  have t: "tried [None, Some 1, Some 2] = {1, 2}" by (auto simp: tried_def)
  obtain cp where cp: "Mine sample_miner sample_curve [] [None, Some 1, Some 2] 5 0 = Inr cp" using sample_mined by blast
  then show ?thesis
    using mine_finds_best [where x = sample_miner and c = sample_curve and key = "[]" and reads = "[None, Some 1, Some 2]"
        and stateRoot = 5 and prevChecksum = 0] by (simp add: t sample_attestation Distance_def)
qed

end
