(* ===== verification/Tyl_Bitcoin.thy ===== *)
theory Tyl_Bitcoin
  imports Tyl_Encoding
begin

text \<open>
  The package \<open>pkg/bitcoin\<close> as far as it computes: the view of Bitcoin blocks the scanner reads, and
  the raw transactions that carry an envelope, in an \<open>OP_RETURN\<close> output or in the witness of a
  taproot script spend. The calls to the Bitcoin node (funding, signing, broadcasting) are not
  modelled; the elliptic curve operation of \<open>ComputeTaprootOutput\<close> belongs to a third-party package
  and is the argument \<open>tweak_key\<close>.
\<close>

section \<open>Blocks\<close>

record tx_input =
  in_Witness :: "bytes list"

record tx_output =
  out_Script :: bytes
  out_Value :: uint64

record btc_tx =
  btx_TxID :: hash256
  btx_Inputs :: "tx_input list"
  btx_Outputs :: "tx_output list"

record btc_block =
  bb_Height :: uint64
  bb_Hash :: hash256
  bb_PrevHash :: hash256
  bb_Txs :: "btc_tx list"

section \<open>Sizes and counts\<close>

definition le_bytes :: "nat \<Rightarrow> 'a::len word \<Rightarrow> bytes" where
  "le_bytes n w = rev (be_bytes n w)"

definition writeVarInt :: "uint64 \<Rightarrow> bytes" where
  "writeVarInt v =
     (if v < 0xfd then [ucast v]
      else if v \<le> 0xffff then 0xfd # le_bytes 2 (ucast v :: 16 word)
      else if v \<le> 0xffffffff then 0xfe # le_bytes 4 (ucast v :: 32 word)
      else 0xff # le_bytes 8 v)"

definition varIntSize :: "uint64 \<Rightarrow> nat" where
  "varIntSize v = (if v < 0xfd then 1 else if v \<le> 0xffff then 3 else if v \<le> 0xffffffff then 5 else 9)"

definition compactSizeEncode :: "uint64 \<Rightarrow> bytes" where
  "compactSizeEncode v =
     (if v < 0xfd then [ucast v]
      else if v \<le> 0xffff then [0xfd, ucast v, ucast (drop_bit 8 v)]
      else if v \<le> 0xffffffff
        then [0xfe, ucast v, ucast (drop_bit 8 v), ucast (drop_bit 16 v), ucast (drop_bit 24 v)]
      else [0xff, ucast v, ucast (drop_bit 8 v), ucast (drop_bit 16 v), ucast (drop_bit 24 v),
            ucast (drop_bit 32 v), ucast (drop_bit 40 v), ucast (drop_bit 48 v), ucast (drop_bit 56 v)])"

section \<open>Scripts and transactions\<close>

definition maxTapscriptStackItem :: nat where "maxTapscriptStackItem = 80"
definition opReturnMaxData :: nat where "opReturnMaxData = 80"
definition targetFeeRate :: uint64 where "targetFeeRate = 1"

definition buildOpReturnScript :: "bytes \<Rightarrow> bytes" where
  "buildOpReturnScript data =
     (let script = [0x6a];
          script = (if length data \<le> 75 then script @ [of_nat (length data)]
                    else script @ [0x4c, of_nat (length data)])
      in script @ data)"

definition buildOpReturnTx :: "bytes \<Rightarrow> bytes" where
  "buildOpReturnTx scriptPubKey =
     le_bytes 4 (2 :: uint32) @ [0x00] @ [0x01] @ le_bytes 8 (0 :: uint64) @
     writeVarInt (of_nat (length scriptPubKey)) @ scriptPubKey @ le_bytes 4 (0 :: uint32)"

function splitEnvelope :: "bytes \<Rightarrow> bytes list" where
  "splitEnvelope envelope =
     (if length envelope > 0 then
        let end = (if maxTapscriptStackItem > length envelope then length envelope else maxTapscriptStackItem)
        in take end envelope # splitEnvelope (drop end envelope)
      else [])"
  by pat_completeness auto
termination by (relation "measure length") (auto simp: maxTapscriptStackItem_def)

declare splitEnvelope.simps [simp del]

definition buildWitnessScript :: "nat \<Rightarrow> bytes" where
  "buildWitnessScript numChunks = replicate numChunks 0x75 @ [0x51]"

definition buildFundingTx :: "bytes \<Rightarrow> uint64 \<Rightarrow> bytes" where
  "buildFundingTx scriptPubKey satoshis =
     le_bytes 4 (2 :: uint32) @ [0x00] @ [0x01] @ le_bytes 8 satoshis @
     writeVarInt (of_nat (length scriptPubKey)) @ scriptPubKey @ le_bytes 4 (0 :: uint32)"

text \<open>\<open>hex.DecodeString\<close> with its error ignored: the bytes decoded before the first bad digit.\<close>

definition hex_digit :: "char \<Rightarrow> byte option" where
  "hex_digit c =
     (let n = (of_char c :: nat) in
      if 48 \<le> n \<and> n \<le> 57 then Some (of_nat (n - 48))
      else if 97 \<le> n \<and> n \<le> 102 then Some (of_nat (n - 97 + 10))
      else if 65 \<le> n \<and> n \<le> 70 then Some (of_nat (n - 65 + 10))
      else None)"

fun hex_DecodeString :: "string \<Rightarrow> bytes" where
  "hex_DecodeString (a # b # s) =
     (case (hex_digit a, hex_digit b) of
        (Some x, Some y) \<Rightarrow> (push_bit 4 x OR y) # hex_DecodeString s
      | _ \<Rightarrow> [])"
| "hex_DecodeString _ = []"

definition reverseTxid :: "string \<Rightarrow> bytes" where
  "reverseTxid txid = rev (hex_DecodeString txid)"

definition write_item :: "bytes \<Rightarrow> bytes" where
  "write_item item = writeVarInt (of_nat (length item)) @ item"

definition buildTaprootSpendingTx :: "string \<Rightarrow> uint32 \<Rightarrow> bytes list \<Rightarrow> bytes \<Rightarrow> bytes \<Rightarrow> bytes" where
  "buildTaprootSpendingTx fundingTxid vout chunks tapScript controlBlock =
     (let prevHash = reverseTxid fundingTxid;
          witnessItems = length chunks + 2
      in le_bytes 4 (2 :: uint32) @ [0x00, 0x01] @ [0x01] @
         prevHash @ le_bytes 4 vout @ [0x00] @ le_bytes 4 (0xffffffff :: uint32) @
         [0x01] @ le_bytes 8 (0 :: uint64) @ [0x05] @ [0x6a] @ [0x03] @ [0x00, 0x00, 0x00] @
         [of_nat witnessItems] @ concat (map write_item chunks) @
         write_item tapScript @ write_item controlBlock @
         le_bytes 4 (0 :: uint32))"

definition item_size :: "bytes \<Rightarrow> nat" where
  "item_size item = varIntSize (of_nat (length item)) + length item"

definition spendingTxFee :: "bytes list \<Rightarrow> bytes \<Rightarrow> bytes \<Rightarrow> uint64" where
  "spendingTxFee chunks controlBlock tapScript =
     (let baseSize = 65;
          witnessSize = 2 + 1 + sum_list (map item_size chunks) + item_size tapScript + item_size controlBlock;
          weight = baseSize * 3 + (baseSize + witnessSize);
          vsize = (weight + 3) div 4;
          fee = of_nat vsize * targetFeeRate
      in if fee < 330 then 330 else fee)"

section \<open>Taproot outputs\<close>

definition numsInternalKey :: bytes where
  "numsInternalKey = hex_DecodeString ''50929b74c1a04954b78b4b6035e97a5e078a5a0f28ec96d547bfee9ace803ac0''"

definition string_bytes :: "string \<Rightarrow> bytes" where
  "string_bytes s = map of_char s"

definition taprootTaggedHash :: "(bytes \<Rightarrow> hash256) \<Rightarrow> string \<Rightarrow> bytes list \<Rightarrow> hash256" where
  "taprootTaggedHash sha tag data =
     (let tagHash = sha (string_bytes tag) in sha (hash_bytes tagHash @ hash_bytes tagHash @ concat data))"

definition taprootLeafHash :: "(bytes \<Rightarrow> hash256) \<Rightarrow> bytes \<Rightarrow> hash256" where
  "taprootLeafHash sha script =
     taprootTaggedHash sha ''TapLeaf'' [[0xc0] @ compactSizeEncode (of_nat (length script)) @ script]"

text \<open>\<open>tweak_key serialized tweak\<close> is the compressed serialization of the parsed key plus \<open>tweak * G\<close>,
  or \<open>None\<close> when the key does not parse.\<close>

definition ComputeTaprootOutput ::
  "(bytes \<Rightarrow> hash256) \<Rightarrow> (bytes \<Rightarrow> hash256 \<Rightarrow> bytes option) \<Rightarrow> bytes \<Rightarrow> (bytes \<times> bytes) option" where
  "ComputeTaprootOutput sha tweak_key script =
     (let leafHash = taprootLeafHash sha script;
          tweak = taprootTaggedHash sha ''TapTweak'' [numsInternalKey, hash_bytes leafHash]
      in case tweak_key (0x02 # numsInternalKey) tweak of
           None \<Rightarrow> None
         | Some compressed \<Rightarrow>
             let p2trScript = [0x51, 0x20] @ slice 1 32 compressed;
                 parity = (if compressed ! 0 = 0x03 then 1 else 0);
                 controlBlock = (0xc0 OR parity) # numsInternalKey
             in Some (p2trScript, controlBlock))"

section \<open>Splitting\<close>

lemma concat_splitEnvelope [simp]: "concat (splitEnvelope e) = e"
  by (induction e rule: splitEnvelope.induct) (subst splitEnvelope.simps, simp add: Let_def maxTapscriptStackItem_def)

lemma splitEnvelope_sizes: "c \<in> set (splitEnvelope e) \<Longrightarrow> 0 < length c \<and> length c \<le> 80"
  by (induction e rule: splitEnvelope.induct)
    (subst (asm) splitEnvelope.simps, auto simp: Let_def maxTapscriptStackItem_def split: if_splits)

lemma length_splitEnvelope: "length (splitEnvelope e) = (length e + 79) div 80"
proof (induction e rule: splitEnvelope.induct)
  case (1 e)
  show ?case
  proof (cases "length e \<le> 80")
    case True
    have nil: "splitEnvelope [] = []" by (simp add: splitEnvelope.simps)
    show ?thesis
    proof (cases "e = []")
      case False
      then have "0 < length e" by simp
      then have "(length e + 79) div 80 = 1" using True by (intro div_nat_eqI) (simp_all add: Suc_le_eq)
      then show ?thesis
        using True False by (subst splitEnvelope.simps) (auto simp: Let_def maxTapscriptStackItem_def nil)
    qed (simp add: nil)
  next
    case False
    then have ne: "e \<noteq> []" by auto
    have "(length e - 80 + 79) div 80 + 1 = (length e + 79) div 80" using False ne by (simp add: div_if)
    then show ?thesis
      using 1 False ne by (subst splitEnvelope.simps) (simp add: Let_def maxTapscriptStackItem_def)
  qed
qed

section \<open>Reading counts and witnesses back\<close>

text \<open>The compact sizes and witness stacks of the Bitcoin wire format, as a node reads them.\<close>

definition le_word :: "bytes \<Rightarrow> 'a::len word" where
  "le_word bs = be_word (rev bs)"

lemma le_word_le_bytes [simp]: "LENGTH('a::len) = 8 * n \<Longrightarrow> le_word (le_bytes n (w :: 'a word)) = w"
  by (simp add: le_word_def le_bytes_def)

lemma length_le_bytes [simp]: "length (le_bytes n w) = n"
  by (simp add: le_bytes_def)

definition readVarInt :: "bytes \<Rightarrow> (nat \<times> bytes) option" where
  "readVarInt b =
     (case b of [] \<Rightarrow> None
      | x # r \<Rightarrow>
          if x < 0xfd then Some (unat x, r)
          else if x = 0xfd then (if length r < 2 then None else Some (unat (le_word (take 2 r) :: 16 word), drop 2 r))
          else if x = 0xfe then (if length r < 4 then None else Some (unat (le_word (take 4 r) :: 32 word), drop 4 r))
          else (if length r < 8 then None else Some (unat (le_word (take 8 r) :: 64 word), drop 8 r)))"

fun read_items :: "nat \<Rightarrow> bytes \<Rightarrow> (bytes list \<times> bytes) option" where
  "read_items 0 b = Some ([], b)"
| "read_items (Suc n) b =
     (case readVarInt b of None \<Rightarrow> None
      | Some (k, r) \<Rightarrow>
          if length r < k then None
          else map_option (\<lambda>(xs, r'). (take k r # xs, r')) (read_items n (drop k r)))"

definition read_witness :: "bytes \<Rightarrow> (bytes list \<times> bytes) option" where
  "read_witness b = (case readVarInt b of None \<Rightarrow> None | Some (n, r) \<Rightarrow> read_items n r)"

lemma readVarInt_writeVarInt [simp]: "readVarInt (writeVarInt v @ r) = Some (unat v, r)"
proof -
  consider "v < 0xfd" | "0xfd \<le> v" "v \<le> 0xffff" | "0xffff < v" "v \<le> 0xffffffff" | "0xffffffff < v"
    by fastforce
  then show ?thesis
  proof cases
    case 1
    then have "unat v < 253" by (simp add: word_less_nat_alt)
    then have "unat (ucast v :: byte) = unat v" by (simp add: unsigned_ucast_eq take_bit_nat_eq_self)
    then show ?thesis using 1 by (simp add: readVarInt_def writeVarInt_def word_less_nat_alt)
  next
    case 2
    then have "unat v < 65536" by (simp add: word_le_nat_alt)
    then have "unat (ucast v :: 16 word) = unat v" by (simp add: unsigned_ucast_eq take_bit_nat_eq_self)
    then show ?thesis using 2 by (auto simp: readVarInt_def writeVarInt_def)
  next
    case 3
    then have "unat v < 4294967296" by (simp add: word_le_nat_alt)
    then have u: "unat (ucast v :: 32 word) = unat v" by (simp add: unsigned_ucast_eq take_bit_nat_eq_self)
    moreover have "\<not> v < 0xfd" "\<not> v \<le> 0xffff" using 3 by (simp_all add: word_less_nat_alt word_le_nat_alt)
    ultimately show ?thesis using 3(2) u by (simp add: readVarInt_def writeVarInt_def)
  next
    case 4
    then have "\<not> v < 0xfd" "\<not> v \<le> 0xffff" "\<not> v \<le> 0xffffffff"
      by (simp_all add: word_less_nat_alt word_le_nat_alt)
    then show ?thesis by (simp add: readVarInt_def writeVarInt_def)
  qed
qed

lemma read_items_write:
  "\<forall>x\<in>set xs. length x < 2 ^ 64 \<Longrightarrow> read_items (length xs) (concat (map write_item xs) @ r) = Some (xs, r)"
  by (induction xs) (auto simp: write_item_def unat_of_nat_small)

lemma read_items_take:
  assumes "\<forall>x\<in>set xs. length x < 2 ^ 64" and "n \<le> length xs"
  shows "read_items n (concat (map write_item xs) @ r) = Some (take n xs, concat (map write_item (drop n xs)) @ r)"
  using read_items_write [of "take n xs" "concat (map write_item (drop n xs)) @ r"] assms
  by (metis append_assoc append_take_drop_id concat_append in_set_takeD length_take map_append min.absorb2)

text \<open>The spending transaction from its witness count on.\<close>

lemma spending_witness:
  assumes "length (reverseTxid txid) = 32" and "items = chunks @ [ts, cb]"
  shows "drop 63 (buildTaprootSpendingTx txid vout chunks ts cb) =
    of_nat (length items) # concat (map write_item items) @ le_bytes 4 (0 :: uint32)"
  using assms by (simp add: buildTaprootSpendingTx_def Let_def)

lemma read_witness_count:
  assumes "n < 253" and "\<forall>x\<in>set xs. length x < 2 ^ 64" and "n \<le> length xs"
  shows "\<exists>rest. read_witness (of_nat n # concat (map write_item xs) @ r) = Some (take n xs, rest) \<and>
    (n = length xs \<longrightarrow> rest = r)"
proof -
  have "unat (of_nat n :: byte) = n" using assms(1) by (simp add: unat_of_nat_small)
  then show ?thesis
    using assms read_items_take [OF assms(2,3), of r] by (simp add: read_witness_def readVarInt_def word_less_nat_alt)
qed

abbreviation embed_items :: "bytes \<Rightarrow> bytes \<Rightarrow> bytes list" where
  "embed_items env cb \<equiv> splitEnvelope env @ [buildWitnessScript (length (splitEnvelope env)), cb]"

abbreviation embed_tx :: "string \<Rightarrow> uint32 \<Rightarrow> bytes \<Rightarrow> bytes \<Rightarrow> bytes" where
  "embed_tx txid vout env cb \<equiv>
     buildTaprootSpendingTx txid vout (splitEnvelope env) (buildWitnessScript (length (splitEnvelope env))) cb"

lemma embed_items_small:
  assumes "length env < 2 ^ 32" and "length cb < 2 ^ 64"
  shows "\<forall>x\<in>set (embed_items env cb). length x < 2 ^ 64"
proof
  fix x
  assume "x \<in> set (embed_items env cb)"
  moreover have "length (buildWitnessScript (length (splitEnvelope env))) \<le> length env + 80"
    by (simp add: buildWitnessScript_def length_splitEnvelope)
  ultimately show "length x < 2 ^ 64"
    using assms splitEnvelope_sizes [of x env] by auto
qed

text \<open>An envelope of at most 20,000 bytes is readable from the transaction that carries it: a node
  that parses the witness of the spending transaction reads the chunks of the envelope, in order,
  followed by the tapscript and the control block, and the lock time after them.\<close>

theorem embedded_witness_readable:
  assumes "length (reverseTxid txid) = 32" and "length env \<le> 20000" and "length cb < 2 ^ 64"
  shows "read_witness (drop 63 (buildTaprootSpendingTx txid vout (splitEnvelope env)
      (buildWitnessScript (length (splitEnvelope env))) cb)) =
    Some (splitEnvelope env @ [buildWitnessScript (length (splitEnvelope env)), cb], [0, 0, 0, 0]) \<and>
    concat (splitEnvelope env) = env"
proof -
  have "length (splitEnvelope env) \<le> 250" using assms(2) by (simp add: length_splitEnvelope)
  moreover have "\<forall>x\<in>set (embed_items env cb). length x < 2 ^ 64"
    by (rule embed_items_small) (use assms in simp_all)
  moreover have "le_bytes 4 (0 :: uint32) = [0, 0, 0, 0]" by (simp add: le_bytes_def be_bytes_def upt_rec)
  ultimately show ?thesis
    using read_witness_count [of "length (embed_items env cb)" "embed_items env cb" "[0, 0, 0, 0]"]
      spending_witness [OF assms(1) refl] by simp
qed

text \<open>For longer envelopes the count of witness items wraps: from 20,241 bytes on (a contract may have
  100,000 bytes) the transaction announces 256 items less than it carries, so a node reads only a
  part of the chunks.\<close>

theorem embedded_count_wraps:
  assumes "length (reverseTxid txid) = 32" and "20240 < length env" and "length env \<le> 40480" and "length cb < 2 ^ 64"
  shows "\<exists>rest. read_witness (drop 63 (buildTaprootSpendingTx txid vout (splitEnvelope env)
      (buildWitnessScript (length (splitEnvelope env))) cb)) =
    Some (take (length (splitEnvelope env) - 254) (splitEnvelope env), rest)"
proof -
  let ?n = "length (splitEnvelope env)"
  have n: "254 \<le> ?n" "?n \<le> 506" using assms(2,3) by (simp_all add: length_splitEnvelope)
  have wrap: "(of_nat (?n + 2) :: byte) = of_nat (?n - 254)"
  proof -
    have "(of_nat (?n - 254 + 256) :: byte) = of_nat (?n - 254)" by (simp del: of_nat_diff)
    then show ?thesis using n by simp
  qed
  have "\<forall>x\<in>set (embed_items env cb). length x < 2 ^ 64"
    by (rule embed_items_small) (use assms in simp_all)
  from read_witness_count [OF _ this, of "?n - 254"] n
  obtain rest where "read_witness (of_nat (?n - 254) # concat (map write_item (embed_items env cb)) @ le_bytes 4 (0 :: uint32)) =
      Some (take (?n - 254) (embed_items env cb), rest)" by fastforce
  then show ?thesis
    using wrap spending_witness [OF assms(1) refl, of vout "splitEnvelope env"] by auto
qed

abbreviation sample_txid :: string where
  "sample_txid \<equiv> replicate 64 (CHR ''0'')"

lemma sample_txid_length: "length (reverseTxid sample_txid) = 32"
  by (simp add: reverseTxid_def hex_digit_def numeral_eq_Suc)

theorem embedded_witness_readable_witness:
  "\<exists>rest. read_witness (drop 63 (embed_tx sample_txid 0 (replicate 100 7) [1])) =
     Some (splitEnvelope (replicate 100 7) @ [buildWitnessScript (length (splitEnvelope (replicate 100 7))), [1]], rest)"
  using embedded_witness_readable [OF sample_txid_length, of "replicate 100 7" "[1]" 0] by simp

theorem embedded_count_wraps_witness:
  "\<exists>rest. read_witness (drop 63 (embed_tx sample_txid 0 (replicate 30000 7) [1])) =
     Some (take 121 (splitEnvelope (replicate 30000 7)), rest)"
  using embedded_count_wraps [OF sample_txid_length, of "replicate 30000 7" "[1]" 0]
  by (simp add: length_splitEnvelope)

end
