(* ===== verification/Tyl_Store.thy ===== *)
theory Tyl_Store
  imports Tyl_Miner Tyl_Bitcoin "HOL-Library.AList"
begin

text \<open>
  The persistent store of \<open>internal/store/store.go\<close> and the prefixed node store of
  \<open>pkg/merkle/leveldb.go\<close>. LevelDB is a third-party package: a database is the list of its entries, a
  lookup is a search for the key, and an iterator over a prefix visits the entries whose key starts with
  it, as documented. Input and output errors of the disk are not part of the model; the data errors that
  the code itself reports are values. The theory shows that the store implements a record of separate
  cells and maps.
\<close>

section \<open>The database\<close>

type_synonym db = "(bytes \<times> bytes) list"

definition db_Get :: "db \<Rightarrow> bytes \<Rightarrow> bytes option" where "db_Get d k = map_of d k"
definition db_Put :: "db \<Rightarrow> bytes \<Rightarrow> bytes \<Rightarrow> db" where "db_Put d k v = AList.update k v d"
definition db_Delete :: "db \<Rightarrow> bytes \<Rightarrow> db" where "db_Delete d k = AList.delete k d"

definition db_prefix :: "db \<Rightarrow> bytes \<Rightarrow> db" where
  "db_prefix d p = filter (\<lambda>(k, v). take (length p) k = p) d"

section \<open>Prefixed node stores\<close>

definition prefixKey :: "bytes \<Rightarrow> bytes \<Rightarrow> bytes" where
  "prefixKey prefix key = (if length prefix = 0 then key else prefix @ key)"

definition LevelDBStore_Get :: "bytes \<Rightarrow> db \<Rightarrow> bytes \<Rightarrow> bytes option" where
  "LevelDBStore_Get prefix d key = db_Get d (prefixKey prefix key)"

definition LevelDBStore_Put :: "bytes \<Rightarrow> db \<Rightarrow> bytes \<Rightarrow> bytes \<Rightarrow> db" where
  "LevelDBStore_Put prefix d key value = db_Put d (prefixKey prefix key) value"

definition LevelDBStore_Delete :: "bytes \<Rightarrow> db \<Rightarrow> bytes \<Rightarrow> db" where
  "LevelDBStore_Delete prefix d key = db_Delete d (prefixKey prefix key)"

section \<open>Keys\<close>

definition prefixState :: bytes where "prefixState = string_bytes ''s/''"
definition prefixStorage :: bytes where "prefixStorage = string_bytes ''t/''"
definition prefixCode :: bytes where "prefixCode = string_bytes ''c/''"
definition prefixMeta :: bytes where "prefixMeta = string_bytes ''m/''"
definition prefixBlock :: bytes where "prefixBlock = string_bytes ''b/''"
definition prefixReceipt :: bytes where "prefixReceipt = string_bytes ''r/''"
definition prefixContract :: bytes where "prefixContract = string_bytes ''k/''"
definition prefixTxReceipt :: bytes where "prefixTxReceipt = string_bytes ''x/''"
definition prefixTxIndex :: bytes where "prefixTxIndex = string_bytes ''i/''"
definition prefixL1Hash :: bytes where "prefixL1Hash = string_bytes ''l/''"

definition metaTxCount :: bytes where "metaTxCount = string_bytes ''txcount''"
definition metaHeight :: bytes where "metaHeight = string_bytes ''height''"
definition metaStateRoot :: bytes where "metaStateRoot = string_bytes ''stateroot''"
definition metaFinalHeight :: bytes where "metaFinalHeight = string_bytes ''finalheight''"
definition metaFinalRoot :: bytes where "metaFinalRoot = string_bytes ''finalroot''"

definition StateStore_prefix :: bytes where "StateStore_prefix = prefixState"
definition StorageStore_prefix :: "address \<Rightarrow> bytes" where "StorageStore_prefix addr = prefixStorage @ addr_bytes addr"

section \<open>Operations\<close>

datatype store_error = InvalidHeightData | InvalidFinalizedHeightData | InvalidTxCountData

definition get_uint64 :: "store_error \<Rightarrow> db \<Rightarrow> bytes \<Rightarrow> store_error + uint64" where
  "get_uint64 err d key =
     (case db_Get d key of
        None \<Rightarrow> Inr 0
      | Some val \<Rightarrow> if length val \<noteq> 8 then Inl err else Inr (be_word val))"

definition get_hash :: "db \<Rightarrow> bytes \<Rightarrow> hash256" where
  "get_hash d key = (case db_Get d key of None \<Rightarrow> ZeroHash | Some val \<Rightarrow> BytesToHash256 val)"

definition Store_GetCode :: "db \<Rightarrow> hash256 \<Rightarrow> bytes option" where
  "Store_GetCode d hash = db_Get d (prefixCode @ hash_bytes hash)"

definition PutCode :: "db \<Rightarrow> hash256 \<Rightarrow> bytes \<Rightarrow> db" where
  "PutCode d hash code = db_Put d (prefixCode @ hash_bytes hash) code"

definition ListCodes :: "db \<Rightarrow> hash256 \<Rightarrow> bytes option" where
  "ListCodes d = foldl (\<lambda>codes (key, val). codes(BytesToHash256 (drop (length prefixCode) key) \<mapsto> val)) Map.empty (db_prefix d prefixCode)"

definition GetHeight :: "db \<Rightarrow> store_error + uint64" where
  "GetHeight d = get_uint64 InvalidHeightData d (prefixMeta @ metaHeight)"

definition PutHeight :: "db \<Rightarrow> uint64 \<Rightarrow> db" where
  "PutHeight d height = db_Put d (prefixMeta @ metaHeight) (be_bytes 8 height)"

definition GetStateRoot :: "db \<Rightarrow> hash256" where
  "GetStateRoot d = get_hash d (prefixMeta @ metaStateRoot)"

definition PutStateRoot :: "db \<Rightarrow> hash256 \<Rightarrow> db" where
  "PutStateRoot d root = db_Put d (prefixMeta @ metaStateRoot) (hash_bytes root)"

definition PutBlock :: "db \<Rightarrow> uint64 \<Rightarrow> bytes \<Rightarrow> db" where
  "PutBlock d height data = db_Put d (prefixBlock @ be_bytes 8 height) data"

definition GetBlock :: "db \<Rightarrow> uint64 \<Rightarrow> bytes option" where
  "GetBlock d height = db_Get d (prefixBlock @ be_bytes 8 height)"

definition PutContract :: "db \<Rightarrow> uint64 \<Rightarrow> address \<Rightarrow> db" where
  "PutContract d callerID addr = db_Put d (prefixContract @ be_bytes 8 callerID) (addr_bytes addr)"

text \<open>Reading the identifier takes eight bytes of the key; every key under the prefix has them.\<close>

definition ListContracts :: "db \<Rightarrow> uint64 \<Rightarrow> address option" where
  "ListContracts d = foldl (\<lambda>contracts (key, val).
     contracts(be_word (take 8 (drop (length prefixContract) key)) \<mapsto> BytesToAddress val)) Map.empty (db_prefix d prefixContract)"

definition PutReceipts :: "db \<Rightarrow> uint64 \<Rightarrow> bytes \<Rightarrow> db" where
  "PutReceipts d height data = db_Put d (prefixReceipt @ be_bytes 8 height) data"

definition GetFinalizedHeight :: "db \<Rightarrow> store_error + uint64" where
  "GetFinalizedHeight d = get_uint64 InvalidFinalizedHeightData d (prefixMeta @ metaFinalHeight)"

definition PutFinalizedHeight :: "db \<Rightarrow> uint64 \<Rightarrow> db" where
  "PutFinalizedHeight d height = db_Put d (prefixMeta @ metaFinalHeight) (be_bytes 8 height)"

definition GetFinalizedRoot :: "db \<Rightarrow> hash256" where
  "GetFinalizedRoot d = get_hash d (prefixMeta @ metaFinalRoot)"

definition PutFinalizedRoot :: "db \<Rightarrow> hash256 \<Rightarrow> db" where
  "PutFinalizedRoot d root = db_Put d (prefixMeta @ metaFinalRoot) (hash_bytes root)"

definition GetReceipts :: "db \<Rightarrow> uint64 \<Rightarrow> bytes option" where
  "GetReceipts d height = db_Get d (prefixReceipt @ be_bytes 8 height)"

definition PutTxReceipt :: "db \<Rightarrow> hash256 \<Rightarrow> bytes \<Rightarrow> db" where
  "PutTxReceipt d txid data = db_Put d (prefixTxReceipt @ hash_bytes txid) data"

definition GetTxReceipt :: "db \<Rightarrow> hash256 \<Rightarrow> bytes option" where
  "GetTxReceipt d txid = db_Get d (prefixTxReceipt @ hash_bytes txid)"

definition PutTxIndex :: "db \<Rightarrow> uint64 \<Rightarrow> hash256 \<Rightarrow> db" where
  "PutTxIndex d seq txid = db_Put d (prefixTxIndex @ be_bytes 8 seq) (hash_bytes txid)"

definition GetTxCount :: "db \<Rightarrow> store_error + uint64" where
  "GetTxCount d = get_uint64 InvalidTxCountData d (prefixMeta @ metaTxCount)"

definition PutTxCount :: "db \<Rightarrow> uint64 \<Rightarrow> db" where
  "PutTxCount d count = db_Put d (prefixMeta @ metaTxCount) (be_bytes 8 count)"

definition PutL1Hash :: "db \<Rightarrow> uint64 \<Rightarrow> hash256 \<Rightarrow> db" where
  "PutL1Hash d height hash = db_Put d (prefixL1Hash @ be_bytes 8 height) (hash_bytes hash)"

definition GetL1Hash :: "db \<Rightarrow> uint64 \<Rightarrow> hash256" where
  "GetL1Hash d height = get_hash d (prefixL1Hash @ be_bytes 8 height)"

text \<open>The iterator runs from the key of \<open>height + 1\<close> to the end of the prefix; the keys are deleted in one
  batch.\<close>

definition DeleteL1HashesAbove :: "db \<Rightarrow> uint64 \<Rightarrow> db" where
  "DeleteL1HashesAbove d height =
     (let start = prefixL1Hash @ be_bytes 8 (height + 1);
          batch = filter (\<lambda>k. 0 \<le> bytes_Compare k start) (map fst (db_prefix d prefixL1Hash))
      in foldl db_Delete d batch)"

text \<open>The loop of \<open>ListRecentTxs\<close>; \<open>limit\<close> is how many entries may still be added. Go's \<open>int\<close> is unbounded
  here: it is 64 bits wide, and the counts are far below.\<close>

function recent_loop :: "db \<Rightarrow> int \<Rightarrow> int \<Rightarrow> hash256 list" where
  "recent_loop d i limit =
     (if i \<ge> 0 \<and> 0 < limit then
        (case db_Get d (prefixTxIndex @ be_bytes 8 (of_int i :: uint64)) of
           None \<Rightarrow> recent_loop d (i - 1) limit
         | Some val \<Rightarrow> BytesToHash256 val # recent_loop d (i - 1) (limit - 1))
      else [])"
  by pat_completeness auto
termination by (relation "measure (\<lambda>(d, i, limit). nat (i + 1))") auto

declare recent_loop.simps [simp del]

definition ListRecentTxs :: "db \<Rightarrow> int \<Rightarrow> int \<Rightarrow> store_error + hash256 list" where
  "ListRecentTxs d offset limit =
     (case GetTxCount d of
        Inl e \<Rightarrow> Inl e
      | Inr count \<Rightarrow>
          if count = 0 then Inr []
          else let start = sint count - 1 - offset
               in if start < 0 then Inr [] else Inr (recent_loop d start limit))"

section \<open>Cells\<close>

text \<open>Every key the program writes belongs to one of these cells.\<close>

datatype cell = CState hash256 | CStorage address hash256 | CCode hash256 | CHeight | CStateRoot | CFinalHeight | CFinalRoot | CTxCount
  | CBlock uint64 | CReceipts uint64 | CContract uint64 | CTxReceipt hash256 | CTxIndex uint64 | CL1Hash uint64

primrec key_of :: "cell \<Rightarrow> bytes" where
  "key_of (CState h) = prefixKey StateStore_prefix (hash_bytes h)"
| "key_of (CStorage a h) = prefixKey (StorageStore_prefix a) (hash_bytes h)"
| "key_of (CCode h) = prefixCode @ hash_bytes h"
| "key_of CHeight = prefixMeta @ metaHeight"
| "key_of CStateRoot = prefixMeta @ metaStateRoot"
| "key_of CFinalHeight = prefixMeta @ metaFinalHeight"
| "key_of CFinalRoot = prefixMeta @ metaFinalRoot"
| "key_of CTxCount = prefixMeta @ metaTxCount"
| "key_of (CBlock n) = prefixBlock @ be_bytes 8 n"
| "key_of (CReceipts n) = prefixReceipt @ be_bytes 8 n"
| "key_of (CContract n) = prefixContract @ be_bytes 8 n"
| "key_of (CTxReceipt h) = prefixTxReceipt @ hash_bytes h"
| "key_of (CTxIndex n) = prefixTxIndex @ be_bytes 8 n"
| "key_of (CL1Hash n) = prefixL1Hash @ be_bytes 8 n"

lemma prefix_bytes:
  "prefixState = [115, 47]" "prefixStorage = [116, 47]" "prefixCode = [99, 47]" "prefixMeta = [109, 47]" "prefixBlock = [98, 47]"
  "prefixReceipt = [114, 47]" "prefixContract = [107, 47]" "prefixTxReceipt = [120, 47]" "prefixTxIndex = [105, 47]" "prefixL1Hash = [108, 47]"
  by (simp_all add: prefixState_def prefixStorage_def prefixCode_def prefixMeta_def prefixBlock_def prefixReceipt_def
      prefixContract_def prefixTxReceipt_def prefixTxIndex_def prefixL1Hash_def string_bytes_def)

lemma meta_bytes:
  "metaTxCount = [116, 120, 99, 111, 117, 110, 116]" "metaHeight = [104, 101, 105, 103, 104, 116]"
  "metaStateRoot = [115, 116, 97, 116, 101, 114, 111, 111, 116]"
  "metaFinalHeight = [102, 105, 110, 97, 108, 104, 101, 105, 103, 104, 116]"
  "metaFinalRoot = [102, 105, 110, 97, 108, 114, 111, 111, 116]"
  by (simp_all add: metaTxCount_def metaHeight_def metaStateRoot_def metaFinalHeight_def metaFinalRoot_def string_bytes_def)

lemma key_of_inject [simp]: "key_of a = key_of b \<longleftrightarrow> a = b"
  by (cases a; cases b)
    (simp_all add: prefix_bytes meta_bytes prefixKey_def StateStore_prefix_def StorageStore_prefix_def)

lemma db_Get_Put: "db_Get (db_Put d (key_of a) v) (key_of b) = (if a = b then Some v else db_Get d (key_of b))"
  by (simp add: db_Get_def db_Put_def update_conv')

section \<open>Keyed stores\<close>

locale keyed_store =
  fixes look :: "'d \<Rightarrow> 'k \<Rightarrow> 'v option" and put :: "'d \<Rightarrow> 'k \<Rightarrow> 'v \<Rightarrow> 'd"
  assumes look_put: "look (put d k v) l = (if k = l then Some v else look d l)"
begin

definition puts :: "('k \<times> 'v) list \<Rightarrow> 'd \<Rightarrow> 'd" where
  "puts ws d = foldl (\<lambda>d (k, v). put d k v) d ws"

lemma puts_simps: "puts [] d = d" "puts ((k, v) # ws) d = puts ws (put d k v)"
  by (simp_all add: puts_def)

lemma look_puts: "look (puts ws d) l = (case map_of (rev ws) l of None \<Rightarrow> look d l | Some v \<Rightarrow> Some v)"
proof (induction ws arbitrary: d)
  case (Cons w ws)
  obtain k v where w: "w = (k, v)" by (cases w)
  show ?case by (simp add: w puts_simps Cons.IH look_put map_add_def split: option.split)
qed (simp add: puts_simps)

lemma look_puts_other: "l \<notin> fst ` set ws \<Longrightarrow> look (puts ws d) l = look d l"
  by (simp add: look_puts map_of_eq_None_iff [THEN iffD2])

end

interpretation cells: keyed_store "\<lambda>d c. db_Get d (key_of c)" "\<lambda>d c v. db_Put d (key_of c) v"
  by unfold_locales (rule db_Get_Put)

section \<open>Iteration\<close>

definition db_wf :: "db \<Rightarrow> bool" where
  "db_wf d \<longleftrightarrow> distinct (map fst d) \<and> fst ` set d \<subseteq> range key_of"

lemma db_wf_empty: "db_wf []"
  by (simp add: db_wf_def)

lemma db_wf_Put: "db_wf d \<Longrightarrow> db_wf (db_Put d (key_of c) v)"
  by (auto simp: db_wf_def db_Put_def distinct_update dom_update)

lemma db_wf_Delete: "db_wf d \<Longrightarrow> db_wf (db_Delete d k)"
  using distinct_delete [of d k] by (auto simp: db_wf_def db_Delete_def AList.delete_eq image_subset_iff)

lemma fold_prefix:
  assumes "distinct (map fst d)" and "\<And>k. k \<in> fst ` set d \<Longrightarrow> take (length p) k = p \<Longrightarrow> \<exists>n. k = K n"
    and K: "\<And>n. g (K n) = n" "\<And>n. take (length p) (K n) = p"
  shows "foldl (\<lambda>m (k, v). m(g k \<mapsto> h v)) m (db_prefix d p) n =
    (case map_of d (K n) of None \<Rightarrow> m n | Some v \<Rightarrow> Some (h v))"
  using assms(1,2)
proof (induction d arbitrary: m)
  case (Cons e d)
  obtain k v where e: "e = (k, v)" by (cases e)
  have dist: "distinct (map fst d)" "k \<notin> fst ` set d" using Cons.prems(1) by (auto simp: e)
  note IH = Cons.IH [OF dist(1) Cons.prems(2)]
  show ?case
  proof (cases "take (length p) k = p")
    case True
    then obtain l where l: "k = K l" using Cons.prems(2) [of k] by (auto simp: e)
    have none: "map_of d (K l) = None" using dist(2) by (simp add: l map_of_eq_None_iff)
    have p: "db_prefix (e # d) p = (k, v) # db_prefix d p" using True by (simp add: e db_prefix_def)
    show ?thesis
    proof (cases "n = l")
      case True
      show ?thesis unfolding p using IH [of "m(g k \<mapsto> h v)"] none True by (simp add: e l K(1))
    next
      case False
      then have "K n \<noteq> k" using K(1) l by metis
      then show ?thesis unfolding p using IH [of "m(g k \<mapsto> h v)"] False by (simp add: e l K(1) split: option.split)
    qed
  next
    case False
    then have "k \<noteq> K n" using K(2) by metis
    moreover have "db_prefix (e # d) p = db_prefix d p" using False by (simp add: e db_prefix_def)
    ultimately show ?thesis using IH by (simp add: e)
  qed
qed (simp add: db_prefix_def)

lemma cells_with_prefix:
  "take 2 (key_of c) = prefixContract \<Longrightarrow> \<exists>n. c = CContract n" "take 2 (key_of c) = prefixCode \<Longrightarrow> \<exists>h. c = CCode h"
  "take 2 (key_of c) = prefixL1Hash \<Longrightarrow> \<exists>n. c = CL1Hash n"
  by (cases c; simp add: prefix_bytes meta_bytes prefixKey_def StateStore_prefix_def StorageStore_prefix_def)+

lemma wf_prefix_cell: "db_wf d \<Longrightarrow> k \<in> fst ` set d \<Longrightarrow> \<exists>c. k = key_of c"
  by (auto simp: db_wf_def)

lemma ListContracts_eq:
  assumes "db_wf d"
  shows "ListContracts d n = map_option BytesToAddress (db_Get d (key_of (CContract n)))"
proof -
  have "distinct (map fst d)" using assms by (simp add: db_wf_def)
  moreover have "\<exists>n. k = key_of (CContract n)" if k: "k \<in> fst ` set d" and t: "take (length prefixContract) k = prefixContract" for k
  proof -
    obtain c where c: "k = key_of c" using wf_prefix_cell [OF assms k] by blast
    then have "take 2 (key_of c) = prefixContract" using t by (simp add: prefix_bytes numeral_2_eq_2)
    then show ?thesis using cells_with_prefix(1) c by blast
  qed
  ultimately show ?thesis
    unfolding ListContracts_def db_Get_def
    by (subst fold_prefix [where K = "\<lambda>n. key_of (CContract n)"]) (auto simp: prefix_bytes split: option.split)
qed

lemma ListCodes_eq:
  assumes "db_wf d"
  shows "ListCodes d h = Store_GetCode d h"
proof -
  have "distinct (map fst d)" using assms by (simp add: db_wf_def)
  moreover have "\<exists>h. k = key_of (CCode h)" if k: "k \<in> fst ` set d" and t: "take (length prefixCode) k = prefixCode" for k
  proof -
    obtain c where c: "k = key_of c" using wf_prefix_cell [OF assms k] by blast
    then have "take 2 (key_of c) = prefixCode" using t by (simp add: prefix_bytes numeral_2_eq_2)
    then show ?thesis using cells_with_prefix(2) c by blast
  qed
  ultimately show ?thesis
    unfolding ListCodes_def Store_GetCode_def db_Get_def
    by (subst fold_prefix [where K = "\<lambda>h. key_of (CCode h)" and h = "\<lambda>v. v"]) (auto simp: prefix_bytes split: option.split)
qed

section \<open>The order of big-endian keys\<close>

text \<open>The number that bytes stand for; the order of equally long keys is the order of their numbers.\<close>

definition bval :: "bytes \<Rightarrow> nat" where "bval xs = foldl (\<lambda>a b. 256 * a + unat b) 0 xs"

lemma bval_foldl: "foldl (\<lambda>a b. 256 * a + unat (b :: byte)) a xs = a * 256 ^ length xs + bval xs"
  unfolding bval_def
proof (induction xs arbitrary: a)
  case (Cons x xs)
  show ?case using Cons [of "256 * a + unat x"] Cons [of "unat x"] by (simp add: algebra_simps)
qed simp

lemma bval_Cons: "bval (x # xs) = unat x * 256 ^ length xs + bval xs"
  using bval_foldl [of "unat x" xs] by (simp add: bval_def)

lemma bval_less: "bval xs < 256 ^ length xs"
proof (induction xs)
  case (Cons x xs)
  have "unat x < 2 ^ LENGTH(8)" by (rule unsigned_less)
  then have "unat x + 1 \<le> 256" by simp
  then have "(unat x + 1) * 256 ^ length xs \<le> 256 * 256 ^ length xs" by (rule mult_le_mono1)
  also have "256 * 256 ^ length xs = (256 :: nat) ^ length (x # xs)" by simp
  finally have "unat x * 256 ^ length xs + 256 ^ length xs \<le> 256 ^ length (x # xs)" by (simp add: distrib_right)
  then show ?case using Cons unfolding bval_Cons by linarith
qed (simp add: bval_def)

lemma compare_bval:
  "length xs = length ys \<Longrightarrow> bytes_Compare xs ys = (if bval xs < bval ys then -1 else if bval ys < bval xs then 1 else 0)"
proof (induction xs ys rule: list_induct2)
  case (Cons x xs y ys)
  have less: "bval (a # as) < bval (b # bs)" if "a < b" "length as = length bs" for a b :: byte and as bs
  proof -
    have "(unat a + 1) * 256 ^ length as \<le> unat b * 256 ^ length as" using that(1) by (intro mult_le_mono1) (simp add: word_less_nat_alt)
    then show ?thesis using bval_less [of as] that(2) by (simp add: bval_Cons)
  qed
  show ?case
  proof (cases "x = y")
    case True
    then show ?thesis using Cons by (simp add: bval_Cons)
  next
    case False
    then consider "x < y" | "y < x" by fastforce
    then show ?thesis using less [of x y xs ys] less [of y x ys xs] Cons(1) by cases auto
  qed
qed simp

lemma bval_be_bytes: "length xs \<le> 8 \<Longrightarrow> unat (be_word xs :: uint64) = bval xs"
proof (induction xs rule: rev_induct)
  case (snoc x xs)
  have IH: "unat (be_word xs :: uint64) = bval xs" using snoc by simp
  have "bval (xs @ [x]) < 256 ^ length (xs @ [x])" by (rule bval_less)
  also have "\<dots> \<le> 256 ^ 8" using snoc.prems by (intro power_increasing) simp_all
  finally have lt: "bval (xs @ [x]) < 2 ^ 64" by simp
  have b: "bval (xs @ [x]) = 256 * bval xs + unat x" by (simp add: bval_def)
  have "be_word (xs @ [x]) = (256 * be_word xs + ucast x :: uint64)"
  proof -
    have "push_bit 8 (be_word xs) AND (ucast x :: uint64) = 0"
      by (rule bit_word_eqI) (auto simp: bit_simps dest: bit_imp_le_length)
    then have "push_bit 8 (be_word xs) OR (ucast x :: uint64) = push_bit 8 (be_word xs) + ucast x"
      by (simp add: disjunctive_add_eq_or)
    then show ?thesis by (simp add: be_word_snoc push_bit_eq_mult mult.commute)
  qed
  moreover have "unat (ucast x :: uint64) = unat x" using lt b by (simp add: unsigned_ucast_eq take_bit_nat_eq_self)
  ultimately show ?case using IH lt b by (simp add: unat_word_ariths)
qed (simp add: bval_def)


lemma compare_uint64: "0 \<le> bytes_Compare (be_bytes 8 v) (be_bytes 8 w) \<longleftrightarrow> (w :: uint64) \<le> v"
proof -
  have "bval (be_bytes 8 v) = unat v" "bval (be_bytes 8 w) = unat w"
    using bval_be_bytes [of "be_bytes 8 v"] bval_be_bytes [of "be_bytes 8 w"] by simp_all
  then show ?thesis using compare_bval [of "be_bytes 8 v" "be_bytes 8 w"] by (simp add: word_le_nat_alt)
qed

lemma db_Get_Delete: "db_Get (db_Delete d k) l = (if k = l then None else db_Get d l)"
  by (simp add: db_Get_def db_Delete_def delete_conv')

lemma db_Get_Deletes: "db_Get (foldl db_Delete d ks) l = (if l \<in> set ks then None else db_Get d l)"
  by (induction ks arbitrary: d) (auto simp: db_Get_Delete)

lemma delete_above_Get:
  assumes "height \<noteq> - 1"
  shows "db_Get (DeleteL1HashesAbove d height) (key_of c) =
    (case c of CL1Hash n \<Rightarrow> if height < n then None else db_Get d (key_of c) | _ \<Rightarrow> db_Get d (key_of c))"
proof -
  let ?start = "prefixL1Hash @ be_bytes 8 (height + 1)"
  let ?ks = "filter (\<lambda>k. 0 \<le> bytes_Compare k ?start) (map fst (db_prefix d prefixL1Hash))"
  have g: "db_Get (DeleteL1HashesAbove d height) (key_of c) = (if key_of c \<in> set ?ks then None else db_Get d (key_of c))"
    by (simp add: DeleteL1HashesAbove_def Let_def db_Get_Deletes)
  have mem: "key_of c \<in> set ?ks \<longleftrightarrow> db_Get d (key_of c) \<noteq> None \<and> take 2 (key_of c) = prefixL1Hash \<and> 0 \<le> bytes_Compare (key_of c) ?start"
    by (auto simp: db_prefix_def db_Get_def prefix_bytes numeral_2_eq_2 map_of_eq_None_iff rev_image_eqI dest!: map_of_SomeD)
  show ?thesis
  proof (cases "\<exists>n. c = CL1Hash n")
    case True
    then obtain n where n: "c = CL1Hash n" by blast
    have "0 \<le> bytes_Compare (key_of c) ?start \<longleftrightarrow> height + 1 \<le> n"
      by (simp add: n prefix_bytes compare_uint64)
    moreover have "height + 1 \<le> n \<longleftrightarrow> height < n" 
    proof -
      have "1 + height \<noteq> 0" using assms by (metis add.commute add_eq_0_iff2)
      then have "unat (height + 1) = Suc (unat height)" using unatSuc [of height] by (simp add: add.commute)
      then show ?thesis by (simp add: word_le_nat_alt word_less_nat_alt Suc_le_eq)
    qed
    ultimately show ?thesis using g mem n by (auto simp: prefix_bytes)
  next
    case False
    then have "take 2 (key_of c) \<noteq> prefixL1Hash" using cells_with_prefix(3) by blast
    then have "db_Get (DeleteL1HashesAbove d height) (key_of c) = db_Get d (key_of c)"
      using g mem by (simp only: if_False simp_thms)
    then show ?thesis using False by (cases c) (simp_all del: key_of.simps)
  qed
qed

section \<open>The store as a record of cells and maps\<close>

record astore =
  a_node :: "bytes \<Rightarrow> bytes option"
  a_snode :: "address \<Rightarrow> bytes \<Rightarrow> bytes option"
  a_code :: "hash256 \<Rightarrow> bytes option"
  a_height :: "store_error + uint64"
  a_root :: hash256
  a_fheight :: "store_error + uint64"
  a_froot :: hash256
  a_count :: "store_error + uint64"
  a_block :: "uint64 \<Rightarrow> bytes option"
  a_receipts :: "uint64 \<Rightarrow> bytes option"
  a_contract :: "uint64 \<Rightarrow> address option"
  a_receipt :: "hash256 \<Rightarrow> bytes option"
  a_l1 :: "uint64 \<Rightarrow> hash256"

text \<open>Node stores are only used with hashes as keys.\<close>

definition hash_keyed :: "(bytes \<Rightarrow> bytes option) \<Rightarrow> bytes \<Rightarrow> bytes option" where
  "hash_keyed f k = (if length k = 32 then f k else None)"

definition abs_store :: "db \<Rightarrow> astore" where
  "abs_store d =
    \<lparr>a_node = hash_keyed (LevelDBStore_Get StateStore_prefix d),
     a_snode = (\<lambda>a. hash_keyed (LevelDBStore_Get (StorageStore_prefix a) d)),
     a_code = ListCodes d, a_height = GetHeight d, a_root = GetStateRoot d, a_fheight = GetFinalizedHeight d,
     a_froot = GetFinalizedRoot d, a_count = GetTxCount d, a_block = GetBlock d, a_receipts = GetReceipts d,
     a_contract = ListContracts d, a_receipt = GetTxReceipt d, a_l1 = GetL1Hash d\<rparr>"

lemma hash_key_bytes: "length k = 32 \<Longrightarrow> \<exists>h. k = hash_bytes h"
  by (metis hash_bytes_BytesToHash256)

text \<open>Every operation reads or writes its cell.\<close>

lemma gets:
  "length k = 32 \<Longrightarrow> LevelDBStore_Get StateStore_prefix d k = db_Get d (key_of (CState (BytesToHash256 k)))"
  "length k = 32 \<Longrightarrow> LevelDBStore_Get (StorageStore_prefix a) d k = db_Get d (key_of (CStorage a (BytesToHash256 k)))"
  "Store_GetCode d h = db_Get d (key_of (CCode h))" "GetHeight d = get_uint64 InvalidHeightData d (key_of CHeight)"
  "GetStateRoot d = get_hash d (key_of CStateRoot)" "GetFinalizedHeight d = get_uint64 InvalidFinalizedHeightData d (key_of CFinalHeight)"
  "GetFinalizedRoot d = get_hash d (key_of CFinalRoot)" "GetTxCount d = get_uint64 InvalidTxCountData d (key_of CTxCount)"
  "GetBlock d n = db_Get d (key_of (CBlock n))" "GetReceipts d n = db_Get d (key_of (CReceipts n))"
  "GetTxReceipt d h = db_Get d (key_of (CTxReceipt h))" "GetL1Hash d n = get_hash d (key_of (CL1Hash n))"
  by (simp_all add: LevelDBStore_Get_def Store_GetCode_def GetHeight_def GetStateRoot_def GetFinalizedHeight_def
      GetFinalizedRoot_def GetTxCount_def GetBlock_def GetReceipts_def GetTxReceipt_def GetL1Hash_def)

lemma sets:
  "length k = 32 \<Longrightarrow> LevelDBStore_Put StateStore_prefix d k v = db_Put d (key_of (CState (BytesToHash256 k))) v"
  "length k = 32 \<Longrightarrow> LevelDBStore_Put (StorageStore_prefix a) d k v = db_Put d (key_of (CStorage a (BytesToHash256 k))) v"
  "PutCode d h v = db_Put d (key_of (CCode h)) v" "PutHeight d n = db_Put d (key_of CHeight) (be_bytes 8 n)"
  "PutStateRoot d h = db_Put d (key_of CStateRoot) (hash_bytes h)"
  "PutFinalizedHeight d n = db_Put d (key_of CFinalHeight) (be_bytes 8 n)"
  "PutFinalizedRoot d h = db_Put d (key_of CFinalRoot) (hash_bytes h)" "PutTxCount d n = db_Put d (key_of CTxCount) (be_bytes 8 n)"
  "PutBlock d n v = db_Put d (key_of (CBlock n)) v" "PutReceipts d n v = db_Put d (key_of (CReceipts n)) v"
  "PutContract d n addr = db_Put d (key_of (CContract n)) (addr_bytes addr)"
  "PutTxReceipt d h v = db_Put d (key_of (CTxReceipt h)) v" "PutTxIndex d n h = db_Put d (key_of (CTxIndex n)) (hash_bytes h)"
  "PutL1Hash d n h = db_Put d (key_of (CL1Hash n)) (hash_bytes h)"
  by (simp_all add: LevelDBStore_Put_def PutCode_def PutHeight_def PutStateRoot_def PutFinalizedHeight_def PutFinalizedRoot_def
      PutTxCount_def PutBlock_def PutReceipts_def PutContract_def PutTxReceipt_def PutTxIndex_def PutL1Hash_def)

text \<open>The record in terms of cells.\<close>

definition cell_store :: "(cell \<Rightarrow> bytes option) \<Rightarrow> astore" where
  "cell_store f =
    (let num = (\<lambda>err c. case f c of None \<Rightarrow> Inr 0 | Some val \<Rightarrow> if length val \<noteq> 8 then Inl err else Inr (be_word val));
         hsh = (\<lambda>c. case f c of None \<Rightarrow> ZeroHash | Some val \<Rightarrow> BytesToHash256 val)
     in \<lparr>a_node = hash_keyed (\<lambda>k. f (CState (BytesToHash256 k))), a_snode = (\<lambda>a. hash_keyed (\<lambda>k. f (CStorage a (BytesToHash256 k)))),
         a_code = (\<lambda>h. f (CCode h)), a_height = num InvalidHeightData CHeight, a_root = hsh CStateRoot,
         a_fheight = num InvalidFinalizedHeightData CFinalHeight, a_froot = hsh CFinalRoot, a_count = num InvalidTxCountData CTxCount,
         a_block = (\<lambda>n. f (CBlock n)), a_receipts = (\<lambda>n. f (CReceipts n)),
         a_contract = (\<lambda>n. map_option BytesToAddress (f (CContract n))), a_receipt = (\<lambda>h. f (CTxReceipt h)),
         a_l1 = (\<lambda>n. hsh (CL1Hash n))\<rparr>)"

lemma abs_store_cells: "db_wf d \<Longrightarrow> abs_store d = cell_store (\<lambda>c. db_Get d (key_of c))"
  by (simp add: abs_store_def cell_store_def Let_def fun_eq_iff hash_keyed_def gets get_uint64_def get_hash_def
      ListCodes_eq ListContracts_eq del: key_of.simps)

lemma abs_put: "db_wf d \<Longrightarrow> abs_store (db_Put d (key_of c) v) = cell_store ((\<lambda>c. db_Get d (key_of c))(c \<mapsto> v))"
  by (simp add: abs_store_cells db_wf_Put db_Get_Put fun_upd_def eq_commute cong: if_cong del: key_of.simps)

lemma db_wf_Deletes: "db_wf d \<Longrightarrow> db_wf (foldl db_Delete d ks)"
  by (induction ks arbitrary: d) (simp_all add: db_wf_Delete)

lemma db_wf_above: "db_wf d \<Longrightarrow> db_wf (DeleteL1HashesAbove d h)"
  by (simp add: DeleteL1HashesAbove_def Let_def db_wf_Deletes)

lemma abs_above:
  assumes "db_wf d" and "height \<noteq> - 1"
  shows "abs_store (DeleteL1HashesAbove d height) =
    (abs_store d)\<lparr>a_l1 := \<lambda>n. if height < n then ZeroHash else a_l1 (abs_store d) n\<rparr>"
  using assms
  by (auto simp: abs_store_cells db_wf_above delete_above_Get cell_store_def Let_def fun_eq_iff hash_keyed_def simp del: key_of.simps)

text \<open>C26: the persistent store implements a record of separate cells and maps: each write changes exactly
  its component, to the value that the matching read returns, and the write keeps the layout of the
  database; this holds for the node stores of the global and of every storage trie as well, so that no
  two of them, and none of them and the metadata, interfere. Deleting the Bitcoin hashes above a height
  forgets exactly those.\<close>

theorem store_refines_record:
  assumes "db_wf d"
  shows "(length k = 32 \<longrightarrow> abs_store (LevelDBStore_Put StateStore_prefix d k v) = (abs_store d)\<lparr>a_node := (a_node (abs_store d))(k \<mapsto> v)\<rparr>) \<and>
    (length k = 32 \<longrightarrow> abs_store (LevelDBStore_Put (StorageStore_prefix a) d k v) =
      (abs_store d)\<lparr>a_snode := (a_snode (abs_store d))(a := (a_snode (abs_store d) a)(k \<mapsto> v))\<rparr>) \<and>
    abs_store (PutCode d h v) = (abs_store d)\<lparr>a_code := (a_code (abs_store d))(h \<mapsto> v)\<rparr> \<and>
    abs_store (PutHeight d n) = (abs_store d)\<lparr>a_height := Inr n\<rparr> \<and>
    abs_store (PutStateRoot d h) = (abs_store d)\<lparr>a_root := h\<rparr> \<and>
    abs_store (PutFinalizedHeight d n) = (abs_store d)\<lparr>a_fheight := Inr n\<rparr> \<and>
    abs_store (PutFinalizedRoot d h) = (abs_store d)\<lparr>a_froot := h\<rparr> \<and>
    abs_store (PutTxCount d n) = (abs_store d)\<lparr>a_count := Inr n\<rparr> \<and>
    abs_store (PutBlock d n v) = (abs_store d)\<lparr>a_block := (a_block (abs_store d))(n \<mapsto> v)\<rparr> \<and>
    abs_store (PutReceipts d n v) = (abs_store d)\<lparr>a_receipts := (a_receipts (abs_store d))(n \<mapsto> v)\<rparr> \<and>
    abs_store (PutContract d n a) = (abs_store d)\<lparr>a_contract := (a_contract (abs_store d))(n \<mapsto> a)\<rparr> \<and>
    abs_store (PutTxReceipt d h v) = (abs_store d)\<lparr>a_receipt := (a_receipt (abs_store d))(h \<mapsto> v)\<rparr> \<and>
    abs_store (PutTxIndex d n h) = abs_store d \<and>
    abs_store (PutL1Hash d n h) = (abs_store d)\<lparr>a_l1 := (a_l1 (abs_store d))(n := h)\<rparr> \<and>
    (n \<noteq> - 1 \<longrightarrow> abs_store (DeleteL1HashesAbove d n) =
      (abs_store d)\<lparr>a_l1 := \<lambda>m. if n < m then ZeroHash else a_l1 (abs_store d) m\<rparr>)"
proof -
  have inj: "BytesToHash256 l = BytesToHash256 k \<longleftrightarrow> l = k" if "length k = 32" "length l = 32" for k l
    using that by (metis hash_bytes_BytesToHash256)
  note [simp del] = key_of.simps
  show ?thesis
    apply (intro conjI impI)
                  apply (simp_all add: sets abs_put [OF assms] abs_above [OF assms])
                apply (simp_all add: abs_store_cells [OF assms] cell_store_def Let_def fun_eq_iff hash_keyed_def inj split: option.split)
    done
qed

theorem store_refines_record_witness:
  "abs_store (PutL1Hash [] 3 9) = (abs_store [])\<lparr>a_l1 := (a_l1 (abs_store []))(3 := 9)\<rparr> \<and>
   GetL1Hash (PutL1Hash [] 3 9) 3 = 9"
proof -
  have r: "abs_store (PutL1Hash [] 3 9) = (abs_store [])\<lparr>a_l1 := (a_l1 (abs_store []))(3 := 9)\<rparr>"
    using store_refines_record [OF db_wf_empty] by blast
  then have "a_l1 (abs_store (PutL1Hash [] 3 9)) 3 = 9" by simp
  then show ?thesis using r by (simp add: abs_store_def)
qed

section \<open>The transaction index\<close>

definition indexed :: "db \<Rightarrow> hash256 list \<Rightarrow> bool" where
  "indexed d ids \<longleftrightarrow> GetTxCount d = Inr (of_nat (length ids)) \<and>
     (\<forall>i<length ids. db_Get d (key_of (CTxIndex (of_nat i))) = Some (hash_bytes (ids ! i)))"

lemma recent_loop_eq:
  assumes "indexed d ids" and "i < int (length ids)" and "length ids < 2 ^ 63"
  shows "recent_loop d i limit = take (nat limit) (rev (take (nat (i + 1)) ids))"
  using assms(2)
proof (induction "nat (i + 1)" arbitrary: i limit)
  case 0
  then show ?case by (simp add: recent_loop.simps)
next
  case (Suc n)
  show ?case
  proof (cases "0 < limit")
    case True
    have i: "i = int n" using Suc.hyps(2) by simp
    have n: "n < length ids" using Suc.prems i by simp
    have "db_Get d (prefixTxIndex @ be_bytes 8 (of_int i :: uint64)) = Some (hash_bytes (ids ! n))"
      using assms(1) n by (simp add: indexed_def i)
    then have "recent_loop d i limit = ids ! n # recent_loop d (i - 1) (limit - 1)"
      using True by (subst recent_loop.simps) (simp add: i)
    also have "recent_loop d (i - 1) (limit - 1) = take (nat (limit - 1)) (rev (take n ids))"
      using Suc.hyps(1) [of "i - 1" "limit - 1"] n by (simp add: i)
    also have "ids ! n # take (nat (limit - 1)) (rev (take n ids)) = take (nat limit) (rev (take (Suc n) ids))"
      using True n by (simp add: take_Suc_conv_app_nth nat_diff_distrib Suc_nat_eq_nat_zadd1 take_Cons' )
    finally show ?thesis by (simp add: i nat_add_distrib)
  qed (simp add: recent_loop.simps)
qed

lemma ListRecentTxs_eq:
  assumes "indexed d ids" and "length ids < 2 ^ 63" and "0 \<le> offset"
  shows "ListRecentTxs d offset limit = Inr (take (nat limit) (drop (nat offset) (rev ids)))"
proof (cases "ids = []")
  case False
  have c: "GetTxCount d = Inr (of_nat (length ids))" using assms(1) by (simp add: indexed_def)
  have u: "unat (of_nat (length ids) :: uint64) = length ids" using assms(2) by (simp add: unat_of_nat)
  then have nz: "(of_nat (length ids) :: uint64) \<noteq> 0" using False by (metis length_0_conv unat_0)
  have s: "sint (of_nat (length ids) :: uint64) = int (length ids)"
  proof -
    have "uint (of_nat (length ids) :: uint64) = int (length ids)" using u by (metis of_nat_unat)
    moreover have "int (length ids) < int (2 ^ 63)" using assms(2) by (rule iffD2 [OF of_nat_less_iff])
    then have "signed_take_bit 63 (int (length ids)) = int (length ids)" by (intro signed_take_bit_int_eq_self) simp_all
    ultimately show ?thesis by (simp add: sint_uint)
  qed
  have "recent_loop d (int (length ids) - 1 - offset) limit = take (nat limit) (drop (nat offset) (rev ids))"
    if "0 \<le> int (length ids) - 1 - offset"
    using recent_loop_eq [OF assms(1) _ assms(2), of "int (length ids) - 1 - offset" limit] that assms(3)
    by (simp add: rev_take nat_diff_distrib)
  then show ?thesis
    using c nz s by (auto simp: ListRecentTxs_def not_less)
qed (use assms(1) in \<open>simp add: ListRecentTxs_def indexed_def\<close>)

end
