(* ===== verification/Tyl_Scanner.thy ===== *)
theory Tyl_Scanner
  imports Tyl_Bitcoin
begin

text \<open>
  The package \<open>internal/scanner\<close>: finding envelopes in the outputs and witnesses of a Bitcoin block and
  turning them into transactions and checkpoints. \<open>None\<close> is the out-of-range slice of the envelope
  decoder, which would stop the program. The channel of \<open>Subscribe\<close> is not modelled; what it sends for a
  block is \<open>scan_result\<close>.
\<close>

section \<open>Finding envelopes\<close>

primrec bytes_Index :: "bytes \<Rightarrow> bytes \<Rightarrow> nat option" where
  "bytes_Index sep [] = (if sep = [] then Some 0 else None)"
| "bytes_Index sep (b # s) =
     (if take (length sep) (b # s) = sep then Some 0 else map_option Suc (bytes_Index sep s))"

lemma bytes_Index_nonempty: "bytes_Index Magic s = Some i \<Longrightarrow> 0 < length s"
  by (cases s) (auto simp: Magic_def)

function scanForMagic :: "bytes \<Rightarrow> bytes list option" where
  "scanForMagic search =
     (case bytes_Index Magic search of
        None \<Rightarrow> Some []
      | Some idx \<Rightarrow>
          let candidate = drop idx search
          in (case DecodeEnvelope candidate of
                Inl SlicePanic \<Rightarrow> None
              | Inl _ \<Rightarrow> scanForMagic (drop (idx + length Magic) search)
              | Inr env \<Rightarrow>
                  let envLen = 4 + 1 + 4 + length (env_Payload env)
                  in map_option ((#) (take envLen candidate)) (scanForMagic (drop (idx + envLen) search))))"
  by pat_completeness auto
termination
  by (relation "measure length") (auto dest!: bytes_Index_nonempty)

declare scanForMagic.simps [simp del]

section \<open>From envelopes to transactions\<close>

type_synonym found = "transaction list \<times> checkpoint list"

definition deposit_tx :: "uint64 \<Rightarrow> address \<Rightarrow> uint64 \<Rightarrow> transaction" where
  "deposit_tx l1Nonce recipient credited =
     \<lparr>tx_Version = 1, tx_Nonce = l1Nonce, tx_From = ZeroAddress, tx_To = recipient, tx_Value = credited,
      tx_GasPrice = 0, tx_GasLimit = 0, tx_Priority = 0, tx_Data = [], tx_Signature = 0\<rparr>"

definition process_envelope :: "envelope \<Rightarrow> uint64 \<Rightarrow> uint64 \<Rightarrow> found \<Rightarrow> found" where
  "process_envelope env burnValue l1Nonce acc =
     (case acc of (txs, checkpoints) \<Rightarrow>
        if env_Type env = EnvelopeTypeTx then
          (case DecodeTx (env_Payload env) of Inr tx \<Rightarrow> (txs @ [tx], checkpoints) | Inl _ \<Rightarrow> acc)
        else if env_Type env = EnvelopeTypeCheckpoint then
          (case DecodeCheckpoint (env_Payload env) of Inr cp \<Rightarrow> (txs, checkpoints @ [cp]) | Inl _ \<Rightarrow> acc)
        else if env_Type env = EnvelopeTypeDeposit then
          (case DecodeDeposit (env_Payload env) of
             Inr (recipient, amount) \<Rightarrow>
               let credited = (if burnValue < amount then burnValue else amount)
               in if credited = 0 then acc else (txs @ [deposit_tx l1Nonce recipient credited], checkpoints)
           | Inl _ \<Rightarrow> acc)
        else acc)"

fun processPayloads :: "bytes list \<Rightarrow> uint64 \<Rightarrow> uint64 \<Rightarrow> found \<Rightarrow> found option" where
  "processPayloads [] burnValue l1Nonce acc = Some acc"
| "processPayloads (payload # payloads) burnValue l1Nonce acc =
     (case DecodeEnvelope payload of
        Inl SlicePanic \<Rightarrow> None
      | Inl _ \<Rightarrow> processPayloads payloads burnValue l1Nonce acc
      | Inr env \<Rightarrow> processPayloads payloads burnValue l1Nonce (process_envelope env burnValue l1Nonce acc))"

definition btcTxNonce :: "hash256 \<Rightarrow> uint64" where
  "btcTxNonce txid = be_word (take 8 (hash_bytes txid))"

definition scan_bytes :: "bytes \<Rightarrow> uint64 \<Rightarrow> uint64 \<Rightarrow> found \<Rightarrow> found option" where
  "scan_bytes data burnValue l1Nonce acc =
     (case scanForMagic data of None \<Rightarrow> None | Some payloads \<Rightarrow> processPayloads payloads burnValue l1Nonce acc)"

definition extract_output :: "uint64 \<Rightarrow> tx_output \<Rightarrow> found \<Rightarrow> found option" where
  "extract_output l1Nonce output acc =
     (if length (out_Script output) > 1 \<and> out_Script output ! 0 = 0x6a
      then scan_bytes (drop 1 (out_Script output)) (out_Value output) l1Nonce acc
      else Some acc)"

definition maxWitnessSize :: nat where "maxWitnessSize = 10000000"

definition extract_input :: "uint64 \<Rightarrow> tx_input \<Rightarrow> found \<Rightarrow> found option" where
  "extract_input l1Nonce input acc =
     (if sum_list (map length (in_Witness input)) > maxWitnessSize then Some acc
      else scan_bytes (concat (in_Witness input)) 0 l1Nonce acc)"

fun fold_opt :: "('a \<Rightarrow> 'b \<Rightarrow> 'b option) \<Rightarrow> 'a list \<Rightarrow> 'b \<Rightarrow> 'b option" where
  "fold_opt f [] acc = Some acc"
| "fold_opt f (x # xs) acc = (case f x acc of None \<Rightarrow> None | Some acc \<Rightarrow> fold_opt f xs acc)"

definition extract_tx :: "btc_tx \<Rightarrow> found \<Rightarrow> found option" where
  "extract_tx btcTx acc =
     (let l1Nonce = btcTxNonce (btx_TxID btcTx)
      in case fold_opt (extract_output l1Nonce) (btx_Outputs btcTx) acc of
           None \<Rightarrow> None
         | Some acc \<Rightarrow> fold_opt (extract_input l1Nonce) (btx_Inputs btcTx) acc)"

definition ExtractFromBlock :: "btc_block \<Rightarrow> found option" where
  "ExtractFromBlock block = fold_opt extract_tx (bb_Txs block) ([], [])"

record ScanResult =
  sr_L1Height :: uint64
  sr_L1BlockHash :: hash256
  sr_L1PrevHash :: hash256
  sr_Payloads :: "transaction list"
  sr_Checkpoints :: "checkpoint list"

definition scan_result :: "btc_block \<Rightarrow> ScanResult option" where
  "scan_result block =
     (case ExtractFromBlock block of
        None \<Rightarrow> None
      | Some (txs, checkpoints) \<Rightarrow>
          Some \<lparr>sr_L1Height = bb_Height block, sr_L1BlockHash = bb_Hash block, sr_L1PrevHash = bb_PrevHash block,
                sr_Payloads = txs, sr_Checkpoints = checkpoints\<rparr>)"

text \<open>\<open>ScanBlock\<close>: \<open>get\<close> is \<open>GetBlockByHeight\<close> of the Bitcoin client, with \<open>None\<close> for an error; the
  outer result is the error of the source, the inner one the panic.\<close>

definition ScanBlock :: "(uint64 \<Rightarrow> btc_block option) \<Rightarrow> uint64 \<Rightarrow> ScanResult option option" where
  "ScanBlock get height = map_option scan_result (get height)"

section \<open>Scanning never stops the program\<close>

text \<open>One step of the scan, for each outcome of the decoder.\<close>

lemma scan_none: "bytes_Index Magic d = None \<Longrightarrow> scanForMagic d = Some []"
  by (simp add: scanForMagic.simps)

lemma scan_skip:
  assumes "bytes_Index Magic d = Some i" and "DecodeEnvelope (drop i d) = Inl e" and "e \<noteq> SlicePanic"
  shows "scanForMagic d = scanForMagic (drop (i + length Magic) d)"
  using assms by (subst scanForMagic.simps) (cases e; simp)

lemma scan_hit:
  assumes "bytes_Index Magic d = Some i" and "DecodeEnvelope (drop i d) = Inr e"
  shows "scanForMagic d =
    map_option ((#) (env_bytes e)) (scanForMagic (drop (i + (9 + length (env_Payload e))) d))"
proof -
  have "take (9 + length (env_Payload e)) (drop i d) = env_bytes e"
    by (subst DecodeEnvelope_sound(1) [OF assms(2)]) simp
  then show ?thesis using assms by (subst scanForMagic.simps) simp
qed

lemma decoded_length: "DecodeEnvelope (drop i d) = Inr e \<Longrightarrow> length (env_bytes e) \<le> length d"
proof -
  assume "DecodeEnvelope (drop i d) = Inr e"
  from DecodeEnvelope_sound(1) [OF this] have "length (env_bytes e) \<le> length (drop i d)"
    by (metis length_append le_add1)
  then show ?thesis by (simp del: length_EncodeEnvelope)
qed

text \<open>What the scan finds: encoded envelopes.\<close>

definition all_envelopes :: "nat \<Rightarrow> bytes list \<Rightarrow> bool" where
  "all_envelopes n ps \<longleftrightarrow> (\<forall>p\<in>set ps. \<exists>e. env_ok e \<and> p = env_bytes e \<and> length p \<le> n)"

lemma all_envelopes_mono: "all_envelopes m ps \<Longrightarrow> m \<le> n \<Longrightarrow> all_envelopes n ps"
  by (fastforce simp: all_envelopes_def)

lemma scanForMagic_total: "length d < 2 ^ 32 \<Longrightarrow> \<exists>ps. scanForMagic d = Some ps \<and> all_envelopes (length d) ps"
proof (induction "length d" arbitrary: d rule: less_induct)
  case less
  have IH: "\<exists>ps. scanForMagic (drop k d) = Some ps \<and> all_envelopes (length d) ps" if "0 < k" "0 < length d" for k
  proof -
    have lt: "length (drop k d) < length d" using that by simp
    from less(1) [OF this order.strict_trans [OF this less(2)]] all_envelopes_mono [OF _ less_imp_le [OF lt]]
    show ?thesis by blast
  qed
  show ?case
  proof (cases "bytes_Index Magic d")
    case None
    then show ?thesis by (simp add: scan_none all_envelopes_def)
  next
    case (Some i)
    have ne: "0 < length d" by (rule bytes_Index_nonempty [OF Some])
    have l: "length (drop i d) < 2 ^ 32" using less(2) by simp
    show ?thesis
    proof (cases "DecodeEnvelope (drop i d)")
      case (Inl e)
      then have "e \<noteq> SlicePanic" using DecodeEnvelope_no_panic [OF l] by auto
      from scan_skip [OF Some Inl this] IH [of "i + length Magic"] ne show ?thesis by simp
    next
      case (Inr e)
      obtain ps where ps: "scanForMagic (drop (i + (9 + length (env_Payload e))) d) = Some ps" "all_envelopes (length d) ps"
        using IH [of "i + (9 + length (env_Payload e))"] ne by auto
      then have "scanForMagic d = Some (env_bytes e # ps)" using scan_hit [OF Some Inr] by simp
      moreover have "all_envelopes (length d) (env_bytes e # ps)"
        using ps(2) DecodeEnvelope_sound(2) [OF Inr] decoded_length [OF Inr] by (auto simp: all_envelopes_def)
      ultimately show ?thesis by blast
    qed
  qed
qed

lemma payloads_run:
  assumes "all_envelopes n ps" and "n < 2 ^ 32"
  shows "\<exists>acc'. processPayloads ps bv k acc = Some acc'"
  using assms
proof (induction ps arbitrary: acc)
  case (Cons p ps)
  then obtain e where e: "env_ok e" "p = env_bytes e" "length p < 2 ^ 32" by (fastforce simp: all_envelopes_def)
  have "DecodeEnvelope p = Inr e" using DecodeEnvelope_EncodeEnvelope [OF e(1), of "[]"] e(2,3) by simp
  moreover have "all_envelopes n ps" using Cons.prems by (simp add: all_envelopes_def)
  ultimately show ?case using Cons.IH Cons.prems(2) by simp
qed simp

lemma scan_bytes_total: "length d < 2 ^ 32 \<Longrightarrow> \<exists>acc'. scan_bytes d bv k acc = Some acc'"
  using scanForMagic_total [of d] payloads_run [of "length d"] by (fastforce simp: scan_bytes_def)

lemma fold_opt_total: "(\<And>x acc. x \<in> set xs \<Longrightarrow> \<exists>acc'. f x acc = Some acc') \<Longrightarrow> \<exists>acc'. fold_opt f xs acc = Some acc'"
proof (induction xs arbitrary: acc)
  case (Cons x xs)
  obtain a where "f x acc = Some a" using Cons.prems by fastforce
  then show ?case using Cons by simp
qed simp

lemma extract_tx_total:
  assumes "\<forall>out\<in>set (btx_Outputs t). length (out_Script out) < 2 ^ 32"
  shows "\<exists>acc'. extract_tx t acc = Some acc'"
proof -
  let ?k = "btcTxNonce (btx_TxID t)"
  have out: "\<exists>acc'. extract_output ?k x acc = Some acc'" if "x \<in> set (btx_Outputs t)" for x acc
  proof -
    have "length (drop 1 (out_Script x)) < 2 ^ 32" using assms that by (simp add: less_imp_diff_less)
    from scan_bytes_total [OF this, of "out_Value x" ?k acc] show ?thesis by (auto simp: extract_output_def)
  qed
  have inp: "\<exists>acc'. extract_input ?k x acc = Some acc'" for x acc
  proof (cases "sum_list (map length (in_Witness x)) > maxWitnessSize")
    case False
    then have "length (concat (in_Witness x)) < 2 ^ 32" by (simp add: maxWitnessSize_def length_concat)
    from scan_bytes_total [OF this, of 0 ?k acc] False show ?thesis by (auto simp: extract_input_def)
  qed (auto simp: extract_input_def)
  obtain a where "fold_opt (extract_output ?k) (btx_Outputs t) acc = Some a"
    using fold_opt_total [of "btx_Outputs t" "extract_output ?k", OF out] by blast
  then show ?thesis
    using fold_opt_total [of "btx_Inputs t" "extract_input ?k", OF inp] by (simp add: extract_tx_def Let_def)
qed


section \<open>What was embedded is found\<close>

lemma scan_envelope:
  assumes "env_ok e" and "length (env_bytes e @ r) < 2 ^ 32" and "bytes_Index Magic (pre @ env_bytes e @ r) = Some (length pre)"
  shows "scanForMagic (pre @ env_bytes e @ r) = map_option ((#) (env_bytes e)) (scanForMagic r)"
  using scan_hit [OF assms(3), of e] DecodeEnvelope_EncodeEnvelope [OF assms(1,2)] by simp

lemma env_bytes_Magic: "\<exists>r'. env_bytes e @ r = Magic @ r'"
  by (simp add: EncodeEnvelope_def appendUint32_def)

lemma index_here: "bytes_Index Magic (env_bytes e @ r) = Some 0"
proof -
  obtain r' where "env_bytes e @ r = Magic @ r'" using env_bytes_Magic by blast
  then show ?thesis by (simp add: Magic_def)
qed

text \<open>The push prefix of an \<open>OP_RETURN\<close> script is not taken for the start of an envelope.\<close>

lemma index_push:
  "bytes_Index Magic (b # env_bytes e @ r) = Some 1" "bytes_Index Magic (0x4c # b # env_bytes e @ r) = Some 2"
proof -
  obtain r' where "env_bytes e @ r = Magic @ r'" using env_bytes_Magic by blast
  then show "bytes_Index Magic (b # env_bytes e @ r) = Some 1" "bytes_Index Magic (0x4c # b # env_bytes e @ r) = Some 2"
    by (simp_all add: Magic_def)
qed

lemma index_after:
  "bytes_Index Magic r = None \<Longrightarrow> bytes_Index Magic (replicate n 0x75 @ 0x51 # r) = None"
proof (induction n)
  case (Suc n)
  then show ?case by (simp add: Magic_def)
qed (simp add: Magic_def)

text \<open>Neither the tapscript nor the control block contains the magic prefix.\<close>

lemma control_block_silent: "scanForMagic (buildWitnessScript n @ p # numsInternalKey) = Some []"
proof (rule scan_none)
  have n: "numsInternalKey = [80, 146, 155, 116, 193, 160, 73, 84, 183, 139, 75, 96, 53, 233, 122, 94, 7, 138, 90, 15,
      40, 236, 150, 213, 71, 191, 238, 154, 206, 128, 58, 192]"
    by (simp add: numsInternalKey_def hex_digit_def push_bit_eq_mult)
  have "bytes_Index Magic (p # numsInternalKey) = None" by (simp add: n Magic_def)
  then show "bytes_Index Magic (buildWitnessScript n @ p # numsInternalKey) = None"
    by (simp add: buildWitnessScript_def index_after)
qed

lemma embedded_tx_lemma:
  assumes "env = EncodeEnvelope EnvelopeTypeTx (EncodeTx tx)" and "length (tx_Data tx) \<le> 1000000"
    and "ComputeTaprootOutput sha tweak_key (buildWitnessScript (length (splitEnvelope env))) = Some (script, controlBlock)"
  shows "extract_input l1Nonce
      \<lparr>in_Witness = splitEnvelope env @ [buildWitnessScript (length (splitEnvelope env)), controlBlock]\<rparr> (txs, cps) =
    Some (txs @ [tx], cps)"
proof -
  let ?e = "\<lparr>env_Magic = Magic, env_Type = EnvelopeTypeTx, env_Payload = EncodeTx tx\<rparr>"
  let ?r = "buildWitnessScript (length (splitEnvelope env)) @ controlBlock"
  have e: "env = env_bytes ?e" by (simp add: assms(1))
  have ok: "env_ok ?e" using assms(2) by (simp add: env_ok_def)
  have n: "length env \<le> 1000151" using assms(2) by (simp add: assms(1))
  obtain p where cb: "controlBlock = p # numsInternalKey"
    using assms(3) by (auto simp: ComputeTaprootOutput_def Let_def split: option.splits)
  have nums: "length numsInternalKey = 32" by (simp add: numsInternalKey_def hex_digit_def)
  have r: "length ?r \<le> 12536" using n
    by (simp add: buildWitnessScript_def length_splitEnvelope cb nums)
  have "length (env_bytes ?e @ ?r) < 2 ^ 32" using n r by (simp add: e)
  from scan_envelope [OF ok this, of "[]"] index_here [of ?e ?r]
  have "scanForMagic (env @ ?r) = Some [env]" by (simp add: e cb control_block_silent)
  moreover have "DecodeEnvelope env = Inr ?e"
    using DecodeEnvelope_EncodeEnvelope [OF ok, of "[]"] n by (simp add: e)
  moreover have "DecodeTx (EncodeTx tx) = Inr tx"
    using DecodeTx_EncodeTx [of tx "[]"] assms(2) by (simp add: tx_ok_def)
  moreover have "sum_list (map length (splitEnvelope env)) = length env"
    by (metis concat_splitEnvelope length_concat)
  then have "\<not> maxWitnessSize < sum_list (map length (splitEnvelope env @ [buildWitnessScript (length (splitEnvelope env)), controlBlock]))"
    using n r by (simp add: maxWitnessSize_def)
  ultimately show ?thesis
    by (simp add: extract_input_def scan_bytes_def process_envelope_def)
qed

text \<open>What the program embeds, it extracts: a transaction put into an envelope, split into witness
  items and spent with the script and control block of its taproot output is read back by the scanner
  from that witness, exactly once and unchanged, and nothing else is read.\<close>

theorem embedded_tx_extracted:
  assumes "env = EncodeEnvelope EnvelopeTypeTx (EncodeTx tx)" and "length (tx_Data tx) \<le> 1000000"
    and "ComputeTaprootOutput sha tweak_key (buildWitnessScript (length (splitEnvelope env))) = Some (script, controlBlock)"
  shows "extract_input l1Nonce
      \<lparr>in_Witness = splitEnvelope env @ [buildWitnessScript (length (splitEnvelope env)), controlBlock]\<rparr> (txs, cps) =
    Some (txs @ [tx], cps)"
  by (rule embedded_tx_lemma [OF assms])

section \<open>Deposits\<close>

abbreviation deposit_envelope :: "address \<Rightarrow> uint64 \<Rightarrow> bytes" where
  "deposit_envelope a v \<equiv> EncodeEnvelope EnvelopeTypeDeposit (EncodeDeposit a v)"

lemma decode_deposit_envelope:
  "DecodeEnvelope (deposit_envelope a v) = Inr \<lparr>env_Magic = Magic, env_Type = EnvelopeTypeDeposit, env_Payload = EncodeDeposit a v\<rparr>"
  using DecodeEnvelope_EncodeEnvelope [of "\<lparr>env_Magic = Magic, env_Type = EnvelopeTypeDeposit, env_Payload = EncodeDeposit a v\<rparr>" "[]"]
  by (simp add: env_ok_def)

lemma process_deposit:
  "process_envelope \<lparr>env_Magic = Magic, env_Type = EnvelopeTypeDeposit, env_Payload = EncodeDeposit a v\<rparr> w k (txs, cps) =
     (if min v w = 0 then (txs, cps) else (txs @ [deposit_tx k a (min v w)], cps))"
  using DecodeDeposit_EncodeDeposit [of a v "[]"]
  by (auto simp: process_envelope_def Let_def min_def word_gt_0)

text \<open>The burn of one output backs every deposit envelope in it: an \<open>OP_RETURN\<close> output of standard size
  with two deposit envelopes credits its value twice.\<close>

theorem burn_counted_twice:
  assumes "0 < v" and "output = \<lparr>out_Script = buildOpReturnScript (EncodeEnvelope EnvelopeTypeDeposit (EncodeDeposit a v) @
        EncodeEnvelope EnvelopeTypeDeposit (EncodeDeposit b v)), out_Value = v\<rparr>"
  shows "length (out_Script output) = 76 \<and> extract_output l1Nonce output (txs, cps) =
    Some (txs @ [deposit_tx l1Nonce a v, deposit_tx l1Nonce b v], cps)"
proof -
  let ?e = "\<lambda>a. \<lparr>env_Magic = Magic, env_Type = EnvelopeTypeDeposit, env_Payload = EncodeDeposit a v\<rparr>"
  have ok: "env_ok (?e a)" for a by (simp add: env_ok_def)
  have script: "out_Script output = 0x6a # 74 # deposit_envelope a v @ deposit_envelope b v"
    by (simp add: assms(2) buildOpReturnScript_def)
  have "scanForMagic (deposit_envelope b v) = Some [deposit_envelope b v]"
    using scan_envelope [OF ok [of b], of "[]" "[]"] index_here [of "?e b" "[]"]
    by (simp add: scan_none [of "[]"] Magic_def)
  then have "scanForMagic (74 # deposit_envelope a v @ deposit_envelope b v) = Some [deposit_envelope a v, deposit_envelope b v]"
    using scan_envelope [OF ok [of a], of "deposit_envelope b v" "[74]"] index_push(1) [of 74 "?e a" "deposit_envelope b v"] by simp
  then show ?thesis
    using assms(1) unfolding extract_output_def script
    by (simp add: scan_bytes_def decode_deposit_envelope process_deposit assms(2) word_gt_0)
qed

section \<open>Samples\<close>


theorem embedded_tx_extracted_witness:
  "\<exists>script controlBlock. extract_input 7
     \<lparr>in_Witness = splitEnvelope (EncodeEnvelope EnvelopeTypeTx (EncodeTx wire_tx)) @
        [buildWitnessScript (length (splitEnvelope (EncodeEnvelope EnvelopeTypeTx (EncodeTx wire_tx)))), controlBlock]\<rparr> ([], []) =
     Some ([wire_tx], []) \<and>
   ComputeTaprootOutput be_word (\<lambda>_ _. Some (replicate 33 2))
     (buildWitnessScript (length (splitEnvelope (EncodeEnvelope EnvelopeTypeTx (EncodeTx wire_tx))))) = Some (script, controlBlock)"
proof -
  let ?env = "EncodeEnvelope EnvelopeTypeTx (EncodeTx wire_tx)"
  obtain script cb where t: "ComputeTaprootOutput be_word (\<lambda>_ _. Some (replicate 33 2))
      (buildWitnessScript (length (splitEnvelope ?env))) = Some (script, cb)"
    by (simp add: ComputeTaprootOutput_def Let_def)
  have "length (tx_Data wire_tx) \<le> 1000000" by (simp add: wire_tx_def)
  from embedded_tx_extracted [OF refl this t, of 7 "[]" "[]"] t show ?thesis by auto
qed

theorem burn_counted_twice_witness:
  "extract_output 7 \<lparr>out_Script = buildOpReturnScript (deposit_envelope 5 100 @ deposit_envelope 6 100), out_Value = 100\<rparr> ([], []) =
     Some ([deposit_tx 7 5 100, deposit_tx 7 6 100], [])"
  using burn_counted_twice [of 100 _ 5 6 7 "[]" "[]", OF _ refl] by simp

end
