(* ===== verification/Tyl_Node.thy ===== *)
theory Tyl_Node
  imports Tyl_Store Tyl_Scanner Tyl_Executor_Props
begin

text \<open>
  The node of \<open>internal/node/node.go\<close>: block processing, the selection and validation of checkpoints,
  finalization, persistence, and the handling of reorganisations of the first chain. The node and its
  executor share one state database, which is a field of the executor here. The entries of the trie
  namespaces of the database live in the stores of the tries (theory \<open>Tyl_State\<close>); theory \<open>Tyl_Store\<close>
  shows that these namespaces do not interfere with the others.

  Results: \<open>None\<close> is a panic or a loop that does not end; otherwise the error, if any, and the node as
  it is then, since operations that fail leave their earlier writes behind.
\<close>

section \<open>State\<close>

text \<open>What the node calls outside the repository: the hash and curve functions, the Bitcoin client and
  the JSON codec of the persisted records.\<close>

record env =
  v_x :: extern
  v_curve :: curve
  v_GetBlockByHeight :: "uint64 \<Rightarrow> btc_block option"
  v_block_json :: "block \<Rightarrow> bytes"
  v_block_of_json :: "bytes \<Rightarrow> block option"
  v_receipts_json :: "Receipt list \<Rightarrow> bytes"
  v_receipt_json :: "Receipt \<Rightarrow> bytes"

record node =
  n_GenesisHeight :: uint64
  n_executor :: executor
  n_store :: "db option"
  n_lastHeight :: uint64
  n_stateRoot :: hash256
  n_finalizedHeight :: uint64
  n_finalizedRoot :: hash256
  n_lastCheckpoint :: "checkpoint option"
  n_rootToHeight :: "hash256 \<rightharpoonup> uint64"

datatype node_error = ErrScan uint64 | ErrForkBlock uint64 | ErrNoBlock uint64 | ErrUnmarshal uint64 | ErrTip | ErrCancelled

type_synonym outcome = "(node_error option \<times> node) option"

abbreviation n_stateDB :: "node \<Rightarrow> statedb" where "n_stateDB n \<equiv> ex_stateDB (n_executor n)"

abbreviation with_stateDB :: "statedb \<Rightarrow> node \<Rightarrow> node" where
  "with_stateDB s n \<equiv> n\<lparr>n_executor := (n_executor n)\<lparr>ex_stateDB := s\<rparr>\<rparr>"

text \<open>The heights of a counting loop with bounds that do not wrap.\<close>

definition heights :: "uint64 \<Rightarrow> uint64 \<Rightarrow> uint64 list" where
  "heights a b = map of_nat [unat a ..< Suc (unat b)]"

section \<open>Persistence\<close>

definition persistFinalized :: "node \<Rightarrow> node" where
  "persistFinalized n =
     (case n_store n of
        None \<Rightarrow> n
      | Some d \<Rightarrow>
          n\<lparr>n_store := Some (PutFinalizedRoot (PutFinalizedHeight d (n_finalizedHeight n)) (n_finalizedRoot n))\<rparr>)"

text \<open>The loop that indexes receipts; an unreadable count is taken as zero.\<close>

fun index_receipts :: "env \<Rightarrow> Receipt list \<Rightarrow> db \<times> uint64 \<Rightarrow> db \<times> uint64" where
  "index_receipts v [] (d, txCount) = (d, txCount)"
| "index_receipts v (r # rs) (d, txCount) =
     (let existing = GetTxReceipt d (rc_TxID r);
          d = PutTxReceipt d (rc_TxID r) (v_receipt_json v r)
      in if existing = None then index_receipts v rs (PutTxIndex d txCount (rc_TxID r), txCount + 1)
         else index_receipts v rs (d, txCount))"

definition persist_receipts :: "env \<Rightarrow> block \<Rightarrow> Receipt list \<Rightarrow> db \<Rightarrow> db" where
  "persist_receipts v block receipts d =
     (if length receipts > 0 then
        let d = PutReceipts d (blk_Height block) (v_receipts_json v receipts);
            txCount = (case GetTxCount d of Inl _ \<Rightarrow> 0 | Inr c \<Rightarrow> c);
            (d, txCount) = index_receipts v receipts (d, txCount)
        in PutTxCount d txCount
      else d)"

text \<open>Go iterates over a map in any order; the entries are written in the order of their keys here.\<close>

definition persist_codes :: "(hash256 \<rightharpoonup> bytes) \<Rightarrow> db \<Rightarrow> db" where
  "persist_codes m d = foldl (\<lambda>d h. PutCode d h (the (m h))) d (sorted_list_of_set (dom m))"

definition persist_contracts :: "(uint64 \<rightharpoonup> address) \<Rightarrow> db \<Rightarrow> db" where
  "persist_contracts m d = foldl (\<lambda>d i. PutContract d i (the (m i))) d (sorted_list_of_set (dom m))"

definition persist :: "env \<Rightarrow> block \<Rightarrow> Receipt list \<Rightarrow> node \<Rightarrow> node" where
  "persist v block receipts n =
     (case n_store n of
        None \<Rightarrow> n
      | Some d \<Rightarrow>
          let n = with_stateDB (FlushTries (sha256 (v_x v)) (n_stateDB n)) n;
              d = PutHeight d (blk_Height block);
              d = PutStateRoot d (blk_StateRoot block);
              d = PutL1Hash d (blk_Height block) (blk_L1BlockHash block);
              d = PutBlock d (blk_Height block) (v_block_json v block);
              d = persist_receipts v block receipts d;
              d = persist_codes (codes (n_stateDB n)) d;
              d = persist_contracts (ex_contractByID (n_executor n)) d
          in n\<lparr>n_store := Some d\<rparr>)"

section \<open>Checkpoints\<close>

definition validateCheckpoint :: "env \<Rightarrow> node \<Rightarrow> checkpoint \<Rightarrow> bool" where
  "validateCheckpoint v n cp =
     (if n_finalizedRoot n \<noteq> ZeroHash \<and> cp_StateRoot cp = n_finalizedRoot n then False
      else if cp_AttestationHash cp \<noteq> attestation (v_x v) (cp_MinerNonce cp) (cp_StateRoot cp) then False
      else (case DecompressPubKey (v_curve v) (be_bytes 33 (cp_MinerPubKey cp)) of
              None \<Rightarrow> False
            | Some pub \<Rightarrow> Verify (v_x v) (checkpointSigningHash (v_x v) cp) (cp_Signature cp) (CompressedBytes pub)))"

fun best_checkpoint :: "env \<Rightarrow> node \<Rightarrow> checkpoint list \<Rightarrow> checkpoint option \<Rightarrow> checkpoint option" where
  "best_checkpoint v n [] best = best"
| "best_checkpoint v n (cp # cps) best =
     (if \<not> validateCheckpoint v n cp then best_checkpoint v n cps best
      else best_checkpoint v n cps
        (case best of
           None \<Rightarrow> Some cp
         | Some b \<Rightarrow> if CompareAttestations cp b (cp_StateRoot cp) < 0 then Some cp else Some b))"

definition processCheckpoints :: "env \<Rightarrow> checkpoint list \<Rightarrow> node \<Rightarrow> node" where
  "processCheckpoints v checkpoints n =
     (if length checkpoints = 0 then n
      else (case best_checkpoint v n checkpoints None of
              None \<Rightarrow> n
            | Some best \<Rightarrow>
                (case DecompressPubKey (v_curve v) (be_bytes 33 (cp_MinerPubKey best)) of
                   None \<Rightarrow> n
                 | Some pub \<Rightarrow>
                     n\<lparr>n_executor := SetCoinbase (n_executor n) (PublicKey_Address (v_x v) pub),
                       n_lastCheckpoint := Some best\<rparr>)))"

text \<open>Loading the finalized state for the snapshot and restoring the current one.\<close>

definition snapshot_finalized :: "env \<Rightarrow> node \<Rightarrow> node" where
  "snapshot_finalized v n =
     (let s = n_stateDB n;
          currentRoot = state_Root (sha256 (v_x v)) s;
          s = SnapshotFinalized (ClearStorageTries (LoadTrieRoot s (n_finalizedRoot n)));
          s = ClearStorageTries (LoadTrieRoot s currentRoot)
      in with_stateDB s n)"

definition tryFinalize :: "env \<Rightarrow> node \<Rightarrow> node" where
  "tryFinalize v n =
     (case n_lastCheckpoint n of
        None \<Rightarrow> n
      | Some cp \<Rightarrow>
          (case n_rootToHeight n (cp_StateRoot cp) of
             None \<Rightarrow> n
           | Some h \<Rightarrow>
               if h < n_finalizedHeight n then n
               else snapshot_finalized v
                 (if h > n_finalizedHeight n
                  then persistFinalized (n\<lparr>n_finalizedHeight := h, n_finalizedRoot := cp_StateRoot cp\<rparr>)
                  else n)))"

section \<open>Executing a scanned block\<close>

text \<open>The part that \<open>processBlock\<close>, \<open>reprocessBlock\<close> and \<open>Follow\<close> share.\<close>

definition run_block :: "env \<Rightarrow> ScanResult \<Rightarrow> node \<Rightarrow> node option" where
  "run_block v result n =
     (let n = processCheckpoints v (sr_Checkpoints result) n
      in case ProcessBlock (v_x v) (n_executor n) (sr_L1Height result) (sr_L1BlockHash result) (sr_Payloads result) of
           None \<Rightarrow> None
         | Some (block, receipts, e) \<Rightarrow>
             let n = n\<lparr>n_executor := e, n_lastHeight := blk_Height block, n_stateRoot := blk_StateRoot block,
                       n_rootToHeight := (n_rootToHeight n)(blk_StateRoot block \<mapsto> blk_Height block)\<rparr>;
                 n = persist v block receipts n
             in Some (if length (sr_Checkpoints result) > 0 then tryFinalize v n else n))"

definition reprocessBlock :: "env \<Rightarrow> uint64 \<Rightarrow> node \<Rightarrow> outcome" where
  "reprocessBlock v height n =
     (case ScanBlock (v_GetBlockByHeight v) height of
        None \<Rightarrow> Some (Some (ErrScan height), n)
      | Some None \<Rightarrow> None
      | Some (Some result) \<Rightarrow> map_option (Pair None) (run_block v result n))"

section \<open>Reorganisations\<close>

text \<open>The loop counts down in 64-bit arithmetic.\<close>

partial_function (option) findForkPoint :: "env \<Rightarrow> uint64 \<Rightarrow> db \<Rightarrow> uint64 \<Rightarrow> (node_error + uint64) option" where
  "findForkPoint v genesis d h =
     (if \<not> genesis \<le> h then Some (Inr genesis)
      else let storedHash = GetL1Hash d h in
           if storedHash = ZeroHash then Some (Inr h)
           else (case v_GetBlockByHeight v h of
                   None \<Rightarrow> Some (Inl (ErrForkBlock h))
                 | Some block \<Rightarrow> if storedHash = bb_Hash block then Some (Inr h) else findForkPoint v genesis d (h - 1)))"

declare findForkPoint.simps [code]

text \<open>The map of roots is rebuilt from the persisted blocks; unreadable blocks are skipped.\<close>

definition rebuild_roots :: "env \<Rightarrow> db \<Rightarrow> uint64 list \<Rightarrow> hash256 \<rightharpoonup> uint64" where
  "rebuild_roots v d hs =
     foldl (\<lambda>m h. case GetBlock d h of
              None \<Rightarrow> m
            | Some bd \<Rightarrow> (case v_block_of_json v bd of None \<Rightarrow> m | Some b \<Rightarrow> m(blk_StateRoot b \<mapsto> h))) Map.empty hs"

definition rollback_genesis :: "node \<Rightarrow> node" where
  "rollback_genesis n =
     (let height = n_GenesisHeight n;
          n = with_stateDB (LoadTrieRoot (n_stateDB n) ZeroHash) (n\<lparr>n_lastHeight := height, n_stateRoot := ZeroHash\<rparr>);
          n = n\<lparr>n_rootToHeight := Map.empty, n_executor := SetCoinbase (n_executor n) ZeroAddress, n_lastCheckpoint := None\<rparr>
      in if n_finalizedHeight n > height
         then persistFinalized (n\<lparr>n_finalizedHeight := 0, n_finalizedRoot := ZeroHash\<rparr>) else n)"

definition rollback_block :: "env \<Rightarrow> db \<Rightarrow> uint64 \<Rightarrow> block \<Rightarrow> node \<Rightarrow> node" where
  "rollback_block v d height block n =
     (let n = n\<lparr>n_lastHeight := height, n_stateRoot := blk_StateRoot block\<rparr>;
          n = with_stateDB (ClearStorageTries (LoadTrieRoot (n_stateDB n) (blk_StateRoot block))) n;
          n = n\<lparr>n_rootToHeight := rebuild_roots v d (heights (n_GenesisHeight n + 1) height),
                n_lastCheckpoint := None, n_executor := SetCoinbase (n_executor n) ZeroAddress\<rparr>
      in if n_finalizedHeight n > height
         then persistFinalized (n\<lparr>n_finalizedHeight := height, n_finalizedRoot := blk_StateRoot block\<rparr>) else n)"

definition rollback_store :: "uint64 \<Rightarrow> node \<Rightarrow> node" where
  "rollback_store height n =
     n\<lparr>n_store := map_option (\<lambda>d. PutStateRoot (PutHeight (DeleteL1HashesAbove d height) (n_lastHeight n)) (n_stateRoot n)) (n_store n)\<rparr>"

definition rollbackToHeight :: "env \<Rightarrow> db \<Rightarrow> uint64 \<Rightarrow> node \<Rightarrow> node_error option \<times> node" where
  "rollbackToHeight v d height n =
     (if height = n_GenesisHeight n then (None, rollback_store height (rollback_genesis n))
      else (case GetBlock d height of
              None \<Rightarrow> (Some (ErrNoBlock height), n)
            | Some blockData \<Rightarrow>
                (case v_block_of_json v blockData of
                   None \<Rightarrow> (Some (ErrUnmarshal height), n)
                 | Some block \<Rightarrow> (None, rollback_store height (rollback_block v d height block n)))))"

fun reprocess_all :: "env \<Rightarrow> uint64 list \<Rightarrow> node \<Rightarrow> outcome" where
  "reprocess_all v [] n = Some (None, n)"
| "reprocess_all v (h # hs) n =
     (case reprocessBlock v h n of
        None \<Rightarrow> None
      | Some (Some e, n) \<Rightarrow> Some (Some e, n)
      | Some (None, n) \<Rightarrow> reprocess_all v hs n)"

definition detectAndHandleReorg :: "env \<Rightarrow> ScanResult \<Rightarrow> node \<Rightarrow> outcome" where
  "detectAndHandleReorg v result n =
     (case n_store n of
        None \<Rightarrow> Some (None, n)
      | Some d \<Rightarrow>
          let prevHeight = sr_L1Height result - 1 in
          if prevHeight < n_GenesisHeight n then Some (None, n)
          else let storedHash = GetL1Hash d prevHeight in
               if storedHash = ZeroHash \<or> storedHash = sr_L1PrevHash result then Some (None, n)
               else (case findForkPoint v (n_GenesisHeight n) d prevHeight of
                       None \<Rightarrow> None
                     | Some (Inl e) \<Rightarrow> Some (Some e, n)
                     | Some (Inr forkHeight) \<Rightarrow>
                         (case rollbackToHeight v d forkHeight n of
                            (Some e, n) \<Rightarrow> Some (Some e, n)
                          | (None, n) \<Rightarrow>
                              reprocess_all v (if forkHeight + 1 < sr_L1Height result
                                               then heights (forkHeight + 1) (sr_L1Height result - 1) else []) n)))"

definition handle_result :: "env \<Rightarrow> ScanResult \<Rightarrow> node \<Rightarrow> outcome" where
  "handle_result v result n =
     (case detectAndHandleReorg v result n of
        None \<Rightarrow> None
      | Some (Some e, n) \<Rightarrow> Some (Some e, n)
      | Some (None, n) \<Rightarrow> map_option (Pair None) (run_block v result n))"

definition processBlock :: "env \<Rightarrow> uint64 \<Rightarrow> node \<Rightarrow> outcome" where
  "processBlock v height n =
     (case ScanBlock (v_GetBlockByHeight v) height of
        None \<Rightarrow> Some (Some (ErrScan height), n)
      | Some None \<Rightarrow> None
      | Some (Some result) \<Rightarrow> handle_result v result n)"

section \<open>Synchronisation\<close>

text \<open>\<open>cancelled\<close> tells at which heights the context is found cancelled.\<close>

fun sync_all :: "env \<Rightarrow> (uint64 \<Rightarrow> bool) \<Rightarrow> uint64 list \<Rightarrow> node \<Rightarrow> outcome" where
  "sync_all v cancelled [] n = Some (None, n)"
| "sync_all v cancelled (h # hs) n =
     (if cancelled h then Some (Some ErrCancelled, n)
      else (case processBlock v h n of
              None \<Rightarrow> None
            | Some (Some e, n) \<Rightarrow> Some (Some e, n)
            | Some (None, n) \<Rightarrow> sync_all v cancelled hs n))"

definition Sync :: "env \<Rightarrow> (uint64 \<Rightarrow> bool) \<Rightarrow> uint64 option \<Rightarrow> node \<Rightarrow> outcome" where
  "Sync v cancelled best n =
     (case best of
        None \<Rightarrow> Some (Some ErrTip, n)
      | Some tip \<Rightarrow>
          if n_lastHeight n \<ge> tip then Some (None, n)
          else sync_all v cancelled (heights (n_lastHeight n + 1) tip) n)"

text \<open>\<open>Follow\<close> on the results that arrive; an error skips the block.\<close>

fun Follow :: "env \<Rightarrow> ScanResult list \<Rightarrow> node \<Rightarrow> node option" where
  "Follow v [] n = Some n"
| "Follow v (result # results) n =
     (case handle_result v result n of None \<Rightarrow> None | Some (_, n) \<Rightarrow> Follow v results n)"

section \<open>Start\<close>

definition Node_memory :: "uint64 \<Rightarrow> node" where
  "Node_memory genesis =
     \<lparr>n_GenesisHeight = genesis, n_executor = Executor_New (NewStateDB Map.empty), n_store = None, n_lastHeight = genesis,
      n_stateRoot = ZeroHash, n_finalizedHeight = 0, n_finalizedRoot = ZeroHash, n_lastCheckpoint = None, n_rootToHeight = Map.empty\<rparr>"

text \<open>A node with a data directory: \<open>nodes\<close> and \<open>factory\<close> are the persisted trie nodes.\<close>

definition Node_restore :: "env \<Rightarrow> uint64 \<Rightarrow> db \<Rightarrow> kvstore \<Rightarrow> (address \<Rightarrow> kvstore) \<Rightarrow> node" where
  "Node_restore v genesis d nodes factory =
     (let s = NewStateDBWithFactory nodes factory;
          lastHeight = (case GetHeight d of Inr h \<Rightarrow> if h > genesis then h else genesis | Inl _ \<Rightarrow> genesis);
          root = GetStateRoot d;
          s = (if root \<noteq> ZeroHash then LoadTrieRoot s root else s);
          finalizedHeight = (case GetFinalizedHeight d of Inr h \<Rightarrow> h | Inl _ \<Rightarrow> 0);
          finalizedRoot = GetFinalizedRoot d;
          s = (if finalizedRoot \<noteq> ZeroHash \<and> root \<noteq> ZeroHash
               then let s = SnapshotFinalized (ClearStorageTries (LoadTrieRoot s finalizedRoot))
                    in ClearStorageTries (LoadTrieRoot s root)
               else s);
          s = foldl (\<lambda>s h. LoadCode s h (the (ListCodes d h))) s (sorted_list_of_set (dom (ListCodes d)));
          e = foldl (\<lambda>e i. RegisterContract e i (the (ListContracts d i))) (Executor_New s) (sorted_list_of_set (dom (ListContracts d)))
      in \<lparr>n_GenesisHeight = genesis, n_executor = e, n_store = Some d, n_lastHeight = lastHeight, n_stateRoot = root,
          n_finalizedHeight = finalizedHeight, n_finalizedRoot = finalizedRoot, n_lastCheckpoint = None,
          n_rootToHeight = Map.empty\<rparr>)"

end
