(* ===== verification/Tyl_Node_Facts.thy ===== *)
theory Tyl_Node_Facts
  imports Tyl_Node
begin

text \<open>
  Properties of the node: which checkpoint wins and what it takes to be accepted, that the finalized
  height only advances to attested roots and never overtakes the chain, that the search for a fork point
  ends with the last block shared with the first chain, and that a handled reorganisation leaves the node
  on that chain.
\<close>

section \<open>Fields\<close>

lemma persistFinalized_fields [simp]:
  "n_executor (persistFinalized n) = n_executor n" "n_lastHeight (persistFinalized n) = n_lastHeight n"
  "n_stateRoot (persistFinalized n) = n_stateRoot n" "n_finalizedHeight (persistFinalized n) = n_finalizedHeight n"
  "n_finalizedRoot (persistFinalized n) = n_finalizedRoot n" "n_lastCheckpoint (persistFinalized n) = n_lastCheckpoint n"
  "n_rootToHeight (persistFinalized n) = n_rootToHeight n" "n_GenesisHeight (persistFinalized n) = n_GenesisHeight n"
  by (simp_all add: persistFinalized_def split: option.split)

lemma persist_fields [simp]:
  "n_lastHeight (persist v b rs n) = n_lastHeight n" "n_stateRoot (persist v b rs n) = n_stateRoot n"
  "n_finalizedHeight (persist v b rs n) = n_finalizedHeight n" "n_finalizedRoot (persist v b rs n) = n_finalizedRoot n"
  "n_lastCheckpoint (persist v b rs n) = n_lastCheckpoint n" "n_rootToHeight (persist v b rs n) = n_rootToHeight n"
  "n_GenesisHeight (persist v b rs n) = n_GenesisHeight n"
  by (simp_all add: persist_def Let_def split: option.split)

lemma snapshot_fields [simp]:
  "n_lastHeight (snapshot_finalized v n) = n_lastHeight n" "n_stateRoot (snapshot_finalized v n) = n_stateRoot n"
  "n_finalizedHeight (snapshot_finalized v n) = n_finalizedHeight n" "n_finalizedRoot (snapshot_finalized v n) = n_finalizedRoot n"
  "n_lastCheckpoint (snapshot_finalized v n) = n_lastCheckpoint n" "n_rootToHeight (snapshot_finalized v n) = n_rootToHeight n"
  "n_store (snapshot_finalized v n) = n_store n" "n_GenesisHeight (snapshot_finalized v n) = n_GenesisHeight n"
  by (simp_all add: snapshot_finalized_def Let_def)

lemma processCheckpoints_fields [simp]:
  "n_lastHeight (processCheckpoints v cps n) = n_lastHeight n" "n_stateRoot (processCheckpoints v cps n) = n_stateRoot n"
  "n_finalizedHeight (processCheckpoints v cps n) = n_finalizedHeight n" "n_finalizedRoot (processCheckpoints v cps n) = n_finalizedRoot n"
  "n_rootToHeight (processCheckpoints v cps n) = n_rootToHeight n" "n_store (processCheckpoints v cps n) = n_store n"
  "n_GenesisHeight (processCheckpoints v cps n) = n_GenesisHeight n"
  by (simp_all add: processCheckpoints_def split: option.split)

lemma tryFinalize_fields [simp]:
  "n_lastHeight (tryFinalize v n) = n_lastHeight n" "n_stateRoot (tryFinalize v n) = n_stateRoot n"
  "n_lastCheckpoint (tryFinalize v n) = n_lastCheckpoint n" "n_rootToHeight (tryFinalize v n) = n_rootToHeight n"
  "n_GenesisHeight (tryFinalize v n) = n_GenesisHeight n"
  by (simp_all add: tryFinalize_def split: option.split)

section \<open>Checkpoints\<close>

text \<open>A checkpoint whose attestation hash and signature are right.\<close>

definition genuine :: "env \<Rightarrow> checkpoint \<Rightarrow> bool" where
  "genuine v cp \<longleftrightarrow> cp_AttestationHash cp = attestation (v_x v) (cp_MinerNonce cp) (cp_StateRoot cp) \<and>
     ParsePubKey (v_curve v) (be_bytes 33 (cp_MinerPubKey cp)) \<and>
     Verify (v_x v) (checkpointSigningHash (v_x v) cp) (cp_Signature cp) (be_bytes 33 (cp_MinerPubKey cp))"

lemma pubkey_bytes: "be_word (be_bytes 33 (k :: 264 word)) = k"
  by (rule be_word_be_bytes_id) simp

lemma validate_iff:
  "validateCheckpoint v n cp \<longleftrightarrow> genuine v cp \<and> (n_finalizedRoot n = ZeroHash \<or> cp_StateRoot cp \<noteq> n_finalizedRoot n)"
  by (auto simp: validateCheckpoint_def genuine_def DecompressPubKey_def CompressedBytes_def pubkey_bytes)

text \<open>\<open>b\<close> is one of the checkpoints and no other one of the same root beats it.\<close>

definition wins :: "checkpoint set \<Rightarrow> checkpoint \<Rightarrow> bool" where
  "wins C b \<longleftrightarrow> b \<in> C \<and> (\<forall>c\<in>C. \<not> CompareAttestations c b (cp_StateRoot b) < 0)"

lemma beats_trans:
  "\<not> CompareAttestations c b r < 0 \<Longrightarrow> CompareAttestations d b r < 0 \<Longrightarrow> \<not> CompareAttestations c d r < 0"
  using Compare_trans [of c d r b] by blast

lemma best_wins:
  assumes "\<forall>c\<in>C \<union> set cps. cp_StateRoot c = r" and "case best of None \<Rightarrow> C = {} | Some b \<Rightarrow> wins C b"
  shows "case best_checkpoint v n cps best of
      None \<Rightarrow> C = {} \<and> (\<forall>c\<in>set cps. \<not> validateCheckpoint v n c)
    | Some b \<Rightarrow> wins (C \<union> {c \<in> set cps. validateCheckpoint v n c}) b"
  using assms
proof (induction cps arbitrary: C best)
  case (Cons c cps)
  let ?V = "{c \<in> set cps. validateCheckpoint v n c}"
  show ?case
  proof (cases "validateCheckpoint v n c")
    case False
    then have "{x \<in> set (c # cps). validateCheckpoint v n x} = ?V" by auto
    then show ?thesis using Cons.IH [of C best] Cons.prems False by (auto split: option.splits)
  next
    case True
    let ?best = "case best of None \<Rightarrow> Some c | Some b \<Rightarrow> if CompareAttestations c b (cp_StateRoot c) < 0 then Some c else Some b"
    have refl: "\<not> CompareAttestations c c s < 0" for c s using Compare_flip [of c c s] by linarith
    have r: "cp_StateRoot c = r" "\<And>b. b \<in> C \<Longrightarrow> cp_StateRoot b = r" using Cons.prems(1) by auto
    have inv: "case ?best of None \<Rightarrow> insert c C = {} | Some b \<Rightarrow> wins (insert c C) b"
    proof (cases best)
      case None
      then show ?thesis using Cons.prems(2) refl by (simp add: wins_def)
    next
      case (Some b)
      then have w: "wins C b" using Cons.prems(2) by simp
      then have b: "cp_StateRoot b = r" using r(2) by (simp add: wins_def)
      show ?thesis
      proof (cases "CompareAttestations c b r < 0")
        case True
        have "\<not> CompareAttestations d c r < 0" if "d \<in> C" for d
          using w that b True beats_trans [of d b r c] by (simp add: wins_def)
        then show ?thesis using Some True refl r by (simp add: wins_def)
      next
        case False
        then show ?thesis using Some w b r by (simp add: wins_def)
      qed
    qed
    have eq: "best_checkpoint v n (c # cps) best = best_checkpoint v n cps ?best" using True by simp
    have un: "insert c C \<union> ?V = C \<union> {x \<in> set (c # cps). validateCheckpoint v n x}" using True by auto
    from Cons.IH [OF _ inv] Cons.prems(1) show ?thesis unfolding eq un by (auto split: option.splits)
  qed
qed (auto split: option.splits)

lemma best_valid: "best_checkpoint v n cps best = Some b \<Longrightarrow> best = Some b \<or> b \<in> set cps \<and> validateCheckpoint v n b"
  by (induction cps arbitrary: best) (fastforce split: option.splits if_splits)+

lemma processCheckpoints_cases:
  "processCheckpoints v cps n = n \<and> (best_checkpoint v n cps None = None) \<or>
   (\<exists>b. best_checkpoint v n cps None = Some b \<and> genuine v b \<and>
     processCheckpoints v cps n = n\<lparr>n_executor := SetCoinbase (n_executor n) (PublicKey_Address (v_x v) (cp_MinerPubKey b)),
       n_lastCheckpoint := Some b\<rparr>)"
proof (cases "best_checkpoint v n cps None")
  case (Some b)
  then have "genuine v b" using best_valid [of v n cps None b] by (auto simp: validate_iff)
  moreover have "cps \<noteq> []" using Some by auto
  ultimately show ?thesis
    using Some by (simp add: processCheckpoints_def DecompressPubKey_def genuine_def pubkey_bytes)
qed (simp add: processCheckpoints_def)

text \<open>The attestations of a block compete fairly: if its checkpoints are for one state root, then either
  none of them is valid and nothing changes, or the one kept has a right attestation hash and signature,
  no valid checkpoint of the block is closer to the root (nor equally close with a smaller key), and the
  fees of the block go to the address of its key.\<close>

theorem checkpoint_winner:
  assumes "\<forall>c\<in>set cps. cp_StateRoot c = r"
  shows "(\<forall>c\<in>set cps. \<not> validateCheckpoint v n c) \<and> processCheckpoints v cps n = n \<or>
    (\<exists>b\<in>set cps. validateCheckpoint v n b \<and> genuine v b \<and>
      (\<forall>c\<in>set cps. validateCheckpoint v n c \<longrightarrow> \<not> CompareAttestations c b r < 0) \<and>
      n_lastCheckpoint (processCheckpoints v cps n) = Some b \<and>
      ex_coinbase (n_executor (processCheckpoints v cps n)) = PublicKey_Address (v_x v) (cp_MinerPubKey b))"
proof -
  have w: "case best_checkpoint v n cps None of
      None \<Rightarrow> \<forall>c\<in>set cps. \<not> validateCheckpoint v n c
    | Some b \<Rightarrow> wins {c \<in> set cps. validateCheckpoint v n c} b"
    using best_wins [of "{}" cps r None v n] assms by (simp split: option.splits)
  show ?thesis using processCheckpoints_cases [of v cps n] w assms
    by (auto simp: wins_def SetCoinbase_def)
qed

section \<open>Mined checkpoints\<close>

text \<open>What the signature scheme promises: the public key of a private key is a public key, and a signature,
  brought into compact form and back, verifies under it.\<close>

definition signs :: "env \<Rightarrow> bytes \<Rightarrow> bool" where
  "signs v key \<longleftrightarrow> ParsePubKey (v_curve v) (be_bytes 33 (PubKey (v_curve v) key)) \<and>
     (\<forall>h der c. ecdsa_Sign (v_x v) key h = Some der \<longrightarrow> parseDERToCompact der = Inr c \<longrightarrow> length c = 64 \<and>
        ecdsa_VerifyDER (v_x v) (compactToDER (take 32 c) (drop 32 c)) h (be_bytes 33 (PubKey (v_curve v) key)))"

text \<open>What the miner produces, the node accepts: a mined checkpoint is valid unless its state root is
  already finalized, and the node keeps it when it is the only checkpoint of a block.\<close>

theorem mined_checkpoint_accepted:
  assumes "signs v key" and "Mine (v_x v) (v_curve v) key reads stateRoot prevChecksum = Inr cp"
    and "n_finalizedRoot n = ZeroHash \<or> stateRoot \<noteq> n_finalizedRoot n"
  shows "validateCheckpoint v n cp \<and> n_lastCheckpoint (processCheckpoints v [cp] n) = Some cp \<and>
    ex_coinbase (n_executor (processCheckpoints v [cp] n)) = PublicKey_Address (v_x v) (PubKey (v_curve v) key)"
proof -
  note m = mine_cp [OF assms(2)]
  obtain der c where d: "ecdsa_Sign (v_x v) key (hash_bytes (checkpointSigningHash (v_x v) cp)) = Some der"
      "parseDERToCompact der = Inr c" "cp_Signature cp = be_word c"
    using m(5) by (auto simp: Sign_def split: option.splits sum.splits)
  have c: "length c = 64" "ecdsa_VerifyDER (v_x v) (compactToDER (take 32 c) (drop 32 c))
      (hash_bytes (checkpointSigningHash (v_x v) cp)) (be_bytes 33 (PubKey (v_curve v) key))"
    using assms(1) d(1,2) by (simp_all add: signs_def)
  have "sig_bytes (cp_Signature cp) = c" using c(1) by (simp add: sig_bytes_def d(3) be_bytes_be_word)
  then have "genuine v cp" using m c assms(1) by (simp add: genuine_def Verify_def signs_def)
  then have ok: "validateCheckpoint v n cp" using assms(3) m(1) by (simp add: validate_iff)
  then have "best_checkpoint v n [cp] None = Some cp" by simp
  then show ?thesis using ok processCheckpoints_cases [of v "[cp]" n] m(4) by (auto simp: SetCoinbase_def)
qed

section \<open>Finality\<close>

lemma tryFinalize_cases:
  "n_finalizedHeight (tryFinalize v n) = n_finalizedHeight n \<and> n_finalizedRoot (tryFinalize v n) = n_finalizedRoot n \<or>
   (\<exists>cp h. n_lastCheckpoint n = Some cp \<and> n_rootToHeight n (cp_StateRoot cp) = Some h \<and> n_finalizedHeight n < h \<and>
     n_finalizedHeight (tryFinalize v n) = h \<and> n_finalizedRoot (tryFinalize v n) = cp_StateRoot cp)"
  by (auto simp: tryFinalize_def split: option.split)

lemma ProcessBlock_fields:
  "ProcessBlock x e height l1 txs = Some (b, rs, e') \<Longrightarrow> blk_Height b = height \<and> blk_L1BlockHash b = l1"
  by (auto simp: ProcessBlock_def Let_def split: option.splits prod.splits)

text \<open>What executing a scanned block does to the chain and finality data.\<close>

lemma run_block_facts:
  assumes "run_block v result n = Some n'"
  shows "n_lastHeight n' = sr_L1Height result" and "n_rootToHeight n' = (n_rootToHeight n)(n_stateRoot n' \<mapsto> sr_L1Height result)"
    and "n_lastCheckpoint n' = n_lastCheckpoint (processCheckpoints v (sr_Checkpoints result) n)"
    and "n_GenesisHeight n' = n_GenesisHeight n"
    and "n_finalizedHeight n' = n_finalizedHeight n \<and> n_finalizedRoot n' = n_finalizedRoot n \<or>
      (\<exists>cp h. n_lastCheckpoint n' = Some cp \<and> n_rootToHeight n' (cp_StateRoot cp) = Some h \<and> n_finalizedHeight n < h \<and>
        n_finalizedHeight n' = h \<and> n_finalizedRoot n' = cp_StateRoot cp)"
proof -
  let ?m = "processCheckpoints v (sr_Checkpoints result) n"
  obtain b rs e where pb: "ProcessBlock (v_x v) (n_executor ?m) (sr_L1Height result) (sr_L1BlockHash result) (sr_Payloads result) = Some (b, rs, e)"
    using assms by (auto simp: run_block_def Let_def split: option.splits)
  define m where "m = persist v b rs (?m\<lparr>n_executor := e, n_lastHeight := blk_Height b, n_stateRoot := blk_StateRoot b,
      n_rootToHeight := (n_rootToHeight ?m)(blk_StateRoot b \<mapsto> blk_Height b)\<rparr>)"
  have n': "n' = (if length (sr_Checkpoints result) > 0 then tryFinalize v m else m)"
    using assms pb by (auto simp: run_block_def Let_def m_def)
  have h: "blk_Height b = sr_L1Height result" using ProcessBlock_fields [OF pb] by simp
  have m: "n_lastHeight m = sr_L1Height result" "n_rootToHeight m = (n_rootToHeight n)(n_stateRoot m \<mapsto> sr_L1Height result)"
    "n_lastCheckpoint m = n_lastCheckpoint ?m" "n_GenesisHeight m = n_GenesisHeight n"
    "n_finalizedHeight m = n_finalizedHeight n" "n_finalizedRoot m = n_finalizedRoot n"
    by (simp_all add: m_def h)
  show "n_lastHeight n' = sr_L1Height result" "n_rootToHeight n' = (n_rootToHeight n)(n_stateRoot n' \<mapsto> sr_L1Height result)"
    "n_lastCheckpoint n' = n_lastCheckpoint ?m" "n_GenesisHeight n' = n_GenesisHeight n"
    using m by (simp_all add: n')
  show "n_finalizedHeight n' = n_finalizedHeight n \<and> n_finalizedRoot n' = n_finalizedRoot n \<or>
      (\<exists>cp h. n_lastCheckpoint n' = Some cp \<and> n_rootToHeight n' (cp_StateRoot cp) = Some h \<and> n_finalizedHeight n < h \<and>
        n_finalizedHeight n' = h \<and> n_finalizedRoot n' = cp_StateRoot cp)"
    using tryFinalize_cases [of v m] m(5,6) by (auto simp: n')
qed

text \<open>The invariant of the node: the finalized height and the heights of known roots are within the chain,
  and the checkpoint it finalizes by is genuine.\<close>

definition node_inv :: "env \<Rightarrow> node \<Rightarrow> bool" where
  "node_inv v n \<longleftrightarrow> n_finalizedHeight n \<le> n_lastHeight n \<and>
     (\<forall>r h. n_rootToHeight n r = Some h \<longrightarrow> h \<le> n_lastHeight n) \<and>
     (\<forall>cp. n_lastCheckpoint n = Some cp \<longrightarrow> genuine v cp)"

lemma node_inv_checkpoints: "node_inv v n \<Longrightarrow> node_inv v (processCheckpoints v cps n)"
  using processCheckpoints_cases [of v cps n] by (auto simp: node_inv_def)

lemma node_inv_run:
  assumes "run_block v result n = Some n'" and "node_inv v n" and "n_lastHeight n \<le> sr_L1Height result"
  shows "node_inv v n'"
proof -
  note f = run_block_facts [OF assms(1)]
  have roots: "h \<le> n_lastHeight n'" if "n_rootToHeight n' r = Some h" for r h
    using that assms(2,3) by (auto simp: f(1,2) node_inv_def split: if_splits intro: order.trans)
  have "n_finalizedHeight n' \<le> n_lastHeight n'"
    using f(5)
  proof
    assume "n_finalizedHeight n' = n_finalizedHeight n \<and> n_finalizedRoot n' = n_finalizedRoot n"
    then show ?thesis using assms(2,3) by (auto simp: f(1) node_inv_def)
  qed (use roots in blast)
  moreover have "genuine v cp" if "n_lastCheckpoint n' = Some cp" for cp
    using node_inv_checkpoints [OF assms(2), of "sr_Checkpoints result"] that f(3) by (simp add: node_inv_def)
  ultimately show ?thesis using roots by (simp add: node_inv_def)
qed

text \<open>C25: finality advances by attestation only: executing a block never lowers the finalized height, and
  when it raises it, the new finalized root is the state root of a checkpoint with a right attestation
  hash and signature that the node recorded for the new height, which the chain has reached.\<close>

theorem finality_advances:
  assumes "run_block v result n = Some n'" and "node_inv v n" and "n_lastHeight n \<le> sr_L1Height result"
  shows "n_finalizedHeight n \<le> n_finalizedHeight n' \<and> n_finalizedHeight n' \<le> n_lastHeight n' \<and>
    (n_finalizedHeight n' \<noteq> n_finalizedHeight n \<longrightarrow>
      (\<exists>cp. n_lastCheckpoint n' = Some cp \<and> genuine v cp \<and> n_finalizedRoot n' = cp_StateRoot cp \<and>
        n_rootToHeight n' (cp_StateRoot cp) = Some (n_finalizedHeight n')))"
  using node_inv_run [OF assms] run_block_facts(5) [OF assms(1)] by (auto simp: node_inv_def)

section \<open>Rolling back\<close>

lemma set_heights: "h \<in> set (heights a b) \<longleftrightarrow> a \<le> h \<and> h \<le> b"
proof -
  have "(\<exists>k. unat a \<le> k \<and> k < Suc (unat b) \<and> h = of_nat k) \<longleftrightarrow> unat a \<le> unat h \<and> unat h \<le> unat b"
  proof
    assume "\<exists>k. unat a \<le> k \<and> k < Suc (unat b) \<and> h = of_nat k"
    then obtain k where k: "unat a \<le> k" "k \<le> unat b" "h = of_nat k" by auto
    have "unat b < 2 ^ LENGTH(64)" by (rule unsigned_less)
    then have "unat h = k" using k(2,3) by (simp add: unat_of_nat)
    then show "unat a \<le> unat h \<and> unat h \<le> unat b" using k by simp
  qed (auto intro!: exI [of _ "unat h"])
  then show ?thesis by (auto simp: heights_def word_le_nat_alt image_iff)
qed

lemma rebuild_roots_bound:
  assumes "\<forall>h\<in>set hs. h \<le> b" and "rebuild_roots v d hs r = Some h"
  shows "h \<le> b"
proof -
  let ?F = "\<lambda>m h. case GetBlock d h of None \<Rightarrow> m | Some bd \<Rightarrow> (case v_block_of_json v bd of None \<Rightarrow> m | Some b \<Rightarrow> m(blk_StateRoot b \<mapsto> h))"
  define P where "P m \<longleftrightarrow> (\<forall>r h. m r = Some h \<longrightarrow> h \<le> b)" for m :: "hash256 \<rightharpoonup> uint64"
  have step: "P (?F m a)" if "P m" "a \<le> b" for m a using that by (auto simp: P_def split: option.splits)
  have "P (foldl ?F m hs)" if "P m" for m
    using assms(1) that by (induction hs arbitrary: m) (auto intro: step)
  from this [of Map.empty] assms(2) show ?thesis by (auto simp: rebuild_roots_def P_def)
qed

lemma rollback_store_fields [simp]:
  "n_lastHeight (rollback_store h n) = n_lastHeight n" "n_finalizedHeight (rollback_store h n) = n_finalizedHeight n"
  "n_lastCheckpoint (rollback_store h n) = n_lastCheckpoint n" "n_rootToHeight (rollback_store h n) = n_rootToHeight n"
  "n_GenesisHeight (rollback_store h n) = n_GenesisHeight n" "n_stateRoot (rollback_store h n) = n_stateRoot n"
  by (simp_all add: rollback_store_def)

lemma rollback_fields:
  assumes "rollbackToHeight v d height n = (None, n')"
  shows "n_lastHeight n' = height" "n_GenesisHeight n' = n_GenesisHeight n" "node_inv v n'"
proof -
  have "n_lastHeight n' = height \<and> n_GenesisHeight n' = n_GenesisHeight n \<and> node_inv v n'"
  proof (cases "height = n_GenesisHeight n")
    case True
    then have "n' = rollback_store height (rollback_genesis n)" using assms by (simp add: rollbackToHeight_def)
    then show ?thesis using True by (auto simp: rollback_genesis_def Let_def node_inv_def)
  next
    case False
    then obtain b where "n' = rollback_store height (rollback_block v d height b n)"
      using assms by (auto simp: rollbackToHeight_def split: option.splits)
    then show ?thesis
      by (auto simp: rollback_block_def Let_def node_inv_def set_heights dest!: rebuild_roots_bound [rotated, where b = height])
  qed
  then show "n_lastHeight n' = height" "n_GenesisHeight n' = n_GenesisHeight n" "node_inv v n'" by simp_all
qed

lemma rollback_error: "rollbackToHeight v d height n = (Some e, n') \<Longrightarrow> n' = n"
  by (auto simp: rollbackToHeight_def split: if_splits option.splits)

section \<open>The stored hashes of the first chain\<close>

lemma l1_keep:
  "GetL1Hash (PutHeight d h) k = GetL1Hash d k" "GetL1Hash (PutStateRoot d r) k = GetL1Hash d k"
  "GetL1Hash (PutBlock d h b) k = GetL1Hash d k" "GetL1Hash (PutReceipts d h b) k = GetL1Hash d k"
  "GetL1Hash (PutTxReceipt d t b) k = GetL1Hash d k" "GetL1Hash (PutTxIndex d i t) k = GetL1Hash d k"
  "GetL1Hash (PutTxCount d c) k = GetL1Hash d k" "GetL1Hash (PutCode d r b) k = GetL1Hash d k"
  "GetL1Hash (PutContract d i a) k = GetL1Hash d k" "GetL1Hash (PutFinalizedHeight d h) k = GetL1Hash d k"
  "GetL1Hash (PutFinalizedRoot d r) k = GetL1Hash d k"
  "GetL1Hash (PutL1Hash d h r) k = (if k = h then r else GetL1Hash d k)"
  by (simp_all add: gets sets get_hash_def db_Get_Put del: key_of.simps)

lemma l1_index: "GetL1Hash (fst (index_receipts v rs (d, c))) k = GetL1Hash d k"
  by (induction rs arbitrary: d c) (simp_all add: Let_def l1_keep)

lemma l1_receipts: "GetL1Hash (persist_receipts v b rs d) k = GetL1Hash d k"
  using l1_index [of v rs "PutReceipts d (blk_Height b) (v_receipts_json v rs)"]
  by (auto simp: persist_receipts_def Let_def l1_keep split: prod.split) (metis fst_conv)

lemma l1_maps: "GetL1Hash (persist_codes m d) k = GetL1Hash d k" "GetL1Hash (persist_contracts m' d) k = GetL1Hash d k"
proof -
  have "GetL1Hash (foldl (\<lambda>d h. PutCode d h (f h)) d hs) k = GetL1Hash d k" for f hs
    by (induction hs arbitrary: d) (simp_all add: l1_keep)
  then show "GetL1Hash (persist_codes m d) k = GetL1Hash d k" by (simp add: persist_codes_def)
  have "GetL1Hash (foldl (\<lambda>d h. PutContract d h (f h)) d hs) k = GetL1Hash d k" for f hs
    by (induction hs arbitrary: d) (simp_all add: l1_keep)
  then show "GetL1Hash (persist_contracts m' d) k = GetL1Hash d k" by (simp add: persist_contracts_def)
qed

lemma l1_persist:
  "n_store n = Some d \<Longrightarrow> \<exists>d'. n_store (persist v b rs n) = Some d' \<and>
    (\<forall>k. GetL1Hash d' k = (if k = blk_Height b then blk_L1BlockHash b else GetL1Hash d k))"
  by (simp add: persist_def Let_def l1_keep l1_receipts l1_maps)

lemma l1_persistFinalized:
  "n_store n = Some d \<Longrightarrow> \<exists>d'. n_store (persistFinalized n) = Some d' \<and> (\<forall>k. GetL1Hash d' k = GetL1Hash d k)"
  by (simp add: persistFinalized_def l1_keep)

lemma l1_tryFinalize:
  "n_store n = Some d \<Longrightarrow> \<exists>d'. n_store (tryFinalize v n) = Some d' \<and> (\<forall>k. GetL1Hash d' k = GetL1Hash d k)"
  using l1_persistFinalized [of "n\<lparr>n_finalizedHeight := h, n_finalizedRoot := r\<rparr>" d for h r]
  by (auto simp: tryFinalize_def split: option.split)

lemma l1_run_block:
  assumes "run_block v result n = Some n'" and "n_store n = Some d"
  shows "\<exists>d'. n_store n' = Some d' \<and>
    (\<forall>k. GetL1Hash d' k = (if k = sr_L1Height result then sr_L1BlockHash result else GetL1Hash d k))"
proof -
  let ?m = "processCheckpoints v (sr_Checkpoints result) n"
  obtain b rs e where pb: "ProcessBlock (v_x v) (n_executor ?m) (sr_L1Height result) (sr_L1BlockHash result) (sr_Payloads result) = Some (b, rs, e)"
    using assms by (auto simp: run_block_def Let_def split: option.splits)
  define m where "m = persist v b rs (?m\<lparr>n_executor := e, n_lastHeight := blk_Height b, n_stateRoot := blk_StateRoot b,
      n_rootToHeight := (n_rootToHeight ?m)(blk_StateRoot b \<mapsto> blk_Height b)\<rparr>)"
  have n': "n' = (if length (sr_Checkpoints result) > 0 then tryFinalize v m else m)"
    using assms pb by (auto simp: run_block_def Let_def m_def)
  have b: "blk_Height b = sr_L1Height result" "blk_L1BlockHash b = sr_L1BlockHash result" using ProcessBlock_fields [OF pb] by simp_all
  obtain d1 where d1: "n_store m = Some d1"
      "\<forall>k. GetL1Hash d1 k = (if k = sr_L1Height result then sr_L1BlockHash result else GetL1Hash d k)"
    using l1_persist [of "?m\<lparr>n_executor := e, n_lastHeight := blk_Height b, n_stateRoot := blk_StateRoot b,
      n_rootToHeight := (n_rootToHeight ?m)(blk_StateRoot b \<mapsto> blk_Height b)\<rparr>" d v b rs] assms(2) by (auto simp: m_def b)
  then show ?thesis using l1_tryFinalize [OF d1(1), of v] by (auto simp: n')
qed

lemma l1_rollback:
  assumes "rollbackToHeight v d height n = (None, n')" and "n_store n = Some d" and "height \<noteq> - 1"
  shows "\<exists>d'. n_store n' = Some d' \<and> (\<forall>k. GetL1Hash d' k = (if height < k then ZeroHash else GetL1Hash d k))"
proof -
  have above: "GetL1Hash (DeleteL1HashesAbove d1 height) k = (if height < k then ZeroHash else GetL1Hash d1 k)" for d1 k
    using delete_above_Get [OF assms(3), of d1 "CL1Hash k"] by (simp add: gets get_hash_def del: key_of.simps)
  obtain m where m: "n' = rollback_store height m" "\<exists>d'. n_store m = Some d' \<and> (\<forall>k. GetL1Hash d' k = GetL1Hash d k)"
  proof (cases "height = n_GenesisHeight n")
    case True
    have "\<exists>d'. n_store (rollback_genesis n) = Some d' \<and> (\<forall>k. GetL1Hash d' k = GetL1Hash d k)"
      using assms(2) l1_persistFinalized by (simp add: rollback_genesis_def Let_def)
    moreover have "n' = rollback_store height (rollback_genesis n)" using assms(1) True by (simp add: rollbackToHeight_def)
    ultimately show ?thesis using that by blast
  next
    case False
    then obtain b where b: "n' = rollback_store height (rollback_block v d height b n)"
      using assms by (auto simp: rollbackToHeight_def split: option.splits)
    have "\<exists>d'. n_store (rollback_block v d height b n) = Some d' \<and> (\<forall>k. GetL1Hash d' k = GetL1Hash d k)"
      using assms(2) l1_persistFinalized by (simp add: rollback_block_def Let_def)
    then show ?thesis using b that by blast
  qed
  then show ?thesis by (auto simp: rollback_store_def l1_keep above)
qed

section \<open>The fork point\<close>

text \<open>\<open>f\<close> is the last height up to \<open>h\<close>, and not below \<open>genesis\<close>, at which the stored hash does not contradict
  the chain.\<close>

definition fork_point :: "env \<Rightarrow> uint64 \<Rightarrow> db \<Rightarrow> uint64 \<Rightarrow> uint64 \<Rightarrow> bool" where
  "fork_point v genesis d h f \<longleftrightarrow>
     (f = genesis \<or> genesis \<le> f \<and> f \<le> h \<and>
       (GetL1Hash d f = ZeroHash \<or> (\<exists>b. v_GetBlockByHeight v f = Some b \<and> bb_Hash b = GetL1Hash d f))) \<and>
     (\<forall>k. genesis \<le> k \<and> f < k \<and> k \<le> h \<longrightarrow>
       GetL1Hash d k \<noteq> ZeroHash \<and> (\<exists>b. v_GetBlockByHeight v k = Some b \<and> bb_Hash b \<noteq> GetL1Hash d k))"

lemma findForkPoint_ends:
  assumes "0 < genesis"
  shows "\<exists>r. findForkPoint v genesis d h = Some r \<and> (\<forall>f. r = Inr f \<longrightarrow> fork_point v genesis d h f)"
proof (induction "unat h" arbitrary: h rule: less_induct)
  case less
  show ?case
  proof (cases "genesis \<le> h \<and> GetL1Hash d h \<noteq> ZeroHash \<and> (\<exists>b. v_GetBlockByHeight v h = Some b \<and> bb_Hash b \<noteq> GetL1Hash d h)")
    case False
    then show ?thesis
      by (subst findForkPoint.simps) (auto simp: fork_point_def Let_def split: option.split)
  next
    case True
    then obtain b where b: "v_GetBlockByHeight v h = Some b" "bb_Hash b \<noteq> GetL1Hash d h" by blast
    have "0 < h" using assms True by (auto intro: less_le_trans)
    then have u: "unat (h - 1) = unat h - 1" "0 < unat h"
      by (simp_all add: unat_gt_0 word_gt_0 unat_minus_one)
    then obtain r where r: "findForkPoint v genesis d (h - 1) = Some r" "\<forall>f. r = Inr f \<longrightarrow> fork_point v genesis d (h - 1) f"
      using less [of "h - 1"] by auto
    have le: "k \<le> h \<longleftrightarrow> k = h \<or> k \<le> h - 1" for k
      using u by (auto simp: word_le_nat_alt word_unat_eq_iff)
    have "fork_point v genesis d h f" if "fork_point v genesis d (h - 1) f" for f
      using that True unfolding fork_point_def by (auto simp: le)
    then show ?thesis
      using r True b by (subst findForkPoint.simps) (auto simp: Let_def)
  qed
qed

section \<open>Reprocessing\<close>

text \<open>The Bitcoin client returns the block of the height it is asked for.\<close>

definition client_ok :: "env \<Rightarrow> bool" where
  "client_ok v \<longleftrightarrow> (\<forall>h b. v_GetBlockByHeight v h = Some b \<longrightarrow> bb_Height b = h)"

lemma ScanBlock_fields:
  assumes "client_ok v" and "ScanBlock (v_GetBlockByHeight v) h = Some (Some result)"
  shows "sr_L1Height result = h \<and> (\<exists>b. v_GetBlockByHeight v h = Some b \<and> sr_L1BlockHash result = bb_Hash b)"
  using assms by (auto simp: client_ok_def ScanBlock_def scan_result_def split: option.splits)

lemma reprocess_facts:
  assumes "client_ok v" and "reprocessBlock v h n = Some (e, n')" and "node_inv v n" and "n_lastHeight n \<le> h"
  shows "node_inv v n' \<and> n_GenesisHeight n' = n_GenesisHeight n \<and> (n_lastHeight n' = n_lastHeight n \<or> n_lastHeight n' = h) \<and>
    (e = None \<longrightarrow> n_lastHeight n' = h \<and> (\<forall>d. n_store n = Some d \<longrightarrow>
      (\<exists>d' b. n_store n' = Some d' \<and> v_GetBlockByHeight v h = Some b \<and> GetL1Hash d' h = bb_Hash b \<and>
        (\<forall>k. k \<noteq> h \<longrightarrow> GetL1Hash d' k = GetL1Hash d k))))"
proof (cases "ScanBlock (v_GetBlockByHeight v) h")
  case None
  then show ?thesis using assms by (auto simp: reprocessBlock_def)
next
  case (Some r)
  then obtain result where r: "r = Some result" using assms(2) by (cases r) (simp_all add: reprocessBlock_def)
  have run: "run_block v result n = Some n'" "e = None"
    using assms(2) Some r by (auto simp: reprocessBlock_def)
  note sf = ScanBlock_fields [OF assms(1) Some [unfolded r]]
  have "node_inv v n'" by (rule node_inv_run [OF run(1) assms(3)]) (use sf assms(4) in simp)
  then show ?thesis
    using run_block_facts(1,4) [OF run(1)] l1_run_block [OF run(1)] sf by fastforce
qed

lemma reprocess_all_facts:
  assumes "client_ok v" and "reprocess_all v hs n = Some (e, n')" and "node_inv v n"
    and "sorted_wrt (<) hs" and "\<forall>h\<in>set hs. n_lastHeight n \<le> h"
  shows "node_inv v n' \<and> n_GenesisHeight n' = n_GenesisHeight n \<and> (n_lastHeight n' = n_lastHeight n \<or> n_lastHeight n' \<in> set hs) \<and>
    (e = None \<longrightarrow> n_lastHeight n' = last (n_lastHeight n # hs) \<and> (\<forall>d. n_store n = Some d \<longrightarrow>
      (\<exists>d'. n_store n' = Some d' \<and> (\<forall>h\<in>set hs. \<exists>b. v_GetBlockByHeight v h = Some b \<and> GetL1Hash d' h = bb_Hash b) \<and>
        (\<forall>k. k \<notin> set hs \<longrightarrow> GetL1Hash d' k = GetL1Hash d k))))"
  using assms(2-5)
proof (induction hs arbitrary: n)
  case (Cons h hs)
  obtain e1 n1 where 1: "reprocessBlock v h n = Some (e1, n1)" using Cons.prems(1) by (auto split: option.splits)
  have lh: "n_lastHeight n \<le> h" using Cons.prems(4) by simp
  note f = reprocess_facts [OF assms(1) 1 Cons.prems(2) lh]
  show ?case
  proof (cases e1)
    case (Some x)
    then have "n' = n1" "e = Some x" using Cons.prems(1) 1 by simp_all
    then show ?thesis using f by auto
  next
    case None
    then have rest: "reprocess_all v hs n1 = Some (e, n')" using Cons.prems(1) 1 by simp
    have n1: "n_lastHeight n1 = h" using f None by simp
    have le: "\<forall>k\<in>set hs. n_lastHeight n1 \<le> k" using Cons.prems(3) n1 by auto
    have nin: "h \<notin> set hs" using Cons.prems(3) by auto
    have inv1: "node_inv v n1" using f by simp
    have so: "sorted_wrt (<) hs" using Cons.prems(3) by simp
    note IH = Cons.IH [OF rest inv1 so le]
    have "\<exists>d'. n_store n' = Some d' \<and> (\<forall>k\<in>set (h # hs). \<exists>b. v_GetBlockByHeight v k = Some b \<and> GetL1Hash d' k = bb_Hash b) \<and>
        (\<forall>k. k \<notin> set (h # hs) \<longrightarrow> GetL1Hash d' k = GetL1Hash d k)" if e: "e = None" and d: "n_store n = Some d" for d
    proof -
      obtain d1 b where d1: "n_store n1 = Some d1" "v_GetBlockByHeight v h = Some b" "GetL1Hash d1 h = bb_Hash b"
          "\<forall>k. k \<noteq> h \<longrightarrow> GetL1Hash d1 k = GetL1Hash d k"
        using f None d by blast
      obtain d2 where d2: "n_store n' = Some d2" "\<forall>h\<in>set hs. \<exists>b. v_GetBlockByHeight v h = Some b \<and> GetL1Hash d2 h = bb_Hash b"
          "\<forall>k. k \<notin> set hs \<longrightarrow> GetL1Hash d2 k = GetL1Hash d1 k"
        using IH e d1(1) by blast
      show ?thesis using d1 d2 nin by (intro exI [of _ d2]) auto
    qed
    then show ?thesis using IH f n1 by auto
  qed
qed simp

lemma sorted_heights: "sorted_wrt (<) (heights a b)"
proof -
  have "unat b < 2 ^ LENGTH(64)" by (rule unsigned_less)
  then have "sorted_wrt (\<lambda>i j. of_nat i < (of_nat j :: uint64)) [unat a ..< Suc (unat b)]"
    by (intro sorted_wrt_mono_rel [OF _ sorted_wrt_upt]) (auto simp: word_less_nat_alt unat_of_nat)
  then show ?thesis by (simp add: heights_def sorted_wrt_map)
qed

lemma heights_empty: "heights a b = [] \<longleftrightarrow> b < a"
  by (simp add: heights_def word_less_nat_alt not_less_eq_eq Suc_le_eq not_less)

lemma last_heights: "a \<le> b \<Longrightarrow> heights a b \<noteq> [] \<and> last (heights a b) = b"
  by (simp add: heights_def word_le_nat_alt)

section \<open>Handling a reorganisation\<close>

lemma pred_facts: "0 < (h :: uint64) \<Longrightarrow> f \<le> h - 1 \<longleftrightarrow> f < h" "f < (h :: uint64) \<Longrightarrow> f + 1 \<le> k \<longleftrightarrow> f < k" "f < (h :: uint64) \<Longrightarrow> f \<noteq> - 1"
proof -
  show "f \<le> h - 1 \<longleftrightarrow> f < h" if "0 < h"
  proof -
    have "unat (h - 1) = unat h - 1" "0 < unat h" using that by (auto simp: word_gt_0 unat_minus_one unat_gt_0)
    then show ?thesis unfolding word_le_nat_alt word_less_nat_alt by linarith
  qed
  assume "f < h"
  then show ne: "f \<noteq> - 1" by (metis not_less word_order.extremum)
  have "1 + f \<noteq> 0" using ne by (metis add.commute add_eq_0_iff2)
  then have "unat (f + 1) = Suc (unat f)" using unatSuc [of f] by (simp add: add.commute)
  then show "f + 1 \<le> k \<longleftrightarrow> f < k" by (simp add: word_le_nat_alt word_less_nat_alt Suc_le_eq)
qed

text \<open>Either nothing happens, or the node goes back to a fork point and the blocks after it are executed
  again.\<close>

definition reorg_seen :: "ScanResult \<Rightarrow> node \<Rightarrow> bool" where
  "reorg_seen result n \<longleftrightarrow> (\<exists>d. n_store n = Some d \<and> n_GenesisHeight n \<le> sr_L1Height result - 1 \<and>
     GetL1Hash d (sr_L1Height result - 1) \<notin> {ZeroHash, sr_L1PrevHash result})"

lemma detect_cases:
  assumes "detectAndHandleReorg v result n = Some (e, n')" and "0 < n_GenesisHeight n" and "0 < sr_L1Height result"
  shows "n' = n \<and> (e \<noteq> None \<or> \<not> reorg_seen result n) \<or>
    (\<exists>d f n1. n_store n = Some d \<and> fork_point v (n_GenesisHeight n) d (sr_L1Height result - 1) f \<and> f < sr_L1Height result \<and>
    rollbackToHeight v d f n = (None, n1) \<and> reprocess_all v (heights (f + 1) (sr_L1Height result - 1)) n1 = Some (e, n'))"
proof (cases "reorg_seen result n")
  case True
  let ?p = "sr_L1Height result - 1"
  obtain d where d: "n_store n = Some d" "\<not> ?p < n_GenesisHeight n" "GetL1Hash d ?p \<notin> {ZeroHash, sr_L1PrevHash result}"
    using True by (auto simp: reorg_seen_def not_less)
  obtain r where r: "findForkPoint v (n_GenesisHeight n) d ?p = Some r" "\<forall>f. r = Inr f \<longrightarrow> fork_point v (n_GenesisHeight n) d ?p f"
    using findForkPoint_ends [OF assms(2)] by blast
  show ?thesis
  proof (cases r)
    case (Inl x)
    then show ?thesis using assms(1) d r(1) by (auto simp: detectAndHandleReorg_def Let_def)
  next
    case (Inr f)
    have fp: "fork_point v (n_GenesisHeight n) d ?p f" using r(2) Inr by blast
    then have "f \<le> ?p" using d(2) by (auto simp: fork_point_def)
    then have lt: "f < sr_L1Height result" using pred_facts(1) [OF assms(3)] by simp
    have hs: "(if f + 1 < sr_L1Height result then heights (f + 1) ?p else []) = heights (f + 1) ?p"
      using pred_facts(1) [OF assms(3), of "f + 1"] heights_empty [of "f + 1" ?p] by (auto simp: not_le [symmetric])
    obtain e1 n1 where rb: "rollbackToHeight v d f n = (e1, n1)" by fastforce
    show ?thesis
    proof (cases e1)
      case (Some x)
      then show ?thesis using assms(1) d r(1) Inr rb rollback_error [of v d f n x n1]
        by (auto simp: detectAndHandleReorg_def Let_def)
    next
      case None
      then have "reprocess_all v (heights (f + 1) ?p) n1 = Some (e, n')"
        using assms(1) d r(1) Inr rb hs by (simp add: detectAndHandleReorg_def Let_def)
      then show ?thesis using d fp lt rb None by blast
    qed
  qed
next
  case False
  then have "n' = n" using assms(1) by (auto simp: reorg_seen_def detectAndHandleReorg_def Let_def not_less split: option.splits if_splits)
  then show ?thesis using False by simp
qed


section \<open>Synchronisation keeps the invariant\<close>

lemma pos_above: "a < (h :: uint64) \<Longrightarrow> 0 < h"
  using word_zero_le le_less_trans by blast

lemma detect_safe:
  assumes "detectAndHandleReorg v result n = Some (e, n')" and "client_ok v" and "0 < n_GenesisHeight n"
    and "node_inv v n" and "n_lastHeight n \<le> sr_L1Height result" and "0 < sr_L1Height result"
  shows "node_inv v n' \<and> n_GenesisHeight n' = n_GenesisHeight n \<and> n_lastHeight n' \<le> sr_L1Height result"
proof (cases "n' = n")
  case False
  define p where "p = sr_L1Height result - 1"
  obtain d f n1 where f: "f < sr_L1Height result" "rollbackToHeight v d f n = (None, n1)"
      "reprocess_all v (heights (f + 1) p) n1 = Some (e, n')"
    using detect_cases [OF assms(1,3,6)] False unfolding p_def by blast
  note rb = rollback_fields [OF f(2)]
  have mem: "h \<in> set (heights (f + 1) p) \<longleftrightarrow> f < h \<and> h \<le> p" for h by (simp add: set_heights pred_facts(2) [OF f(1)])
  have "\<forall>h\<in>set (heights (f + 1) p). n_lastHeight n1 \<le> h"
    unfolding rb(1) by (rule ballI, drule mem [THEN iffD1]) (rule less_imp_le, erule conjunct1)
  note ra = reprocess_all_facts [OF assms(2) f(3) rb(3) sorted_heights this]
  have "h \<le> sr_L1Height result" if "h \<in> set (heights (f + 1) p)" for h
    using that [unfolded mem, unfolded p_def pred_facts(1) [OF assms(6)]] by (elim conjE) (rule less_imp_le)
  then show ?thesis using ra rb(1,2) f(1) by auto
qed (use assms(4,5) in simp)

lemma handle_safe:
  assumes "handle_result v result n = Some (e, n')" and "client_ok v" and "0 < n_GenesisHeight n"
    and "node_inv v n" and "n_lastHeight n \<le> sr_L1Height result" and "0 < sr_L1Height result"
  shows "node_inv v n' \<and> n_GenesisHeight n' = n_GenesisHeight n \<and> n_lastHeight n' \<le> sr_L1Height result \<and>
    (e = None \<longrightarrow> n_lastHeight n' = sr_L1Height result)"
proof -
  obtain e1 n1 where d: "detectAndHandleReorg v result n = Some (e1, n1)"
    using assms(1) by (auto simp: handle_result_def split: option.splits)
  note s = detect_safe [OF d assms(2-6)]
  show ?thesis
  proof (cases e1)
    case (Some x)
    then show ?thesis using assms(1) d s by (auto simp: handle_result_def)
  next
    case None
    then have run: "run_block v result n1 = Some n'" using assms(1) d by (auto simp: handle_result_def)
    show ?thesis using node_inv_run [OF run] run_block_facts(1,4) [OF run] s by simp
  qed
qed

lemma processBlock_safe:
  assumes "processBlock v h n = Some (e, n')" and "client_ok v" and "0 < n_GenesisHeight n"
    and "node_inv v n" and "n_lastHeight n \<le> h" and "0 < h"
  shows "node_inv v n' \<and> n_GenesisHeight n' = n_GenesisHeight n \<and> n_lastHeight n' \<le> h \<and> (e = None \<longrightarrow> n_lastHeight n' = h)"
proof (cases "ScanBlock (v_GetBlockByHeight v) h")
  case None
  then show ?thesis using assms by (auto simp: processBlock_def)
next
  case (Some r)
  then obtain result where r: "r = Some result" using assms(1) by (cases r) (simp_all add: processBlock_def)
  have h: "handle_result v result n = Some (e, n')" using assms(1) Some r by (simp add: processBlock_def)
  show ?thesis using handle_safe [OF h assms(2-4)] ScanBlock_fields [OF assms(2) Some [unfolded r]] assms(5,6) by simp
qed

lemma sync_all_safe:
  assumes "client_ok v" and "sync_all v cancelled hs n = Some (e, n')" and "0 < n_GenesisHeight n" and "node_inv v n"
    and "sorted_wrt (<) hs" and "\<forall>h\<in>set hs. n_lastHeight n < h"
  shows "node_inv v n' \<and> n_GenesisHeight n' = n_GenesisHeight n \<and> (e = None \<longrightarrow> n_lastHeight n' = last (n_lastHeight n # hs))"
  using assms(2-6)
proof (induction hs arbitrary: n)
  case (Cons h hs)
  show ?case
  proof (cases "cancelled h")
    case False
    obtain e1 n1 where 1: "processBlock v h n = Some (e1, n1)"
      using Cons.prems(1) False by (auto split: option.splits)
    have h: "n_lastHeight n < h" using Cons.prems(5) by simp
    then have "0 < h" by (rule pos_above)
    note s = processBlock_safe [OF 1 assms(1) Cons.prems(2,3) less_imp_le [OF h] this]
    show ?thesis
    proof (cases e1)
      case (Some x)
      then show ?thesis using Cons.prems(1) False 1 s by auto
    next
      case None
      then show ?thesis using Cons.IH [of n1] Cons.prems s False 1 by auto
    qed
  qed (use Cons.prems in auto)
qed simp

lemma follow_safe:
  assumes "client_ok v" and "Follow v results n = Some n'" and "0 < n_GenesisHeight n" and "node_inv v n"
    and "sorted_wrt (<) (n_lastHeight n # map sr_L1Height results)"
  shows "node_inv v n' \<and> n_GenesisHeight n' = n_GenesisHeight n \<and> n_lastHeight n' \<le> last (n_lastHeight n # map sr_L1Height results)"
  using assms(2-5)
proof (induction results arbitrary: n)
  case (Cons r rs)
  obtain e n1 where 1: "handle_result v r n = Some (e, n1)" using Cons.prems(1) by (auto split: option.splits)
  have h: "n_lastHeight n < sr_L1Height r" using Cons.prems(4) by simp
  then have "0 < sr_L1Height r" by (rule pos_above)
  note s = handle_safe [OF 1 assms(1) Cons.prems(2,3) less_imp_le [OF h] this]
  have "sorted_wrt (<) (n_lastHeight n1 # map sr_L1Height rs)" using Cons.prems(4) s by (auto intro: le_less_trans)
  then have "node_inv v n' \<and> n_GenesisHeight n' = n_GenesisHeight n1 \<and> n_lastHeight n' \<le> last (n_lastHeight n1 # map sr_L1Height rs)"
    using Cons.IH [of n1] Cons.prems(1,2) 1 s by simp
  then show ?case using s by (cases rs) auto
qed simp

lemma start_inv:
  "node_inv v (Node_memory genesis)"
  "(\<forall>h. GetFinalizedHeight d = Inr h \<longrightarrow> h \<le> n_lastHeight (Node_restore v genesis d nodes factory)) \<Longrightarrow>
    node_inv v (Node_restore v genesis d nodes factory)"
  by (auto simp: node_inv_def Node_memory_def Node_restore_def Let_def split: sum.splits)

text \<open>C24: synchronising and following keep the node consistent through cancellations, errors and
  reorganisations of any depth: the finalized height and the heights of known roots stay within the
  chain and the accepted checkpoint stays genuine. A synchronisation that reports success has reached
  the height of the first chain that it read at the start.\<close>

theorem sync_safe:
  assumes "client_ok v" and "0 < n_GenesisHeight n" and "node_inv v n"
  shows "(Sync v cancelled best n = Some (e, n') \<longrightarrow>
      node_inv v n' \<and> (e = None \<longrightarrow> (\<exists>tip. best = Some tip \<and> n_lastHeight n' = max tip (n_lastHeight n)))) \<and>
    (sorted_wrt (<) (n_lastHeight n # map sr_L1Height results) \<longrightarrow> Follow v results n = Some n' \<longrightarrow> node_inv v n')"
proof -
  have "node_inv v n' \<and> (e = None \<longrightarrow> (\<exists>tip. best = Some tip \<and> n_lastHeight n' = max tip (n_lastHeight n)))"
    if s: "Sync v cancelled best n = Some (e, n')"
  proof (cases "\<exists>tip. best = Some tip \<and> n_lastHeight n < tip")
    case False
    then show ?thesis using s assms(3) by (cases best) (auto simp: Sync_def max_def split: if_splits)
  next
    case True
    then obtain tip where tip: "best = Some tip" "n_lastHeight n < tip" by blast
    then have all: "sync_all v cancelled (heights (n_lastHeight n + 1) tip) n = Some (e, n')"
      using s tip(1) tip(2) [folded not_le] by (simp add: Sync_def)
    have mem: "\<forall>h\<in>set (heights (n_lastHeight n + 1) tip). n_lastHeight n < h"
      using pred_facts(2) [OF tip(2)] by (simp add: set_heights)
    have le: "n_lastHeight n + 1 \<le> tip" using pred_facts(2) [OF tip(2)] tip(2) by simp
    show ?thesis using sync_all_safe [OF assms(1) all assms(2,3) sorted_heights mem] last_heights [OF le] tip by simp
  qed
  then show ?thesis using follow_safe [OF assms(1) _ assms(2,3)] by blast
qed

section \<open>A sample node\<close>

text \<open>A first chain of empty blocks with hash 11, a data directory that is still at an abandoned block of
  hash 9, and two attestations of one root.\<close>

definition sample_block :: "uint64 \<Rightarrow> btc_block" where
  "sample_block h = \<lparr>bb_Height = h, bb_Hash = 11, bb_PrevHash = 11, bb_Txs = []\<rparr>"

definition sample_env :: env where
  "sample_env = \<lparr>v_x = sample_miner, v_curve = sample_curve, v_GetBlockByHeight = \<lambda>h. Some (sample_block h),
     v_block_json = \<lambda>_. [], v_block_of_json = \<lambda>_. None, v_receipts_json = \<lambda>_. [], v_receipt_json = \<lambda>_. []\<rparr>"

definition sample_checkpoint :: "264 word \<Rightarrow> checkpoint" where
  "sample_checkpoint k = \<lparr>cp_StateRoot = 5, cp_PrevChecksum = 0, cp_TxRoot = 0, cp_GasCollected = 0, cp_MinerPubKey = k,
     cp_MinerNonce = 0, cp_AttestationHash = 7, cp_Signature = 0\<rparr>"

definition sample_result :: "checkpoint list \<Rightarrow> ScanResult" where
  "sample_result cps = \<lparr>sr_L1Height = 3, sr_L1BlockHash = 11, sr_L1PrevHash = 11, sr_Payloads = [], sr_Checkpoints = cps\<rparr>"

definition sample_node :: node where
  "sample_node = (Node_memory 1)\<lparr>n_store := Some (PutL1Hash [] 2 9), n_lastHeight := 2, n_rootToHeight := [5 \<mapsto> 2]\<rparr>"

lemma sample_client: "client_ok sample_env"
  by (simp add: client_ok_def sample_env_def sample_block_def)

lemma sample_get: "v_GetBlockByHeight sample_env h = Some (sample_block h)"
  by (simp add: sample_env_def)

lemma sample_inv: "node_inv v sample_node" "0 < n_GenesisHeight sample_node" "n_lastHeight sample_node = 2"
  by (simp_all add: node_inv_def sample_node_def Node_memory_def)

lemma sample_genuine: "genuine sample_env (sample_checkpoint k)"
  by (simp add: genuine_def sample_env_def sample_curve_def sample_checkpoint_def sample_attestation)
    (simp add: sample_miner_def Verify_def)

lemma run_block_empty: "sr_Payloads result = [] \<Longrightarrow> \<exists>n'. run_block v result n = Some n'"
  by (simp add: run_block_def ProcessBlock_def sort_Slice_def Let_def split: prod.split)

theorem checkpoint_winner_witness:
  "n_lastCheckpoint (processCheckpoints sample_env [sample_checkpoint 4, sample_checkpoint 3] sample_node) = Some (sample_checkpoint 3)"
proof -
  have v: "validateCheckpoint sample_env sample_node (sample_checkpoint k)" for k
    using sample_genuine [of k] by (simp add: validate_iff sample_node_def Node_memory_def)
  have "CompareAttestations (sample_checkpoint 3) (sample_checkpoint 4) 5 < 0" by code_simp
  then show ?thesis
    using checkpoint_winner [of "[sample_checkpoint 4, sample_checkpoint 3]" 5 sample_env sample_node] v
    by (auto simp: sample_checkpoint_def)
qed

lemma sample_signs: "signs sample_env []"
proof -
  have "case parseDERToCompact ([0x30, 68, 2, 32] @ replicate 32 1 @ [2, 32] @ replicate 32 1) of Inl e \<Rightarrow> False | Inr c \<Rightarrow> length c = 64"
    by code_simp
  then show ?thesis by (auto simp: signs_def sample_env_def sample_curve_def sample_miner_def)
qed

theorem mined_checkpoint_accepted_witness:
  "\<exists>cp. Mine sample_miner sample_curve [] [None, Some 1, Some 2] 5 0 = Inr cp \<and> validateCheckpoint sample_env sample_node cp"
proof -
  obtain cp where "Mine sample_miner sample_curve [] [None, Some 1, Some 2] 5 0 = Inr cp" using sample_mined by blast
  then show ?thesis
    using mined_checkpoint_accepted [OF sample_signs, of "[None, Some 1, Some 2]" 5 0 cp sample_node]
    by (simp add: sample_env_def sample_node_def Node_memory_def)
qed

theorem finality_advances_witness:
  "\<exists>n'. run_block sample_env (sample_result [sample_checkpoint 3]) sample_node = Some n' \<and>
     n_finalizedHeight n' \<le> n_lastHeight n' \<and> n_lastHeight n' = 3 \<and> genuine sample_env (sample_checkpoint 3)"
proof -
  obtain n' where n': "run_block sample_env (sample_result [sample_checkpoint 3]) sample_node = Some n'"
    using run_block_empty by (metis sample_result_def ScanResult.select_convs(4))
  then show ?thesis
    using finality_advances [OF n' sample_inv(1)] run_block_facts(1) [OF n'] sample_inv(3) sample_genuine
    by (simp add: sample_result_def)
qed

text \<open>The node finds the abandoned block, goes back to the genesis height and executes the block of the
  chain.\<close>

lemma sample_hashes: "GetL1Hash (PutL1Hash [] 2 9) k = (if k = 2 then 9 else ZeroHash)"
  by (simp add: l1_keep) (simp add: GetL1Hash_def get_hash_def db_Get_def)

lemma sample_reorg:
  "\<exists>n'. detectAndHandleReorg sample_env (sample_result []) sample_node = Some (None, n')"
proof -
  let ?d = "PutL1Hash [] 2 9" and ?n = "rollback_store 1 (rollback_genesis sample_node)"
  have g: "n_GenesisHeight sample_node = 1" "n_store sample_node = Some ?d" by (simp_all add: sample_node_def Node_memory_def)
  have "findForkPoint sample_env 1 ?d 1 = Some (Inr 1)"
    by (subst findForkPoint.simps) (simp add: sample_hashes)
  then have f: "findForkPoint sample_env 1 ?d 2 = Some (Inr 1)"
    by (subst findForkPoint.simps) (simp add: sample_hashes sample_get sample_block_def)
  have "ScanBlock (v_GetBlockByHeight sample_env) 2 =
      Some (Some \<lparr>sr_L1Height = 2, sr_L1BlockHash = 11, sr_L1PrevHash = 11, sr_Payloads = [], sr_Checkpoints = []\<rparr>)"
    by (simp add: ScanBlock_def sample_get sample_block_def scan_result_def ExtractFromBlock_def)
  moreover obtain n' where "run_block sample_env \<lparr>sr_L1Height = 2, sr_L1BlockHash = 11, sr_L1PrevHash = 11,
      sr_Payloads = [], sr_Checkpoints = []\<rparr> ?n = Some n'"
    using run_block_empty [of "\<lparr>sr_L1Height = 2, sr_L1BlockHash = 11, sr_L1PrevHash = 11, sr_Payloads = [], sr_Checkpoints = []\<rparr>"] by auto
  ultimately have "reprocess_all sample_env [2] ?n = Some (None, n')" by (simp add: reprocessBlock_def)
  moreover have "heights 2 2 = [2]" by (simp add: heights_def)
  ultimately have "detectAndHandleReorg sample_env (sample_result []) sample_node = Some (None, n')"
    by (simp add: detectAndHandleReorg_def sample_result_def g f rollbackToHeight_def sample_hashes)
  then show ?thesis by blast
qed


theorem sync_safe_witness:
  "\<exists>e n'. Sync sample_env (\<lambda>_. False) (Some 2) sample_node = Some (e, n') \<and> node_inv sample_env n'"
proof -
  have "Sync sample_env (\<lambda>_. False) (Some 2) sample_node = Some (None, sample_node)" by (simp add: Sync_def sample_inv(3))
  then show ?thesis using sync_safe [OF sample_client sample_inv(2,1)] by blast
qed

end
