(* ===== verification/Tyl_Script.thy ===== *)
theory Tyl_Script
  imports Tyl_Asm
begin

text \<open>
  The assembly compiler of \<open>contracts/script/compiler.go\<close>: parsing, the iteration that places labels,
  and the emission of code. Source texts are ASCII strings here, for which the classification and case
  conversion functions of the \<open>strings\<close> package work on single characters. Offsets are natural numbers.

  The size of a PUSH of a label depends on the address of the label, which depends on the sizes before
  it. The theory shows that the iteration of the source converges, within its 20 rounds, for programs of
  less than 64 KiB with at most 18 label references, and that 19 references are not enough in general.
\<close>

section \<open>Lexical functions\<close>

definition opcodeTable :: "string \<rightharpoonup> byte" where
  "opcodeTable = map_of
     [(''HALT'', OpHalt), (''POP'', OpPop), (''ADD'', OpAdd), (''SUB'', OpSub), (''MUL'', OpMul), (''DIV'', OpDiv),
      (''EQ'', OpEq), (''LT'', OpLt), (''NOT'', OpNot), (''JUMP'', OpJump), (''JUMPI'', OpJumpi),
      (''SLOAD'', OpSload), (''SSTORE'', OpSstore)]"

text \<open>The loop that counts the bytes of a value is the one of the assembler.\<close>

definition pushBytes :: "uint64 \<Rightarrow> bytes" where
  "pushBytes val =
     (if val = 0 then [OpPush, 1, 0]
      else let n = byte_count val
           in [OpPush, of_nat n] @ map (\<lambda>i. ucast (drop_bit (i * 8) val)) (rev [0..<n]))"

definition pushSize :: "uint64 \<Rightarrow> nat" where
  "pushSize val = (if val = 0 then 3 else 2 + byte_count val)"

definition isSpace :: "char \<Rightarrow> bool" where
  "isSpace c \<longleftrightarrow> of_char c \<in> {9, 10, 11, 12, 13, 32 :: int}"

definition strings_TrimSpace :: "string \<Rightarrow> string" where
  "strings_TrimSpace s = rev (dropWhile isSpace (rev (dropWhile isSpace s)))"

function strings_Fields :: "string \<Rightarrow> string list" where
  "strings_Fields s =
     (case dropWhile isSpace s of
        [] \<Rightarrow> []
      | c # cs \<Rightarrow> takeWhile (\<lambda>c. \<not> isSpace c) (c # cs) # strings_Fields (dropWhile (\<lambda>c. \<not> isSpace c) (c # cs)))"
  by pat_completeness auto
termination
proof (relation "measure length")
  fix s c cs
  assume "dropWhile isSpace s = c # cs"
  then have "\<not> isSpace c" "length (c # cs) \<le> length s"
    using hd_dropWhile [of isSpace s] length_dropWhile_le [of isSpace s] by auto
  then show "(dropWhile (\<lambda>c. \<not> isSpace c) (c # cs), s) \<in> measure length"
    using length_dropWhile_le [of "\<lambda>c. \<not> isSpace c" cs] by simp
qed simp

declare strings_Fields.simps [simp del]

text \<open>\<open>nil\<close> is the empty list.\<close>

definition lineTokens :: "string \<Rightarrow> string list" where
  "lineTokens line =
     (let line = takeWhile (\<lambda>c. c \<noteq> CHR '';'') line;
          line = strings_TrimSpace line
      in if line = [] then [] else strings_Fields line)"

fun strings_Split :: "char \<Rightarrow> string \<Rightarrow> string list" where
  "strings_Split sep [] = [[]]"
| "strings_Split sep (c # cs) =
     (if c = sep then [] # strings_Split sep cs
      else case strings_Split sep cs of [] \<Rightarrow> [[c]] | l # ls \<Rightarrow> (c # l) # ls)"

definition upper :: "char \<Rightarrow> char" where
  "upper c = (let n = of_char c :: int in if 97 \<le> n \<and> n \<le> 122 then char_of (n - 32) else c)"

definition strings_ToUpper :: "string \<Rightarrow> string" where
  "strings_ToUpper s = map upper s"

definition strings_EqualFold :: "string \<Rightarrow> string \<Rightarrow> bool" where
  "strings_EqualFold s t \<longleftrightarrow> map upper s = map upper t"

definition digit_value :: "char \<Rightarrow> int option" where
  "digit_value c =
     (let n = of_char c
      in if 48 \<le> n \<and> n \<le> 57 then Some (n - 48)
         else if 97 \<le> n \<and> n \<le> 122 then Some (n - 87)
         else if 65 \<le> n \<and> n \<le> 90 then Some (n - 55)
         else None)"

fun ParseUint_loop :: "int \<Rightarrow> int \<Rightarrow> string \<Rightarrow> uint64 option" where
  "ParseUint_loop base n [] = Some (of_int n)"
| "ParseUint_loop base n (c # cs) =
     (case digit_value c of
        None \<Rightarrow> None
      | Some d \<Rightarrow>
          if d \<ge> base then None
          else if n * base + d \<ge> 2 ^ 64 then None else ParseUint_loop base (n * base + d) cs)"

text \<open>\<open>strconv.ParseUint\<close> for 64 bits and a base that is not zero.\<close>

definition ParseUint :: "string \<Rightarrow> int \<Rightarrow> uint64 option" where
  "ParseUint s base = (if s = [] then None else ParseUint_loop base 0 s)"

datatype value_error = InvalidHex string | InvalidNumber string

definition parseValue :: "string \<Rightarrow> value_error + uint64" where
  "parseValue s =
     (if take 2 s = ''0x'' \<or> take 2 s = ''0X'' then
        (case ParseUint (drop 2 s) 16 of None \<Rightarrow> Inl (InvalidHex s) | Some v \<Rightarrow> Inr v)
      else (case ParseUint s 10 of None \<Rightarrow> Inl (InvalidNumber s) | Some v \<Rightarrow> Inr v))"

section \<open>Parsing\<close>

text \<open>The kinds of \<open>element\<close>, each with its line and the field that it uses.\<close>

datatype element = ELabel nat string | EPush nat string | EOp nat string

datatype script_error =
  ConstArity nat | BadValue nat value_error | DupConst nat string | EmptyLabel nat | PushNeedsArg nat
| UnknownInstr nat string | DupLabel nat string nat | UndefLabel nat string | UndefConst nat string

type_synonym consts_map = "string \<rightharpoonup> uint64"

text \<open>The part of the loop that handles an instruction, after a label of its line.\<close>

definition parse_instr :: "nat \<Rightarrow> string list \<Rightarrow> script_error + element" where
  "parse_instr lineNum toks =
     (let mnemonic = strings_ToUpper (hd toks)
      in if mnemonic = ''PUSH'' then
           if length toks < 2 then Inl (PushNeedsArg lineNum) else Inr (EPush lineNum (toks ! 1))
         else if opcodeTable mnemonic = None then Inl (UnknownInstr lineNum (hd toks))
         else Inr (EOp lineNum mnemonic))"

definition parse_line :: "nat \<Rightarrow> string list \<Rightarrow> consts_map \<times> element list \<Rightarrow> script_error + (consts_map \<times> element list)" where
  "parse_line lineNum toks st =
     (case st of (constants, elems) \<Rightarrow>
      if toks = [] then Inr (constants, elems)
      else let first = hd toks in
      if strings_EqualFold first ''.const'' then
        if length toks \<noteq> 3 then Inl (ConstArity lineNum)
        else (case parseValue (toks ! 2) of
                Inl e \<Rightarrow> Inl (BadValue lineNum e)
              | Inr val \<Rightarrow>
                  if constants (toks ! 1) \<noteq> None then Inl (DupConst lineNum (toks ! 1))
                  else Inr (constants(toks ! 1 \<mapsto> val), elems))
      else if last first = CHR '':'' then
        let labelName = butlast first in
        if labelName = [] then Inl (EmptyLabel lineNum)
        else let elems = elems @ [ELabel lineNum labelName]; toks = tl toks in
          if toks = [] then Inr (constants, elems)
          else (case parse_instr lineNum toks of Inl e \<Rightarrow> Inl e | Inr el \<Rightarrow> Inr (constants, elems @ [el]))
      else (case parse_instr lineNum toks of Inl e \<Rightarrow> Inl e | Inr el \<Rightarrow> Inr (constants, elems @ [el])))"

fun parse_lines :: "nat \<Rightarrow> string list \<Rightarrow> consts_map \<times> element list \<Rightarrow> script_error + (consts_map \<times> element list)" where
  "parse_lines lineNo [] st = Inr st"
| "parse_lines lineNo (raw # rest) st =
     (case parse_line (lineNo + 1) (lineTokens raw) st of
        Inl e \<Rightarrow> Inl e
      | Inr st \<Rightarrow> parse_lines (lineNo + 1) rest st)"

definition parse_source :: "string \<Rightarrow> script_error + (consts_map \<times> element list)" where
  "parse_source source = parse_lines 0 (strings_Split (CHR 0x0A) source) (Map.empty, [])"

section \<open>Placing labels\<close>

type_synonym labels_map = "string \<rightharpoonup> nat"

definition is_ref :: "string \<Rightarrow> bool" where
  "is_ref arg \<longleftrightarrow> take 1 arg = ''@''"

definition resolveArg :: "consts_map \<Rightarrow> labels_map \<Rightarrow> string \<Rightarrow> uint64 option" where
  "resolveArg constants labels arg =
     (if is_ref arg then (case labels (drop 1 arg) of None \<Rightarrow> None | Some off \<Rightarrow> Some (of_nat off))
      else (case constants arg of
              Some v \<Rightarrow> Some v
            | None \<Rightarrow> (case parseValue arg of Inl e \<Rightarrow> None | Inr v \<Rightarrow> Some v)))"

fun resolve_pass :: "consts_map \<Rightarrow> element list \<Rightarrow> nat \<Rightarrow> bool \<Rightarrow> labels_map \<Rightarrow> bool \<times> labels_map" where
  "resolve_pass constants [] offset changed labels = (changed, labels)"
| "resolve_pass constants (ELabel line name # es) offset changed labels =
     resolve_pass constants es offset (changed \<or> labels name \<noteq> Some offset) (labels(name \<mapsto> offset))"
| "resolve_pass constants (EPush line name # es) offset changed labels =
     (case resolveArg constants labels name of
        None \<Rightarrow> resolve_pass constants es (offset + (2 + 8)) changed labels
      | Some val \<Rightarrow> resolve_pass constants es (offset + pushSize val) changed labels)"
| "resolve_pass constants (EOp line op # es) offset changed labels = resolve_pass constants es (offset + 1) changed labels"

fun resolve_loop :: "consts_map \<Rightarrow> element list \<Rightarrow> nat \<Rightarrow> labels_map \<Rightarrow> labels_map" where
  "resolve_loop constants elems 0 labels = labels"
| "resolve_loop constants elems (Suc iters) labels =
     (case resolve_pass constants elems 0 False labels of
        (changed, labels) \<Rightarrow> if \<not> changed then labels else resolve_loop constants elems iters labels)"

fun check_labels :: "element list \<Rightarrow> (string \<rightharpoonup> nat) \<Rightarrow> script_error option" where
  "check_labels [] seen = None"
| "check_labels (ELabel line name # es) seen =
     (case seen name of
        Some prev \<Rightarrow> Some (DupLabel line name prev)
      | None \<Rightarrow> check_labels es (seen(name \<mapsto> line)))"
| "check_labels (e # es) seen = check_labels es seen"

section \<open>Emission\<close>

fun emit_code :: "consts_map \<Rightarrow> labels_map \<Rightarrow> element list \<Rightarrow> bytes \<Rightarrow> script_error + bytes" where
  "emit_code constants labels [] code = Inr code"
| "emit_code constants labels (ELabel line name # es) code = emit_code constants labels es code"
| "emit_code constants labels (EPush line arg # es) code =
     (if is_ref arg then
        (case labels (drop 1 arg) of
           None \<Rightarrow> Inl (UndefLabel line (drop 1 arg))
         | Some off \<Rightarrow> emit_code constants labels es (code @ pushBytes (of_nat off)))
      else (case constants arg of
              Some v \<Rightarrow> emit_code constants labels es (code @ pushBytes v)
            | None \<Rightarrow>
                (case parseValue arg of
                   Inl e \<Rightarrow> Inl (UndefConst line arg)
                 | Inr v \<Rightarrow> emit_code constants labels es (code @ pushBytes v))))"
| "emit_code constants labels (EOp line op # es) code =
     emit_code constants labels es (code @ [case opcodeTable op of None \<Rightarrow> 0 | Some b \<Rightarrow> b])"

definition Compile :: "string \<Rightarrow> script_error + bytes" where
  "Compile source =
     (case parse_source source of
        Inl e \<Rightarrow> Inl e
      | Inr (constants, elems) \<Rightarrow>
          let labels = resolve_loop constants elems 20 Map.empty
          in case check_labels elems Map.empty of
               Some e \<Rightarrow> Inl e
             | None \<Rightarrow> emit_code constants labels elems [])"

section \<open>The emitted code\<close>

text \<open>What an element contributes, given the addresses of labels.\<close>

fun elem_code :: "consts_map \<Rightarrow> labels_map \<Rightarrow> element \<Rightarrow> bytes" where
  "elem_code constants labels (ELabel line name) = []"
| "elem_code constants labels (EPush line arg) = (case resolveArg constants labels arg of None \<Rightarrow> [] | Some v \<Rightarrow> pushBytes v)"
| "elem_code constants labels (EOp line op) = [case opcodeTable op of None \<Rightarrow> 0 | Some b \<Rightarrow> b]"

fun resolved :: "consts_map \<Rightarrow> labels_map \<Rightarrow> element \<Rightarrow> bool" where
  "resolved constants labels (EPush line arg) \<longleftrightarrow> resolveArg constants labels arg \<noteq> None"
| "resolved constants labels _ \<longleftrightarrow> True"

abbreviation code_of_elems :: "consts_map \<Rightarrow> labels_map \<Rightarrow> element list \<Rightarrow> bytes" where
  "code_of_elems constants labels es \<equiv> concat (map (elem_code constants labels) es)"

lemma length_pushBytes [simp]: "length (pushBytes v) = pushSize v"
  by (simp add: pushBytes_def pushSize_def Let_def)

lemma pushSize_bounds: "3 \<le> pushSize v" "pushSize v \<le> 10"
  using byte_count_pos [of v] byte_count_8 [of v] by (auto simp: pushSize_def)

lemma pushBytes_eq: "pushBytes v = push_code v"
  by (simp add: pushBytes_def push_code_def Let_def be_bytes_def mult.commute rev_map)

lemma emit_code_eq:
  "emit_code constants labels es code = Inr code' \<longleftrightarrow> (\<forall>e\<in>set es. resolved constants labels e) \<and> code' = code @ code_of_elems constants labels es"
  by (induction constants labels es code rule: emit_code.induct)
    (auto simp: resolveArg_def split: option.splits sum.splits)

section \<open>One round of the placement\<close>

fun names :: "element list \<Rightarrow> string list" where
  "names [] = []"
| "names (ELabel line name # es) = name # names es"
| "names (e # es) = names es"

fun esize :: "consts_map \<Rightarrow> labels_map \<Rightarrow> element \<Rightarrow> nat" where
  "esize constants labels (ELabel line name) = 0"
| "esize constants labels (EPush line arg) = (case resolveArg constants labels arg of None \<Rightarrow> 10 | Some v \<Rightarrow> pushSize v)"
| "esize constants labels (EOp line op) = 1"

text \<open>The offset at the end of a round, and the labels without the flag.\<close>

fun ending :: "consts_map \<Rightarrow> element list \<Rightarrow> nat \<Rightarrow> labels_map \<Rightarrow> nat" where
  "ending constants [] off L = off"
| "ending constants (ELabel line name # es) off L = ending constants es off (L(name \<mapsto> off))"
| "ending constants (e # es) off L = ending constants es (off + esize constants L e) L"

fun place :: "consts_map \<Rightarrow> element list \<Rightarrow> nat \<Rightarrow> labels_map \<Rightarrow> labels_map" where
  "place constants [] off L = L"
| "place constants (ELabel line name # es) off L = place constants es off (L(name \<mapsto> off))"
| "place constants (e # es) off L = place constants es (off + esize constants L e) L"

lemma place_other: "l \<notin> set (names es) \<Longrightarrow> place constants es off L l = L l"
  by (induction constants es off L rule: place.induct) auto

lemma resolve_pass_eq:
  "distinct (names es) \<Longrightarrow> resolve_pass constants es off changed L =
    (changed \<or> place constants es off L \<noteq> L, place constants es off L)"
proof (induction constants es off changed L rule: resolve_pass.induct)
  case (2 constants line name es off changed L)
  have p: "place constants es off (L(name \<mapsto> off)) name = Some off" using 2(2) by (simp add: place_other)
  show ?case
  proof (cases "L name = Some off")
    case True
    then have "L(name \<mapsto> off) = L" by auto
    then show ?thesis using 2 True by simp
  next
    case False
    then have "place constants es off (L(name \<mapsto> off)) \<noteq> L" using p by metis
    then show ?thesis using 2 False by (auto simp del: fun_upd_apply)
  qed
qed (auto split: option.splits)

lemma resolve_loop_eq:
  "distinct (names es) \<Longrightarrow> resolve_loop constants es n L = (place constants es 0 ^^ n) L"
proof (induction n arbitrary: L)
  case (Suc n)
  have fp: "(place constants es 0 ^^ k) L = L" if "place constants es 0 L = L" for k using that by (induction k) auto
  show ?case
  proof (cases "place constants es 0 L = L")
    case True
    then show ?thesis using Suc fp [of "Suc n"] by (simp add: resolve_pass_eq)
  next
    case False
    then show ?thesis using Suc by (simp add: resolve_pass_eq funpow_swap1)
  qed
qed simp

lemma check_labels_eq:
  "check_labels es seen = None \<longleftrightarrow> distinct (names es) \<and> set (names es) \<inter> dom seen = {}"
proof (induction es seen rule: check_labels.induct)
  case (2 line name es seen)
  then show ?case by (cases "seen name") (auto simp del: fun_upd_apply)
qed auto

section \<open>Monotonicity\<close>

text \<open>\<open>L\<close> is below \<open>M\<close> when it knows the labels of \<open>M\<close> at addresses that are not larger.\<close>

definition below :: "labels_map \<Rightarrow> labels_map \<Rightarrow> bool" where
  "below L M \<longleftrightarrow> (\<forall>l b. M l = Some b \<longrightarrow> (\<exists>a\<le>b. L l = Some a))"

definition small :: "labels_map \<Rightarrow> bool" where
  "small L \<longleftrightarrow> (\<forall>l a. L l = Some a \<longrightarrow> a < 65536)"

lemma pushSize_mono: "a \<le> b \<Longrightarrow> b < 65536 \<Longrightarrow> pushSize (of_nat a) \<le> pushSize (of_nat b)"
proof -
  assume ab: "a \<le> b" "b < 65536"
  then have u: "unat (of_nat a :: uint64) = a" "unat (of_nat b :: uint64) = b" by (simp_all add: unat_of_nat)
  have "byte_count (of_nat a) \<le> byte_count (of_nat b)" using ab u by (intro byte_count_mono) simp
  moreover have "of_nat b \<noteq> (0 :: uint64) \<Longrightarrow> 0 < byte_count (of_nat b)" by (rule byte_count_pos)
  moreover have "of_nat b = (0 :: uint64) \<Longrightarrow> of_nat a = (0 :: uint64)" using ab u by (metis le_zero_eq unat_eq_zero)
  ultimately show ?thesis by (auto simp: pushSize_def)
qed

lemma pushSize_4: "a < 65536 \<Longrightarrow> pushSize (of_nat a) \<le> 4"
proof -
  assume a: "a < 65536"
  then have "unat (of_nat a :: uint64) < 256 ^ 2" by (simp add: unat_of_nat)
  from byte_count_le [OF this] show ?thesis by (simp add: pushSize_def)
qed

lemma esize_10: "esize constants L e \<le> 10"
  by (cases e) (auto simp: pushSize_bounds split: option.split)

lemma esize_mono: "below L M \<Longrightarrow> small M \<Longrightarrow> esize constants L e \<le> esize constants M e"
proof (cases e)
  case (EPush line arg)
  assume bm: "below L M" "small M"
  show ?thesis
  proof (cases "is_ref arg \<and> M (drop 1 arg) \<noteq> None")
    case True
    then obtain b where b: "M (drop 1 arg) = Some b" by blast
    then obtain a where "a \<le> b" "L (drop 1 arg) = Some a" using bm(1) by (auto simp: below_def)
    then show ?thesis using EPush True b bm(2) by (simp add: resolveArg_def small_def pushSize_mono)
  next
    case False
    then show ?thesis using EPush by (auto simp: resolveArg_def pushSize_bounds split: option.splits)
  qed
qed simp_all

lemma below_upd: "below L M \<Longrightarrow> a \<le> b \<Longrightarrow> below (L(l \<mapsto> a)) (M(l \<mapsto> b))"
  by (auto simp: below_def)

lemma small_upd: "small L \<Longrightarrow> a < 65536 \<Longrightarrow> small (L(l \<mapsto> a))"
  by (auto simp: small_def)

text \<open>A round from below stays below, ends earlier, and strictly so if it started earlier.\<close>

lemma place_mono:
  assumes "below L M" and "small M" and "a \<le> b" and "b + 10 * length es < 65536"
  shows "below (place constants es a L) (place constants es b M) \<and> small (place constants es b M) \<and>
    ending constants es a L + (b - a) \<le> ending constants es b M"
  using assms
proof (induction es arbitrary: a b L M)
  case (Cons e es)
  have step: "esize constants L e \<le> esize constants M e" "esize constants M e \<le> 10"
    using Cons.prems(1,2) by (simp_all add: esize_mono esize_10)
  show ?case
  proof (cases e)
    case (ELabel line name)
    then show ?thesis
      using Cons.IH [of "L(name \<mapsto> a)" "M(name \<mapsto> b)" a b] Cons.prems by (simp add: below_upd small_upd del: fun_upd_apply)
  next
    case (EPush line arg)
    then have e: "place constants (e # es) a L = place constants es (a + esize constants L e) L"
        "place constants (e # es) b M = place constants es (b + esize constants M e) M"
        "ending constants (e # es) a L = ending constants es (a + esize constants L e) L"
        "ending constants (e # es) b M = ending constants es (b + esize constants M e) M" by simp_all
    show ?thesis unfolding e
      using Cons.IH [of L M "a + esize constants L e" "b + esize constants M e"] Cons.prems step by auto
  next
    case (EOp line opn)
    then show ?thesis using Cons.IH [of L M "a + 1" "b + 1"] Cons.prems by simp
  qed
qed simp

text \<open>If the ends agree, no size changed, and the labels placed are the same.\<close>

lemma place_same:
  assumes "below L M" and "small M" and "b + 10 * length es < 65536" and "ending constants es b L = ending constants es b M"
    and "l \<in> set (names es) \<or> L l = M l"
  shows "place constants es b L l = place constants es b M l"
  using assms
proof (induction es arbitrary: b L M)
  case (Cons e es)
  show ?case
  proof (cases e)
    case (ELabel line name)
    have "l \<in> set (names es) \<or> (L(name \<mapsto> b)) l = (M(name \<mapsto> b)) l" using Cons.prems(5) ELabel by auto
    then show ?thesis
      using Cons.IH [of "L(name \<mapsto> b)" "M(name \<mapsto> b)" b] Cons.prems(1-4) ELabel by (simp add: below_upd small_upd del: fun_upd_apply)
  next
    case (EPush line arg)
    have le: "esize constants L e \<le> esize constants M e" "esize constants M e \<le> 10"
      using Cons.prems(1,2) by (simp_all add: esize_mono esize_10)
    have ends: "ending constants es (b + esize constants L e) L = ending constants es (b + esize constants M e) M"
      using Cons.prems(4) EPush by simp
    have "ending constants es (b + esize constants L e) L + (esize constants M e - esize constants L e) \<le> ending constants es (b + esize constants M e) M"
      using place_mono [of L M "b + esize constants L e" "b + esize constants M e" es constants] Cons.prems(1-3) le by auto
    then have "esize constants L e = esize constants M e" using ends le by linarith
    then show ?thesis
      using Cons.IH [of L M "b + esize constants M e"] Cons.prems le ends EPush by auto
  next
    case (EOp line opn)
    then show ?thesis using Cons.IH [of L M "b + 1"] Cons.prems by simp
  qed
qed simp

section \<open>Convergence\<close>

fun label_ref :: "element \<Rightarrow> bool" where
  "label_ref (EPush line arg) \<longleftrightarrow> is_ref arg"
| "label_ref _ \<longleftrightarrow> False"

definition refs :: "element list \<Rightarrow> nat" where
  "refs es = length (filter label_ref es)"

text \<open>The least size of an element: a reference takes three bytes at least.\<close>

definition least :: "consts_map \<Rightarrow> element \<Rightarrow> nat" where
  "least constants e = (if label_ref e then 3 else esize constants Map.empty e)"

definition known :: "labels_map \<Rightarrow> element list \<Rightarrow> bool" where
  "known L es \<longleftrightarrow> (\<forall>line arg. EPush line arg \<in> set es \<longrightarrow> is_ref arg \<longrightarrow> drop 1 arg \<in> dom L)"

lemma esize_fixed: "\<not> label_ref e \<Longrightarrow> esize constants L e = esize constants M e"
  by (cases e) (auto simp: resolveArg_def split: option.split)

lemma least_le: "least constants e \<le> esize constants L e"
proof (cases "label_ref e")
  case True
  then show ?thesis by (cases e) (auto simp: least_def pushSize_bounds split: option.split)
qed (use esize_fixed [of e constants L Map.empty] in \<open>simp add: least_def\<close>)

lemma esize_known:
  assumes "known L (e # es)" and "small L"
  shows "esize constants L e \<le> least constants e + (if label_ref e then 1 else 0)"
proof (cases "label_ref e")
  case True
  then obtain line arg where e: "e = EPush line arg" "is_ref arg" by (cases e) auto
  then obtain a where "L (drop 1 arg) = Some a" using assms(1) by (auto simp: known_def)
  moreover have "a < 65536" using assms(2) calculation by (auto simp: small_def)
  ultimately show ?thesis using e pushSize_4 [of a] by (simp add: resolveArg_def least_def)
qed (use esize_fixed [of e constants L Map.empty] in \<open>simp add: least_def\<close>)

lemma ending_lower: "off + sum_list (map (least constants) es) \<le> ending constants es off L"
proof (induction es arbitrary: off L)
  case (Cons e es)
  have "least constants e \<le> esize constants L e" by (rule least_le)
  moreover have "off + esize constants L e + sum_list (map (least constants) es) \<le> ending constants (e # es) off L"
  proof (cases e)
    case (ELabel line name)
    then show ?thesis using Cons.IH [of off "L(name \<mapsto> off)"] by (simp del: fun_upd_apply)
  qed (use Cons.IH [of "off + esize constants L e" L] in simp_all)
  ultimately show ?case by simp
qed simp

lemma ending_upper:
  assumes "known L es" and "small L" and "off + 10 * length es < 65536"
  shows "ending constants es off L \<le> off + sum_list (map (least constants) es) + refs es"
  using assms
proof (induction es arbitrary: off L)
  case (Cons e es)
  note s = esize_known [OF Cons.prems(1,2), of constants] esize_10 [of constants L e]
  have k: "known L es" using Cons.prems(1) by (simp add: known_def)
  have r: "refs (e # es) = (if label_ref e then 1 else 0) + refs es" by (simp add: refs_def)
  show ?case
  proof (cases e)
    case (ELabel line name)
    have "known (L(name \<mapsto> off)) es" using k by (auto simp: known_def)
    then show ?thesis
      using Cons.IH [of "L(name \<mapsto> off)" off] Cons.prems(2,3) r s ELabel by (simp add: small_upd del: fun_upd_apply)
  next
    case (EPush line arg)
    then show ?thesis using Cons.IH [of L "off + esize constants L e"] Cons.prems(2,3) k r s by auto
  next
    case (EOp line opn)
    then show ?thesis using Cons.IH [of L "off + 1"] Cons.prems(2,3) k r by (simp add: least_def)
  qed
qed (simp add: refs_def)

text \<open>The labels after each round.\<close>

abbreviation rounds :: "consts_map \<Rightarrow> element list \<Rightarrow> nat \<Rightarrow> labels_map" where
  "rounds constants es k \<equiv> (place constants es 0 ^^ k) Map.empty"

lemma place_dom: "dom (place constants es off L) = dom L \<union> set (names es)"
  by (induction constants es off L rule: place.induct) (auto simp del: fun_upd_apply)

lemma rounds_dom: "dom (rounds constants es (Suc k)) = set (names es)"
  by (induction k) (simp_all add: place_dom)

lemma rounds_below:
  assumes "10 * length es < 65536"
  shows "below (rounds constants es (Suc k)) (rounds constants es k) \<and> small (rounds constants es k)"
proof (induction k)
  case (Suc k)
  then show ?case using place_mono [of "rounds constants es (Suc k)" "rounds constants es k" 0 0 es constants] assms by simp
qed (simp add: below_def small_def)

lemma rounds_stop:
  assumes "10 * length es < 65536"
    and "ending constants es 0 (rounds constants es (Suc k)) = ending constants es 0 (rounds constants es k)"
  shows "place constants es 0 (rounds constants es (Suc k)) = rounds constants es (Suc k)"
proof
  fix l
  note b = rounds_below [OF assms(1), where constants = constants and k = k]
  show "place constants es 0 (rounds constants es (Suc k)) l = rounds constants es (Suc k) l"
  proof (cases "l \<in> set (names es)")
    case True
    then show ?thesis
      using place_same [of "rounds constants es (Suc k)" "rounds constants es k" 0 es constants l] b assms by simp
  qed (simp add: place_other)
qed

lemma rounds_converge:
  assumes "10 * length es < 65536" and "refs es \<le> 18" and "known (rounds constants es 1) es"
  shows "place constants es 0 (rounds constants es 20) = rounds constants es 20"
proof -
  let ?E = "\<lambda>k. ending constants es 0 (rounds constants es k)" and ?m = "sum_list (map (least constants) es)"
  have le: "?E (Suc k) \<le> ?E k" for k
    using place_mono [of "rounds constants es (Suc k)" "rounds constants es k" 0 0 es constants]
      rounds_below [OF assms(1), where constants = constants and k = k] assms(1) by simp
  have small: "small (rounds constants es 1)" using rounds_below [OF assms(1), where constants = constants and k = 1] by simp
  have "\<exists>k\<in>{1..19}. ?E (Suc k) = ?E k"
  proof (rule ccontr)
    assume "\<not> ?thesis"
    then have strict: "?E (Suc k) < ?E k" if "1 \<le> k" "k \<le> 19" for k using le [of k] that by (auto simp: order.order_iff_strict)
    have "?E (Suc k) + k \<le> ?E 1" if "k \<le> 19" for k
      using that
    proof (induction k)
      case (Suc k)
      then show ?case using strict [of "Suc k"] by simp
    qed simp
    from this [of 19] have "?E 20 + 19 \<le> ?E 1" by simp
    moreover have "?m \<le> ?E 20" using ending_lower [of 0 constants es] by simp
    moreover have "?E 1 \<le> ?m + refs es" using ending_upper [OF assms(3) small, of 0 constants] assms(1) by simp
    ultimately show False using assms(2) by simp
  qed
  then obtain k where k: "1 \<le> k" "k \<le> 19" "?E (Suc k) = ?E k" by auto
  have fp: "place constants es 0 (rounds constants es (Suc k)) = rounds constants es (Suc k)" by (rule rounds_stop [OF assms(1) k(3)])
  have "rounds constants es (Suc k + j) = rounds constants es (Suc k)" for j by (induction j) (use fp in simp_all)
  from this [of "19 - k"] fp k(2) show ?thesis by simp
qed

section \<open>Correctness of the compiled code\<close>

lemma fixed_places:
  assumes "place constants es off L = L" and "distinct (names es)" and "es = pre @ ELabel line l # post"
  shows "L l = Some (off + sum_list (map (esize constants L) pre))"
  using assms
proof (induction pre arbitrary: es off)
  case Nil
  then have "place constants post off (L(l \<mapsto> off)) l = L l" by simp
  moreover have "l \<notin> set (names post)" using Nil by simp
  ultimately show ?case by (simp add: place_other)
next
  case (Cons e pre)
  show ?case
  proof (cases e)
    case (ELabel ln name)
    let ?es = "pre @ ELabel line l # post"
    have p: "place constants ?es off (L(name \<mapsto> off)) = L" "name \<notin> set (names ?es)" using Cons.prems ELabel by simp_all
    then have "L name = Some off" using place_other [of name ?es constants off "L(name \<mapsto> off)"] by simp
    then have "L(name \<mapsto> off) = L" by auto
    then show ?thesis using Cons.IH [where es = ?es and off = off] Cons.prems ELabel p by simp
  qed (use Cons.IH [where es = "pre @ ELabel line l # post" and off = "off + esize constants L e"] Cons.prems in \<open>simp_all add: add.assoc\<close>)
qed

lemma esize_code: "resolved constants L e \<Longrightarrow> esize constants L e = length (elem_code constants L e)"
  by (cases e) auto

lemma esize_codes:
  "\<forall>e\<in>set es. resolved constants L e \<Longrightarrow> sum_list (map (esize constants L) es) = length (code_of_elems constants L es)"
  by (induction es) (simp_all add: esize_code)

text \<open>C32: compiled jumps go where the source says: for a program of at most 18 label references and 6553
  elements, successful compilation yields the concatenation of the code of its elements for some addresses
  of labels, every reference is resolved, and the address of each label is the length of the code before
  it.\<close>

theorem compile_places_labels:
  assumes "Compile source = Inr code" and "parse_source source = Inr (constants, elems)"
    and "refs elems \<le> 18" and "length elems \<le> 6553"
  shows "\<exists>labels. code = concat (map (elem_code constants labels) elems) \<and> (\<forall>e\<in>set elems. resolved constants labels e) \<and>
    (\<forall>pre line l post. elems = pre @ ELabel line l # post \<longrightarrow>
      labels l = Some (length (concat (map (elem_code constants labels) pre))))"
proof -
  let ?L = "rounds constants elems 20"
  have d: "distinct (names elems)" using assms(1,2) by (auto simp: Compile_def Let_def check_labels_eq split: option.splits)
  have "emit_code constants ?L elems [] = Inr code"
    using assms(1,2) d by (auto simp: Compile_def Let_def resolve_loop_eq split: option.splits)
  then have e: "\<forall>e\<in>set elems. resolved constants ?L e" "code = code_of_elems constants ?L elems"
    by (simp_all add: emit_code_eq)
  have "drop 1 arg \<in> set (names elems)" if "EPush line arg \<in> set elems" "is_ref arg" for line arg
  proof -
    have "resolveArg constants ?L arg \<noteq> None" using e(1) that(1) by (metis resolved.simps(1))
    then have "drop 1 arg \<in> dom ?L" using that(2) by (auto simp: resolveArg_def split: option.splits)
    then show ?thesis using rounds_dom [where constants = constants and es = elems and k = 19] by simp
  qed
  then have "known (rounds constants elems 1) elems" using rounds_dom [where constants = constants and es = elems and k = 0] by (simp add: known_def)
  then have fp: "place constants elems 0 ?L = ?L" using rounds_converge assms(3,4) by simp
  have "?L l = Some (length (code_of_elems constants ?L pre))" if "elems = pre @ ELabel line l # post" for pre line l post
    using fixed_places [OF fp d that] esize_codes [where es = pre and constants = constants and L = ?L] e(1) that by simp
  then show ?thesis using e by blast
qed

text \<open>A jump over an addition.\<close>

definition script_lines :: "string list \<Rightarrow> string" where
  "script_lines ls = concat (map (\<lambda>l. l @ [CHR 0x0A]) ls)"

definition skip_script :: string where
  "skip_script = script_lines [''; skips the addition'', ''  push @end'', ''JUMP'', ''ADD'', ''end: HALT'']"

lemma skip_parsed:
  "\<exists>constants. parse_source skip_script = Inr (constants, [EPush 2 ''@end'', EOp 3 ''JUMP'', EOp 4 ''ADD'', ELabel 5 ''end'', EOp 5 ''HALT''])"
proof -
  have "case parse_source skip_script of Inl e \<Rightarrow> False
    | Inr (cs, es) \<Rightarrow> es = [EPush 2 ''@end'', EOp 3 ''JUMP'', EOp 4 ''ADD'', ELabel 5 ''end'', EOp 5 ''HALT'']" by code_simp
  then show ?thesis by (auto split: sum.splits)
qed

theorem compile_places_labels_witness:
  "Compile skip_script = Inr [OpPush, 1, 5, OpJump, OpAdd, OpHalt] \<and> 
   (\<exists>cs labels. labels ''end'' = Some 5 \<and> elem_code cs labels (EPush 2 ''@end'') = [OpPush, 1, 5])"
proof -
  let ?es = "[EPush 2 ''@end'', EOp 3 ''JUMP'', EOp 4 ''ADD'', ELabel 5 ''end'', EOp 5 ''HALT'']"
  obtain cs where p: "parse_source skip_script = Inr (cs, ?es)" using skip_parsed by blast
  have c: "Compile skip_script = Inr [OpPush, 1, 5, OpJump, OpAdd, OpHalt]" by code_simp
  obtain labels where l: "[OpPush, 1, 5, OpJump, OpAdd, OpHalt] = concat (map (elem_code cs labels) ?es)"
      "\<forall>pre line l post. ?es = pre @ ELabel line l # post \<longrightarrow> labels l = Some (length (concat (map (elem_code cs labels) pre)))"
    using compile_places_labels [OF c p] by (auto simp: refs_def is_ref_def)
  have "labels ''end'' = Some (length (concat (map (elem_code cs labels) [EPush 2 ''@end'', EOp 3 ''JUMP'', EOp 4 ''ADD''])))"
    by (rule l(2) [rule_format, where line = 5 and post = "[EOp 5 ''HALT'']"]) simp
  moreover have "length (concat (map (elem_code cs labels) ?es)) = 6" by (simp only: l(1) [symmetric] list.size)
  ultimately have "labels ''end'' = Some 5" by simp
  moreover have "pushBytes 5 = [OpPush, 1, 5]" by code_simp
  ultimately show ?thesis using c by (auto simp: resolveArg_def is_ref_def intro!: exI [of _ cs] exI [of _ labels])
qed

text \<open>With 19 references the 20 rounds can be too few. In this program each round brings one more address
  below 256, and the compiler stops before the last round: the code has 255 bytes and ends with the
  \<open>HALT\<close> that the label \<open>s\<close> marks, at address 254, but the nineteenth instruction pushes 255 for \<open>s\<close>.\<close>

definition drift_script :: string where
  "drift_script = script_lines
     ([''.const Z 0xffffffffffffffff''] @ map (\<lambda>c. ''PUSH @'' @ [c]) ''abcdefghijklmnopqrs'' @
      replicate 17 ''PUSH Z'' @ replicate 9 ''ADD'' @
      concat (map (\<lambda>c. [[c, CHR '':''], ''ADD'']) ''abcdefghijklmnopqr'') @ [''s: HALT''])"

theorem compile_misplaces_labels:
  "case Compile drift_script of Inl e \<Rightarrow> False
   | Inr code \<Rightarrow> length code = 255 \<and> code ! 254 = OpHalt \<and> take 3 (drop 54 code) = [OpPush, 1, 255]"
  by code_simp

end
