(* ===== verification/Tyl_RPC.thy ===== *)
theory Tyl_RPC
  imports Tyl_Store Tyl_HTLC_Facts
begin

text \<open>
  The JSON-RPC interface of a node: the handler of \<open>internal/rpc/handler.go\<close> and the client of
  \<open>internal/swap/tylrpc.go\<close> that the swap daemon uses. JSON texts are represented by the values that the
  standard codec produces from them. A handler returns \<open>None\<close> when it panics, the error of the source, or
  the result; reading may cache tries in the state database, which is returned.

  The theory shows that what the client reads over this interface are the slots and contract records of
  the executor.
\<close>

section \<open>Hexadecimal text\<close>

definition hex_char :: "byte \<Rightarrow> char" where
  "hex_char n = (if n < 10 then char_of (unat n + 48) else char_of (unat n + 87))"

definition hex_EncodeToString :: "bytes \<Rightarrow> string" where
  "hex_EncodeToString b = concat (map (\<lambda>v. [hex_char (drop_bit 4 v), hex_char (v AND 0x0f)]) b)"

text \<open>\<open>hex.DecodeString\<close> with its errors: an odd length or a character that is not a digit.\<close>

fun hex_Decode :: "string \<Rightarrow> bytes option" where
  "hex_Decode [] = Some []"
| "hex_Decode [c] = None"
| "hex_Decode (a # b # s) =
     (case (hex_digit a, hex_digit b, hex_Decode s) of
        (Some x, Some y, Some bs) \<Rightarrow> Some ((push_bit 4 x OR y) # bs)
      | _ \<Rightarrow> None)"

definition Hash256_Hex :: "hash256 \<Rightarrow> string" where
  "Hash256_Hex h = hex_EncodeToString (hash_bytes h)"

definition Address_Hex :: "address \<Rightarrow> string" where
  "Address_Hex a = hex_EncodeToString (addr_bytes a)"

definition stripHexPrefix :: "string \<Rightarrow> string" where
  "stripHexPrefix s = (if length s \<ge> 2 \<and> take 2 s = ''0x'' then drop 2 s else s)"

section \<open>Requests and results\<close>

text \<open>The parameters of a call: none, an array of strings, an array of integers, or anything else. An empty
  array is an array of every kind.\<close>

datatype json_params = NoParams | StrParams "string list" | NumParams "int list" | OtherParams

definition as_strings :: "json_params \<Rightarrow> string list option" where
  "as_strings p = (case p of StrParams ss \<Rightarrow> Some ss | NumParams [] \<Rightarrow> Some [] | _ \<Rightarrow> None)"

definition as_uint64s :: "json_params \<Rightarrow> uint64 list option" where
  "as_uint64s p =
     (case p of
        NumParams ns \<Rightarrow> if \<forall>n\<in>set ns. 0 \<le> n \<and> n < 2 ^ 64 then Some (map of_int ns) else None
      | StrParams [] \<Rightarrow> Some []
      | _ \<Rightarrow> None)"

definition as_ints :: "json_params \<Rightarrow> int list option" where
  "as_ints p =
     (case p of
        NumParams ns \<Rightarrow> if \<forall>n\<in>set ns. - (2 ^ 63) \<le> n \<and> n < 2 ^ 63 then Some ns else None
      | StrParams [] \<Rightarrow> Some []
      | _ \<Rightarrow> None)"

record AccountResult =
  ar_Address :: string
  ar_Nonce :: uint64
  ar_Balance :: uint64
  ar_CodeHash :: string
  ar_StorageRoot :: string
  ar_IsContract :: bool

record BalanceResult =
  br_Address :: string
  br_Balance :: uint64
  br_FinalizedBalance :: "uint64 option"

record StorageResult =
  str_Address :: string
  str_Key :: string
  str_Value :: string
  str_FinalizedValue :: "string option"

record CodeResult =
  cr_Address :: string
  cr_Code :: string
  cr_CodeHash :: string

record FinalizedResult =
  fr_FinalizedHeight :: uint64
  fr_FinalizedRoot :: string
  fr_OptimisticHeight :: uint64

record storedReceipt =
  sto_TxID :: bytes
  sto_Height :: uint64
  sto_Success :: bool
  sto_GasUsed :: uint64
  sto_Err :: string

record txEntry =
  te_TxID :: string
  te_Height :: uint64
  te_Success :: bool
  te_GasUsed :: uint64
  te_Err :: string
  te_Finalized :: bool

datatype raw_json = RawData bytes | RawNull | RawEmptyArray | RawEntry txEntry | RawEntries "txEntry list"

datatype rpc_value =
  VHeight uint64 | VStateRoot string | VFinalized FinalizedResult | VAccount AccountResult | VBalance BalanceResult
| VStorage StorageResult | VCode CodeResult | VRaw raw_json

datatype rpc_error =
  Expected string | InvalidAddressHex | AddressLength nat | InvalidKeyHex | InvalidTxid | StoreError store_error
| UnknownMethod string

type_synonym 'a reply = "(rpc_error + 'a) option"

text \<open>The handler: the node whose data it reads, with its state database and store. \<open>unmarshal\<close> is the
  codec of stored receipts.\<close>

record handler =
  hd_x :: extern
  hd_Height :: uint64
  hd_StateRoot :: hash256
  hd_FinalizedHeight :: uint64
  hd_FinalizedRoot :: hash256
  hd_stateDB :: statedb
  hd_store :: "db option"
  hd_unmarshal :: "bytes \<Rightarrow> storedReceipt"

abbreviation hd_sha :: "handler \<Rightarrow> hashfn" where "hd_sha h \<equiv> sha256 (hd_x h)"

section \<open>The handlers\<close>

definition parseAddress :: "string \<Rightarrow> rpc_error + address" where
  "parseAddress s =
     (let s = stripHexPrefix s
      in case hex_Decode s of
           None \<Rightarrow> Inl InvalidAddressHex
         | Some b \<Rightarrow> if length b \<noteq> 20 then Inl (AddressLength (length b)) else Inr (BytesToAddress b))"

definition getAccount :: "handler \<Rightarrow> json_params \<Rightarrow> rpc_error + AccountResult" where
  "getAccount h params =
     (case as_strings params of
        None \<Rightarrow> Inl (Expected ''[address]'')
      | Some args \<Rightarrow>
          if length args < 1 then Inl (Expected ''[address]'')
          else case parseAddress (args ! 0) of
                 Inl e \<Rightarrow> Inl e
               | Inr addr \<Rightarrow>
                   (case GetAccount (hd_sha h) (hd_stateDB h) addr of
                      None \<Rightarrow> Inr \<lparr>ar_Address = Address_Hex addr, ar_Nonce = 0, ar_Balance = 0, ar_CodeHash = [],
                                  ar_StorageRoot = [], ar_IsContract = False\<rparr>
                    | Some ac \<Rightarrow>
                        Inr \<lparr>ar_Address = Address_Hex addr, ar_Nonce = acct_Nonce ac, ar_Balance = acct_Balance ac,
                             ar_CodeHash = Hash256_Hex (acct_CodeHash ac), ar_StorageRoot = Hash256_Hex (acct_StorageRoot ac),
                             ar_IsContract = IsContract ac\<rparr>))"

definition getBalance :: "handler \<Rightarrow> json_params \<Rightarrow> rpc_error + BalanceResult" where
  "getBalance h params =
     (case as_strings params of
        None \<Rightarrow> Inl (Expected ''[address]'')
      | Some args \<Rightarrow>
          if length args < 1 then Inl (Expected ''[address]'')
          else case parseAddress (args ! 0) of
                 Inl e \<Rightarrow> Inl e
               | Inr addr \<Rightarrow>
                   let balance = GetBalance (hd_sha h) (hd_stateDB h) addr;
                       (fb, ok) = GetFinalizedBalance (hd_sha h) (hd_stateDB h) addr
                   in Inr \<lparr>br_Address = Address_Hex addr, br_Balance = balance,
                           br_FinalizedBalance = (if ok then Some fb else None)\<rparr>)"

definition getStorage :: "handler \<Rightarrow> json_params \<Rightarrow> (rpc_error + StorageResult) \<times> handler" where
  "getStorage h params =
     (case as_strings params of
        None \<Rightarrow> (Inl (Expected ''[address, key]''), h)
      | Some args \<Rightarrow>
          if length args < 2 then (Inl (Expected ''[address, key]''), h)
          else case parseAddress (args ! 0) of
                 Inl e \<Rightarrow> (Inl e, h)
               | Inr addr \<Rightarrow>
                   (case hex_Decode (stripHexPrefix (args ! 1)) of
                      None \<Rightarrow> (Inl InvalidKeyHex, h)
                    | Some keyBytes \<Rightarrow>
                        let key = BytesToHash256 keyBytes;
                            (val, s) = GetStorage (hd_sha h) (hd_stateDB h) addr key;
                            ((fv, ok), s) = GetFinalizedStorage (hd_sha h) s addr key
                        in (Inr \<lparr>str_Address = Address_Hex addr, str_Key = Hash256_Hex key, str_Value = Hash256_Hex val,
                                 str_FinalizedValue = (if ok then Some (Hash256_Hex fv) else None)\<rparr>,
                            h\<lparr>hd_stateDB := s\<rparr>)))"

text \<open>A missing code is an empty slice.\<close>

definition getCode :: "handler \<Rightarrow> json_params \<Rightarrow> rpc_error + CodeResult" where
  "getCode h params =
     (case as_strings params of
        None \<Rightarrow> Inl (Expected ''[address]'')
      | Some args \<Rightarrow>
          if length args < 1 then Inl (Expected ''[address]'')
          else case parseAddress (args ! 0) of
                 Inl e \<Rightarrow> Inl e
               | Inr addr \<Rightarrow>
                   (case GetAccount (hd_sha h) (hd_stateDB h) addr of
                      None \<Rightarrow> Inr \<lparr>cr_Address = Address_Hex addr, cr_Code = [], cr_CodeHash = []\<rparr>
                    | Some ac \<Rightarrow>
                        if \<not> IsContract ac then Inr \<lparr>cr_Address = Address_Hex addr, cr_Code = [], cr_CodeHash = []\<rparr>
                        else let code = GetCode (hd_stateDB h) (acct_CodeHash ac)
                             in Inr \<lparr>cr_Address = Address_Hex addr,
                                     cr_Code = hex_EncodeToString (case code of None \<Rightarrow> [] | Some c \<Rightarrow> c),
                                     cr_CodeHash = Hash256_Hex (acct_CodeHash ac)\<rparr>))"

text \<open>Without a data directory the store is a nil pointer, and reading through it panics.\<close>

definition getBlock :: "handler \<Rightarrow> json_params \<Rightarrow> raw_json reply" where
  "getBlock h params =
     (case as_uint64s params of
        None \<Rightarrow> Some (Inl (Expected ''[height]''))
      | Some args \<Rightarrow>
          if length args < 1 then Some (Inl (Expected ''[height]''))
          else case hd_store h of
                 None \<Rightarrow> None
               | Some d \<Rightarrow> Some (Inr (case GetBlock d (args ! 0) of None \<Rightarrow> RawNull | Some data \<Rightarrow> RawData data)))"

definition getReceipts :: "handler \<Rightarrow> json_params \<Rightarrow> raw_json reply" where
  "getReceipts h params =
     (case as_uint64s params of
        None \<Rightarrow> Some (Inl (Expected ''[height]''))
      | Some args \<Rightarrow>
          if length args < 1 then Some (Inl (Expected ''[height]''))
          else case hd_store h of
                 None \<Rightarrow> None
               | Some d \<Rightarrow> Some (Inr (case GetReceipts d (args ! 0) of None \<Rightarrow> RawEmptyArray | Some data \<Rightarrow> RawData data)))"

text \<open>A stored receipt with its finalization status.\<close>

definition enrich :: "uint64 \<Rightarrow> storedReceipt \<Rightarrow> txEntry" where
  "enrich finalizedHeight r =
     \<lparr>te_TxID = hex_EncodeToString (sto_TxID r), te_Height = sto_Height r, te_Success = sto_Success r,
      te_GasUsed = sto_GasUsed r, te_Err = sto_Err r, te_Finalized = (finalizedHeight \<ge> sto_Height r \<and> sto_Height r > 0)\<rparr>"

definition getReceipt :: "handler \<Rightarrow> json_params \<Rightarrow> raw_json reply" where
  "getReceipt h params =
     (case as_strings params of
        None \<Rightarrow> Some (Inl (Expected ''[txid]''))
      | Some args \<Rightarrow>
          if length args < 1 then Some (Inl (Expected ''[txid]''))
          else case hex_Decode (stripHexPrefix (args ! 0)) of
                 None \<Rightarrow> Some (Inl InvalidTxid)
               | Some txidBytes \<Rightarrow>
                   if length txidBytes \<noteq> 32 then Some (Inl InvalidTxid)
                   else (case hd_store h of
                           None \<Rightarrow> None
                         | Some d \<Rightarrow>
                             (case GetTxReceipt d (BytesToHash256 txidBytes) of
                                None \<Rightarrow> Some (Inr RawNull)
                              | Some data \<Rightarrow> Some (Inr (RawEntry (enrich (hd_FinalizedHeight h) (hd_unmarshal h data)))))))"

text \<open>The offset and the limit of a listing, from the parameters.\<close>

definition page :: "json_params \<Rightarrow> int \<times> int" where
  "page params =
     (let (offset, limit) =
        (case as_ints params of
           None \<Rightarrow> (0, 20)
         | Some args \<Rightarrow>
             (if length args \<ge> 1 \<and> args ! 0 \<ge> 0 then args ! 0 else 0,
              if length args \<ge> 2 \<and> args ! 1 > 0 then args ! 1 else 20))
      in (offset, if limit > 1000 then 1000 else limit))"

definition recent_entries :: "handler \<Rightarrow> db \<Rightarrow> hash256 list \<Rightarrow> txEntry list" where
  "recent_entries h d txids =
     foldl (\<lambda>entries txid. case GetTxReceipt d txid of
              None \<Rightarrow> entries
            | Some data \<Rightarrow> entries @ [enrich (hd_FinalizedHeight h) (hd_unmarshal h data)]) [] txids"

definition recentTxs :: "handler \<Rightarrow> json_params \<Rightarrow> raw_json reply" where
  "recentTxs h params =
     (let (offset, limit) = page params
      in case hd_store h of
           None \<Rightarrow> None
         | Some d \<Rightarrow>
             Some (case ListRecentTxs d offset limit of
                     Inl e \<Rightarrow> Inl (StoreError e)
                   | Inr txids \<Rightarrow> Inr (RawEntries (recent_entries h d txids))))"

definition map_reply :: "('a \<Rightarrow> rpc_value) \<Rightarrow> 'a reply \<Rightarrow> rpc_value reply" where
  "map_reply f r = map_option (map_sum id f) r"

definition Handle :: "handler \<Rightarrow> string \<Rightarrow> json_params \<Rightarrow> rpc_value reply \<times> handler" where
  "Handle h method params =
     (if method = ''tyl_blockHeight'' then (Some (Inr (VHeight (hd_Height h))), h)
      else if method = ''tyl_stateRoot'' then (Some (Inr (VStateRoot (Hash256_Hex (hd_StateRoot h)))), h)
      else if method = ''tyl_finalizedHeight'' then
        (Some (Inr (VFinalized \<lparr>fr_FinalizedHeight = hd_FinalizedHeight h, fr_FinalizedRoot = Hash256_Hex (hd_FinalizedRoot h),
                                fr_OptimisticHeight = hd_Height h\<rparr>)), h)
      else if method = ''tyl_getAccount'' then (map_reply VAccount (Some (getAccount h params)), h)
      else if method = ''tyl_getBalance'' then (map_reply VBalance (Some (getBalance h params)), h)
      else if method = ''tyl_getStorage'' then
        (let (r, h) = getStorage h params in (map_reply VStorage (Some r), h))
      else if method = ''tyl_getCode'' then (map_reply VCode (Some (getCode h params)), h)
      else if method = ''tyl_getBlock'' then (map_reply VRaw (getBlock h params), h)
      else if method = ''tyl_getReceipts'' then (map_reply VRaw (getReceipts h params), h)
      else if method = ''tyl_getReceipt'' then (map_reply VRaw (getReceipt h params), h)
      else if method = ''tyl_recentTxs'' then (map_reply VRaw (recentTxs h params), h)
      else (Some (Inl (UnknownMethod method)), h))"

section \<open>The client\<close>

text \<open>A remote node: what a call returns after its result was decoded, \<open>None\<close> for every failure of the
  transport, the node or the decoding. The client uses three methods.\<close>

record remote =
  rm_blockHeight :: "uint64 option"
  rm_getAccount :: "string \<Rightarrow> (uint64 \<times> uint64) option"
  rm_getStorage :: "string \<Rightarrow> string \<Rightarrow> (string \<times> string option) option"

definition GetBlockHeight :: "remote \<Rightarrow> uint64 option" where
  "GetBlockHeight c = rm_blockHeight c"

definition rpc_GetAccount :: "remote \<Rightarrow> address \<Rightarrow> (uint64 \<times> uint64) option" where
  "rpc_GetAccount c addr = rm_getAccount c (Address_Hex addr)"

text \<open>The value of a slot in 32 bytes of hexadecimal text.\<close>

definition slot_value :: "string \<Rightarrow> uint64 option" where
  "slot_value s =
     (case hex_Decode s of
        None \<Rightarrow> None
      | Some valBytes \<Rightarrow> if length valBytes \<noteq> 32 then None else Some (be_word (drop 24 valBytes)))"

definition rpc_GetStorage :: "remote \<Rightarrow> address \<Rightarrow> uint64 \<Rightarrow> uint64 option" where
  "rpc_GetStorage c addr slot =
     (let key = putUint64 slot
      in case rm_getStorage c (Address_Hex addr) (Hash256_Hex key) of
           None \<Rightarrow> None
         | Some (value, finalizedValue) \<Rightarrow> slot_value value)"

text \<open>\<open>None\<close> is an error, \<open>Some None\<close> that there is no finalized snapshot.\<close>

definition rpc_GetFinalizedStorage :: "remote \<Rightarrow> address \<Rightarrow> uint64 \<Rightarrow> uint64 option option" where
  "rpc_GetFinalizedStorage c addr slot =
     (let key = putUint64 slot
      in case rm_getStorage c (Address_Hex addr) (Hash256_Hex key) of
           None \<Rightarrow> None
         | Some (value, None) \<Rightarrow> Some None
         | Some (value, Some fv) \<Rightarrow> (case slot_value fv of None \<Rightarrow> None | Some v \<Rightarrow> Some (Some v)))"

record HTLCInfo =
  hi_SenderID :: uint64
  hi_RecipientID :: uint64
  hi_Amount :: uint64
  hi_Hashlock :: hash256
  hi_Timelock :: uint64
  hi_Status :: uint64
  hi_Preimage :: hash256

text \<open>Only the first read reports its error; the others give zero then.\<close>

definition GetHTLC :: "remote \<Rightarrow> uint64 \<Rightarrow> HTLCInfo option" where
  "GetHTLC c htlcID =
     (let base = 10000 + htlcID * 14;
          get = (\<lambda>k. case rpc_GetStorage c HTLCSystemAddress (base + k) of None \<Rightarrow> 0 | Some v \<Rightarrow> v)
      in case rpc_GetStorage c HTLCSystemAddress (base + 0) of
           None \<Rightarrow> None
         | Some senderID \<Rightarrow>
             Some \<lparr>hi_SenderID = senderID, hi_RecipientID = get 1, hi_Amount = get 2,
                   hi_Hashlock = be_word (words_hash (get 3) (get 4) (get 5) (get 6)), hi_Timelock = get 7,
                   hi_Status = get 8, hi_Preimage = be_word (words_hash (get 9) (get 10) (get 11) (get 12))\<rparr>)"

text \<open>\<open>None\<close> is an error, \<open>Some None\<close> that there is no finalized snapshot.\<close>

definition GetFinalizedHTLC :: "remote \<Rightarrow> uint64 \<Rightarrow> HTLCInfo option option" where
  "GetFinalizedHTLC c htlcID =
     (let base = 10000 + htlcID * 14;
          get = (\<lambda>k. case rpc_GetFinalizedStorage c HTLCSystemAddress (base + k) of Some (Some v) \<Rightarrow> v | _ \<Rightarrow> 0)
      in case rpc_GetFinalizedStorage c HTLCSystemAddress (base + 8) of
           None \<Rightarrow> None
         | Some None \<Rightarrow> Some None
         | Some (Some status) \<Rightarrow>
             Some (Some \<lparr>hi_SenderID = get 0, hi_RecipientID = get 1, hi_Amount = get 2,
                   hi_Hashlock = be_word (words_hash (get 3) (get 4) (get 5) (get 6)), hi_Timelock = get 7,
                   hi_Status = status, hi_Preimage = be_word (words_hash (get 9) (get 10) (get 11) (get 12))\<rparr>))"

definition GetNextHTLCID :: "remote \<Rightarrow> uint64 option" where
  "GetNextHTLCID c = rpc_GetStorage c HTLCSystemAddress 0"

text \<open>The remote node that a handler is. The codec of the transport passes the results on, and a field of
  another result is absent.\<close>

definition node_remote :: "handler \<Rightarrow> remote" where
  "node_remote h =
     \<lparr>rm_blockHeight = (case fst (Handle h ''tyl_blockHeight'' (StrParams [])) of Some (Inr (VHeight n)) \<Rightarrow> Some n | _ \<Rightarrow> None),
      rm_getAccount = (\<lambda>a. case fst (Handle h ''tyl_getAccount'' (StrParams [a])) of
                         Some (Inr (VAccount r)) \<Rightarrow> Some (ar_Nonce r, ar_Balance r) | _ \<Rightarrow> None),
      rm_getStorage = (\<lambda>a k. case fst (Handle h ''tyl_getStorage'' (StrParams [a, k])) of
                         Some (Inr (VStorage r)) \<Rightarrow> Some (str_Value r, str_FinalizedValue r) | _ \<Rightarrow> None)\<rparr>"

section \<open>Hexadecimal round trips\<close>

lemma hex_digit_char: "n < 16 \<Longrightarrow> hex_digit (hex_char n) = Some n"
proof -
  assume n: "n < 16"
  have u: "unat n < 16" using n by (simp add: word_less_nat_alt)
  have t: "n < 10 \<longleftrightarrow> unat n < 10" by (simp add: word_less_nat_alt)
  show ?thesis using u by (auto simp: hex_digit_def hex_char_def Let_def t)
qed

lemma nibbles: "push_bit 4 (drop_bit 4 v) OR (v AND 0x0f) = (v :: byte)" "drop_bit 4 v < (16 :: byte)" "v AND 0x0f < (16 :: byte)"
  for v :: byte
proof -
  have m: "(0x0f :: byte) = mask 4" by (simp add: mask_eq_exp_minus_1)
  show "push_bit 4 (drop_bit 4 v) OR (v AND 0x0f) = v" unfolding m
    by (rule bit_eqI) (auto simp: bit_simps)
  have "unat (drop_bit 4 v) = unat v div 16" by (simp add: drop_bit_eq_div unat_div_distrib)
  moreover have "unat v < 2 ^ LENGTH(8)" by (rule unsigned_less)
  ultimately show "drop_bit 4 v < 16" by (simp add: word_less_nat_alt)
  have "unat (take_bit 4 v) < 2 ^ 4" unfolding unsigned_take_bit_eq by (rule take_bit_nat_less_exp)
  moreover have "unat (16 :: byte) = 16" by simp
  ultimately show "v AND 0x0f < 16" unfolding m word_less_nat_alt take_bit_eq_mask by simp
qed

lemma hex_roundtrip: "hex_Decode (hex_EncodeToString b) = Some b"
proof (induction b)
  case (Cons v b)
  then show ?case using nibbles [of v] by (simp add: hex_EncodeToString_def hex_digit_char)
qed (simp add: hex_EncodeToString_def)

text \<open>Encoded text has no prefix \<open>0x\<close>.\<close>

lemma hex_no_x: "n < 16 \<Longrightarrow> hex_char n \<noteq> CHR ''x''"
  using hex_digit_char [of n] by (auto simp: hex_digit_def Let_def)

lemma strip_encoded: "stripHexPrefix (hex_EncodeToString b) = hex_EncodeToString b"
proof (cases b)
  case (Cons v vs)
  then show ?thesis using hex_no_x [OF nibbles(3) [of v]] by (simp add: stripHexPrefix_def hex_EncodeToString_def)
qed (simp add: stripHexPrefix_def hex_EncodeToString_def)

lemma parseAddress_Hex: "parseAddress (Address_Hex a) = Inr a"
  by (simp add: parseAddress_def Address_Hex_def strip_encoded hex_roundtrip addr_bytes_def BytesToAddress_def)

lemma decode_Hash_Hex: "hex_Decode (stripHexPrefix (Hash256_Hex h)) = Some (hash_bytes h)"
  by (simp add: Hash256_Hex_def strip_encoded hex_roundtrip)

lemma slot_value_Hex: "slot_value (Hash256_Hex h) = Some (hash_slot h)"
  using getUint64_eq [of h]
  by (simp add: slot_value_def Hash256_Hex_def hex_roundtrip getUint64_def hash_bytes_def)

section \<open>What the client reads\<close>

lemma finalized_cache: "fst (GetFinalizedStorage sha (cache_trie sha s a) b k) = fst (GetFinalizedStorage sha s b k)"
  by (simp add: GetFinalizedStorage_def cache_trie_eq Let_def split: option.split)

lemma getStorage_reply:
  assumes "GetFinalizedStorage (hd_sha h) (hd_stateDB h) a k = ((fv, ok), s)"
  shows "fst (Handle h ''tyl_getStorage'' (StrParams [Address_Hex a, Hash256_Hex k])) = Some (Inr (VStorage
    \<lparr>str_Address = Address_Hex a, str_Key = Hash256_Hex k, str_Value = Hash256_Hex (storage (hd_sha h) (hd_stateDB h) a k),
      str_FinalizedValue = (if ok then Some (Hash256_Hex fv) else None)\<rparr>))"
proof -
  obtain s' where "GetFinalizedStorage (hd_sha h) (cache_trie (hd_sha h) (hd_stateDB h) a) a k = ((fv, ok), s')"
    using finalized_cache [of "hd_sha h" "hd_stateDB h" a a k] assms by (metis fst_conv prod.collapse)
  then show ?thesis
    by (simp add: Handle_def getStorage_def as_strings_def parseAddress_Hex decode_Hash_Hex GetStorage_eq map_reply_def)
qed

lemma remote_storage:
  assumes "GetFinalizedStorage (hd_sha h) (hd_stateDB h) a (slot_hash k) = ((fv, ok), s)"
  shows "rpc_GetStorage (node_remote h) a k = Some (slot_of (hd_sha h) (hd_stateDB h) a k)"
    and "rpc_GetFinalizedStorage (node_remote h) a k = Some (if ok then Some (hash_slot fv) else None)"
proof -
  have r: "rm_getStorage (node_remote h) (Address_Hex a) (Hash256_Hex (slot_hash k)) =
      Some (Hash256_Hex (storage (hd_sha h) (hd_stateDB h) a (slot_hash k)), if ok then Some (Hash256_Hex fv) else None)"
    unfolding node_remote_def remote.select_convs getStorage_reply [OF assms] by simp
  show "rpc_GetStorage (node_remote h) a k = Some (slot_of (hd_sha h) (hd_stateDB h) a k)"
    by (simp add: rpc_GetStorage_def putUint64_eq r slot_value_Hex slot_of_def)
  show "rpc_GetFinalizedStorage (node_remote h) a k = Some (if ok then Some (hash_slot fv) else None)"
    by (simp add: rpc_GetFinalizedStorage_def putUint64_eq r slot_value_Hex)
qed

lemma remote_slot: "rpc_GetStorage (node_remote h) a k = Some (slot_of (hd_sha h) (hd_stateDB h) a k)"
  by (cases "GetFinalizedStorage (hd_sha h) (hd_stateDB h) a (slot_hash k)") (auto intro: remote_storage(1))

lemma rec_slot_base: "10000 + i * 14 + k = rec_slot i k"
  by (simp add: rec_slot_def htlcSlotBase_def htlcSlotStride_def)

text \<open>The record of a contract with the revealed preimage, as the client shows it.\<close>

definition htlc_info :: "(uint64 \<Rightarrow> uint64) \<Rightarrow> uint64 \<Rightarrow> HTLCInfo" where
  "htlc_info f i =
     (let r = htlc_at f i
      in \<lparr>hi_SenderID = h_sender r, hi_RecipientID = h_recipient r, hi_Amount = h_amount r, hi_Hashlock = be_word (h_lock r),
          hi_Timelock = h_timelock r, hi_Status = h_status r,
          hi_Preimage = be_word (words_hash (f (rec_slot i 9)) (f (rec_slot i 10)) (f (rec_slot i 11)) (f (rec_slot i 12)))\<rparr>)"

text \<open>The finalized value of a slot, when there is a finalized snapshot.\<close>

definition fin_slot :: "hashfn \<Rightarrow> statedb \<Rightarrow> address \<Rightarrow> uint64 \<Rightarrow> uint64" where
  "fin_slot sha s a k = hash_slot (fst (fst (GetFinalizedStorage sha s a (slot_hash k))))"

lemma finalized_flag: "snd (fst (GetFinalizedStorage sha s a k)) \<longleftrightarrow> finalizedSnap s \<noteq> None"
  by (simp add: GetFinalizedStorage_def Let_def split: option.split)

lemma remote_fin_slot:
  "rpc_GetFinalizedStorage (node_remote h) a k =
    Some (if finalizedSnap (hd_stateDB h) \<noteq> None then Some (fin_slot (hd_sha h) (hd_stateDB h) a k) else None)"
proof -
  obtain fv ok s where g: "GetFinalizedStorage (hd_sha h) (hd_stateDB h) a (slot_hash k) = ((fv, ok), s)" by (metis surj_pair)
  then show ?thesis
    using finalized_flag [of "hd_sha h" "hd_stateDB h" a "slot_hash k"] by (simp add: remote_storage(2) [OF g] fin_slot_def)
qed

lemma client_reads:
  "GetHTLC (node_remote h) i = Some (htlc_info (slot_of (hd_sha h) (hd_stateDB h) HTLCSystemAddress) i) \<and>
   GetFinalizedHTLC (node_remote h) i =
     Some (if finalizedSnap (hd_stateDB h) \<noteq> None then Some (htlc_info (fin_slot (hd_sha h) (hd_stateDB h) HTLCSystemAddress) i) else None) \<and>
   GetNextHTLCID (node_remote h) = Some (slot_of (hd_sha h) (hd_stateDB h) HTLCSystemAddress htlcSlotCounter) \<and>
   rpc_GetAccount (node_remote h) a =
     Some (acct_Nonce (GetOrCreateAccount (hd_sha h) (hd_stateDB h) a), GetBalance (hd_sha h) (hd_stateDB h) a) \<and>
   GetBlockHeight (node_remote h) = Some (hd_Height h)"
proof (intro conjI)
  show "GetHTLC (node_remote h) i = Some (htlc_info (slot_of (hd_sha h) (hd_stateDB h) HTLCSystemAddress) i)"
    unfolding GetHTLC_def Let_def rec_slot_base remote_slot by (simp add: htlc_info_def htlc_at_def)
  show "GetFinalizedHTLC (node_remote h) i =
     Some (if finalizedSnap (hd_stateDB h) \<noteq> None then Some (htlc_info (fin_slot (hd_sha h) (hd_stateDB h) HTLCSystemAddress) i) else None)"
    unfolding GetFinalizedHTLC_def Let_def rec_slot_base remote_fin_slot by (simp add: htlc_info_def htlc_at_def)
  show "GetNextHTLCID (node_remote h) = Some (slot_of (hd_sha h) (hd_stateDB h) HTLCSystemAddress htlcSlotCounter)"
    by (simp add: GetNextHTLCID_def remote_slot htlcSlotCounter_def)
  show "rpc_GetAccount (node_remote h) a =
     Some (acct_Nonce (GetOrCreateAccount (hd_sha h) (hd_stateDB h) a), GetBalance (hd_sha h) (hd_stateDB h) a)"
    by (simp add: rpc_GetAccount_def node_remote_def Handle_def getAccount_def as_strings_def parseAddress_Hex map_reply_def
        GetOrCreateAccount_def GetBalance_def zero_account_def split: option.split)
  show "GetBlockHeight (node_remote h) = Some (hd_Height h)"
    by (simp add: GetBlockHeight_def node_remote_def Handle_def)
qed

text \<open>C31: what the swap daemon learns over the network is what the executor works on: through the hexadecimal
  text of requests and replies, the client of a node reads the current and the finalized records of
  contracts, the counter of contracts, and the nonce, balance and height of the node's state; an address
  without an account has nonce and balance zero.\<close>

theorem client_reads_state:
  "GetHTLC (node_remote h) i = Some (htlc_info (slot_of (hd_sha h) (hd_stateDB h) HTLCSystemAddress) i) \<and>
   GetFinalizedHTLC (node_remote h) i =
     Some (if finalizedSnap (hd_stateDB h) \<noteq> None then Some (htlc_info (fin_slot (hd_sha h) (hd_stateDB h) HTLCSystemAddress) i) else None) \<and>
   GetNextHTLCID (node_remote h) = Some (slot_of (hd_sha h) (hd_stateDB h) HTLCSystemAddress htlcSlotCounter) \<and>
   rpc_GetAccount (node_remote h) a =
     Some (acct_Nonce (GetOrCreateAccount (hd_sha h) (hd_stateDB h) a), GetBalance (hd_sha h) (hd_stateDB h) a) \<and>
   GetBlockHeight (node_remote h) = Some (hd_Height h)"
  by (rule client_reads)

end
