(* ===== verification/Tyl_Swap.thy ===== *)
theory Tyl_Swap
  imports Tyl_RPC Tyl_Solvency "HOL-Library.AList" "HOL-Library.Signed_Division"
begin

text \<open>
  The swap daemon of \<open>internal/swap/daemon.go\<close>, which exchanges payments on Lightning for contracts on
  Tylium. The Lightning node and the embedding into Bitcoin transactions are parameters: the answers that
  they give. Answers are those of one moment for the duration of an operation, and operations run one
  after the other; the points at which the source releases its lock are the boundaries between the
  definitions that an operation is composed of.

  The daemon has one field that the source does not have: the log of the requests to other systems that
  have an effect there.
\<close>

section \<open>State\<close>

datatype direction = Buy | Sell

datatype swap_state =
  StateCreated | StateHTLCLocked | StateInvoiceCreated | StatePaymentInFlight | StateClaimed | StateSettled
| StateRefunded | StateFailed | StateRefundSubmitted

fun State_String :: "swap_state \<Rightarrow> string" where
  "State_String StateCreated = ''created''"
| "State_String StateHTLCLocked = ''htlc_locked''"
| "State_String StateInvoiceCreated = ''invoice_created''"
| "State_String StatePaymentInFlight = ''payment_in_flight''"
| "State_String StateClaimed = ''claimed''"
| "State_String StateSettled = ''settled''"
| "State_String StateRefunded = ''refunded''"
| "State_String StateFailed = ''failed''"
| "State_String StateRefundSubmitted = ''refund_submitted''"

record Swap =
  sw_ID :: string
  sw_Direction :: direction
  sw_State :: swap_state
  sw_Hash :: hash256
  sw_Preimage :: hash256
  sw_AmountTyBTC :: uint64
  sw_AmountSats :: int
  sw_HTLCID :: uint64
  sw_Timelock :: uint64
  sw_Invoice :: string
  sw_Recipient :: address
  sw_Error :: string
  sw_Verified :: bool

datatype action =
  AddHoldInvoice hash256 int string | CancelInvoice hash256 | SettleInvoice hash256 | SendPayment string | Embed bytes

text \<open>The configuration, the swaps by their identifiers, the hashes in use, and the files: the persisted
  swaps and the preimages by contract. A data directory is optional.\<close>

record daemon =
  d_key :: bytes
  d_addr :: address
  d_APIKey :: string
  d_FeeBPS :: int
  d_Timelock :: uint64
  d_MaxSwapSize :: uint64
  d_DataDir :: bool
  d_swaps :: "(string \<times> Swap) list"
  d_seq :: nat
  d_activeHashes :: "hash256 \<rightharpoonup> string"
  d_swapsFile :: "((string \<times> Swap) list) option"
  d_preimageFiles :: "uint64 \<rightharpoonup> hash256"
  d_log :: "action list"

datatype InvoiceState = InvoiceOpen | InvoiceSettled | InvoiceCanceled | InvoiceAccepted

record services =
  sv_x :: extern
  sv_tyl :: remote
  sv_AddHoldInvoice :: "hash256 \<Rightarrow> int \<Rightarrow> string \<Rightarrow> string option"
  sv_SettleInvoice :: "hash256 \<Rightarrow> bool"
  sv_LookupInvoice :: "hash256 \<Rightarrow> InvoiceState option"
  sv_DecodePayReq :: "string \<Rightarrow> (string \<times> int) option"
  sv_SendPayment :: "string \<Rightarrow> string + hash256"
  sv_EmbedEnvelope :: "bytes \<Rightarrow> string option"

definition MinSellTimelock :: uint64 where "MinSellTimelock = 6"

definition terminal :: "swap_state \<Rightarrow> bool" where
  "terminal st \<longleftrightarrow> st = StateSettled \<or> st = StateFailed \<or> st = StateRefunded"

definition logged :: "action \<Rightarrow> daemon \<Rightarrow> daemon" where
  "logged a d = d\<lparr>d_log := d_log d @ [a]\<rparr>"

section \<open>Tracking swaps\<close>

definition persistSwaps :: "daemon \<Rightarrow> daemon" where
  "persistSwaps d = (if d_DataDir d then d\<lparr>d_swapsFile := Some (d_swaps d)\<rparr> else d)"

definition persistPreimage :: "uint64 \<Rightarrow> hash256 \<Rightarrow> daemon \<Rightarrow> daemon" where
  "persistPreimage htlcID preimage d =
     (if d_DataDir d then d\<lparr>d_preimageFiles := (d_preimageFiles d)(htlcID \<mapsto> preimage)\<rparr> else d)"

text \<open>A write through a pointer to the swap with the given identifier.\<close>

definition modify :: "string \<Rightarrow> (Swap \<Rightarrow> Swap) \<Rightarrow> daemon \<Rightarrow> daemon" where
  "modify swapID f d =
     (case map_of (d_swaps d) swapID of
        None \<Rightarrow> d
      | Some s \<Rightarrow> d\<lparr>d_swaps := AList.update swapID (f s) (d_swaps d)\<rparr>)"

definition release :: "hash256 \<Rightarrow> daemon \<Rightarrow> daemon" where
  "release hash d = d\<lparr>d_activeHashes := (d_activeHashes d)(hash := None)\<rparr>"

definition updateState :: "string \<Rightarrow> swap_state \<Rightarrow> daemon \<Rightarrow> daemon" where
  "updateState swapID st d =
     persistSwaps
       (case map_of (d_swaps d) swapID of
          None \<Rightarrow> d
        | Some s \<Rightarrow>
            let d = modify swapID (sw_State_update (\<lambda>_. st)) d
            in if terminal st then release (sw_Hash s) d else d)"

definition failSwap :: "string \<Rightarrow> string \<Rightarrow> daemon \<Rightarrow> daemon" where
  "failSwap swapID errMsg d =
     persistSwaps
       (case map_of (d_swaps d) swapID of
          None \<Rightarrow> d
        | Some s \<Rightarrow>
            release (sw_Hash s) (modify swapID (\<lambda>s. s\<lparr>sw_State := StateFailed, sw_Error := errMsg\<rparr>) d))"

fun show_nat :: "nat \<Rightarrow> string" where
  "show_nat n = (if n < 10 then [char_of (n + 48)] else show_nat (n div 10) @ [char_of (n mod 10 + 48)])"

declare show_nat.simps [simp del]

definition swap_id :: "nat \<Rightarrow> string" where
  "swap_id n = ''swap-'' @ show_nat n"

definition newSwapID :: "daemon \<Rightarrow> string \<times> daemon" where
  "newSwapID d = (let d = d\<lparr>d_seq := d_seq d + 1\<rparr> in (swap_id (d_seq d), d))"

text \<open>The critical section that puts a placeholder into the table of hashes, or finds the hash in use.\<close>

definition reserve :: "hash256 \<Rightarrow> daemon \<Rightarrow> string + daemon" where
  "reserve hash d =
     (case d_activeHashes d hash of
        Some existingID \<Rightarrow> Inl existingID
      | None \<Rightarrow> Inr (d\<lparr>d_activeHashes := (d_activeHashes d)(hash \<mapsto> [])\<rparr>))"

definition track :: "Swap \<Rightarrow> daemon \<Rightarrow> daemon" where
  "track s d =
     persistSwaps (d\<lparr>d_swaps := AList.update (sw_ID s) s (d_swaps d), d_activeHashes := (d_activeHashes d)(sw_Hash s \<mapsto> sw_ID s)\<rparr>)"

section \<open>Transactions\<close>

definition packCallData :: "uint64 list \<Rightarrow> bytes" where
  "packCallData args = concat (map (be_bytes 8) args)"

text \<open>Signing a transaction, encoding it and embedding the envelope.\<close>

definition submit :: "services \<Rightarrow> transaction \<Rightarrow> daemon \<Rightarrow> string option \<times> daemon" where
  "submit sv tx d =
     (case Sign (sv_x sv) (SigningHash (sha256 (sv_x sv)) tx) (d_key d) of
        Inl e \<Rightarrow> (None, d)
      | Inr sig \<Rightarrow>
          let tx = tx\<lparr>tx_Signature := sig\<rparr>;
              envelope = EncodeEnvelope EnvelopeTypeTx (EncodeTx tx)
          in (sv_EmbedEnvelope sv envelope, logged (Embed envelope) d))"

definition htlc_tx :: "daemon \<Rightarrow> uint64 \<Rightarrow> uint64 \<Rightarrow> uint64 \<Rightarrow> uint64 \<Rightarrow> bytes \<Rightarrow> transaction" where
  "htlc_tx d nonce val gasPrice gasLimit data =
     \<lparr>tx_Version = 1, tx_Nonce = nonce, tx_From = d_addr d, tx_To = HTLCSystemAddress, tx_Value = val,
      tx_GasPrice = gasPrice, tx_GasLimit = gasLimit, tx_Priority = 0, tx_Data = data, tx_Signature = 0\<rparr>"

definition lockHTLC ::
  "services \<Rightarrow> address \<Rightarrow> hash256 \<Rightarrow> uint64 \<Rightarrow> uint64 \<Rightarrow> daemon \<Rightarrow> (uint64 \<times> string) option \<times> daemon" where
  "lockHTLC sv recipient hash amount timelock d =
     (let recipientID = CallerID recipient;
          data = packCallData ([HTLCFnLock, recipientID, timelock] @ hash_words hash)
      in case rpc_GetAccount (sv_tyl sv) (d_addr d) of
           None \<Rightarrow> (None, d)
         | Some (nonce, _) \<Rightarrow>
             (case GetNextHTLCID (sv_tyl sv) of
                None \<Rightarrow> (None, d)
              | Some nextID \<Rightarrow>
                  let (r, d) = submit sv (htlc_tx d nonce amount 1 100000 data) d
                  in (map_option (Pair nextID) r, d)))"

definition claimHTLC :: "services \<Rightarrow> uint64 \<Rightarrow> hash256 \<Rightarrow> daemon \<Rightarrow> bool \<times> daemon" where
  "claimHTLC sv htlcID preimage d =
     (let data = packCallData ([HTLCFnClaim, htlcID] @ hash_words preimage)
      in case rpc_GetAccount (sv_tyl sv) (d_addr d) of
           None \<Rightarrow> (False, d)
         | Some (nonce, _) \<Rightarrow>
             let (r, d) = submit sv (htlc_tx d nonce 0 0 0 data) d in (r \<noteq> None, d))"

definition refundHTLC :: "services \<Rightarrow> uint64 \<Rightarrow> daemon \<Rightarrow> bool \<times> daemon" where
  "refundHTLC sv htlcID d =
     (let data = packCallData [HTLCFnRefund, htlcID]
      in case rpc_GetAccount (sv_tyl sv) (d_addr d) of
           None \<Rightarrow> (False, d)
         | Some (nonce, _) \<Rightarrow>
             let (r, d) = submit sv (htlc_tx d nonce 0 1 100000 data) d in (r \<noteq> None, d))"

section \<open>Buying\<close>

datatype swap_error =
  AmountZero | ExceedsMax | HashInUse string | CheckBalance | InsufficientLiquidity | GetHeight | CreateInvoice | LockFailed
| QueryHTLC | NotPending | NotRecipient | AlreadyTracked string | TimelockTooShort | DecodeInvoice | InvalidPaymentHash
| HashMismatch | AmountTooHigh

text \<open>64-bit signed arithmetic: conversion wraps, division truncates.\<close>

definition int64 :: "int \<Rightarrow> int" where
  "int64 i = signed_take_bit 63 i"

definition buy_sats :: "int \<Rightarrow> uint64 \<Rightarrow> int" where
  "buy_sats feeBPS amount =
     (let amountSats = int64 (uint amount)
      in if feeBPS > 0 then int64 (amountSats * int64 (10000 + feeBPS)) sdiv 10000 else amountSats)"

record BuyResponse =
  by_SwapID :: string
  by_Invoice :: string
  by_HTLCID :: uint64
  by_L1TxID :: string

definition initBuySwap ::
  "services \<Rightarrow> hash256 \<Rightarrow> address \<Rightarrow> uint64 \<Rightarrow> daemon \<Rightarrow> (swap_error + BuyResponse) \<times> daemon" where
  "initBuySwap sv hash recipient amountTyBTC d =
     (if amountTyBTC = 0 then (Inl AmountZero, d)
      else if d_MaxSwapSize d > 0 \<and> amountTyBTC > d_MaxSwapSize d then (Inl ExceedsMax, d)
      else case reserve hash d of
        Inl existingID \<Rightarrow> (Inl (HashInUse existingID), d)
      | Inr d \<Rightarrow>
          (case rpc_GetAccount (sv_tyl sv) (d_addr d) of
             None \<Rightarrow> (Inl CheckBalance, release hash d)
           | Some (_, balance) \<Rightarrow>
               if balance < amountTyBTC then (Inl InsufficientLiquidity, release hash d)
               else
                 let amountSats = buy_sats (d_FeeBPS d) amountTyBTC
                 in case GetBlockHeight (sv_tyl sv) of
                      None \<Rightarrow> (Inl GetHeight, release hash d)
                    | Some height \<Rightarrow>
                        let timelock = height + d_Timelock d;
                            (swapID, d) = newSwapID d;
                            memo = ''tylswap-'' @ swapID;
                            d = logged (AddHoldInvoice hash amountSats memo) d
                        in case sv_AddHoldInvoice sv hash amountSats memo of
                             None \<Rightarrow> (Inl CreateInvoice, release hash d)
                           | Some invoice \<Rightarrow>
                               (case lockHTLC sv recipient hash amountTyBTC timelock d of
                                  (None, d) \<Rightarrow> (Inl LockFailed, release hash (logged (CancelInvoice hash) d))
                                | (Some (htlcID, l1TxID), d) \<Rightarrow>
                                    let s = \<lparr>sw_ID = swapID, sw_Direction = Buy, sw_State = StateInvoiceCreated, sw_Hash = hash,
                                             sw_Preimage = 0, sw_AmountTyBTC = amountTyBTC, sw_AmountSats = amountSats,
                                             sw_HTLCID = htlcID, sw_Timelock = timelock, sw_Invoice = invoice,
                                             sw_Recipient = recipient, sw_Error = [], sw_Verified = False\<rparr>
                                    in (Inr \<lparr>by_SwapID = swapID, by_Invoice = invoice, by_HTLCID = htlcID, by_L1TxID = l1TxID\<rparr>,
                                        track s d))))"

section \<open>Selling\<close>

definition sell_sats :: "int \<Rightarrow> uint64 \<Rightarrow> int" where
  "sell_sats feeBPS amount =
     (let amountSats = int64 (uint amount)
      in if feeBPS > 0 then int64 (amountSats * int64 (10000 - feeBPS)) sdiv 10000 else amountSats)"

text \<open>The result is the identifier of the swap, whose execution the source starts in the background.\<close>

definition initSellSwap :: "services \<Rightarrow> uint64 \<Rightarrow> string \<Rightarrow> daemon \<Rightarrow> (swap_error + string) \<times> daemon" where
  "initSellSwap sv htlcID invoice d =
     (case GetHTLC (sv_tyl sv) htlcID of
        None \<Rightarrow> (Inl QueryHTLC, d)
      | Some htlc \<Rightarrow>
          if hi_Status htlc \<noteq> 0 then (Inl NotPending, d)
          else if hi_RecipientID htlc \<noteq> CallerID (d_addr d) then (Inl NotRecipient, d)
          else if d_activeHashes d (hi_Hashlock htlc) \<noteq> None then (Inl (HashInUse (the (d_activeHashes d (hi_Hashlock htlc)))), d)
          else (case find (\<lambda>s. sw_HTLCID s = htlcID \<and> \<not> terminal (sw_State s)) (map snd (d_swaps d)) of
            Some existing \<Rightarrow> (Inl (AlreadyTracked (sw_ID existing)), d)
          | None \<Rightarrow>
            let hash = hi_Hashlock htlc;
                d = d\<lparr>d_activeHashes := (d_activeHashes d)(hash \<mapsto> [])\<rparr>
            in case GetBlockHeight (sv_tyl sv) of
                 None \<Rightarrow> (Inl GetHeight, release hash d)
               | Some height \<Rightarrow>
                   if hi_Timelock htlc < height + MinSellTimelock then (Inl TimelockTooShort, release hash d)
                   else (case sv_DecodePayReq sv invoice of
                     None \<Rightarrow> (Inl DecodeInvoice, release hash d)
                   | Some (paymentHash, numSatoshis) \<Rightarrow>
                       (case hex_Decode paymentHash of
                          None \<Rightarrow> (Inl InvalidPaymentHash, release hash d)
                        | Some invoiceHashBytes \<Rightarrow>
                            if length invoiceHashBytes \<noteq> 32 then (Inl InvalidPaymentHash, release hash d)
                            else if be_word invoiceHashBytes \<noteq> hash then (Inl HashMismatch, release hash d)
                            else
                              let amountSats = sell_sats (d_FeeBPS d) (hi_Amount htlc)
                              in if numSatoshis > amountSats then (Inl AmountTooHigh, release hash d)
                                 else
                                   let (swapID, d) = newSwapID d;
                                       s = \<lparr>sw_ID = swapID, sw_Direction = Sell, sw_State = StateHTLCLocked, sw_Hash = hash,
                                            sw_Preimage = 0, sw_AmountTyBTC = hi_Amount htlc, sw_AmountSats = amountSats,
                                            sw_HTLCID = htlcID, sw_Timelock = hi_Timelock htlc, sw_Invoice = invoice,
                                            sw_Recipient = 0, sw_Error = [], sw_Verified = True\<rparr>
                                   in (Inr swapID, track s d)))))"

text \<open>Paying the invoice, up to the recorded preimage; \<open>None\<close> when the payment failed.\<close>

definition sell_pay :: "services \<Rightarrow> string \<Rightarrow> Swap \<Rightarrow> daemon \<Rightarrow> hash256 option \<times> daemon" where
  "sell_pay sv swapID s d =
     (let d = updateState swapID StatePaymentInFlight d;
          d = logged (SendPayment (sw_Invoice s)) d
      in case sv_SendPayment sv (sw_Invoice s) of
           Inl err \<Rightarrow> (None, failSwap swapID (''LN payment failed: '' @ err) d)
         | Inr preimage \<Rightarrow>
             let d = persistPreimage (sw_HTLCID s) preimage d;
                 d = modify swapID (sw_Preimage_update (\<lambda>_. preimage)) d
             in (Some preimage, updateState swapID StateClaimed d))"

definition sell_claim :: "services \<Rightarrow> string \<Rightarrow> Swap \<Rightarrow> hash256 \<Rightarrow> daemon \<Rightarrow> daemon" where
  "sell_claim sv swapID s preimage d =
     (case claimHTLC sv (sw_HTLCID s) preimage d of
        (False, d) \<Rightarrow> d
      | (True, d) \<Rightarrow> updateState swapID StateSettled d)"

definition executeSell :: "services \<Rightarrow> string \<Rightarrow> daemon \<Rightarrow> daemon option" where
  "executeSell sv swapID d =
     (case map_of (d_swaps d) swapID of
        None \<Rightarrow> None
      | Some s \<Rightarrow>
          Some (case sell_pay sv swapID s d of
                  (None, d) \<Rightarrow> d
                | (Some preimage, d) \<Rightarrow> sell_claim sv swapID s preimage d))"

section \<open>The monitor\<close>

lemma unat_succ: "i < (c :: uint64) \<Longrightarrow> unat (i + 1) = unat i + 1"
proof -
  assume "i < c"
  then have "unat i < unat c" by (simp add: word_less_nat_alt)
  moreover have "unat c < 2 ^ LENGTH(64)" by (rule unsigned_less)
  ultimately show ?thesis by (simp add: unat_word_ariths)
qed

text \<open>The forward scan for the contract of a swap.\<close>

function scan_ids :: "remote \<Rightarrow> Swap \<Rightarrow> uint64 \<Rightarrow> uint64 \<Rightarrow> uint64 option" where
  "scan_ids c s i counter =
     (if i < counter then
        (case GetHTLC c i of
           None \<Rightarrow> scan_ids c s (i + 1) counter
         | Some h \<Rightarrow>
             if hi_Hashlock h = sw_Hash s \<and> hi_Amount h = sw_AmountTyBTC s then Some i else scan_ids c s (i + 1) counter)
      else None)"
  by pat_completeness auto
termination
proof (relation "measure (\<lambda>(c, s, i, counter). unat counter - unat i)", goal_cases)
  case (2 c s i counter)
  then show ?case using unat_succ [of i counter] by (simp add: word_less_nat_alt)
next
  case (3 c s i counter h)
  then show ?case using unat_succ [of i counter] by (simp add: word_less_nat_alt)
qed simp

declare scan_ids.simps [simp del]

definition verifyHTLCID :: "services \<Rightarrow> Swap \<Rightarrow> daemon \<Rightarrow> bool \<times> daemon" where
  "verifyHTLCID sv s d =
     (case GetHTLC (sv_tyl sv) (sw_HTLCID s) of
        None \<Rightarrow> (False, d)
      | Some htlc \<Rightarrow>
          if hi_Amount htlc = sw_AmountTyBTC s \<and> hi_Hashlock htlc = sw_Hash s
          then (True, persistSwaps (modify (sw_ID s) (sw_Verified_update (\<lambda>_. True)) d))
          else if hi_Amount htlc = 0 then (False, d)
          else (case GetNextHTLCID (sv_tyl sv) of
                  None \<Rightarrow> (False, d)
                | Some counter \<Rightarrow>
                    if counter = 0 then (False, d)
                    else (case scan_ids (sv_tyl sv) s (sw_HTLCID s + 1) counter of
                            None \<Rightarrow> (False, d)
                          | Some i \<Rightarrow>
                              (True, persistSwaps (modify (sw_ID s) (\<lambda>s. s\<lparr>sw_HTLCID := i, sw_Verified := True\<rparr>) d)))))"

text \<open>The refund of a contract that is still pending after its time lock. An unknown height is taken as
  zero.\<close>

definition try_refund :: "services \<Rightarrow> Swap \<Rightarrow> daemon \<Rightarrow> daemon" where
  "try_refund sv s d =
     (let height = (case GetBlockHeight (sv_tyl sv) of None \<Rightarrow> 0 | Some h \<Rightarrow> h)
      in if height \<ge> sw_Timelock s then
           (case refundHTLC sv (sw_HTLCID s) d of
              (False, d) \<Rightarrow> d
            | (True, d) \<Rightarrow> updateState (sw_ID s) StateRefundSubmitted d)
         else d)"

text \<open>The settlement of the invoice with a preimage from the chain.\<close>

definition settle :: "services \<Rightarrow> Swap \<Rightarrow> hash256 \<Rightarrow> daemon \<Rightarrow> daemon" where
  "settle sv s preimage d =
     (let d = logged (SettleInvoice preimage) d
      in if \<not> sv_SettleInvoice sv preimage then d
         else updateState (sw_ID s) StateSettled (modify (sw_ID s) (sw_Preimage_update (\<lambda>_. preimage)) d))"

text \<open>The branch of a swap whose refund was submitted.\<close>

definition check_refund :: "services \<Rightarrow> Swap \<Rightarrow> daemon \<Rightarrow> daemon" where
  "check_refund sv s d =
     (case GetFinalizedHTLC (sv_tyl sv) (sw_HTLCID s) of
        Some (Some htlc) \<Rightarrow>
          if hi_Status htlc = 2 then updateState (sw_ID s) StateRefunded (logged (CancelInvoice (sw_Hash s)) d)
          else if hi_Status htlc = 1 then settle sv s (hi_Preimage htlc) d
          else d
      | _ \<Rightarrow> d)"

text \<open>The branch of a swap that waits for the claim of the user.\<close>

definition check_waiting :: "services \<Rightarrow> Swap \<Rightarrow> daemon \<Rightarrow> daemon" where
  "check_waiting sv s d =
     (let d = (if sv_LookupInvoice sv (sw_Hash s) = Some InvoiceAccepted \<and> sw_State s = StateInvoiceCreated
               then updateState (sw_ID s) StatePaymentInFlight d else d)
      in case GetFinalizedHTLC (sv_tyl sv) (sw_HTLCID s) of
           None \<Rightarrow> d
         | Some None \<Rightarrow>
             (case GetHTLC (sv_tyl sv) (sw_HTLCID s) of
                None \<Rightarrow> d
              | Some htlcUnfin \<Rightarrow> if hi_Status htlcUnfin = 0 then try_refund sv s d else d)
         | Some (Some htlc) \<Rightarrow>
             if hi_Status htlc = 1 then settle sv s (hi_Preimage htlc) d
             else if hi_Status htlc = 0 then try_refund sv s d
             else d)"

definition check_verified :: "services \<Rightarrow> string \<Rightarrow> daemon \<Rightarrow> daemon" where
  "check_verified sv swapID d =
     (case map_of (d_swaps d) swapID of
        None \<Rightarrow> d
      | Some s \<Rightarrow>
          if sw_State s = StateRefundSubmitted then check_refund sv s d
          else if sw_State s \<noteq> StateInvoiceCreated \<and> sw_State s \<noteq> StatePaymentInFlight then d
          else check_waiting sv s d)"

definition checkBuySwap :: "services \<Rightarrow> Swap \<Rightarrow> daemon \<Rightarrow> daemon" where
  "checkBuySwap sv s d =
     (if \<not> sw_Verified s \<and> sw_State s \<noteq> StateRefundSubmitted then
        (case verifyHTLCID sv s d of
           (False, d) \<Rightarrow> d
         | (True, d) \<Rightarrow> check_verified sv (sw_ID s) d)
      else check_verified sv (sw_ID s) d)"

definition checkSellSwap :: "services \<Rightarrow> Swap \<Rightarrow> daemon \<Rightarrow> daemon" where
  "checkSellSwap sv s d =
     (if sw_State s = StateClaimed \<and> sw_Preimage s \<noteq> 0 then
        (case claimHTLC sv (sw_HTLCID s) (sw_Preimage s) d of
           (False, d) \<Rightarrow> d
         | (True, d) \<Rightarrow> updateState (sw_ID s) StateSettled d)
      else d)"

definition check_one :: "services \<Rightarrow> string \<Rightarrow> daemon \<Rightarrow> daemon" where
  "check_one sv swapID d =
     (case map_of (d_swaps d) swapID of
        None \<Rightarrow> d
      | Some s \<Rightarrow> (case sw_Direction s of Buy \<Rightarrow> checkBuySwap sv s d | Sell \<Rightarrow> checkSellSwap sv s d))"

text \<open>The swaps that are active at the start, in the order of the list.\<close>

definition checkSwaps :: "services \<Rightarrow> daemon \<Rightarrow> daemon" where
  "checkSwaps sv d =
     foldl (\<lambda>d i. check_one sv i d) d (map fst (filter (\<lambda>(i, s). \<not> terminal (sw_State s)) (d_swaps d)))"

section \<open>Restart\<close>

text \<open>\<open>Sscanf\<close> of an identifier that the daemon made.\<close>

definition scan_swap_id :: "string \<Rightarrow> nat option" where
  "scan_swap_id s =
     (if take 5 s \<noteq> ''swap-'' then None
      else let ds = takeWhile (\<lambda>c. 48 \<le> (of_char c :: nat) \<and> (of_char c :: nat) \<le> 57) (drop 5 s)
           in if ds = [] then None else Some (foldl (\<lambda>n c. 10 * n + (of_char c - 48)) 0 ds))"

definition restore_swap :: "daemon \<Rightarrow> Swap \<Rightarrow> Swap" where
  "restore_swap d s =
     (if sw_Direction s = Sell \<and> sw_State s = StateClaimed \<and> sw_Preimage s = 0
      then (case d_preimageFiles d (sw_HTLCID s) of None \<Rightarrow> s | Some pre \<Rightarrow> s\<lparr>sw_Preimage := pre\<rparr>)
      else s)"

definition loadSwaps :: "daemon \<Rightarrow> daemon" where
  "loadSwaps d =
     (if \<not> d_DataDir d then d
      else case d_swapsFile d of
        None \<Rightarrow> d
      | Some swaps \<Rightarrow>
          d\<lparr>d_swaps := map (\<lambda>(i, s). (i, restore_swap d s)) swaps,
            d_activeHashes := foldl (\<lambda>m (i, s). if \<not> terminal (sw_State s) then m(sw_Hash s \<mapsto> sw_ID s) else m) (d_activeHashes d) swaps,
            d_seq := foldl (\<lambda>q (i, s). case scan_swap_id i of Some n \<Rightarrow> if n > q then n else q | None \<Rightarrow> q) (d_seq d) swaps\<rparr>)"

text \<open>A new process: the configuration and the files are kept, the memory is lost.\<close>

definition restart :: "daemon \<Rightarrow> daemon" where
  "restart d = loadSwaps (d\<lparr>d_swaps := [], d_seq := 0, d_activeHashes := Map.empty\<rparr>)"

section \<open>The interface for users\<close>

datatype http_error = MethodNotAllowed | BadRequest string | Unauthorized | NotFound | InternalError swap_error

definition authorized :: "daemon \<Rightarrow> string \<Rightarrow> bool" where
  "authorized d key \<longleftrightarrow> d_APIKey d = [] \<or> key = ''Bearer '' @ d_APIKey d"

definition handleBuy ::
  "services \<Rightarrow> bool \<Rightarrow> (string \<times> string \<times> uint64) option \<Rightarrow> daemon \<Rightarrow> (http_error + BuyResponse) \<times> daemon" where
  "handleBuy sv post body d =
     (if \<not> post then (Inl MethodNotAllowed, d)
      else case body of
        None \<Rightarrow> (Inl (BadRequest ''invalid request''), d)
      | Some (hash, recipientAddr, amount) \<Rightarrow>
          (case hex_Decode hash of
             None \<Rightarrow> (Inl (BadRequest ''hash must be 32-byte hex''), d)
           | Some hashBytes \<Rightarrow>
               if length hashBytes \<noteq> 32 then (Inl (BadRequest ''hash must be 32-byte hex''), d)
               else (case hex_Decode recipientAddr of
                       None \<Rightarrow> (Inl (BadRequest ''recipientAddr must be 20-byte hex''), d)
                     | Some addrBytes \<Rightarrow>
                         if length addrBytes \<noteq> 20 then (Inl (BadRequest ''recipientAddr must be 20-byte hex''), d)
                         else (case initBuySwap sv (be_word hashBytes) (BytesToAddress addrBytes) amount d of
                                 (Inl e, d) \<Rightarrow> (Inl (InternalError e), d)
                               | (Inr resp, d) \<Rightarrow> (Inr resp, d)))))"

definition handleSell :: "services \<Rightarrow> bool \<Rightarrow> (uint64 \<times> string) option \<Rightarrow> daemon \<Rightarrow> (http_error + string) \<times> daemon" where
  "handleSell sv post body d =
     (if \<not> post then (Inl MethodNotAllowed, d)
      else case body of
        None \<Rightarrow> (Inl (BadRequest ''invalid request''), d)
      | Some (htlcID, invoice) \<Rightarrow>
          (case initSellSwap sv htlcID invoice d of
             (Inl e, d) \<Rightarrow> (Inl (InternalError e), d)
           | (Inr swapID, d) \<Rightarrow> (Inr swapID, d)))"

definition handleStatus :: "string \<Rightarrow> daemon \<Rightarrow> http_error + Swap" where
  "handleStatus swapID d = (case map_of (d_swaps d) swapID of None \<Rightarrow> Inl NotFound | Some s \<Rightarrow> Inr s)"

definition handleList :: "daemon \<Rightarrow> Swap list" where
  "handleList d = map snd (d_swaps d)"

end
