(* ===== verification/Tyl_Swap_Props.thy ===== *)
theory Tyl_Swap_Props
  imports Tyl_Swap_Facts
begin

text \<open>
  The promises of the swap daemon towards its owner and its users: what a sale pays is covered by the
  contract, invoices are settled and cancelled on finalized evidence only, and a claim that the daemon
  broadcasts is one that the executor pays.
\<close>

section \<open>The table of hashes\<close>


section \<open>Amounts\<close>

lemma int64_bounds: "- (2 ^ 63) \<le> int64 i" "int64 i < 2 ^ 63"
  unfolding int64_def by (rule signed_take_bit_int_greater_eq_minus_exp, rule signed_take_bit_int_less_exp)

lemma int64_id: "- (2 ^ 63) \<le> i \<Longrightarrow> i < 2 ^ 63 \<Longrightarrow> int64 i = i"
  by (simp add: int64_def signed_take_bit_int_eq_self)

lemma int64_uint: "int64 (uint (a :: uint64)) = (if uint a < 2 ^ 63 then uint a else uint a - 2 ^ 64)"
proof (cases "uint a < 2 ^ 63")
  case False
  have "int64 (uint a) = int64 (uint a - 2 ^ 64)"
    unfolding int64_def by (intro iffD2 [OF signed_take_bit_eq_iff_take_bit_eq]) (simp add: take_bit_eq_mod mod_diff_right_eq [symmetric])
  then show ?thesis using False uint_lt2p [of a] by (simp add: int64_id)
qed (simp add: int64_id order_trans [OF _ uint_ge_0])

lemma sdiv_10000: "v sdiv 10000 = (if 0 \<le> v then v div 10000 else - (- v div 10000))" for v :: int
  by (simp add: signed_divide_int_def sgn_if)

text \<open>The price of a contract is at most its amount, even where the product overflows; where it does not,
  the fee is kept.\<close>

lemma sell_sats_bound:
  assumes "feeBPS \<le> 10000"
  shows "sell_sats feeBPS amount \<le> uint amount"
proof (cases "0 < feeBPS")
  case True
  let ?y = "10000 - feeBPS" and ?x = "int64 (uint amount)"
  have y: "int64 ?y = ?y" "0 \<le> ?y" "?y < 10000" using assms True by (auto intro!: int64_id)
  have x: "?x \<le> uint amount" using uint_lt2p [of amount] by (simp add: int64_uint)
  have "int64 (?x * ?y) div 10000 \<le> uint amount" if p: "0 \<le> int64 (?x * ?y)"
  proof (cases "- (2 ^ 63) \<le> ?x * ?y \<and> ?x * ?y < 2 ^ 63")
    case True
    then have e: "int64 (?x * ?y) = ?x * ?y" by (simp add: int64_id)
    show ?thesis
    proof (cases "0 \<le> ?x")
      case True
      then have "?x * ?y \<le> ?x * 10000" using y by (intro mult_left_mono) simp_all
      then have "?x * ?y div 10000 \<le> ?x" using zdiv_mono1 [of "?x * ?y" "?x * 10000" 10000] by simp
      then show ?thesis using e x by simp
    next
      case False
      then have "?x * ?y \<le> 0" using y by (intro mult_nonpos_nonneg) simp_all
      then show ?thesis using e p by simp
    qed
  next
    case False
    have "2 ^ 63 div 10000 \<le> uint amount"
    proof (cases "0 \<le> ?x")
      case True
      then have "2 ^ 63 \<le> ?x * ?y" using False y by (auto simp: not_less intro: order_trans [of _ 0])
      also have "\<dots> \<le> ?x * 10000" using True y by (intro mult_left_mono) simp_all
      finally show ?thesis using x by linarith
    next
      case False
      then show ?thesis by (simp add: int64_uint split: if_splits)
    qed
    then show ?thesis using int64_bounds(2) [of "?x * ?y"] zdiv_mono1 [of "int64 (?x * ?y)" "2 ^ 63" 10000] by linarith
  qed
  moreover have "- (- int64 (?x * ?y) div 10000) \<le> uint amount" if n: "int64 (?x * ?y) < 0"
    using n pos_imp_zdiv_nonneg_iff [of 10000 "- int64 (?x * ?y)"] uint_ge_0 [of amount] by linarith
  ultimately show ?thesis using True y(1) by (simp add: sell_sats_def sdiv_10000 Let_def)
next
  case False
  then show ?thesis using uint_lt2p [of amount] by (simp add: sell_sats_def int64_uint)
qed

lemma sell_sats_fee:
  assumes "0 \<le> feeBPS" and "feeBPS \<le> 10000" and "10000 * uint amount < 2 ^ 63"
  shows "10000 * sell_sats feeBPS amount \<le> uint amount * (10000 - feeBPS)"
proof -
  let ?y = "10000 - feeBPS"
  have "uint amount * ?y \<le> uint amount * 10000" using assms(1) by (intro mult_left_mono) simp_all
  then have p: "0 \<le> uint amount * ?y" "uint amount * ?y < 2 ^ 63" using assms(2,3) by simp_all
  have "int64 ?y = ?y" using assms by (intro int64_id) simp_all
  moreover have "int64 (uint amount * ?y) = uint amount * ?y"
    by (rule int64_id) (use p in \<open>simp_all add: order_trans [of _ 0]\<close>)
  moreover have "10000 * (q div 10000) \<le> q" for q :: int by linarith
  ultimately show ?thesis using assms p by (simp add: sell_sats_def int64_uint sdiv_10000 Let_def)
qed

section \<open>Purchases\<close>

lemma buy_sats_exact:
  assumes "0 \<le> feeBPS" and "uint amount * (10000 + feeBPS) < 2 ^ 63"
  shows "buy_sats feeBPS amount = uint amount * (10000 + feeBPS) div 10000" and "uint amount \<le> buy_sats feeBPS amount"
proof -
  let ?y = "10000 + feeBPS"
  have m: "uint amount * 10000 \<le> uint amount * ?y" using assms(1) by (intro mult_left_mono) simp_all
  have a: "uint amount < 2 ^ 63" using m assms(2) by simp
  have "buy_sats feeBPS amount = uint amount * ?y div 10000"
  proof (cases "feeBPS = 0 \<or> uint amount = 0")
    case True
    then show ?thesis using a int64_id [of 0] by (auto simp: buy_sats_def int64_uint sdiv_10000 Let_def)
  next
    case False
    then have "1 \<le> uint amount" using uint_ge_0 [of amount] by linarith
    then have "?y \<le> uint amount * ?y" using assms(1) mult_right_mono [of 1 "uint amount" ?y] by simp
    then have "?y < 2 ^ 63" using assms(2) by linarith
    then have "int64 ?y = ?y" using assms(1) by (intro int64_id) simp_all
    moreover have p: "0 \<le> uint amount * ?y" using assms(1) by (intro mult_nonneg_nonneg) simp_all
    moreover have "int64 (uint amount * ?y) = uint amount * ?y" by (rule int64_id [OF order_trans [OF _ p] assms(2)]) simp
    ultimately show ?thesis using False assms(1) a by (simp add: buy_sats_def int64_uint sdiv_10000 Let_def)
  qed
  then show "buy_sats feeBPS amount = uint amount * ?y div 10000" "uint amount \<le> buy_sats feeBPS amount"
    using zdiv_mono1 [OF m, of 10000] by simp_all
qed

text \<open>The transaction that a purchase submits, up to its signature.\<close>

abbreviation lock_data :: "address \<Rightarrow> uint64 \<Rightarrow> hash256 \<Rightarrow> bytes" where
  "lock_data recipient timelock hash \<equiv> packCallData (HTLCFnLock # CallerID recipient # timelock # hash_words hash)"

lemma lockHTLC_submits:
  assumes "lockHTLC sv r h a t d = (Some (k, txid), d')"
  shows "\<exists>nonce b sg. rpc_GetAccount (sv_tyl sv) (d_addr d) = Some (nonce, b) \<and> GetNextHTLCID (sv_tyl sv) = Some k \<and>
    d_log d' = d_log d @ [Embed (EncodeEnvelope EnvelopeTypeTx (EncodeTx (htlc_tx d nonce a 1 100000 (lock_data r t h)\<lparr>tx_Signature := sg\<rparr>)))]"
  using assms by (auto simp: lockHTLC_def submit_def Let_def split: option.splits prod.splits sum.splits)

text \<open>What a purchase promises. When the daemon accepts one, the hash was not in use, the amount is positive,
  within the configured limit and covered by the balance of the daemon; the hold invoice for the hash asks for
  the amount and the fee, rounded down, and at least for the amount, unless the product overflows; the invoice,
  which can be cancelled, is made before the transaction that locks the amount for the recipient under the
  same hash, with a time lock of the configured number of blocks; and the swap is recorded with the hash.\<close>

theorem buy_covered:
  assumes "initBuySwap sv h r a d = (Inr resp, d')" and "0 \<le> d_FeeBPS d" and "uint a * (10000 + d_FeeBPS d) < 2 ^ 63"
  shows "\<exists>nonce b height memo sg. d_activeHashes d h = None \<and> 0 < a \<and> (d_MaxSwapSize d = 0 \<or> a \<le> d_MaxSwapSize d) \<and>
    rpc_GetAccount (sv_tyl sv) (d_addr d) = Some (nonce, b) \<and> a \<le> b \<and> GetBlockHeight (sv_tyl sv) = Some height \<and>
    uint a \<le> uint a * (10000 + d_FeeBPS d) div 10000 \<and>
    d_log d' = d_log d @ [AddHoldInvoice h (uint a * (10000 + d_FeeBPS d) div 10000) memo,
      Embed (EncodeEnvelope EnvelopeTypeTx (EncodeTx
        (htlc_tx d nonce a 1 100000 (lock_data r (height + d_Timelock d) h)\<lparr>tx_Signature := sg\<rparr>)))] \<and>
    d_activeHashes d' h = Some (by_SwapID resp) \<and>
    (\<exists>s. map_of (d_swaps d') (by_SwapID resp) = Some s \<and> sw_Hash s = h \<and> sw_State s = StateInvoiceCreated \<and>
      sw_AmountTyBTC s = a \<and> sw_Recipient s = r \<and> sw_Timelock s = height + d_Timelock d)"
proof -
  let ?d = "d\<lparr>d_activeHashes := (d_activeHashes d)(h \<mapsto> [])\<rparr>"
  have new: "a \<noteq> 0" "\<not> (d_MaxSwapSize d > 0 \<and> a > d_MaxSwapSize d)" "d_activeHashes d h = None"
    using assms(1) by (auto simp: initBuySwap_def reserve_def split: if_splits option.splits)
  obtain nonce b height where acc: "rpc_GetAccount (sv_tyl sv) (d_addr d) = Some (nonce, b)" "a \<le> b" "GetBlockHeight (sv_tyl sv) = Some height"
    using assms(1) new by (auto simp: initBuySwap_def reserve_def not_less Let_def split: if_splits option.splits prod.splits)
  let ?sats = "buy_sats (d_FeeBPS d) a" and ?i = "swap_id (Suc (d_seq d))"
  let ?l = "logged (AddHoldInvoice h ?sats (''tylswap-'' @ ?i)) (?d\<lparr>d_seq := Suc (d_seq d)\<rparr>)"
  obtain invoice k txid d2 where lock: "lockHTLC sv r h a (height + d_Timelock d) ?l = (Some (k, txid), d2)"
    and d': "by_SwapID resp = ?i"
      "d' = track \<lparr>sw_ID = ?i, sw_Direction = Buy, sw_State = StateInvoiceCreated, sw_Hash = h, sw_Preimage = 0, sw_AmountTyBTC = a,
         sw_AmountSats = ?sats, sw_HTLCID = k, sw_Timelock = height + d_Timelock d, sw_Invoice = invoice, sw_Recipient = r,
         sw_Error = [], sw_Verified = False\<rparr> d2"
    using assms(1) new acc by (auto simp: initBuySwap_def reserve_def newSwapID_eq Let_def split: if_splits option.splits prod.splits)
  have tx: "htlc_tx ?l = htlc_tx d" by (simp add: htlc_tx_def fun_eq_iff logged_def)
  obtain sg where "d_log d2 = d_log d @ [AddHoldInvoice h ?sats (''tylswap-'' @ ?i),
      Embed (EncodeEnvelope EnvelopeTypeTx (EncodeTx (htlc_tx d nonce a 1 100000 (lock_data r (height + d_Timelock d) h)\<lparr>tx_Signature := sg\<rparr>)))]"
    using lockHTLC_submits [OF lock] acc(1) unfolding tx by auto
  then show ?thesis
    using new acc d' buy_sats_exact [OF assms(2,3)] by (auto simp: track_def not_less word_gt_0 intro!: exI [of _ sg])
qed

section \<open>Sales\<close>

lemma initSellSwap_accepts:
  assumes "initSellSwap sv k invoice d = (Inr i, d')"
  shows "\<exists>htlc height ph n bs. GetHTLC (sv_tyl sv) k = Some htlc \<and> hi_Status htlc = 0 \<and>
    hi_RecipientID htlc = CallerID (d_addr d) \<and> d_activeHashes d (hi_Hashlock htlc) = None \<and>
    GetBlockHeight (sv_tyl sv) = Some height \<and> height + MinSellTimelock \<le> hi_Timelock htlc \<and>
    sv_DecodePayReq sv invoice = Some (ph, n) \<and> hex_Decode ph = Some bs \<and> length bs = 32 \<and>
    be_word bs = hi_Hashlock htlc \<and> n \<le> sell_sats (d_FeeBPS d) (hi_Amount htlc) \<and>
    (\<exists>s. map_of (d_swaps d') i = Some s \<and> sw_State s = StateHTLCLocked \<and> sw_Hash s = hi_Hashlock htlc \<and>
      sw_HTLCID s = k \<and> sw_Invoice s = invoice) \<and> d_log d' = d_log d"
  using assms by (auto simp: initSellSwap_def Let_def newSwapID_eq track_def not_less not_le split: option.splits prod.splits if_splits)

text \<open>C29: the daemon never pays for a contract more than the contract is worth. When it accepts a sale, the
  contract is pending and made out to the daemon, has at least six blocks left, and the invoice has the
  hash of the contract, so that paying it reveals the preimage that opens the contract; the satoshis of
  the invoice are at most the amount of the contract, even where the computation of the price overflows,
  and less by the fee where it does not. Nothing is paid before the swap is recorded.\<close>

theorem sell_covered:
  assumes "initSellSwap sv k invoice d = (Inr i, d')" and "0 \<le> d_FeeBPS d" and "d_FeeBPS d \<le> 10000"
    and "GetBlockHeight (sv_tyl sv) = Some height" and "unat height + 6 < 2 ^ 64"
  shows "\<exists>htlc ph n bs. GetHTLC (sv_tyl sv) k = Some htlc \<and> hi_Status htlc = 0 \<and>
    hi_RecipientID htlc = CallerID (d_addr d) \<and> unat height + 6 \<le> unat (hi_Timelock htlc) \<and>
    sv_DecodePayReq sv invoice = Some (ph, n) \<and> hex_Decode ph = Some bs \<and> length bs = 32 \<and>
    be_word bs = hi_Hashlock htlc \<and> n \<le> uint (hi_Amount htlc) \<and>
    (10000 * uint (hi_Amount htlc) < 2 ^ 63 \<longrightarrow> 10000 * n \<le> uint (hi_Amount htlc) * (10000 - d_FeeBPS d)) \<and>
    (\<exists>s. map_of (d_swaps d') i = Some s \<and> sw_State s = StateHTLCLocked \<and> sw_Hash s = hi_Hashlock htlc \<and>
      sw_HTLCID s = k \<and> sw_Invoice s = invoice) \<and> d_log d' = d_log d"
proof -
  obtain htlc ph n bs where h: "GetHTLC (sv_tyl sv) k = Some htlc" "height + MinSellTimelock \<le> hi_Timelock htlc"
    "n \<le> sell_sats (d_FeeBPS d) (hi_Amount htlc)" and r: "hi_Status htlc = 0" "hi_RecipientID htlc = CallerID (d_addr d)"
    "sv_DecodePayReq sv invoice = Some (ph, n)" "hex_Decode ph = Some bs" "length bs = 32" "be_word bs = hi_Hashlock htlc"
    "\<exists>s. map_of (d_swaps d') i = Some s \<and> sw_State s = StateHTLCLocked \<and> sw_Hash s = hi_Hashlock htlc \<and>
      sw_HTLCID s = k \<and> sw_Invoice s = invoice" "d_log d' = d_log d"
    using initSellSwap_accepts [OF assms(1)] assms(4) by auto
  have "unat (height + MinSellTimelock) = unat height + 6" using assms(5) by (subst unat_add_no_wrap) (simp_all add: MinSellTimelock_def)
  then have "unat height + 6 \<le> unat (hi_Timelock htlc)" using h(2) by (simp add: word_le_nat_alt)
  moreover have "n \<le> uint (hi_Amount htlc)" using h(3) sell_sats_bound [OF assms(3), of "hi_Amount htlc"] by linarith
  moreover have "10000 * n \<le> uint (hi_Amount htlc) * (10000 - d_FeeBPS d)" if "10000 * uint (hi_Amount htlc) < 2 ^ 63"
    using h(3) sell_sats_fee [OF assms(2,3) that] by linarith
  ultimately show ?thesis using h(1) r by blast
qed

section \<open>Invoices\<close>

lemma log_fields [simp]:
  "d_log (updateState i st d) = d_log d" "d_log (persistSwaps d) = d_log d"
  by (simp_all add: updateState_def Let_def split: option.split)

text \<open>What justifies a request to another system for a swap.\<close>

definition justified :: "services \<Rightarrow> Swap \<Rightarrow> action \<Rightarrow> bool" where
  "justified sv s a =
     (case a of
        SettleInvoice p \<Rightarrow>
          (case GetFinalizedHTLC (sv_tyl sv) (sw_HTLCID s) of
             Some (Some htlc) \<Rightarrow> hi_Status htlc = 1 \<and> hi_Preimage htlc = p | _ \<Rightarrow> False)
      | CancelInvoice h \<Rightarrow>
          sw_State s = StateRefundSubmitted \<and> h = sw_Hash s \<and>
          (case GetFinalizedHTLC (sv_tyl sv) (sw_HTLCID s) of Some (Some htlc) \<Rightarrow> hi_Status htlc = 2 | _ \<Rightarrow> False)
      | Embed e \<Rightarrow>
          sw_State s \<noteq> StateRefundSubmitted \<and>
          sw_Timelock s \<le> (case GetBlockHeight (sv_tyl sv) of None \<Rightarrow> 0 | Some h \<Rightarrow> h)
      | _ \<Rightarrow> False)"

definition adds :: "daemon \<Rightarrow> daemon \<Rightarrow> (action \<Rightarrow> bool) \<Rightarrow> bool" where
  "adds d d' P \<longleftrightarrow> (\<exists>as. d_log d' = d_log d @ as \<and> list_all P as)"

lemma addsI: "d_log d' = d_log d \<Longrightarrow> adds d d' P" "d_log d' = d_log d @ [a] \<Longrightarrow> P a \<Longrightarrow> adds d d' P"
  by (auto simp: adds_def)

lemma submit_log: "submit sv tx d = (r, d') \<Longrightarrow> d_log d' = d_log d \<or> (\<exists>e. d_log d' = d_log d @ [Embed e])"
  by (auto simp: submit_def Let_def split: sum.splits)

lemma refund_log: "refundHTLC sv k d = (b, d') \<Longrightarrow> d_log d' = d_log d \<or> (\<exists>e. d_log d' = d_log d @ [Embed e])"
  by (auto simp: refundHTLC_def Let_def split: option.splits prod.splits dest: submit_log)

lemma adds_try_refund:
  assumes "sw_State s \<noteq> StateRefundSubmitted" and "d_log e = d_log d"
  shows "adds d (try_refund sv s e) (justified sv s)"
proof -
  obtain b d1 where r: "refundHTLC sv (sw_HTLCID s) e = (b, d1)" by fastforce
  have "adds d d1 (justified sv s)" "adds d (updateState (sw_ID s) StateRefundSubmitted d1) (justified sv s)"
    if "sw_Timelock s \<le> (case GetBlockHeight (sv_tyl sv) of None \<Rightarrow> 0 | Some h \<Rightarrow> h)"
    using refund_log [OF r] that assms by (auto simp: justified_def intro: addsI)
  then show ?thesis using assms by (cases b) (auto simp: try_refund_def Let_def r intro: addsI)
qed

lemma adds_settle:
  assumes "GetFinalizedHTLC (sv_tyl sv) (sw_HTLCID s) = Some (Some htlc)" and "hi_Status htlc = 1" and "d_log e = d_log d"
  shows "adds d (settle sv s (hi_Preimage htlc) e) (justified sv s)"
  by (rule addsI(2) [where a = "SettleInvoice (hi_Preimage htlc)"]) (use assms in \<open>simp_all add: settle_def Let_def justified_def\<close>)

lemma adds_check_refund:
  assumes "sw_State s = StateRefundSubmitted"
  shows "adds d (check_refund sv s d) (justified sv s)"
proof -
  have "adds d (updateState (sw_ID s) StateRefunded (logged (CancelInvoice (sw_Hash s)) d)) (justified sv s)"
    if "GetFinalizedHTLC (sv_tyl sv) (sw_HTLCID s) = Some (Some htlc)" "hi_Status htlc = 2" for htlc
    by (rule addsI(2) [where a = "CancelInvoice (sw_Hash s)"]) (use that assms in \<open>simp_all add: justified_def\<close>)
  then show ?thesis by (auto simp: check_refund_def split: option.split intro: addsI(1) intro!: adds_settle)
qed

lemma adds_check_waiting:
  assumes "sw_State s \<noteq> StateRefundSubmitted"
  shows "adds d (check_waiting sv s d) (justified sv s)"
proof -
  define d1 where "d1 = (if sv_LookupInvoice sv (sw_Hash s) = Some InvoiceAccepted \<and> sw_State s = StateInvoiceCreated
    then updateState (sw_ID s) StatePaymentInFlight d else d)"
  have "d_log d1 = d_log d" by (simp add: d1_def)
  then show ?thesis
    unfolding check_waiting_def Let_def d1_def [symmetric]
    by (auto split: option.split intro: addsI intro!: adds_settle adds_try_refund assms)
qed

lemma adds_check_verified:
  "map_of (d_swaps d) i = Some s \<Longrightarrow> adds d (check_verified sv i d) (justified sv s)"
  by (auto simp: check_verified_def simp del: map_of_eq_Some_iff intro: addsI intro!: adds_check_refund adds_check_waiting)

text \<open>The search for the contract of a swap finds it exactly when there is one.\<close>

definition is_contract :: "remote \<Rightarrow> Swap \<Rightarrow> uint64 \<Rightarrow> bool" where
  "is_contract c s i \<longleftrightarrow> (\<exists>h. GetHTLC c i = Some h \<and> hi_Hashlock h = sw_Hash s \<and> hi_Amount h = sw_AmountTyBTC s)"

lemma scan_ids_Some: "scan_ids c s i counter = Some j \<Longrightarrow> is_contract c s j \<and> i \<le> j \<and> j < counter"
proof (induction c s i counter rule: scan_ids.induct)
  case (1 c s i counter)
  have le: "i \<le> j" if "i < counter" "i + 1 \<le> j"
    using that unat_succ [of i counter] by (simp add: word_le_nat_alt)
  from 1 show ?case
    by (subst (asm) scan_ids.simps) (auto simp: is_contract_def split: if_splits option.splits intro: le)
qed

lemma scan_ids_None: "scan_ids c s i counter = None \<Longrightarrow> i \<le> j \<Longrightarrow> j < counter \<Longrightarrow> \<not> is_contract c s j"
proof (induction c s i counter rule: scan_ids.induct)
  case (1 c s i counter)
  have i: "i < counter" using 1(4,5) by simp
  have "i + 1 \<le> j" if "j \<noteq> i"
    using that 1(4) unat_succ [OF i] by (simp add: word_le_nat_alt word_unat_eq_iff)
  moreover have "\<not> is_contract c s i \<and> scan_ids c s (i + 1) counter = None"
    using 1(3) i by (subst (asm) scan_ids.simps) (auto simp: is_contract_def split: if_splits option.splits)
  moreover have "GetHTLC c i = None \<or> (\<exists>h. GetHTLC c i = Some h \<and> \<not> (hi_Hashlock h = sw_Hash s \<and> hi_Amount h = sw_AmountTyBTC s))"
    using calculation(2) by (cases "GetHTLC c i") (auto simp: is_contract_def)
  ultimately show ?case using 1(1,2,5) i by (cases "j = i") auto
qed

lemma verify_finds:
  assumes "verifyHTLCID sv s d = (b, d')" and "map_of (d_swaps d) (sw_ID s) = Some s"
  shows "if b then \<exists>i. is_contract (sv_tyl sv) s i \<and>
      map_of (d_swaps d') (sw_ID s) = Some (s\<lparr>sw_HTLCID := i, sw_Verified := True\<rparr>) \<and> d_log d' = d_log d
    else d' = d"
  using assms by (auto simp: verifyHTLCID_def modify_def is_contract_def split: option.splits if_splits
      dest!: scan_ids_Some simp del: map_of_eq_Some_iff)

text \<open>C30: the daemon settles or cancels the Lightning invoice of a purchase only on finalized evidence. In a
  round of the monitor for a purchase, an invoice is settled only with the preimage that the finalized
  record of its contract shows as claimed; it is cancelled only after a refund was submitted and the
  finalized record shows the refund; a refund is sent only when the time lock is over; nothing else is
  asked of other systems. A contract that was not identified before is one with the hash and the amount
  of the swap.\<close>

theorem buy_invoice_safe:
  assumes "map_of (d_swaps d) (sw_ID s) = Some s" and "sw_Direction s = Buy"
  shows "\<exists>as t. d_log (check_one sv (sw_ID s) d) = d_log d @ as \<and> list_all (justified sv t) as \<and>
    (t = s \<and> (sw_Verified s \<or> sw_State s = StateRefundSubmitted \<or> as = []) \<or>
     (\<exists>i. t = s\<lparr>sw_HTLCID := i, sw_Verified := True\<rparr> \<and> is_contract (sv_tyl sv) s i))"
proof -
  have one: "check_one sv (sw_ID s) d = checkBuySwap sv s d" using assms by (simp add: check_one_def)
  obtain b d1 where v: "verifyHTLCID sv s d = (b, d1)" by fastforce
  show ?thesis
  proof (cases "sw_Verified s \<or> sw_State s = StateRefundSubmitted")
    case True
    then show ?thesis
      using adds_check_verified [OF assms(1), of sv] unfolding one by (auto simp: checkBuySwap_def adds_def)
  next
    case False
    show ?thesis
    proof (cases b)
      case True
      then obtain i where i: "is_contract (sv_tyl sv) s i"
        "map_of (d_swaps d1) (sw_ID s) = Some (s\<lparr>sw_HTLCID := i, sw_Verified := True\<rparr>)" "d_log d1 = d_log d"
        using verify_finds [OF v assms(1)] by auto
      have "checkBuySwap sv s d = check_verified sv (sw_ID s) d1" using False True by (simp add: checkBuySwap_def v)
      then show ?thesis using i(1) adds_check_verified [OF i(2), of sv] i(3) unfolding one by (auto simp: adds_def)
    next
      case b: False
      then have "checkBuySwap sv s d = d" using False verify_finds [OF v assms(1)] by (simp add: checkBuySwap_def v)
      then show ?thesis unfolding one by (intro exI [of _ "[]"] exI [of _ s]) simp
    qed
  qed
qed

section \<open>The claim of a sale\<close>

abbreviation claim_data :: "uint64 \<Rightarrow> hash256 \<Rightarrow> bytes" where
  "claim_data k p \<equiv> packCallData (HTLCFnClaim # k # hash_words p)"

lemma length_claim_data: "length (claim_data k p) = 48"
  by (simp add: packCallData_def hash_words_def)

lemma claim_data_words: "data_words (claim_data k p) = HTLCFnClaim # k # hash_words p"
  unfolding packCallData_def by (rule data_words_words)

lemma claim_lookup:
  assumes f: "f = upds g (call_writes caller (claim_data k p))"
  shows "f 100 = HTLCFnClaim" and "f 101 = k" and "f 103 = CallerID caller"
    and "words_hash (f 102) (f 104) (f 105) (f 106) = hash_bytes p"
proof -
  let ?ws = "HTLCFnClaim # k # hash_words p"
  have n: "length ?ws = 6" by (simp add: hash_words_def)
  have at: "f (arg_slot i) = ?ws ! i" if "i < 6" for i
  proof -
    have "unat (arg_slot i) \<noteq> 103" using unat_arg_slot [of i] that by (auto split: if_splits)
    then have "arg_slot i \<noteq> 103" by auto
    then show ?thesis using arg_lookup [of ?ws i g] that n unfolding f call_writes_def claim_data_words by simp
  qed
  show "f 103 = CallerID caller" by (simp add: f call_writes_def)
  show "f 100 = HTLCFnClaim" "f 101 = k" using at [of 0] at [of 1] by (simp_all add: arg_slot_def)
  have "f 102 = hash_words p ! 0" "f 104 = hash_words p ! 1" "f 105 = hash_words p ! 2" "f 106 = hash_words p ! 3"
    using at [of 2] at [of 3] at [of 4] at [of 5] by (simp_all add: arg_slot_def)
  then show "words_hash (f 102) (f 104) (f 105) (f 106) = hash_bytes p" using words_hash_words [of p] by simp
qed

lemma packed_claim:
  assumes ok: "state_ok sha A s" and H: "HTLCSystemAddress \<in> A" and t: "tx_From tx \<in> A" and ne: "tx_From tx \<noteq> HTLCSystemAddress"
    and c: "k < hslot sha s 0" "unat (hslot sha s 0) < max_htlcs" and d: "tx_Data tx = claim_data k p"
    and h: "h = htlc_at (hslot sha s) k" "h_status h = 0" "h_recipient h = CallerID (tx_From tx)" "sha (hash_bytes p) = be_word (h_lock h)"
    and b: "h_amount h \<le> bal sha s HTLCSystemAddress"
    and s1: "s1 = writeCallData sha s HTLCSystemAddress (tx_From tx) (tx_Data tx)"
  shows "\<exists>s2. processHTLC sha height tx s1 = (None, s2) \<and> h_status (htlc_at (hslot sha s2) k) = htlcStatusClaimed \<and>
    bal sha s2 (tx_From tx) = bal sha s (tx_From tx) + h_amount h"
proof -
  let ?H = HTLCSystemAddress and ?from = "tx_From tx" and ?f = "hslot sha s1"
  have l: "length (tx_Data tx) < 2 ^ 32" by (simp add: d length_claim_data)
  note w = writeCallData_laws [OF ok H l s1]
  note f = claim_lookup [OF w(3) [unfolded d]]
  have far: "?f j = hslot sha s j" if "unat j < 100 \<or> 10000 \<le> unat j" for j
    using that by (intro w(4)) (auto simp: d length_claim_data)
  have k: "unat k < max_htlcs" using c by (simp add: word_less_nat_alt)
  have "?f (rec_slot k off) = hslot sha s (rec_slot k off)" if "unat off < 14" for off
    using unat_rec_slot [OF k that] by (intro far) simp
  then have rec: "htlc_at ?f k = h" by (simp add: h(1) htlc_at_def)
  have cnt: "?f 0 = hslot sha s 0" by (rule far) simp
  have bal: "bal sha s1 a = bal sha s a" if "a \<in> A" for a by (rule keeps_rest_bal [OF w(2) that])
  obtain err s2 where run: "htlc_claim sha tx (CallerID ?from) s1 = (err, s2)" by fastforce
  have "unat (?f htlcSlotCounter) < max_htlcs" using c(2) cnt by (simp add: htlcSlotCounter_def)
  note e = claim_effect [OF evolves_ok [OF w(1)] H t refl refl this run]
  have "err = None" using e c h b by (simp add: f rec htlc_consts bal H cnt)
  moreover from this have "bal sha s2 ?from = bal sha s ?from + h_amount h" "h_status (htlc_at (hslot sha s2) k) = htlcStatusClaimed"
    using e H t ne k by (auto simp: f rec bal move_def)
  moreover have "processHTLC sha height tx s1 = htlc_claim sha tx (CallerID ?from) s1"
    unfolding process_eq Let_def handlers_hcache by (simp add: f htlc_consts)
  ultimately show ?thesis using run by simp
qed

lemma claim_executes:
  assumes ok: "state_ok (sha256 x) A (ex_stateDB e)" and cov: "HTLCSystemAddress \<in> A" "tx_From tx \<in> A"
    and src: "tx_From tx \<noteq> ZeroAddress" "tx_From tx \<noteq> HTLCSystemAddress"
    and sig: "VerifySender x (SigningHash (sha256 x) tx) (tx_Signature tx) (tx_From tx)"
    and nonce: "tx_Nonce tx = acct_Nonce (GetOrCreateAccount (sha256 x) (ex_stateDB e) (tx_From tx))"
    and tx: "tx_To tx = HTLCSystemAddress" "tx_Value tx = 0" "tx_Data tx = claim_data k p"
    and c: "k < hslot (sha256 x) (ex_stateDB e) 0" "unat (hslot (sha256 x) (ex_stateDB e) 0) < max_htlcs"
    and h: "h = htlc_at (hslot (sha256 x) (ex_stateDB e)) k" "h_status h = 0" "h_recipient h = CallerID (tx_From tx)"
      "sha256 x (hash_bytes p) = be_word (h_lock h)" "h_amount h \<le> bal (sha256 x) (ex_stateDB e) HTLCSystemAddress"
  shows "\<exists>e'. executeTx x e tx = Some (ok_receipt (TxID (sha256 x) tx) 0, e') \<and>
    h_status (htlc_at (hslot (sha256 x) (ex_stateDB e')) k) = htlcStatusClaimed \<and>
    GetBalance (sha256 x) (ex_stateDB e') (tx_From tx) = GetBalance (sha256 x) (ex_stateDB e) (tx_From tx) + h_amount h"
proof -
  let ?sha = "sha256 x" and ?s = "ex_stateDB e" and ?from = "tx_From tx" and ?H = HTLCSystemAddress
  have "take 8 (tx_Data tx) = be_bytes 8 HTLCFnClaim" by (simp add: tx packCallData_def)
  then have isc: "isHTLCClaim tx"
    using be_word_be_bytes_id [of 8 HTLCFnClaim] by (simp add: isHTLCClaim_def tx length_claim_data be_word_def)
  obtain i s0 where snap: "Snapshot ?s = (i, s0)" by fastforce
  note so = Snapshot_obs [OF snap]
  define s1 where s1: "s1 = SetAccount ?sha s0 ?from ((acct ?sha s0 ?from)
      \<lparr>acct_Nonce := acct_Nonce (acct ?sha s0 ?from) + 1, acct_Balance := acct_Balance (acct ?sha s0 ?from)\<rparr>)"
  note l1 = set_core [OF so(4) [OF ok] cov(2) s1]
  have f: "hslot ?sha s1 = hslot ?sha ?s" using l1(3) [OF cov(1)] by (intro slot_of_cong) (simp add: so)
  have b: "bal ?sha s1 a = bal ?sha ?s a" if "a \<in> A" for a using l1(4) [OF that] by (simp add: so GetBalance_eq)
  define s2 where s2: "s2 = writeCallData ?sha s1 ?H ?from (tx_Data tx)"
  obtain s3 where p: "processHTLC ?sha (ex_currentHeight e) tx s2 = (None, s3)"
    and r: "h_status (htlc_at (hslot ?sha s3) k) = htlcStatusClaimed" "bal ?sha s3 ?from = bal ?sha ?s ?from + h_amount h"
    using packed_claim [OF evolves_ok [OF l1(1)] cov src(2) _ _ tx(3) _ _ _ _ _ s2, where h = h] c h by (auto simp: f b cov)
  have "executeTx x e tx = Some (ok_receipt (TxID ?sha tx) 0, e\<lparr>ex_stateDB := s3\<rparr>)"
    using p by (simp add: executeTx_def executeHTLCClaim_def Let_def src sig isc tx(1,2) nonce snap s1 s2 so same_balance)
  with r show ?thesis by simp
qed

lemma config_fields [simp]:
  "d_addr (updateState i st d) = d_addr d" "d_key (updateState i st d) = d_key d"
  "d_addr (persistPreimage k p d) = d_addr d" "d_key (persistPreimage k p d) = d_key d"
  by (simp_all add: updateState_def persistPreimage_def release_def Let_def split: option.split)

lemma swaps_updateState:
  "map_of (d_swaps d) i = Some s \<Longrightarrow> map_of (d_swaps (updateState i st d)) i = Some (s\<lparr>sw_State := st\<rparr>)"
  by (simp add: updateState_def modify_def Let_def)

lemma SigningHash_sig [simp]: "SigningHash sha (tx\<lparr>tx_Signature := sg\<rparr>) = SigningHash sha tx"
  by (simp add: SigningHash_def signing_preimage_def)

text \<open>What a successful claim submits.\<close>

lemma claimHTLC_submits:
  assumes "rpc_GetAccount (sv_tyl sv) (d_addr d) = Some (nonce, b)" and "Sign (sv_x sv) (SigningHash (sha256 (sv_x sv)) tx) (d_key d) = Inr sg"
    and "tx = htlc_tx d nonce 0 0 0 (claim_data k p)" and "env = EncodeEnvelope EnvelopeTypeTx (EncodeTx (tx\<lparr>tx_Signature := sg\<rparr>))"
    and "sv_EmbedEnvelope sv env \<noteq> None"
  shows "claimHTLC sv k p d = (True, logged (Embed env) d)"
  using assms by (auto simp: claimHTLC_def submit_def Let_def)

lemma executeSell_settles:
  assumes "map_of (d_swaps d) i = Some s" and "sv_SendPayment sv (sw_Invoice s) = Inr p"
    and "\<And>d1. d_addr d1 = d_addr d \<Longrightarrow> d_key d1 = d_key d \<Longrightarrow> claimHTLC sv (sw_HTLCID s) p d1 = (True, logged (Embed env) d1)"
  shows "\<exists>d' s'. executeSell sv i d = Some d' \<and> map_of (d_swaps d') i = Some s' \<and> sw_State s' = StateSettled \<and>
    sw_Preimage s' = p \<and> d_log d' = d_log d @ [SendPayment (sw_Invoice s), Embed env]"
proof -
  let ?d1 = "logged (SendPayment (sw_Invoice s)) (updateState i StatePaymentInFlight d)"
  let ?m = "modify i (sw_Preimage_update (\<lambda>_. p)) (persistPreimage (sw_HTLCID s) p ?d1)"
  have s: "map_of (d_swaps ?d1) i = Some (s\<lparr>sw_State := StatePaymentInFlight\<rparr>)" using swaps_updateState [OF assms(1)] by simp
  have "map_of (d_swaps ?m) i = Some (s\<lparr>sw_State := StatePaymentInFlight, sw_Preimage := p\<rparr>)"
    using s by (simp add: modify_def del: map_of_eq_Some_iff)
  note m = swaps_updateState [OF this, of StateClaimed]
  have "map_of (d_swaps (logged (Embed env) (updateState i StateClaimed ?m))) i =
      Some (s\<lparr>sw_State := StatePaymentInFlight, sw_Preimage := p, sw_State := StateClaimed\<rparr>)"
    unfolding logged_fields(1) by (rule m)
  note swaps_updateState [OF this, of StateSettled]
  then show ?thesis using assms by (simp add: executeSell_def sell_pay_def sell_claim_def Let_def)
qed

text \<open>The wire format of the envelope.\<close>

lemma envelope_decodes:
  assumes "length (tx_Data tx) \<le> 1000000"
  shows "DecodeEnvelope (EncodeEnvelope EnvelopeTypeTx (EncodeTx tx)) =
      Inr \<lparr>env_Magic = Magic, env_Type = EnvelopeTypeTx, env_Payload = EncodeTx tx\<rparr>"
    and "DecodeTx (EncodeTx tx) = Inr tx"
  using DecodeEnvelope_EncodeEnvelope [of "\<lparr>env_Magic = Magic, env_Type = EnvelopeTypeTx, env_Payload = EncodeTx tx\<rparr>" "[]"]
    DecodeTx_EncodeTx [of tx "[]"] assms by (simp_all add: env_ok_def tx_ok_def)

text \<open>C28: a sale pays out. The daemon pays the invoice of a pending contract that is made out to it and learns
  its preimage; then the transaction that it broadcasts, as the node decodes it from the envelope and
  executes it on the state that the daemon read, succeeds, credits the amount of the contract to the
  daemon, costs no gas, and marks the contract claimed; and the swap ends settled, with its preimage
  recorded. The hypotheses on other systems: signatures made with the key of the daemon are those of its
  address, and the envelope is accepted.\<close>

theorem sale_pays_out:
  assumes node: "sv_tyl sv = node_remote n" "hd_x n = sv_x sv" "hd_stateDB n = ex_stateDB e"
    and ok: "state_ok (sha256 (sv_x sv)) A (ex_stateDB e)" and cov: "HTLCSystemAddress \<in> A" "d_addr d \<in> A"
    and src: "d_addr d \<noteq> ZeroAddress" "d_addr d \<noteq> HTLCSystemAddress"
    and key: "\<And>h. \<exists>sg. Sign (sv_x sv) h (d_key d) = Inr sg \<and> VerifySender (sv_x sv) h sg (d_addr d)"
    and embed: "\<And>env. sv_EmbedEnvelope sv env \<noteq> None"
    and swap: "map_of (d_swaps d) i = Some s"
    and c: "GetNextHTLCID (sv_tyl sv) = Some c" "sw_HTLCID s < c" "unat c < max_htlcs"
    and h: "GetHTLC (sv_tyl sv) (sw_HTLCID s) = Some htlc" "hi_Status htlc = 0" "hi_RecipientID htlc = CallerID (d_addr d)"
      "hi_Amount htlc \<le> GetBalance (sha256 (sv_x sv)) (ex_stateDB e) HTLCSystemAddress"
    and pay: "sv_SendPayment sv (sw_Invoice s) = Inr p" "sha256 (sv_x sv) (hash_bytes p) = hi_Hashlock htlc"
  shows "\<exists>d' s' env tx e'. executeSell sv i d = Some d' \<and> map_of (d_swaps d') i = Some s' \<and> sw_State s' = StateSettled \<and>
    sw_Preimage s' = p \<and> d_log d' = d_log d @ [SendPayment (sw_Invoice s), Embed env] \<and>
    DecodeEnvelope env = Inr \<lparr>env_Magic = Magic, env_Type = EnvelopeTypeTx, env_Payload = EncodeTx tx\<rparr> \<and>
    DecodeTx (EncodeTx tx) = Inr tx \<and>
    executeTx (sv_x sv) e tx = Some (ok_receipt (TxID (sha256 (sv_x sv)) tx) 0, e') \<and>
    h_status (htlc_at (slot_of (sha256 (sv_x sv)) (ex_stateDB e') HTLCSystemAddress) (sw_HTLCID s)) = htlcStatusClaimed \<and>
    GetBalance (sha256 (sv_x sv)) (ex_stateDB e') (d_addr d) =
      GetBalance (sha256 (sv_x sv)) (ex_stateDB e) (d_addr d) + hi_Amount htlc"
proof -
  let ?x = "sv_x sv" and ?sha = "sha256 (sv_x sv)" and ?k = "sw_HTLCID s"
  note r = client_reads [of n, unfolded node(2,3)]
  have ht: "htlc = htlc_info (hslot ?sha (ex_stateDB e)) ?k" and cn: "c = hslot ?sha (ex_stateDB e) 0"
    using r [of ?k] h(1) c(1) by (simp_all add: node(1) htlcSlotCounter_def)
  define nonce where "nonce = acct_Nonce (GetOrCreateAccount ?sha (ex_stateDB e) (d_addr d))"
  define tx0 where "tx0 = htlc_tx d nonce 0 0 0 (claim_data ?k p)"
  obtain sg where sg: "Sign ?x (SigningHash ?sha tx0) (d_key d) = Inr sg" "VerifySender ?x (SigningHash ?sha tx0) sg (d_addr d)"
    using key by blast
  define tx where "tx = tx0\<lparr>tx_Signature := sg\<rparr>"
  define env where "env = EncodeEnvelope EnvelopeTypeTx (EncodeTx tx)"
  have tx: "tx_From tx = d_addr d" "tx_Nonce tx = nonce" "tx_To tx = HTLCSystemAddress" "tx_Value tx = 0"
    "tx_Data tx = claim_data ?k p" "tx_Signature tx = sg" by (simp_all add: tx_def tx0_def htlc_tx_def)
  have "\<exists>e'. executeTx ?x e tx = Some (ok_receipt (TxID ?sha tx) 0, e') \<and>
      h_status (htlc_at (hslot ?sha (ex_stateDB e')) ?k) = htlcStatusClaimed \<and>
      GetBalance ?sha (ex_stateDB e') (tx_From tx) = GetBalance ?sha (ex_stateDB e) (tx_From tx) + h_amount (htlc_at (hslot ?sha (ex_stateDB e)) ?k)"
    by (rule claim_executes [OF ok cov(1) _ _ _ _ _ _ _ _ _ _ refl])
      (use tx sg(2) cov(2) src c h pay(2) in \<open>simp_all add: cn ht htlc_info_def Let_def nonce_def tx_def\<close>)
  then obtain e' where e': "executeTx ?x e tx = Some (ok_receipt (TxID ?sha tx) 0, e')"
    "h_status (htlc_at (hslot ?sha (ex_stateDB e')) ?k) = htlcStatusClaimed"
    "GetBalance ?sha (ex_stateDB e') (d_addr d) = GetBalance ?sha (ex_stateDB e) (d_addr d) + hi_Amount htlc"
    by (auto simp: tx(1) ht htlc_info_def Let_def)
  have claim: "claimHTLC sv ?k p d1 = (True, logged (Embed env) d1)" if "d_addr d1 = d_addr d" "d_key d1 = d_key d" for d1
    by (rule claimHTLC_submits [of sv d1 nonce _ tx0 sg])
      (use that sg(1) r embed in \<open>simp_all add: node(1) nonce_def tx0_def htlc_tx_def env_def tx_def\<close>)
  obtain d' s' where d': "executeSell sv i d = Some d'" "map_of (d_swaps d') i = Some s'" "sw_State s' = StateSettled"
    "sw_Preimage s' = p" "d_log d' = d_log d @ [SendPayment (sw_Invoice s), Embed env]"
    using executeSell_settles [OF swap pay(1) claim] by blast
  have "length (tx_Data tx) \<le> 1000000" by (simp add: tx length_claim_data)
  from envelope_decodes [OF this] d' e' show ?thesis unfolding env_def by blast
qed

section \<open>Crashes in a sale\<close>

text \<open>A sale that is not marked as claimed is not worked on.\<close>

lemma check_one_idle:
  "map_of (d_swaps d) i = Some s \<Longrightarrow> sw_Direction s = Sell \<Longrightarrow> sw_State s \<noteq> StateClaimed \<Longrightarrow> check_one sv i d = d"
  by (simp add: check_one_def checkSellSwap_def)

lemma checkSwaps_idle:
  assumes "daemon_inv d" and "map_of (d_swaps d) i = Some s" and "sw_Direction s = Sell" and "sw_State s \<noteq> StateClaimed"
  shows "map_of (d_swaps (checkSwaps sv d)) i = Some s"
proof -
  have "map_of (d_swaps (foldl (\<lambda>d i. check_one sv i d) d is)) i = Some s"
    if "daemon_inv d" "map_of (d_swaps d) i = Some s" for d "is"
    using that
  proof (induction "is" arbitrary: d)
    case (Cons k "is")
    have "map_of (d_swaps (check_one sv k d)) i = Some s"
      using others.check_one [OF Cons.prems(1), of k sv] check_one_idle [OF Cons.prems(2) assms(3,4), of sv] Cons.prems(2)
      by (cases "k = i") (simp_all add: others_kept_def del: map_of_eq_Some_iff)
    then show ?case using Cons.IH [OF inv_check_one [OF Cons.prems(1)]] by simp
  qed simp
  from this [OF assms(1,2)] show ?thesis by (simp add: checkSwaps_def)
qed

lemma monitor_idle:
  assumes "daemon_inv d" and "map_of (d_swaps d) i = Some s" and "sw_Direction s = Sell" and "sw_State s \<noteq> StateClaimed"
  shows "map_of (d_swaps (foldl (\<lambda>d sv. checkSwaps sv d) d svs)) i = Some s"
  using assms(1,2)
  by (induction svs arbitrary: d) (simp_all add: inv_checkSwaps checkSwaps_idle [OF _ _ assms(3,4)] del: map_of_eq_Some_iff)

lemma restart_swap:
  assumes "d_DataDir d" and "d_swapsFile d = Some (d_swaps d)" and "map_of (d_swaps d) i = Some s" and "sw_State s \<noteq> StateClaimed"
  shows "map_of (d_swaps (restart d)) i = Some s" and "d_preimageFiles (restart d) = d_preimageFiles d"
  using assms by (simp_all add: restart_def loadSwaps_def map_of_map restore_swap_def del: map_of_eq_Some_iff)

text \<open>A sale can be lost to a crash. The daemon writes the preimage that it paid for to a file "immediately",
  because "crash recovery depends on this"; but a start of the daemon reads that file only for swaps that are
  already marked as claimed, and the swap is marked so, with the preimage in the same file, after the file
  was written. When the daemon stops in between, the preimage is on disk, but the swap comes back as a payment
  in flight without preimage, and no round of the monitor, whatever the other systems answer, ever claims the
  contract.\<close>

theorem interrupted_sale_stuck:
  assumes "new_daemon d0" and "daemon_step\<^sup>*\<^sup>* d0 d" and "map_of (d_swaps d) i = Some s" and "sw_State s = StateHTLCLocked"
    and "sw_Direction s = Sell" and "d_DataDir d"
    and "d1 = restart (persistPreimage (sw_HTLCID s) p (logged (SendPayment (sw_Invoice s)) (updateState i StatePaymentInFlight d)))"
    and "d2 = foldl (\<lambda>d sv. checkSwaps sv d) d1 svs"
  shows "d_preimageFiles d1 (sw_HTLCID s) = Some p \<and> map_of (d_swaps d2) i = Some (s\<lparr>sw_State := StatePaymentInFlight\<rparr>) \<and>
    check_one sv i d2 = d2"
proof -
  let ?s = "s\<lparr>sw_State := StatePaymentInFlight\<rparr>"
  let ?d = "persistPreimage (sw_HTLCID s) p (logged (SendPayment (sw_Invoice s)) (updateState i StatePaymentInFlight d))"
  have "act i d" using run_inv [OF assms(2,1)] assms(3,4) by (simp add: act_def terminal_def)
  then have inv: "daemon_inv ?d" by (intro act_inv [of i] act_persistPreimage act_logged act_updateState) (simp_all add: terminal_def)
  have sw: "map_of (d_swaps ?d) i = Some ?s" using swaps_updateState [OF assms(3)] by simp
  have dir: "d_DataDir (updateState i StatePaymentInFlight d)" "d_swapsFile ?d = Some (d_swaps ?d)" "d_DataDir ?d"
    using assms(3,6) by (simp_all add: updateState_def persistSwaps_def modify_def Let_def terminal_def)
  have s1: "map_of (d_swaps d1) i = Some ?s" and "d_preimageFiles d1 = d_preimageFiles ?d"
    using restart_swap [OF dir(3,2) sw] by (simp_all add: assms(7))
  then have f: "d_preimageFiles d1 (sw_HTLCID s) = Some p" using dir(1) by (simp add: persistPreimage_def)
  have s2: "map_of (d_swaps d2) i = Some ?s"
    unfolding assms(8) by (rule monitor_idle [OF _ s1]) (use inv_restart [OF inv] assms in simp_all)
  show ?thesis using f s2 check_one_idle [OF s2] assms(5) by simp
qed

section \<open>A contract of somebody else\<close>

text \<open>The contract of a purchase is recognised by its hash and amount alone, not by its sender. A buyer who
  knows the hash can lock the same amount under the same hash first, so that it gets the identifier that
  the daemon expects. Then the monitor watches the contract of the buyer: when the time lock is over and
  the buyer has taken a refund of that contract, the daemon cancels the invoice, although its own contract
  was claimed.\<close>

theorem imposter_contract_cancels:
  assumes s: "map_of (d_swaps d) i = Some s" "sw_ID s = i" "sw_Direction s = Buy" "sw_State s = StateInvoiceCreated" "\<not> sw_Verified s"
      "sw_HTLCID s = k"
    and first: "GetHTLC (sv_tyl sv1) k = Some h" "hi_Hashlock h = sw_Hash s" "hi_Amount h = sw_AmountTyBTC s"
      "sv_LookupInvoice sv1 (sw_Hash s) = Some InvoiceAccepted" "GetFinalizedHTLC (sv_tyl sv1) k = Some (Some f1)" "hi_Status f1 = 0"
      "GetBlockHeight (sv_tyl sv1) = Some n1" "n1 < sw_Timelock s"
    and second: "GetFinalizedHTLC (sv_tyl sv2) k = Some (Some f2)" "hi_Status f2 = 0" "GetBlockHeight (sv_tyl sv2) = Some n2"
      "sw_Timelock s \<le> n2" "\<And>d. fst (refundHTLC sv2 k d)"
    and third: "GetFinalizedHTLC (sv_tyl sv3) k = Some (Some f3)" "hi_Status f3 = 2"
    and d3: "d3 = check_one sv3 i (check_one sv2 i (check_one sv1 i d))"
  shows "CancelInvoice (sw_Hash s) \<in> set (d_log d3) \<and> (\<exists>t. map_of (d_swaps d3) i = Some t \<and> sw_State t = StateRefunded)"
proof -
  let ?s1 = "s\<lparr>sw_Verified := True, sw_State := StatePaymentInFlight\<rparr>"
  define d1 where "d1 = check_one sv1 i d"
  have "check_one sv1 i d = updateState i StatePaymentInFlight (persistSwaps (modify i (sw_Verified_update (\<lambda>_. True)) d))"
    using s first by (simp add: check_one_def checkBuySwap_def verifyHTLCID_def check_verified_def check_waiting_def try_refund_def
        modify_def Let_def not_le [symmetric])
  moreover have "map_of (d_swaps (persistSwaps (modify i (sw_Verified_update (\<lambda>_. True)) d))) i = Some (s\<lparr>sw_Verified := True\<rparr>)"
    using s(1) by (simp add: modify_def)
  ultimately have s1: "map_of (d_swaps d1) i = Some ?s1" using swaps_updateState by (simp add: d1_def)
  obtain e where e: "refundHTLC sv2 k d1 = (True, e)" using second(5) [of d1] by (cases "refundHTLC sv2 k d1") simp
  have "map_of (d_swaps e) i = Some ?s1" using s1 same_core_tx(3) [OF e] by (simp add: same_core_def)
  note s2 = swaps_updateState [OF this, of StateRefundSubmitted]
  have c2: "check_one sv2 i d1 = updateState i StateRefundSubmitted e"
    using s1 s second e by (simp add: check_one_def checkBuySwap_def check_verified_def check_waiting_def try_refund_def Let_def)
  have "d3 = check_one sv3 i (updateState i StateRefundSubmitted e)" unfolding d3 d1_def [symmetric] c2 by (rule refl)
  then have "d3 = updateState i StateRefunded (logged (CancelInvoice (sw_Hash s)) (updateState i StateRefundSubmitted e))"
    using s2 s third by (simp add: check_one_def checkBuySwap_def check_verified_def check_refund_def)
  moreover have "map_of (d_swaps (logged (CancelInvoice (sw_Hash s)) (updateState i StateRefundSubmitted e))) i =
      Some (?s1\<lparr>sw_State := StateRefundSubmitted\<rparr>)"
    unfolding logged_fields(1) by (rule s2)
  ultimately show ?thesis using swaps_updateState by simp
qed

section \<open>A sample shop\<close>

text \<open>A node with one pending contract of 50 for the caller 5, locked by the zero hash until height 100, and a
  daemon with that address.\<close>

definition sale_db :: statedb where
  "sale_db = htlc_db [(0, 1), (rec_slot 0 1, CallerID 5), (rec_slot 0 2, 50), (rec_slot 0 7, 100)]"

definition shop_x :: extern where
  "shop_x = toy\<lparr>ecdsa_Sign := \<lambda>_ _. Some [0x30, 6, 2, 1, 1, 2, 1, 1]\<rparr>"

definition shop_node :: handler where
  "shop_node = \<lparr>hd_x = shop_x, hd_Height = 10, hd_StateRoot = 0, hd_FinalizedHeight = 0, hd_FinalizedRoot = 0,
     hd_stateDB = sale_db, hd_store = None,
     hd_unmarshal = (\<lambda>b. \<lparr>sto_TxID = b, sto_Height = 0, sto_Success = True, sto_GasUsed = 0, sto_Err = []\<rparr>)\<rparr>"

definition shop :: services where
  "shop = \<lparr>sv_x = shop_x, sv_tyl = node_remote shop_node, sv_AddHoldInvoice = (\<lambda>_ _ _. Some []), sv_SettleInvoice = (\<lambda>_. True),
     sv_LookupInvoice = (\<lambda>_. None), sv_DecodePayReq = (\<lambda>_. Some (replicate 64 CHR ''0'', 40)), sv_SendPayment = (\<lambda>_. Inr 0),
     sv_EmbedEnvelope = (\<lambda>_. Some [])\<rparr>"

definition shop_daemon :: daemon where
  "shop_daemon = \<lparr>d_key = [], d_addr = 5, d_APIKey = [], d_FeeBPS = 100, d_Timelock = 144, d_MaxSwapSize = 0, d_DataDir = True,
     d_swaps = [], d_seq = 0, d_activeHashes = Map.empty, d_swapsFile = None, d_preimageFiles = Map.empty, d_log = []\<rparr>"

definition shop_swap :: Swap where
  "shop_swap = \<lparr>sw_ID = ''swap-1'', sw_Direction = Sell, sw_State = StateHTLCLocked, sw_Hash = 0, sw_Preimage = 0, sw_AmountTyBTC = 50,
     sw_AmountSats = 49, sw_HTLCID = 0, sw_Timelock = 100, sw_Invoice = ''ln'', sw_Recipient = 0, sw_Error = [], sw_Verified = True\<rparr>"

lemma shop_x_simps [simp]:
  "sha256 shop_x = be_word" "VerifySender shop_x h sg a \<longleftrightarrow> a = 5" "\<exists>sg. Sign shop_x h k = Inr sg"
  by (auto simp: shop_x_def toy_def VerifySender_iff recovered_def PubKeyToAddress_def Sign_def parseDERToCompact_def Let_def)

lemma shop_reads:
  "GetHTLC (node_remote shop_node) 0 =
     Some \<lparr>hi_SenderID = 0, hi_RecipientID = CallerID 5, hi_Amount = 50, hi_Hashlock = 0, hi_Timelock = 100, hi_Status = 0, hi_Preimage = 0\<rparr>"
  "GetNextHTLCID (node_remote shop_node) = Some 1" "GetBlockHeight (node_remote shop_node) = Some 10"
proof -
  have f: "slot_of be_word sale_db HTLCSystemAddress = (\<lambda>_. 0)(0 := 1, rec_slot 0 1 := CallerID 5, rec_slot 0 2 := 50, rec_slot 0 7 := 100)"
    by (simp add: sale_db_def htlc_db_obs)
  have z: "be_word (words_hash 0 0 0 0) = (0 :: hash256)" by code_simp
  note r = client_reads [of shop_node, where i = 0]
  show "GetHTLC (node_remote shop_node) 0 =
     Some \<lparr>hi_SenderID = 0, hi_RecipientID = CallerID 5, hi_Amount = 50, hi_Hashlock = 0, hi_Timelock = 100, hi_Status = 0, hi_Preimage = 0\<rparr>"
    using r by (simp add: shop_node_def f htlc_info_def htlc_at_def rec_slot_def htlcSlotBase_def htlcSlotStride_def z)
  show "GetNextHTLCID (node_remote shop_node) = Some 1" "GetBlockHeight (node_remote shop_node) = Some 10"
    using r by (simp_all add: shop_node_def f htlcSlotCounter_def rec_slot_def htlcSlotBase_def htlcSlotStride_def)
qed

lemma swap_1: "swap_id (Suc 0) = ''swap-1''"
  by code_simp

lemma shop_sells: "initSellSwap shop 0 ''ln'' shop_daemon = (Inr ''swap-1'', track shop_swap (shop_daemon\<lparr>d_activeHashes := [0 \<mapsto> []], d_seq := 1\<rparr>))"
proof -
  have h: "hex_Decode (replicate 64 CHR ''0'') = Some (replicate 32 0)" by code_simp
  have z: "be_word (replicate 32 0 :: byte list) = (0 :: hash256)" by code_simp
  have s: "sell_sats 100 50 = 49" by code_simp
  show ?thesis
    by (simp add: initSellSwap_def shop_def shop_reads shop_daemon_def shop_swap_def MinSellTimelock_def h z s newSwapID_eq swap_1 Let_def)
qed

abbreviation shop_after :: daemon where
  "shop_after \<equiv> snd (handleSell shop True (Some (0, ''ln'')) shop_daemon)"

lemma shop_after_obs:
  "new_daemon shop_daemon" "daemon_step\<^sup>*\<^sup>* shop_daemon shop_after"
  "map_of (d_swaps shop_after) ''swap-1'' = Some shop_swap" "d_DataDir shop_after"
proof -
  have d: "shop_after = track shop_swap (shop_daemon\<lparr>d_activeHashes := [0 \<mapsto> []], d_seq := 1\<rparr>)" by (simp add: handleSell_def shop_sells)
  show "new_daemon shop_daemon" by (simp add: new_daemon_def shop_daemon_def)
  show "daemon_step\<^sup>*\<^sup>* shop_daemon shop_after" using daemon_step.sell by (rule r_into_rtranclp)
  show "map_of (d_swaps shop_after) ''swap-1'' = Some shop_swap" "d_DataDir shop_after"
    unfolding d by (simp_all add: track_def shop_daemon_def shop_swap_def)
qed


theorem sell_covered_witness:
  "\<exists>n. sv_DecodePayReq shop ''ln'' = Some (replicate 64 CHR ''0'', n) \<and> n \<le> 50 \<and> 10000 * n \<le> 50 * 9900"
  using sell_covered [OF shop_sells, of 10]
  by (simp add: shop_def shop_reads shop_daemon_def)

text \<open>A node whose slots all have the finalized value one: its contracts are claimed.\<close>

definition claimed_shop :: services where
  "claimed_shop = shop\<lparr>sv_tyl := \<lparr>rm_blockHeight = Some 10, rm_getAccount = (\<lambda>_. Some (0, 0)),
     rm_getStorage = (\<lambda>_ _. Some (replicate 63 CHR ''0'' @ ''1'', Some (replicate 63 CHR ''0'' @ ''1'')))\<rparr>\<rparr>"

definition one_hash :: hash256 where "one_hash = be_word (words_hash 1 1 1 1)"

definition bought_swap :: Swap where
  "bought_swap = shop_swap\<lparr>sw_Direction := Buy, sw_State := StateInvoiceCreated, sw_Verified := False, sw_AmountTyBTC := 1, sw_Hash := one_hash\<rparr>"

theorem buy_invoice_safe_witness:
  "d_log (check_one claimed_shop ''swap-1'' (shop_daemon\<lparr>d_swaps := [(''swap-1'', bought_swap)]\<rparr>)) = [SettleInvoice one_hash] \<and>
   (\<exists>t. justified claimed_shop t (SettleInvoice one_hash))"
proof -
  let ?d = "shop_daemon\<lparr>d_swaps := [(''swap-1'', bought_swap)]\<rparr>"
  let ?h = "\<lparr>hi_SenderID = 1, hi_RecipientID = 1, hi_Amount = 1, hi_Hashlock = one_hash, hi_Timelock = 1, hi_Status = 1, hi_Preimage = one_hash\<rparr>"
  have v: "slot_value (replicate 63 CHR ''0'' @ ''1'') = Some 1" by code_simp
  have r: "GetHTLC (sv_tyl claimed_shop) k = Some ?h" "GetFinalizedHTLC (sv_tyl claimed_shop) k = Some (Some ?h)" for k
    by (simp_all add: GetHTLC_def GetFinalizedHTLC_def rpc_GetStorage_def rpc_GetFinalizedStorage_def claimed_shop_def v one_hash_def)
  have s: "sw_ID bought_swap = ''swap-1''" "map_of (d_swaps ?d) ''swap-1'' = Some bought_swap" "sw_Direction bought_swap = Buy"
    by (simp_all add: bought_swap_def shop_swap_def)
  have a: "sv_SettleInvoice claimed_shop p" "sv_LookupInvoice claimed_shop k = None" for p k
    by (simp_all add: claimed_shop_def shop_def)
  have l: "d_log (check_one claimed_shop ''swap-1'' ?d) = [SettleInvoice one_hash]"
    by (simp add: check_one_def checkBuySwap_def verifyHTLCID_def r modify_def check_verified_def check_waiting_def settle_def Let_def
        bought_swap_def shop_swap_def shop_daemon_def a)
  have "\<exists>as t. d_log (check_one claimed_shop ''swap-1'' ?d) = d_log ?d @ as \<and> list_all (justified claimed_shop t) as"
    using buy_invoice_safe [of ?d bought_swap claimed_shop] s by auto
  then show ?thesis using l by (auto simp: shop_daemon_def)
qed

theorem sale_pays_out_witness:
  "\<exists>tx e'. executeTx shop_x (Executor_New sale_db) tx = Some (ok_receipt (TxID be_word tx) 0, e') \<and>
     GetBalance be_word (ex_stateDB e') 5 = 50"
proof -
  let ?d = "shop_daemon\<lparr>d_swaps := [(''swap-1'', shop_swap)]\<rparr>"
  have e: "ex_stateDB (Executor_New sale_db) = sale_db" by (simp add: Executor_New_def)
  have b: "state_ok be_word UNIV sale_db" "GetBalance be_word sale_db a = (if a = HTLCSystemAddress then 70 else 0)" for a
    by (simp_all add: sale_db_def htlc_db_obs)
  have sv: "sv_x shop = shop_x" "sv_tyl shop = node_remote shop_node" "sv_SendPayment shop inv = Inr 0" "sv_EmbedEnvelope shop env \<noteq> None" for inv env
    by (simp_all add: shop_def)
  have d: "d_addr ?d = 5" "map_of (d_swaps ?d) ''swap-1'' = Some shop_swap" "sw_HTLCID shop_swap = 0" by (simp_all add: shop_daemon_def shop_swap_def)
  have a: "(5 :: address) \<noteq> ZeroAddress" "(5 :: address) \<noteq> HTLCSystemAddress" by (simp_all add: HTLCSystemAddress_eq)
  have z: "be_word (hash_bytes 0) = (0 :: hash256)" by (simp add: hash_bytes_def)
  have n: "hd_x shop_node = shop_x" "hd_stateDB shop_node = sale_db" by (simp_all add: shop_node_def)
  show ?thesis
    using sale_pays_out [of shop shop_node "Executor_New sale_db" UNIV ?d "''swap-1''" shop_swap 1 _ 0, unfolded sv(1,2) shop_reads n e d]
    by (simp add: sv b a z max_htlcs_def) (auto simp: b a)
qed

theorem interrupted_sale_stuck_witness:
  "sw_State (the (map_of (d_swaps (foldl (\<lambda>d sv. checkSwaps sv d)
     (restart (persistPreimage 0 0 (logged (SendPayment ''ln'') (updateState ''swap-1'' StatePaymentInFlight shop_after))))
     [shop, shop])) ''swap-1'')) = StatePaymentInFlight"
proof -
  have "sw_State shop_swap = StateHTLCLocked" "sw_Direction shop_swap = Sell" "sw_HTLCID shop_swap = 0" "sw_Invoice shop_swap = ''ln''"
    by (simp_all add: shop_swap_def)
  then show ?thesis
    using interrupted_sale_stuck [OF shop_after_obs(1-3) _ _ shop_after_obs(4) refl refl, of 0 "[shop, shop]"] by simp
qed

text \<open>A node on which the daemon has a balance.\<close>

definition rich_shop :: services where
  "rich_shop = claimed_shop\<lparr>sv_tyl := (sv_tyl claimed_shop)\<lparr>rm_getAccount := \<lambda>_. Some (3, 1000000)\<rparr>\<rparr>"

theorem buy_covered_witness:
  "\<exists>memo env. d_log (snd (initBuySwap rich_shop 7 6 1000 shop_daemon)) = [AddHoldInvoice 7 1010 memo, Embed env]"
proof -
  have v: "slot_value (replicate 63 CHR ''0'' @ ''1'') = Some 1" by code_simp
  have sv: "GetBlockHeight (sv_tyl rich_shop) = Some 10" "rpc_GetAccount (sv_tyl rich_shop) a = Some (3, 1000000)"
    "GetNextHTLCID (sv_tyl rich_shop) = Some 1" "sv_x rich_shop = shop_x" "sv_AddHoldInvoice rich_shop h n m = Some []"
    "sv_EmbedEnvelope rich_shop env = Some []" for a h n m env
    by (simp_all add: rich_shop_def claimed_shop_def shop_def GetBlockHeight_def rpc_GetAccount_def GetNextHTLCID_def rpc_GetStorage_def v)
  have lock: "fst (lockHTLC rich_shop r h a t d) = Some (1, [])" for r h a t d
  proof -
    obtain sg where "Sign shop_x (SigningHash be_word (htlc_tx d 3 a 1 100000 (lock_data r t h))) (d_key d) = Inr sg"
      using shop_x_simps(3) by blast
    then show ?thesis by (simp add: lockHTLC_def submit_def sv Let_def)
  qed
  have "\<exists>resp. fst (initBuySwap rich_shop 7 6 1000 shop_daemon) = Inr resp"
    by (auto simp: initBuySwap_def reserve_def shop_daemon_def sv newSwapID_eq Let_def split: prod.split
        dest!: arg_cong [where f = fst] simp: lock)
  then obtain resp d' where run: "initBuySwap rich_shop 7 6 1000 shop_daemon = (Inr resp, d')" by (metis prod.collapse)
  have "d_log shop_daemon = []" "d_FeeBPS shop_daemon = 100" by (simp_all add: shop_daemon_def)
  with buy_covered [OF run] show ?thesis by (auto simp: run)
qed

end
