(* ===== verification/Tyl_Client.thy ===== *)
theory Tyl_Client
  imports Tyl_Scanner Tyl_RPC "HOL-Library.Log_Nat"
begin

text \<open>
  The Bitcoin client of \<open>pkg/bitcoin/client.go\<close>: its hexadecimal codec, the conversion of amounts from
  floating-point bitcoins to satoshis, the reading of blocks from the replies of a Bitcoin node, and the
  polling for new blocks. The replies, after JSON decoding, are the fields of the record \<open>btc_node\<close>.

  The theory shows that the blocks the scanner sees are those of the Bitcoin node except for the amounts,
  which come out right or one satoshi short, and that a block that cannot be fetched is never retried.
\<close>

section \<open>Hexadecimal text\<close>

definition hexByte :: "char \<Rightarrow> byte" where
  "hexByte ch =
     (let c = (of_char ch :: byte) in
      if c \<ge> 48 \<and> c \<le> 57 then c - 48
      else if c \<ge> 97 \<and> c \<le> 102 then c - 97 + 10
      else if c \<ge> 65 \<and> c \<le> 70 then c - 65 + 10
      else 0)"

definition hexToBytes :: "string \<Rightarrow> bytes" where
  "hexToBytes s =
     (let s = (if length s mod 2 \<noteq> 0 then CHR ''0'' # s else s)
      in map (\<lambda>i. push_bit 4 (hexByte (s ! (i * 2))) OR hexByte (s ! (i * 2 + 1))) [0..<length s div 2])"

definition hextable :: string where "hextable = ''0123456789abcdef''"

definition bytesToHex :: "bytes \<Rightarrow> string" where
  "bytesToHex b = concat (map (\<lambda>v. [hextable ! unat (drop_bit 4 v), hextable ! unat (v AND 0x0f)]) b)"

section \<open>Amounts\<close>

text \<open>A Bitcoin node prints an amount as a decimal number of bitcoins with eight decimals, so the number
  is \<open>k / 10 ^ 8\<close> for an amount of \<open>k\<close> satoshis. The client reads it as a \<open>float64\<close>, multiplies it by
  \<open>1e8\<close> and truncates. A \<open>float64\<close> of this range is \<open>m / 2 ^ s\<close> with an \<open>m\<close> of 53 bits; both the reading
  and the product round to the nearest such number, ties to even.\<close>

definition round_even :: "nat \<Rightarrow> nat \<Rightarrow> nat" where
  "round_even n d =
     (let q = n div d; r = n mod d
      in if 2 * r < d \<or> 2 * r = d \<and> even q then q else q + 1)"

definition float64_quotient :: "nat \<Rightarrow> nat \<Rightarrow> nat \<times> nat" where
  "float64_quotient n d =
     (let s = 53 + floorlog 2 d - floorlog 2 n;
          s = (if n * 2 ^ s \<ge> 2 ^ 53 * d then s - 1 else s)
      in (round_even (n * 2 ^ s) d, s))"

definition float64_times :: "nat \<times> nat \<Rightarrow> nat \<Rightarrow> nat \<times> nat" where
  "float64_times f c =
     (case f of (m, s) \<Rightarrow>
        let p = m * c; t = floorlog 2 p - 53
        in (round_even p (2 ^ t) * 2 ^ t, s))"

definition value_sats :: "nat \<Rightarrow> uint64" where
  "value_sats k =
     (if k = 0 then 0
      else case float64_times (float64_quotient k (10 ^ 8)) (10 ^ 8) of (n, s) \<Rightarrow> of_nat (n div 2 ^ s))"

section \<open>Reading blocks\<close>

record raw_vin =
  rvi_TxinWitness :: "string list"

record raw_vout =
  rvo_Value :: nat
  rvo_ScriptPubKeyHex :: string

record raw_tx =
  rtx_TxID :: string
  rtx_Vin :: "raw_vin list"
  rtx_Vout :: "raw_vout list"

record raw_block =
  rb_Hash :: string
  rb_PreviousBlockHash :: string
  rb_Height :: uint64
  rb_Tx :: "raw_tx list"

text \<open>A Bitcoin node, with \<open>None\<close> for every failure of a call.\<close>

record btc_node =
  bn_getblockcount :: "uint64 option"
  bn_getblockhash :: "uint64 \<Rightarrow> string option"
  bn_getblock :: "string \<Rightarrow> raw_block option"

definition GetBestBlockHeight :: "btc_node \<Rightarrow> uint64 option" where
  "GetBestBlockHeight c = bn_getblockcount c"

definition parse_vin :: "raw_vin \<Rightarrow> tx_input" where
  "parse_vin vin = \<lparr>in_Witness = map hexToBytes (rvi_TxinWitness vin)\<rparr>"

definition parse_vout :: "raw_vout \<Rightarrow> tx_output" where
  "parse_vout vout = \<lparr>out_Script = hexToBytes (rvo_ScriptPubKeyHex vout), out_Value = value_sats (rvo_Value vout)\<rparr>"

definition parse_raw_tx :: "raw_tx \<Rightarrow> btc_tx" where
  "parse_raw_tx rawTx =
     \<lparr>btx_TxID = BytesToHash256 (hexToBytes (rtx_TxID rawTx)), btx_Inputs = map parse_vin (rtx_Vin rawTx),
      btx_Outputs = map parse_vout (rtx_Vout rawTx)\<rparr>"

definition parse_raw_block :: "raw_block \<Rightarrow> btc_block" where
  "parse_raw_block raw =
     \<lparr>bb_Height = rb_Height raw, bb_Hash = BytesToHash256 (hexToBytes (rb_Hash raw)),
      bb_PrevHash = (if rb_PreviousBlockHash raw \<noteq> [] then BytesToHash256 (hexToBytes (rb_PreviousBlockHash raw)) else ZeroHash),
      bb_Txs = map parse_raw_tx (rb_Tx raw)\<rparr>"

definition GetBlockByHeight :: "btc_node \<Rightarrow> uint64 \<Rightarrow> btc_block option" where
  "GetBlockByHeight c height =
     (case bn_getblockhash c height of
        None \<Rightarrow> None
      | Some blockHash \<Rightarrow> map_option parse_raw_block (bn_getblock c blockHash))"

text \<open>\<open>send\<close> is the method \<open>sendrawtransaction\<close>.\<close>

definition SendRawTransaction :: "(string \<Rightarrow> string option) \<Rightarrow> bytes \<Rightarrow> hash256 option" where
  "SendRawTransaction send raw = map_option (\<lambda>txid. BytesToHash256 (hexToBytes txid)) (send (bytesToHex raw))"

text \<open>One round of the polling loop: the blocks it sends and the height it continues from. The heights
  of Bitcoin stay below the largest 64-bit number, where the counter of the loop would wrap.\<close>

definition fetch_blocks :: "btc_node \<Rightarrow> nat list \<Rightarrow> btc_block list" where
  "fetch_blocks c hs = concat (map (\<lambda>h. case GetBlockByHeight c (of_nat h) of None \<Rightarrow> [] | Some block \<Rightarrow> [block]) hs)"

definition poll_blocks :: "btc_node \<Rightarrow> uint64 \<Rightarrow> btc_block list \<times> uint64" where
  "poll_blocks c lastHeight =
     (case GetBestBlockHeight c of
        None \<Rightarrow> ([], lastHeight)
      | Some height \<Rightarrow>
          if height \<le> lastHeight then ([], lastHeight)
          else (fetch_blocks c [Suc (unat lastHeight)..<Suc (unat height)], height))"

text \<open>The rounds of a subscription, with the state of the node in each.\<close>

primrec SubscribeNewBlocks :: "btc_node list \<Rightarrow> uint64 \<Rightarrow> btc_block list" where
  "SubscribeNewBlocks [] lastHeight = []"
| "SubscribeNewBlocks (c # cs) lastHeight =
     (case poll_blocks c lastHeight of (blocks, lastHeight) \<Rightarrow> blocks @ SubscribeNewBlocks cs lastHeight)"

section \<open>The hexadecimal codec\<close>

lemma hexByte_digit: "hex_digit ch = Some x \<Longrightarrow> hexByte ch = x"
proof -
  assume h: "hex_digit ch = Some x"
  define n where "n = (of_char ch :: nat)"
  have n: "n < 256" by (simp add: n_def)
  have c: "(of_char ch :: byte) = of_nat n" by (simp add: n_def of_char_def)
  have u: "unat (of_nat n :: byte) = n" using n by (simp add: unat_of_nat_small)
  have sub: "(of_nat n :: byte) - of_nat k = of_nat (n - k)" if "k \<le> n" for k using that by simp
  show ?thesis
    using h sub [of 48] sub [of 97] sub [of 65]
    by (auto simp: hex_digit_def hexByte_def Let_def c word_le_nat_alt u n_def [symmetric] split: if_splits)
qed

lemma hexToBytes_pairs:
  "even (length s) \<Longrightarrow> hexToBytes s = map (\<lambda>i. push_bit 4 (hexByte (s ! (i * 2))) OR hexByte (s ! (i * 2 + 1))) [0..<length s div 2]"
  by (simp add: hexToBytes_def even_iff_mod_2_eq_zero)

lemma hexToBytes_Cons:
  assumes "even (length s)"
  shows "hexToBytes (a # b # s) = (push_bit 4 (hexByte a) OR hexByte b) # hexToBytes s"
proof -
  have "[0..<length (a # b # s) div 2] = 0 # map Suc [0..<length s div 2]" by (simp add: map_Suc_upt upt_conv_Cons)
  then show ?thesis using assms by (simp add: hexToBytes_pairs comp_def)
qed

text \<open>On well-formed text the lenient decoder agrees with the one of the standard library.\<close>

lemma hexToBytes_Decode: "hex_Decode s = Some b \<Longrightarrow> even (length s) \<and> hexToBytes s = b"
proof (induction s arbitrary: b rule: hex_Decode.induct)
  case (3 x y s)
  then show ?case by (auto simp: hexToBytes_Cons hexByte_digit split: option.splits)
qed (simp_all add: hexToBytes_def)

lemma hextable_nth: "n < 16 \<Longrightarrow> hextable ! n = hex_char (of_nat n)"
proof -
  assume "n < 16"
  moreover have "\<forall>n\<in>set [0..<16]. hextable ! n = hex_char (of_nat n)" by code_simp
  ultimately show ?thesis by simp
qed

lemma bytesToHex_eq: "bytesToHex b = hex_EncodeToString b"
proof -
  have "hextable ! unat n = hex_char n" if "n < 16" for n :: byte
    using hextable_nth [of "unat n"] that by (simp add: word_less_nat_alt)
  then show ?thesis using nibbles(2,3) by (simp add: bytesToHex_def hex_EncodeToString_def)
qed

lemma hexToBytes_Encode [simp]: "hexToBytes (hex_EncodeToString b) = b"
  using hexToBytes_Decode [OF hex_roundtrip] by simp

section \<open>The error of the amounts\<close>

lemma round_even_error:
  assumes "0 < d"
  shows "2 * (round_even n d * d) \<le> 2 * n + d" "2 * n \<le> 2 * (round_even n d * d) + d"
proof -
  have n: "n = n div d * d + n mod d" by simp
  have r: "n mod d < d" using assms by simp
  define q where "q = n div d * d"
  have q: "round_even n d * d = (if 2 * (n mod d) < d \<or> 2 * (n mod d) = d \<and> even (n div d) then q else q + d)"
    by (simp add: round_even_def q_def Let_def)
  show "2 * (round_even n d * d) \<le> 2 * n + d" "2 * n \<le> 2 * (round_even n d * d) + d"
    using n r unfolding q q_def [symmetric] by auto
qed

lemma round_even_ge:
  assumes "b * d \<le> n" and "0 < d"
  shows "b \<le> round_even n d"
proof -
  have "b \<le> n div d" using assms by (simp add: less_eq_div_iff_mult_less_eq)
  then show ?thesis by (simp add: round_even_def Let_def)
qed

lemma floorlog_bits:
  assumes "0 < n"
  shows "2 ^ (floorlog 2 n - 1) \<le> n" "n < 2 ^ floorlog 2 n" "0 < floorlog 2 n"
proof -
  show "2 ^ (floorlog 2 n - 1) \<le> n" "n < 2 ^ floorlog 2 n" using floorlog_bounds [OF assms, of 2] by simp_all
  show "0 < floorlog 2 n" using assms by (simp add: floorlog_def)
qed

text \<open>The quotient has 53 bits, so its error is at most half of its last one.\<close>

lemma float64_quotient_bits:
  assumes "0 < n" and "0 < d" and "floorlog 2 n < 53 + floorlog 2 d" and "float64_quotient n d = (m, s)"
  shows "2 ^ 52 \<le> m" "2 * (m * d) \<le> 2 * (n * 2 ^ s) + d" "2 * (n * 2 ^ s) \<le> 2 * (m * d) + d"
proof -
  define s0 where "s0 = 53 + floorlog 2 d - floorlog 2 n"
  have s: "s = (if n * 2 ^ s0 \<ge> 2 ^ 53 * d then s0 - 1 else s0)" and m: "m = round_even (n * 2 ^ s) d"
    using assms(4) by (auto simp: float64_quotient_def Let_def s0_def)
  have pos: "0 < s0" using assms(3) by (simp add: s0_def)
  have "2 ^ 52 * d \<le> n * 2 ^ s"
  proof (cases "n * 2 ^ s0 \<ge> 2 ^ 53 * d")
    case True
    have "n * 2 ^ s0 = 2 * (n * 2 ^ s)" using True pos s by (cases s0) simp_all
    moreover have "(2 :: nat) ^ 53 * d = 2 * (2 ^ 52 * d)" by simp
    ultimately show ?thesis using True by linarith
  next
    case False
    have "2 ^ 52 * d \<le> 2 ^ 52 * 2 ^ floorlog 2 d" using floorlog_bits(2) [OF assms(2)] by simp
    also have "\<dots> = 2 ^ (floorlog 2 n - 1 + s0)"
      unfolding power_add [symmetric] using assms(3) floorlog_bits(3) [OF assms(1)] by (simp add: s0_def)
    also have "\<dots> \<le> n * 2 ^ s0" using floorlog_bits(1) [OF assms(1)] by (simp add: power_add)
    finally show ?thesis using False s by simp
  qed
  from round_even_ge [OF this assms(2)] show "2 ^ 52 \<le> m" by (simp add: m)
  show "2 * (m * d) \<le> 2 * (n * 2 ^ s) + d" "2 * (n * 2 ^ s) \<le> 2 * (m * d) + d"
    using round_even_error [OF assms(2), of "n * 2 ^ s"] by (simp_all add: m)
qed

lemma last_bit:
  fixes p q t :: nat
  assumes "2 ^ 52 * t \<le> p"
  shows "2 * q \<le> 2 * p + t \<Longrightarrow> 2 ^ 52 * (2 * q) \<le> 2 ^ 52 * (2 * p) + p"
    and "2 * p \<le> 2 * q + t \<Longrightarrow> 2 ^ 52 * (2 * p) \<le> 2 ^ 52 * (2 * q) + p"
  using assms by simp_all

lemma float64_times_error:
  assumes "float64_times (m, s) c = (q, s')" and "2 ^ 52 \<le> m * c"
  shows "s' = s" "2 ^ 52 * (2 * q) \<le> 2 ^ 52 * (2 * (m * c)) + m * c" "2 ^ 52 * (2 * (m * c)) \<le> 2 ^ 52 * (2 * q) + m * c"
proof -
  let ?p = "m * c" and ?t = "floorlog 2 (m * c) - 53"
  have q: "q = round_even ?p (2 ^ ?t) * 2 ^ ?t" "s' = s" using assms(1) by (simp_all add: float64_times_def Let_def)
  have p: "0 < ?p" using assms(2) by (rule order.strict_trans2 [rotated]) simp
  have "2 ^ 52 * 2 ^ ?t \<le> ?p"
  proof (cases "53 \<le> floorlog 2 ?p")
    case True
    have "(2 :: nat) ^ 52 * 2 ^ ?t = 2 ^ (floorlog 2 ?p - 1)" unfolding power_add [symmetric] using True by simp
    then show ?thesis using floorlog_bits(1) [OF p] by simp
  qed (use assms(2) in simp)
  moreover have "2 * q \<le> 2 * ?p + 2 ^ ?t" "2 * ?p \<le> 2 * q + 2 ^ ?t"
    using round_even_error [of "2 ^ ?t" ?p] by (simp_all add: q)
  ultimately show "s' = s" "2 ^ 52 * (2 * q) \<le> 2 ^ 52 * (2 * ?p) + ?p" "2 ^ 52 * (2 * ?p) \<le> 2 ^ 52 * (2 * q) + ?p"
    using q(2) last_bit [of "2 ^ ?t" ?p q] by blast+
qed

text \<open>Both roundings together move an amount by less than one satoshi.\<close>

lemma scaled_error:
  fixes n p q P D :: nat
  assumes "2 ^ 52 * D \<le> p" and "2 * p \<le> 2 * n + D" and "2 * n \<le> 2 * p + D"
    and "2 ^ 52 * (2 * q) \<le> 2 ^ 52 * (2 * p) + p" and "2 ^ 52 * (2 * p) \<le> 2 ^ 52 * (2 * q) + p"
    and "n \<le> (2 ^ 51 - 1) * P" and "P \<le> n" and "0 < P"
  shows "n < q + P" "q < n + P"
  using assms by simp_all

lemma value_sats_error:
  assumes "0 < k" and "k < 2 ^ 51"
  shows "value_sats k = of_nat k \<or> value_sats k = of_nat (k - 1)"
proof -
  obtain m s where m: "float64_quotient k (10 ^ 8) = (m, s)" by fastforce
  obtain q s' where q: "float64_times (m, s) (10 ^ 8) = (q, s')" by fastforce
  have d: "floorlog 2 (10 ^ 8 :: nat) = 27" by (simp add: compute_floorlog)
  have "floorlog 2 k \<le> 51" using assms(2) by (simp add: floorlog_le_iff)
  then have b: "2 ^ 52 \<le> m" "2 * (m * 10 ^ 8) \<le> 2 * (k * 2 ^ s) + 10 ^ 8" "2 * (k * 2 ^ s) \<le> 2 * (m * 10 ^ 8) + 10 ^ 8"
    using float64_quotient_bits [OF assms(1) _ _ m] d by simp_all
  have mc: "2 ^ 52 * 10 ^ 8 \<le> m * 10 ^ 8" using b(1) by (intro mult_right_mono) simp_all
  then have "2 ^ 52 \<le> m * 10 ^ 8" by (rule order_trans [rotated]) simp
  note e = float64_times_error [OF q this]
  have "k * 2 ^ s < q + 2 ^ s" "q < k * 2 ^ s + 2 ^ s"
  proof -
    have "k * 2 ^ s \<le> (2 ^ 51 - 1) * 2 ^ s" using assms(2) by (intro mult_right_mono) simp_all
    moreover have "2 ^ s \<le> k * 2 ^ s" using assms(1) by simp
    ultimately show "k * 2 ^ s < q + 2 ^ s" "q < k * 2 ^ s + 2 ^ s"
      by (intro scaled_error [OF mc b(2,3) e(2,3)]; simp)+
  qed
  moreover have "q < (q div 2 ^ s + 1) * 2 ^ s" by (simp add: dividend_less_div_times)
  ultimately have "k * 2 ^ s < (q div 2 ^ s + 2) * 2 ^ s" "q < (k + 1) * 2 ^ s" by simp_all
  then have "k < q div 2 ^ s + 2" "q div 2 ^ s < k + 1"
    unfolding mult_less_cancel2 by (simp_all add: div_less_iff_less_mult)
  then have "q div 2 ^ s = k \<or> q div 2 ^ s = k - 1" by linarith
  then show ?thesis using assms(1) m q e(1) by (auto simp: value_sats_def)
qed

lemma value_sats_samples: "value_sats 29000000 = 28999999" "value_sats 10000000 = 10000000"
proof -
  have "floorlog 2 (10 ^ 8) = 27" "floorlog 2 29000000 = 25" "floorlog 2 10000000 = 24"
    "floorlog 2 522417556774977500000000 = 79" "floorlog 2 720575940379279400000000 = 80"
    by (simp_all add: compute_floorlog)
  note log = this
  have "float64_quotient 29000000 (10 ^ 8) = (5224175567749775, 54)" "float64_quotient 10000000 (10 ^ 8) = (7205759403792794, 56)"
    unfolding float64_quotient_def log by (simp_all add: round_even_def)
  moreover have "float64_times (5224175567749775, 54) (10 ^ 8) = (522417556774977468891136, 54)"
    "float64_times (7205759403792794, 56) (10 ^ 8) = (720575940379279360000000, 56)"
    using log(4,5) by (simp_all add: float64_times_def round_even_def)
  ultimately show "value_sats 29000000 = 28999999" "value_sats 10000000 = 10000000" by (simp_all add: value_sats_def)
qed

section \<open>What the scanner sees\<close>

text \<open>The reply of a Bitcoin node for a block.\<close>

definition raw_of_tx :: "btc_tx \<Rightarrow> raw_tx" where
  "raw_of_tx t =
     \<lparr>rtx_TxID = Hash256_Hex (btx_TxID t),
      rtx_Vin = map (\<lambda>i. \<lparr>rvi_TxinWitness = map hex_EncodeToString (in_Witness i)\<rparr>) (btx_Inputs t),
      rtx_Vout = map (\<lambda>out. \<lparr>rvo_Value = unat (out_Value out), rvo_ScriptPubKeyHex = hex_EncodeToString (out_Script out)\<rparr>)
        (btx_Outputs t)\<rparr>"

definition raw_of_block :: "btc_block \<Rightarrow> raw_block" where
  "raw_of_block b =
     \<lparr>rb_Hash = Hash256_Hex (bb_Hash b),
      rb_PreviousBlockHash = (if bb_PrevHash b = ZeroHash then [] else Hash256_Hex (bb_PrevHash b)),
      rb_Height = bb_Height b, rb_Tx = map raw_of_tx (bb_Txs b)\<rparr>"

text \<open>A block with its amounts converted.\<close>

definition read_amounts :: "btc_tx \<Rightarrow> btc_tx" where
  "read_amounts t = t\<lparr>btx_Outputs := map (\<lambda>out. out\<lparr>out_Value := value_sats (unat (out_Value out))\<rparr>) (btx_Outputs t)\<rparr>"

lemma parse_raw_of_tx: "parse_raw_tx (raw_of_tx t) = read_amounts t"
proof -
  have "map (\<lambda>i. \<lparr>in_Witness = in_Witness i\<rparr>) is = is" for "is" by (rule map_idI) simp
  moreover have "\<lparr>out_Script = out_Script out, out_Value = v\<rparr> = out\<lparr>out_Value := v\<rparr>" for out v by simp
  ultimately show ?thesis
    by (cases t) (simp add: parse_raw_tx_def raw_of_tx_def read_amounts_def parse_vin_def parse_vout_def Hash256_Hex_def comp_def)
qed

lemma Hash256_Hex_nonempty: "Hash256_Hex h \<noteq> []"
proof
  assume "Hash256_Hex h = []"
  then have "hash_bytes h = []" using hex_roundtrip [of "hash_bytes h"] by (simp add: Hash256_Hex_def)
  then show False by (metis length_hash_bytes list.size(3) zero_neq_numeral)
qed

lemma parse_raw_of_block: "parse_raw_block (raw_of_block b) = b\<lparr>bb_Txs := map read_amounts (bb_Txs b)\<rparr>"
  by (simp add: parse_raw_block_def raw_of_block_def parse_raw_of_tx Hash256_Hex_nonempty comp_def Hash256_Hex_def [symmetric])
    (simp add: Hash256_Hex_def)

lemma fetched_block:
  assumes "bn_getblockhash c h = Some s" and "bn_getblock c s = Some (raw_of_block b)"
  shows "GetBlockByHeight c h = Some (b\<lparr>bb_Txs := map read_amounts (bb_Txs b)\<rparr>)"
  using assms by (simp add: GetBlockByHeight_def parse_raw_of_block)

lemma amount_error:
  assumes "unat v < 2 ^ 51"
  shows "value_sats (unat v) \<in> {v, v - 1} \<and> value_sats (unat v) \<le> v"
proof (cases "v = 0")
  case False
  then have "0 < unat v" by (simp add: unat_gt_0)
  moreover from this have "(of_nat (unat v - 1) :: uint64) = v - 1" by simp
  moreover have "v - 1 \<le> v" using False by (simp add: word_le_nat_alt unat_minus_one)
  ultimately show ?thesis using value_sats_error [of "unat v"] assms by auto
qed (simp add: value_sats_def)

text \<open>C33: the block that the scanner gets is the block of the Bitcoin node: the same height, hashes, transaction
  identifiers, witnesses and scripts, in the same order; only the amount of an output may be one satoshi
  less than it is, and never more, so that no deposit is credited with more than was burned.\<close>

theorem block_read_back:
  assumes "bn_getblockhash c h = Some s" and "bn_getblock c s = Some (raw_of_block b)"
    and "\<forall>t\<in>set (bb_Txs b). \<forall>out\<in>set (btx_Outputs t). unat (out_Value out) < 2 ^ 51"
  shows "\<exists>b'. GetBlockByHeight c h = Some b' \<and> bb_Height b' = bb_Height b \<and> bb_Hash b' = bb_Hash b \<and> bb_PrevHash b' = bb_PrevHash b \<and>
    list_all2 (\<lambda>t' t. btx_TxID t' = btx_TxID t \<and> btx_Inputs t' = btx_Inputs t \<and>
      list_all2 (\<lambda>o' out. out_Script o' = out_Script out \<and> out_Value o' \<in> {out_Value out, out_Value out - 1} \<and>
        out_Value o' \<le> out_Value out) (btx_Outputs t') (btx_Outputs t)) (bb_Txs b') (bb_Txs b)"
proof -
  have outs: "list_all2 (\<lambda>o' out. out_Script o' = out_Script out \<and> out_Value o' \<in> {out_Value out, out_Value out - 1} \<and>
      out_Value o' \<le> out_Value out) (btx_Outputs (read_amounts t)) (btx_Outputs t)" if "t \<in> set (bb_Txs b)" for t
  proof -
    have "unat (out_Value out) < 2 ^ 51" if "out \<in> set (btx_Outputs t)" for out using assms(3) \<open>t \<in> _\<close> that by blast
    from amount_error [OF this] show ?thesis by (auto simp: read_amounts_def list_all2_conv_all_nth)
  qed
  show ?thesis unfolding fetched_block [OF assms(1,2)] using outs
    by (simp add: list_all2_conv_all_nth) (simp add: read_amounts_def)
qed

section \<open>Following the chain\<close>

lemma fetch_all:
  "\<forall>h\<in>set hs. GetBlockByHeight c (of_nat h) = Some (chain h) \<Longrightarrow> fetch_blocks c hs = map chain hs"
  by (induction hs) (simp_all add: fetch_blocks_def)

text \<open>A subscription delivers the chain: as long as the Bitcoin node answers every request for a block up to its
  current height from the same chain, the blocks after the starting height arrive in order, each exactly
  once, up to the greatest height the node has reported; rounds without an answer or without progress
  change nothing.\<close>

theorem subscription_in_order:
  assumes "\<forall>c\<in>set cs. \<forall>n. bn_getblockcount c = Some n \<longrightarrow> (\<forall>h \<le> unat n. GetBlockByHeight c (of_nat h) = Some (chain h))"
  shows "SubscribeNewBlocks cs lastHeight =
    map chain [Suc (unat lastHeight)..<Suc (fold max (map (\<lambda>c. case bn_getblockcount c of None \<Rightarrow> 0 | Some n \<Rightarrow> unat n) cs) (unat lastHeight))]"
  using assms
proof (induction cs arbitrary: lastHeight)
  case (Cons c cs)
  let ?m = "\<lambda>k. fold max (map (\<lambda>c. case bn_getblockcount c of None \<Rightarrow> 0 | Some n \<Rightarrow> unat n) cs) k"
  have ge: "k \<le> fold max ns k" for ns and k :: nat
    by (induction ns arbitrary: k) (simp, metis fold_simps(2) max.cobounded2 order_trans)
  have IH: "SubscribeNewBlocks cs l = map chain [Suc (unat l)..<Suc (?m (unat l))]" for l using Cons by simp
  show ?case
  proof (cases "bn_getblockcount c")
    case (Some n)
    have get: "\<forall>h \<le> unat n. GetBlockByHeight c (of_nat h) = Some (chain h)" using Cons.prems Some by simp
    show ?thesis
    proof (cases "n \<le> lastHeight")
      case False
      then have lt: "unat lastHeight < unat n" by (simp add: word_le_nat_alt)
      have "fetch_blocks c [Suc (unat lastHeight)..<Suc (unat n)] = map chain [Suc (unat lastHeight)..<Suc (unat n)]"
        using get by (intro fetch_all) auto
      moreover have "[Suc (unat lastHeight)..<Suc (?m (unat n))] = [Suc (unat lastHeight)..<Suc (unat n)] @ [Suc (unat n)..<Suc (?m (unat n))]"
        using lt ge [of "unat n"] upt_add_eq_append [of "Suc (unat lastHeight)" "Suc (unat n)" "?m (unat n) - unat n"] by simp
      moreover have "max (unat n) (unat lastHeight) = unat n" using lt by simp
      ultimately show ?thesis using False IH [of n] Some
        by (simp add: poll_blocks_def GetBestBlockHeight_def del: upt_Suc)
    qed (use IH Some in \<open>simp add: poll_blocks_def GetBestBlockHeight_def word_le_nat_alt max.absorb2\<close>)
  qed (use IH in \<open>simp add: poll_blocks_def GetBestBlockHeight_def\<close>)
qed simp

text \<open>A block whose fetch fails while a later one is reported is not delivered, in this round or any
  other: the next rounds ask only for the heights above the reported one.\<close>

lemma in_fetch_blocks: "b \<in> set (fetch_blocks c hs) \<longleftrightarrow> (\<exists>h\<in>set hs. GetBlockByHeight c (of_nat h) = Some b)"
  by (induction hs) (auto simp: fetch_blocks_def split: option.splits)

lemma delivered_above: "b \<in> set (SubscribeNewBlocks cs l) \<Longrightarrow> \<exists>c\<in>set cs. \<exists>h. unat l < h \<and> GetBlockByHeight c (of_nat h) = Some b"
proof (induction cs arbitrary: l)
  case (Cons c cs)
  obtain blocks l' where p: "poll_blocks c l = (blocks, l')" by fastforce
  then have "unat l \<le> unat l'"
    by (auto simp: poll_blocks_def word_le_nat_alt split: option.splits if_splits)
  moreover have "\<exists>h. unat l < h \<and> GetBlockByHeight c (of_nat h) = Some b" if "b \<in> set blocks"
  proof -
    have "b \<in> set (fetch_blocks c [Suc (unat l)..<Suc (unat l')])"
      using p that by (auto simp: poll_blocks_def simp del: upt_Suc split: option.splits if_splits)
    then obtain h where "h \<in> set [Suc (unat l)..<Suc (unat l')]" "GetBlockByHeight c (of_nat h) = Some b"
      unfolding in_fetch_blocks by blast
    then show ?thesis by (intro exI [of _ h]) auto
  qed
  ultimately show ?case using Cons.IH [of l'] Cons.prems p by (force dest: order.strict_trans1)
qed simp

theorem failed_fetch_lost:
  assumes "bn_getblockcount c = Some n" and "unat l < k" and "k \<le> unat n" and "GetBlockByHeight c (of_nat k) = None"
    and "\<forall>d\<in>set (c # cs). \<forall>h b. GetBlockByHeight d (of_nat h) = Some b \<longrightarrow> unat (bb_Height b) = h"
  shows "\<forall>b\<in>set (SubscribeNewBlocks (c # cs) l). unat (bb_Height b) \<noteq> k"
proof
  fix b assume b: "b \<in> set (SubscribeNewBlocks (c # cs) l)"
  have p: "poll_blocks c l = (fetch_blocks c [Suc (unat l)..<Suc (unat n)], n)"
    using assms(1-3) by (auto simp: poll_blocks_def GetBestBlockHeight_def word_le_nat_alt)
  have "unat (bb_Height b) \<noteq> k" if "b \<in> set (SubscribeNewBlocks cs n)"
    using delivered_above [OF that] assms(3,5) by fastforce
  moreover have "unat (bb_Height b) \<noteq> k" if f: "b \<in> set (fetch_blocks c [Suc (unat l)..<Suc (unat n)])"
  proof -
    obtain h where h: "GetBlockByHeight c (of_nat h) = Some b" using f unfolding in_fetch_blocks by blast
    then have "h \<noteq> k" using assms(4) by auto
    then show ?thesis using assms(5) h by auto
  qed
  ultimately show "unat (bb_Height b) \<noteq> k" using b p by auto
qed

section \<open>Samples\<close>

definition sample_block :: "nat \<Rightarrow> btc_block" where
  "sample_block h =
     \<lparr>bb_Height = of_nat h, bb_Hash = 5, bb_PrevHash = 4, bb_Txs = [\<lparr>btx_TxID = 6, btx_Inputs = [\<lparr>in_Witness = [[1, 2]]\<rparr>],
      btx_Outputs = [\<lparr>out_Script = [0x6a, 1, 7], out_Value = 29000000\<rparr>]\<rparr>]\<rparr>"

definition sample_node :: "nat \<Rightarrow> btc_node" where
  "sample_node n =
     \<lparr>bn_getblockcount = Some (of_nat n), bn_getblockhash = (\<lambda>h. if unat h \<le> n then Some (replicate (unat h) CHR ''0'') else None),
      bn_getblock = (\<lambda>s. Some (raw_of_block (sample_block (length s))))\<rparr>"

theorem block_read_back_witness:
  "(\<exists>b'. GetBlockByHeight (sample_node 3) 2 = Some b' \<and> bb_Hash b' = 5) \<and>
   out_Value (hd (btx_Outputs (hd (bb_Txs (the (GetBlockByHeight (sample_node 3) 2)))))) = 28999999"
proof
  have h: "bn_getblockhash (sample_node 3) 2 = Some (replicate 2 CHR ''0'')" by (simp add: sample_node_def)
  have b: "bn_getblock (sample_node 3) (replicate 2 CHR ''0'') = Some (raw_of_block (sample_block 2))" by (simp add: sample_node_def)
  show "\<exists>b'. GetBlockByHeight (sample_node 3) 2 = Some b' \<and> bb_Hash b' = 5"
    using block_read_back [OF h b] by (auto simp: sample_block_def)
  show "out_Value (hd (btx_Outputs (hd (bb_Txs (the (GetBlockByHeight (sample_node 3) 2)))))) = 28999999"
    unfolding fetched_block [OF h b] by (simp add: sample_block_def read_amounts_def value_sats_samples)
qed

theorem subscription_in_order_witness:
  "map bb_Height (SubscribeNewBlocks [sample_node 2, sample_node 1, sample_node 4] 1) = [2, 3, 4]"
proof -
  have "\<forall>c\<in>set [sample_node 2, sample_node 1, sample_node 4]. \<forall>n. bn_getblockcount c = Some n \<longrightarrow>
      (\<forall>h \<le> unat n. GetBlockByHeight c (of_nat h) = Some (sample_block h\<lparr>bb_Txs := map read_amounts (bb_Txs (sample_block h))\<rparr>))"
  proof -
    have "GetBlockByHeight (sample_node k) (of_nat h) = Some (sample_block h\<lparr>bb_Txs := map read_amounts (bb_Txs (sample_block h))\<rparr>)"
      if "h \<le> k" "k < 2 ^ 64" for h k
    proof (rule fetched_block)
      have u: "unat (of_nat h :: uint64) = h" using that by (simp add: unat_of_nat_small)
      show "bn_getblockhash (sample_node k) (of_nat h) = Some (replicate h CHR ''0'')" using that u by (simp add: sample_node_def)
      show "bn_getblock (sample_node k) (replicate h CHR ''0'') = Some (raw_of_block (sample_block h))" by (simp add: sample_node_def)
    qed
    moreover have "bn_getblockcount (sample_node k) = Some (of_nat k)" for k by (simp add: sample_node_def)
    ultimately show ?thesis by simp
  qed
  from subscription_in_order [OF this, of 1] show ?thesis
    by (simp add: sample_node_def sample_block_def upt_rec)
qed

end
