(* ===== verification/Tyl_Embed.thy ===== *)
theory Tyl_Embed
  imports Tyl_Client
begin

text \<open>
  Publishing an envelope on Bitcoin: \<open>EmbedEnvelope\<close> of \<open>pkg/bitcoin/embed.go\<close>, which the daemons use, and its
  two siblings, \<open>push\<close> of \<open>cmd/tylcli/push.go\<close> and \<open>pushEnvelope\<close> of \<open>cmd/tylpush/main.go\<close>. Funding, signing,
  broadcasting and decoding are done by the wallet of a Bitcoin node, the record \<open>wallet\<close> over the state
  \<open>'w\<close> of that node; a failure of a call is \<open>None\<close>, and so is a reply without the expected fields.

  The theory shows that what is broadcast last is a Bitcoin transaction in which the scanner finds the
  envelope.
\<close>

section \<open>The wallet\<close>

text \<open>\<open>wl_decode\<close> gives the script (in hexadecimal) and the index of each output.\<close>

record 'w wallet =
  wl_fund :: "'w \<Rightarrow> string \<Rightarrow> string option"
  wl_sign :: "'w \<Rightarrow> string \<Rightarrow> string option"
  wl_send :: "'w \<Rightarrow> string \<Rightarrow> string option \<times> 'w"
  wl_decode :: "'w \<Rightarrow> string \<Rightarrow> (string \<times> nat) list option"

datatype embed_error = FundTx | SignTx | SendTx | TaprootOutput | DecodeTxError | OutputNotFound | SendSpendingTx | InvalidEnvelopeHex

type_synonym 'w embedded = "(embed_error + string) \<times> 'w"

fun find_script :: "string \<Rightarrow> (string \<times> nat) list \<Rightarrow> nat option" where
  "find_script wantHex [] = None"
| "find_script wantHex ((spk, n) # vouts) = (if spk = wantHex then Some n else find_script wantHex vouts)"

definition findP2WSHOutput :: "'w wallet \<Rightarrow> 'w \<Rightarrow> string \<Rightarrow> bytes \<Rightarrow> embed_error + nat" where
  "findP2WSHOutput c w txHex wantScript =
     (case wl_decode c w txHex of
        None \<Rightarrow> Inl DecodeTxError
      | Some vouts \<Rightarrow>
          (case find_script (hex_EncodeToString wantScript) vouts of None \<Rightarrow> Inl OutputNotFound | Some n \<Rightarrow> Inr n))"

text \<open>Fund, sign and broadcast a raw transaction: its identifier with the signed text.\<close>

definition fund_sign_send :: "'w wallet \<Rightarrow> 'w \<Rightarrow> bytes \<Rightarrow> (embed_error + string \<times> string) \<times> 'w" where
  "fund_sign_send c w raw =
     (case wl_fund c w (hex_EncodeToString raw) of
        None \<Rightarrow> (Inl FundTx, w)
      | Some fundedHex \<Rightarrow>
          (case wl_sign c w fundedHex of
             None \<Rightarrow> (Inl SignTx, w)
           | Some signedHex \<Rightarrow>
               (case wl_send c w signedHex of
                  (None, w) \<Rightarrow> (Inl SendTx, w)
                | (Some txid, w) \<Rightarrow> (Inr (txid, signedHex), w))))"

section \<open>pkg/bitcoin\<close>

definition embedOpReturn :: "'w wallet \<Rightarrow> 'w \<Rightarrow> bytes \<Rightarrow> 'w embedded" where
  "embedOpReturn c w envelope =
     (let script = buildOpReturnScript envelope; raw = buildOpReturnTx script
      in case fund_sign_send c w raw of
           (Inl e, w) \<Rightarrow> (Inl e, w)
         | (Inr (txid, signedHex), w) \<Rightarrow> (Inr txid, w))"

text \<open>The second transaction, given the identifier and text of the first.\<close>

definition send_spending :: "'w wallet \<Rightarrow> 'w \<Rightarrow> string \<Rightarrow> bytes \<Rightarrow> (uint32 \<Rightarrow> bytes) \<Rightarrow> 'w embedded" where
  "send_spending c w signedHex wantScript spending =
     (case findP2WSHOutput c w signedHex wantScript of
        Inl e \<Rightarrow> (Inl e, w)
      | Inr vout \<Rightarrow>
          (case wl_send c w (hex_EncodeToString (spending (of_nat vout))) of
             (None, w) \<Rightarrow> (Inl SendSpendingTx, w)
           | (Some txid, w) \<Rightarrow> (Inr txid, w)))"

definition embedWitness ::
  "(bytes \<Rightarrow> hash256) \<Rightarrow> (bytes \<Rightarrow> hash256 \<Rightarrow> bytes option) \<Rightarrow> 'w wallet \<Rightarrow> 'w \<Rightarrow> bytes \<Rightarrow> 'w embedded" where
  "embedWitness sha tweak_key c w envelope =
     (let chunks = splitEnvelope envelope; tapScript = buildWitnessScript (length chunks)
      in case ComputeTaprootOutput sha tweak_key tapScript of
           None \<Rightarrow> (Inl TaprootOutput, w)
         | Some (p2trScript, controlBlock) \<Rightarrow>
             let embedSats = spendingTxFee chunks controlBlock tapScript;
                 fundingTxRaw = buildFundingTx p2trScript embedSats
             in case fund_sign_send c w fundingTxRaw of
                  (Inl e, w) \<Rightarrow> (Inl e, w)
                | (Inr (fundingTxid, signedHex), w) \<Rightarrow>
                    send_spending c w signedHex p2trScript
                      (\<lambda>vout. buildTaprootSpendingTx fundingTxid vout chunks tapScript controlBlock))"

definition EmbedEnvelope ::
  "(bytes \<Rightarrow> hash256) \<Rightarrow> (bytes \<Rightarrow> hash256 \<Rightarrow> bytes option) \<Rightarrow> 'w wallet \<Rightarrow> 'w \<Rightarrow> bytes \<Rightarrow> 'w embedded" where
  "EmbedEnvelope sha tweak_key c w envelope =
     (if length envelope \<le> opReturnMaxData then embedOpReturn c w envelope
      else embedWitness sha tweak_key c w envelope)"

section \<open>tylcli\<close>

definition buildOpReturnTxWithValue :: "bytes \<Rightarrow> uint64 \<Rightarrow> bytes" where
  "buildOpReturnTxWithValue scriptPubKey sats =
     le_bytes 4 (2 :: uint32) @ [0x00] @ [0x01] @ le_bytes 8 sats @
     writeVarInt (of_nat (length scriptPubKey)) @ scriptPubKey @ le_bytes 4 (0 :: uint32)"

definition cli_embedOpReturn :: "'w wallet \<Rightarrow> 'w \<Rightarrow> bytes \<Rightarrow> uint64 \<Rightarrow> 'w embedded" where
  "cli_embedOpReturn c w envelope burnSats =
     (let script = buildOpReturnScript envelope; raw = buildOpReturnTxWithValue script burnSats
      in case fund_sign_send c w raw of
           (Inl e, w) \<Rightarrow> (Inl e, w)
         | (Inr (l1txid, signedHex), w) \<Rightarrow> (Inr l1txid, w))"

function splitChunks :: "bytes \<Rightarrow> bytes list" where
  "splitChunks data =
     (if length data > 0 then
        let end = (if maxTapscriptStackItem > length data then length data else maxTapscriptStackItem)
        in take end data # splitChunks (drop end data)
      else [])"
  by pat_completeness auto
termination by (relation "measure length") (auto simp: maxTapscriptStackItem_def)

declare splitChunks.simps [simp del]

definition makeWitnessScript :: "nat \<Rightarrow> bytes" where
  "makeWitnessScript numChunks = replicate numChunks 0x75 @ [0x51]"

definition buildTaprootSpendTx :: "string \<Rightarrow> uint32 \<Rightarrow> bytes list \<Rightarrow> bytes \<Rightarrow> bytes \<Rightarrow> bytes" where
  "buildTaprootSpendTx fundingTxid vout chunks tapScript controlBlock =
     (let prevHash = reverseTxid fundingTxid;
          witnessItems = length chunks + 2
      in le_bytes 4 (2 :: uint32) @ [0x00, 0x01] @ [0x01] @
         prevHash @ le_bytes 4 vout @ [0x00] @ le_bytes 4 (0xffffffff :: uint32) @
         [0x01] @ le_bytes 8 (0 :: uint64) @ [22] @ [0x6a] @ [0x14] @ replicate 20 0 @
         [of_nat witnessItems] @ concat (map write_item chunks) @
         write_item tapScript @ write_item controlBlock @
         le_bytes 4 (0 :: uint32))"

definition cli_embedWitness ::
  "(bytes \<Rightarrow> hash256) \<Rightarrow> (bytes \<Rightarrow> hash256 \<Rightarrow> bytes option) \<Rightarrow> 'w wallet \<Rightarrow> 'w \<Rightarrow> bytes \<Rightarrow> 'w embedded" where
  "cli_embedWitness sha tweak_key c w envelope =
     (let chunks = splitChunks envelope; tapScript = makeWitnessScript (length chunks)
      in case ComputeTaprootOutput sha tweak_key tapScript of
           None \<Rightarrow> (Inl TaprootOutput, w)
         | Some (p2trScript, controlBlock) \<Rightarrow>
             let embedSats = 546; fundingRaw = buildFundingTx p2trScript embedSats
             in case fund_sign_send c w fundingRaw of
                  (Inl e, w) \<Rightarrow> (Inl e, w)
                | (Inr (fundingTxid, signedHex), w) \<Rightarrow>
                    send_spending c w signedHex p2trScript
                      (\<lambda>vout. buildTaprootSpendTx fundingTxid vout chunks tapScript controlBlock))"

definition push ::
  "(bytes \<Rightarrow> hash256) \<Rightarrow> (bytes \<Rightarrow> hash256 \<Rightarrow> bytes option) \<Rightarrow> 'w wallet \<Rightarrow> 'w \<Rightarrow> bytes \<Rightarrow> uint64 \<Rightarrow> 'w embedded" where
  "push sha tweak_key c w envelope burnSats =
     (if length envelope \<le> opReturnMaxData then cli_embedOpReturn c w envelope burnSats
      else cli_embedWitness sha tweak_key c w envelope)"

section \<open>tylpush\<close>

definition maxPushSize :: nat where "maxPushSize = 520"

function push_splitEnvelope :: "bytes \<Rightarrow> bytes list" where
  "push_splitEnvelope envelope =
     (if length envelope > 0 then
        let end = (if maxPushSize > length envelope then length envelope else maxPushSize)
        in take end envelope # push_splitEnvelope (drop end envelope)
      else [])"
  by pat_completeness auto
termination by (relation "measure length") (auto simp: maxPushSize_def)

declare push_splitEnvelope.simps [simp del]

definition buildSpendingTx :: "string \<Rightarrow> uint32 \<Rightarrow> bytes list \<Rightarrow> bytes \<Rightarrow> bytes" where
  "buildSpendingTx fundingTxid vout chunks witnessScript =
     (let prevHash = reverseTxid fundingTxid
      in le_bytes 4 (2 :: uint32) @ [0x00, 0x01] @ [0x01] @
         prevHash @ le_bytes 4 vout @ [0x00] @ le_bytes 4 (0xffffffff :: uint32) @
         [0x01] @ le_bytes 8 (0 :: uint64) @ [22] @ [0x6a] @ [0x14] @ replicate 20 0 @
         [of_nat (length chunks + 1)] @ concat (map write_item chunks) @
         write_item witnessScript @
         le_bytes 4 (0 :: uint32))"

definition push_embedWitness :: "(bytes \<Rightarrow> hash256) \<Rightarrow> 'w wallet \<Rightarrow> 'w \<Rightarrow> bytes \<Rightarrow> 'w embedded" where
  "push_embedWitness sha c w envelope =
     (let chunks = push_splitEnvelope envelope; witnessScript = buildWitnessScript (length chunks);
          p2wshScript = [0x00, 0x20] @ hash_bytes (sha witnessScript);
          embedSats = 546; fundingTxRaw = buildFundingTx p2wshScript embedSats
      in case fund_sign_send c w fundingTxRaw of
           (Inl e, w) \<Rightarrow> (Inl e, w)
         | (Inr (fundingTxid, signedHex), w) \<Rightarrow>
             send_spending c w signedHex p2wshScript
               (\<lambda>vout. buildSpendingTx fundingTxid vout chunks witnessScript))"

definition pushEnvelope :: "(bytes \<Rightarrow> hash256) \<Rightarrow> 'w wallet \<Rightarrow> 'w \<Rightarrow> string \<Rightarrow> 'w embedded" where
  "pushEnvelope sha c w envHex =
     (case hex_Decode envHex of
        None \<Rightarrow> (Inl InvalidEnvelopeHex, w)
      | Some envBytes \<Rightarrow>
          if length envBytes \<le> opReturnMaxData then embedOpReturn c w envBytes
          else push_embedWitness sha c w envBytes)"

section \<open>The three programs agree\<close>

lemma splitChunks_eq: "splitChunks d = splitEnvelope d"
  by (induction d rule: splitChunks.induct) (subst splitChunks.simps, subst splitEnvelope.simps, simp add: Let_def)

lemma makeWitnessScript_eq: "makeWitnessScript n = buildWitnessScript n"
  by (simp add: makeWitnessScript_def buildWitnessScript_def)

lemma op_return_tx_eq: "buildOpReturnTx s = buildOpReturnTxWithValue s 0" "buildOpReturnTxWithValue s v = buildFundingTx s v"
  by (simp_all add: buildOpReturnTx_def buildOpReturnTxWithValue_def buildFundingTx_def)

lemma concat_push_splitEnvelope [simp]: "concat (push_splitEnvelope e) = e"
  by (induction e rule: push_splitEnvelope.induct) (subst push_splitEnvelope.simps, simp add: Let_def maxPushSize_def)

lemma push_splitEnvelope_sizes: "c \<in> set (push_splitEnvelope e) \<Longrightarrow> 0 < length c \<and> length c \<le> 520"
  by (induction e rule: push_splitEnvelope.induct)
    (subst (asm) push_splitEnvelope.simps, auto simp: Let_def maxPushSize_def split: if_splits)

text \<open>All chunks but the last are full.\<close>

lemma length_push_splitEnvelope: "length (push_splitEnvelope e) * 520 < length e + 520"
proof (induction e rule: push_splitEnvelope.induct)
  case (1 e)
  show ?case
  proof (cases "length e \<le> 520")
    case True
    have "push_splitEnvelope [] = []" by (simp add: push_splitEnvelope.simps)
    then show ?thesis using True by (subst push_splitEnvelope.simps) (auto simp: Let_def maxPushSize_def)
  next
    case False
    then have "e \<noteq> []" by auto
    with 1 False show ?thesis by (subst push_splitEnvelope.simps) (simp add: Let_def maxPushSize_def)
  qed
qed

section \<open>Reading a transaction\<close>

text \<open>The serialization of a Bitcoin transaction with witnesses, as a node reads it: inputs without
  their references, outputs, and a witness for each input.\<close>

fun read_ins :: "nat \<Rightarrow> bytes \<Rightarrow> bytes option" where
  "read_ins 0 b = Some b"
| "read_ins (Suc n) b =
     (if length b < 36 then None
      else case readVarInt (drop 36 b) of
             None \<Rightarrow> None
           | Some (k, r) \<Rightarrow> if length r < k + 4 then None else read_ins n (drop (k + 4) r))"

fun read_outs :: "nat \<Rightarrow> bytes \<Rightarrow> (tx_output list \<times> bytes) option" where
  "read_outs 0 b = Some ([], b)"
| "read_outs (Suc n) b =
     (if length b < 8 then None
      else case readVarInt (drop 8 b) of
             None \<Rightarrow> None
           | Some (k, r) \<Rightarrow>
               if length r < k then None
               else map_option (\<lambda>(outs, r'). (\<lparr>out_Script = take k r, out_Value = le_word (take 8 b)\<rparr> # outs, r')) (read_outs n (drop k r)))"

fun read_wits :: "nat \<Rightarrow> bytes \<Rightarrow> (tx_input list \<times> bytes) option" where
  "read_wits 0 b = Some ([], b)"
| "read_wits (Suc n) b =
     (case read_witness b of
        None \<Rightarrow> None
      | Some (items, r) \<Rightarrow> map_option (\<lambda>(ins, r'). (\<lparr>in_Witness = items\<rparr> # ins, r')) (read_wits n r))"

definition read_tx :: "bytes \<Rightarrow> (tx_input list \<times> tx_output list) option" where
  "read_tx b =
     (if slice 4 2 b \<noteq> [0, 1] then None
      else case readVarInt (drop 6 b) of
        None \<Rightarrow> None
      | Some (nin, r) \<Rightarrow>
          (case read_ins nin r of
             None \<Rightarrow> None
           | Some r \<Rightarrow>
               (case readVarInt r of
                  None \<Rightarrow> None
                | Some (nout, r) \<Rightarrow>
                    (case read_outs nout r of
                       None \<Rightarrow> None
                     | Some (outs, r) \<Rightarrow>
                         (case read_wits nin r of
                            None \<Rightarrow> None
                          | Some (ins, r) \<Rightarrow> if length r = 4 then Some (ins, outs) else None)))))"

text \<open>A transaction with one input, one output without value, and a witness.\<close>

definition seg_tx :: "bytes \<Rightarrow> uint32 \<Rightarrow> bytes \<Rightarrow> bytes list \<Rightarrow> bytes" where
  "seg_tx prev vout script items =
     le_bytes 4 (2 :: uint32) @ [0, 1, 1] @ prev @ le_bytes 4 vout @ [0] @ le_bytes 4 (0xffffffff :: uint32) @
     [1] @ le_bytes 8 (0 :: uint64) @ (of_nat (length script) # script) @
     of_nat (length items) # concat (map write_item items) @ le_bytes 4 (0 :: uint32)"

lemma spending_seg:
  "buildTaprootSpendingTx txid vout chunks ts cb = seg_tx (reverseTxid txid) vout [0x6a, 3, 0, 0, 0] (chunks @ [ts, cb])"
  "buildTaprootSpendTx txid vout chunks ts cb = seg_tx (reverseTxid txid) vout (0x6a # 0x14 # replicate 20 0) (chunks @ [ts, cb])"
  "buildSpendingTx txid vout chunks ts = seg_tx (reverseTxid txid) vout (0x6a # 0x14 # replicate 20 0) (chunks @ [ts])"
  by (simp_all add: buildTaprootSpendingTx_def buildTaprootSpendTx_def buildSpendingTx_def seg_tx_def)

lemma read_small: "n < 253 \<Longrightarrow> readVarInt (of_nat n # r) = Some (n, r)"
proof -
  assume "n < 253"
  moreover from this have "unat (of_nat n :: byte) = n" by (simp add: unat_of_nat_small)
  ultimately show ?thesis by (simp add: readVarInt_def word_less_nat_alt)
qed

lemma read_seg_tx:
  assumes "length prev = 32" and "length script < 253" and "length items < 253" and "\<forall>x\<in>set items. length x < 2 ^ 64"
  shows "read_tx (seg_tx prev vout script items) = Some ([\<lparr>in_Witness = items\<rparr>], [\<lparr>out_Script = script, out_Value = 0\<rparr>])"
proof -
  let ?wit = "of_nat (length items) # concat (map write_item items) @ le_bytes 4 (0 :: uint32)"
  let ?outs = "le_bytes 8 (0 :: uint64) @ (of_nat (length script) # script) @ ?wit"
  let ?ins = "prev @ le_bytes 4 vout @ [0] @ le_bytes 4 (0xffffffff :: uint32) @ [1] @ ?outs"
  have one: "readVarInt (1 # r) = Some (1, r)" for r using read_small [of 1 r] by simp
  have zero: "readVarInt (0 # r) = Some (0, r)" for r using read_small [of 0 r] by simp
  have "read_ins 1 ?ins = Some (1 # ?outs)" using assms(1) by (simp add: zero)
  moreover have "read_outs 1 ?outs = Some ([\<lparr>out_Script = script, out_Value = 0\<rparr>], ?wit)"
    using read_small [OF assms(2)] by simp
  moreover have "read_wits 1 ?wit = Some ([\<lparr>in_Witness = items\<rparr>], le_bytes 4 (0 :: uint32))"
    using read_witness_count [OF assms(3,4), of "le_bytes 4 (0 :: uint32)"] by auto
  moreover have "seg_tx prev vout script items = le_bytes 4 (2 :: uint32) @ [0, 1] @ 1 # ?ins" by (simp add: seg_tx_def)
  ultimately show ?thesis by (simp add: read_tx_def one slice_def del: read_ins.simps read_outs.simps read_wits.simps One_nat_def)
qed

section \<open>What is broadcast is scanned\<close>

text \<open>An envelope that gives the scanner the transactions \<open>ts\<close> and the checkpoints \<open>ps\<close>.\<close>

definition yields :: "envelope \<Rightarrow> transaction list \<Rightarrow> checkpoint list \<Rightarrow> bool" where
  "yields e ts ps \<longleftrightarrow> env_ok e \<and> (\<forall>k txs cps. process_envelope e 0 k (txs, cps) = (txs @ ts, cps @ ps))"

lemma yields_tx:
  "length (tx_Data tx) \<le> 1000000 \<Longrightarrow> yields \<lparr>env_Magic = Magic, env_Type = EnvelopeTypeTx, env_Payload = EncodeTx tx\<rparr> [tx] []"
  using DecodeTx_EncodeTx [of tx "[]"] by (simp add: yields_def env_ok_def process_envelope_def tx_ok_def)

lemma yields_checkpoint:
  "yields \<lparr>env_Magic = Magic, env_Type = EnvelopeTypeCheckpoint, env_Payload = EncodeCheckpoint cp\<rparr> [] [cp]"
  using DecodeCheckpoint_EncodeCheckpoint [of cp "[]"]
  by (simp add: yields_def env_ok_def process_envelope_def)

text \<open>A witness that spells an envelope followed by something without the magic prefix.\<close>

lemma scanned_witness:
  assumes "yields e ts ps" and "length (env_bytes e) \<le> 20000"
    and "concat items = env_bytes e @ r" and "scanForMagic r = Some []" and "length r \<le> 100000"
  shows "extract_input l1Nonce \<lparr>in_Witness = items\<rparr> (txs, cps) = Some (txs @ ts, cps @ ps)"
proof -
  have ok: "env_ok e" using assms(1) by (simp add: yields_def)
  have "length (env_bytes e @ r) < 2 ^ 32" using assms(2,5) by simp
  from scan_envelope [OF ok this, of "[]"] index_here [of e r] assms(4)
  have "scanForMagic (env_bytes e @ r) = Some [env_bytes e]" by simp
  moreover have "DecodeEnvelope (env_bytes e) = Inr e"
    using DecodeEnvelope_EncodeEnvelope [OF ok, of "[]"] assms(2) by simp
  moreover have "\<not> maxWitnessSize < sum_list (map length items)"
    using assms(2,5) by (simp add: maxWitnessSize_def flip: length_concat) (simp add: assms(3))
  ultimately show ?thesis using assms(1) by (simp add: extract_input_def scan_bytes_def assms(3) yields_def)
qed

text \<open>The filler output of a spending transaction.\<close>

lemma filler_silent:
  "extract_output k \<lparr>out_Script = [0x6a, 3, 0, 0, 0], out_Value = v\<rparr> acc = Some acc"
  "extract_output k \<lparr>out_Script = 0x6a # 0x14 # replicate 20 0, out_Value = v\<rparr> acc = Some acc"
proof -
  have "bytes_Index Magic [3, 0, 0, 0] = None" "bytes_Index Magic (0x14 # replicate 20 0) = None"
    by (simp_all add: Magic_def numeral_eq_Suc)
  then show "extract_output k \<lparr>out_Script = [0x6a, 3, 0, 0, 0], out_Value = v\<rparr> acc = Some acc"
    "extract_output k \<lparr>out_Script = 0x6a # 0x14 # replicate 20 0, out_Value = v\<rparr> acc = Some acc"
    by (simp_all add: extract_output_def scan_bytes_def scan_none)
qed

text \<open>A raw transaction in which the scanner finds the given transactions and checkpoints and nothing else.\<close>

definition carries :: "bytes \<Rightarrow> transaction list \<Rightarrow> checkpoint list \<Rightarrow> bool" where
  "carries raw ts ps \<longleftrightarrow>
     (\<exists>ins outs. read_tx raw = Some (ins, outs) \<and>
        (\<forall>txid txs cps. extract_tx \<lparr>btx_TxID = txid, btx_Inputs = ins, btx_Outputs = outs\<rparr> (txs, cps) = Some (txs @ ts, cps @ ps)))"

lemma seg_tx_carries:
  assumes "yields e ts ps" and "length (env_bytes e) \<le> 20000"
    and "concat items = env_bytes e @ r" and "scanForMagic r = Some []" and "length r \<le> 100000"
    and "length prev = 32" and "script = [0x6a, 3, 0, 0, 0] \<or> script = 0x6a # 0x14 # replicate 20 0"
    and "length items < 253"
  shows "carries (seg_tx prev vout script items) ts ps"
proof -
  have "length x < 2 ^ 64" if "x \<in> set items" for x
  proof -
    have "length x \<le> length (concat items)" using that by (induction items) auto
    also have "\<dots> \<le> 120000" using assms(2,3,5) by simp
    finally show ?thesis by simp
  qed
  then have "read_tx (seg_tx prev vout script items) = Some ([\<lparr>in_Witness = items\<rparr>], [\<lparr>out_Script = script, out_Value = 0\<rparr>])"
    using assms(6-8) by (intro read_seg_tx) auto
  moreover have "extract_tx \<lparr>btx_TxID = txid, btx_Inputs = [\<lparr>in_Witness = items\<rparr>], btx_Outputs = [\<lparr>out_Script = script, out_Value = 0\<rparr>]\<rparr>
      (txs, cps) = Some (txs @ ts, cps @ ps)" for txid txs cps
    using assms(7) filler_silent scanned_witness [OF assms(1-5)] by (auto simp: extract_tx_def)
  ultimately show ?thesis by (auto simp: carries_def)
qed

text \<open>A wallet that works: it can pay for any output with a script of at most 252 bytes, keeps the output in the transaction it signs, and
  its node accepts transactions under identifiers of 32 bytes.\<close>

definition wallet_works :: "'w wallet \<Rightarrow> bool" where
  "wallet_works c \<longleftrightarrow>
     (\<forall>w script v. length script < 253 \<longrightarrow> (\<exists>funded signed vouts n. wl_fund c w (hex_EncodeToString (buildFundingTx script v)) = Some funded \<and>
        wl_sign c w funded = Some signed \<and> (\<forall>w'. wl_decode c w' signed = Some vouts) \<and>
        find_script (hex_EncodeToString script) vouts = Some n)) \<and>
     (\<forall>w s. \<exists>txid w'. wl_send c w s = (Some txid, w') \<and> length (reverseTxid txid) = 32)"

lemma funding_works:
  assumes "wallet_works c" and "length script < 253"
  obtains txid signed w' n where "fund_sign_send c w (buildFundingTx script v) = (Inr (txid, signed), w')"
    and "length (reverseTxid txid) = 32" and "\<And>w'. findP2WSHOutput c w' signed script = Inr n"
proof -
  from assms obtain funded signed vouts n where f: "wl_fund c w (hex_EncodeToString (buildFundingTx script v)) = Some funded"
    "wl_sign c w funded = Some signed" "\<forall>w'. wl_decode c w' signed = Some vouts" "find_script (hex_EncodeToString script) vouts = Some n"
    unfolding wallet_works_def by metis
  from assms obtain txid w' where s: "wl_send c w signed = (Some txid, w')" "length (reverseTxid txid) = 32"
    unfolding wallet_works_def by metis
  show thesis by (rule that [of txid signed w' n]) (use f s in \<open>simp_all add: fund_sign_send_def findP2WSHOutput_def\<close>)
qed

lemma spending_works:
  assumes "wallet_works c" and "findP2WSHOutput c w signedHex script = Inr n"
  shows "\<exists>l1 w'. send_spending c w signedHex script spending = (Inr l1, w') \<and>
    wl_send c w (hex_EncodeToString (spending (of_nat n))) = (Some l1, w')"
proof -
  from assms(1) obtain l1 w' where "wl_send c w (hex_EncodeToString (spending (of_nat n))) = (Some l1, w')"
    unfolding wallet_works_def by metis
  then show ?thesis using assms(2) by (simp add: send_spending_def)
qed

lemma two_steps:
  assumes "wallet_works c" and "length script < 253"
    and "\<And>txid vout. length (reverseTxid txid) = 32 \<Longrightarrow> carries (spending txid vout) ts ps"
    and "r = (case fund_sign_send c w (buildFundingTx script v) of
           (Inl e, w) \<Rightarrow> (Inl e, w)
         | (Inr (fundingTxid, signedHex), w) \<Rightarrow> send_spending c w signedHex script (spending fundingTxid))"
  shows "\<exists>l1 w1 w' raw. r = (Inr l1, w') \<and> wl_send c w1 (hex_EncodeToString raw) = (Some l1, w') \<and> carries raw ts ps"
proof -
  obtain txid signed w1 n where f: "fund_sign_send c w (buildFundingTx script v) = (Inr (txid, signed), w1)"
    "length (reverseTxid txid) = 32" "\<And>w'. findP2WSHOutput c w' signed script = Inr n"
    by (rule funding_works [OF assms(1,2), of w v]) blast
  from spending_works [OF assms(1) f(3), of w1 "spending txid"] obtain l1 w'
    where "send_spending c w1 signed script (spending txid) = (Inr l1, w')"
      "wl_send c w1 (hex_EncodeToString (spending txid (of_nat n))) = (Some l1, w')" by blast
  with assms(3) [OF f(2)] show ?thesis unfolding assms(4) f(1) by auto
qed

text \<open>A control block of a taproot output and the scripts are silent.\<close>

lemma script_silent: "scanForMagic (buildWitnessScript n) = Some []"
  using index_after [of "[]" n] by (intro scan_none) (simp add: buildWitnessScript_def Magic_def)

lemma taproot_control:
  assumes "ComputeTaprootOutput sha tweak_key (buildWitnessScript n) = Some (script, cb)"
  shows "scanForMagic (buildWitnessScript n @ cb) = Some []" "length (buildWitnessScript n @ cb) = n + 34"
proof -
  obtain p where cb: "cb = p # numsInternalKey"
    using assms by (auto simp: ComputeTaprootOutput_def Let_def split: option.splits)
  have nums: "length numsInternalKey = 32" by (simp add: numsInternalKey_def hex_digit_def)
  show "scanForMagic (buildWitnessScript n @ cb) = Some []" "length (buildWitnessScript n @ cb) = n + 34"
    unfolding cb by (rule control_block_silent) (simp add: nums buildWitnessScript_def)
qed

lemma taproot_works:
  assumes "\<forall>k t. tweak_key k t \<noteq> None"
  obtains script cb where "ComputeTaprootOutput sha tweak_key ts = Some (script, cb)"
  using assms by (fastforce simp: ComputeTaprootOutput_def Let_def split: option.splits)

lemma publication:
  assumes "wallet_works c" and "\<forall>k t. tweak_key k t \<noteq> None" and "yields e ts ps" and "80 < length env" and "length env \<le> 20000"
    and env: "env = env_bytes e"
    and r: "r \<in> {EmbedEnvelope sha tweak_key c w env, push sha tweak_key c w env burnSats, pushEnvelope sha c w (hex_EncodeToString env)}"
  shows "\<exists>l1 w1 w' raw. r = (Inr l1, w') \<and> wl_send c w1 (hex_EncodeToString raw) = (Some l1, w') \<and> carries raw ts ps"
proof -
  let ?n = "length (splitEnvelope env)" and ?k = "length (push_splitEnvelope env)"
  have len: "length env \<le> 20000" "\<not> length env \<le> opReturnMaxData" using assms(4,5) by (simp_all add: opReturnMaxData_def)
  have le: "length (env_bytes e) \<le> 20000" using len(1) env by simp
  have n: "?n \<le> 250" using len(1) by (simp add: length_splitEnvelope)
  have k: "?k \<le> 39" using length_push_splitEnvelope [of env] len(1) by simp
  obtain script cb where tap: "ComputeTaprootOutput sha tweak_key (buildWitnessScript ?n) = Some (script, cb)"
    by (rule taproot_works [OF assms(2)])
  note c = taproot_control [OF tap]
  have sl: "length script < 253"
    using tap by (auto simp: ComputeTaprootOutput_def Let_def slice_def split: option.splits)
  have taps: "carries (seg_tx (reverseTxid txid) vout out (embed_items env cb)) ts ps"
    if "length (reverseTxid txid) = 32" "out = [0x6a, 3, 0, 0, 0] \<or> out = 0x6a # 0x14 # replicate 20 0" for txid vout out
    using c n by (intro seg_tx_carries [OF assms(3) le _ c(1) _ that]) (simp_all add: env [symmetric])
  have segw: "carries (seg_tx (reverseTxid txid) vout (0x6a # 0x14 # replicate 20 0) (push_splitEnvelope env @ [buildWitnessScript ?k])) ts ps"
    if "length (reverseTxid txid) = 32" for txid vout
    using k by (intro seg_tx_carries [OF assms(3) le _ script_silent [of ?k] _ that]) (auto simp: buildWitnessScript_def env [symmetric])
  from r consider "r = EmbedEnvelope sha tweak_key c w env" | "r = push sha tweak_key c w env burnSats"
    | "r = pushEnvelope sha c w (hex_EncodeToString env)" by blast
  then show ?thesis
  proof cases
    case 1
    show ?thesis
      by (rule two_steps [OF assms(1) sl, where spending = "\<lambda>txid vout. buildTaprootSpendingTx txid vout (splitEnvelope env) (buildWitnessScript ?n) cb"
          and v = "spendingTxFee (splitEnvelope env) cb (buildWitnessScript ?n)" and w = w])
        (use taps len(2) tap in \<open>simp_all add: spending_seg 1 EmbedEnvelope_def embedWitness_def Let_def\<close>)
  next
    case 2
    show ?thesis
      by (rule two_steps [OF assms(1) sl, where spending = "\<lambda>txid vout. buildTaprootSpendTx txid vout (splitEnvelope env) (buildWitnessScript ?n) cb"
          and v = 546 and w = w])
        (use taps len(2) tap in \<open>simp_all add: spending_seg 2 push_def cli_embedWitness_def splitChunks_eq makeWitnessScript_eq Let_def\<close>)
  next
    case 3
    show ?thesis
      by (rule two_steps [OF assms(1), where spending = "\<lambda>txid vout. buildSpendingTx txid vout (push_splitEnvelope env) (buildWitnessScript ?k)"
          and script = "0 # 0x20 # hash_bytes (sha (buildWitnessScript ?k))" and v = 546 and w = w])
        (use segw len(2) in \<open>simp_all add: spending_seg 3 pushEnvelope_def hex_roundtrip push_embedWitness_def Let_def\<close>)
  qed
qed


text \<open>The command line pays a fixed 546 satoshis for the second transaction, whatever its size; for an envelope of 2,000
  bytes or more that is less than one satoshi per virtual byte, the rate that the package aims at.\<close>

lemma item_size_bounds: "length x \<le> item_size x" "length x < 253 \<Longrightarrow> item_size x = 1 + length x"
proof -
  show "length x \<le> item_size x" by (simp add: item_size_def)
  assume "length x < 253"
  moreover from this have "(of_nat (length x) :: uint64) < 253" by (simp add: word_less_nat_alt unat_of_nat_small)
  ultimately show "item_size x = 1 + length x" by (simp add: item_size_def varIntSize_def)
qed

lemma sum_list_item_size: "(\<And>x. x \<in> set xs \<Longrightarrow> length x < 253) \<Longrightarrow> sum_list (map item_size xs) = length xs + length (concat xs)"
  by (induction xs) (simp_all add: item_size_bounds(2))

theorem fixed_fee_too_low:
  assumes "2000 \<le> length env" and "length env \<le> 20000" and "length cb = 33"
  shows "546 < spendingTxFee (splitEnvelope env) cb (buildWitnessScript (length (splitEnvelope env)))"
proof -
  let ?n = "length (splitEnvelope env)"
  have n: "?n \<le> 250" "25 \<le> ?n" using assms(1,2) by (simp_all add: length_splitEnvelope)
  have c: "sum_list (map item_size (splitEnvelope env)) = ?n + length env"
  proof -
    have "length x < 253" if "x \<in> set (splitEnvelope env)" for x using splitEnvelope_sizes [OF that] by simp
    from sum_list_item_size [of "splitEnvelope env", OF this] show ?thesis by simp
  qed
  have t: "item_size (buildWitnessScript ?n) = ?n + 2" "item_size cb = 34"
    using n assms(3) item_size_bounds(2) [of "buildWitnessScript ?n"] item_size_bounds(2) [of cb] by (simp_all add: buildWitnessScript_def)
  define v where "v = (65 * 3 + (65 + (2 + 1 + (?n + length env) + (?n + 2) + 34)) + 3) div 4"
  have v: "547 \<le> v" "v < 10000" using assms(1,2) n by (simp_all add: v_def)
  have u: "unat (of_nat v :: uint64) = v" using v(2) by (simp add: unat_of_nat_small)
  have "spendingTxFee (splitEnvelope env) cb (buildWitnessScript ?n) = (if of_nat v < (330 :: uint64) then 330 else of_nat v)"
    by (simp add: spendingTxFee_def c t targetFeeRate_def v_def Let_def)
  then show ?thesis using v u by (simp add: word_less_nat_alt)
qed

section \<open>Samples\<close>

text \<open>A wallet that signs and accepts everything, and decodes the transactions that the programs make.\<close>

definition sample_wallet :: "nat wallet" where
  "sample_wallet =
     \<lparr>wl_fund = (\<lambda>w s. Some s), wl_sign = (\<lambda>w s. Some s), wl_send = (\<lambda>w s. (Some sample_txid, Suc w)),
      wl_decode = (\<lambda>w s. case hex_Decode s of None \<Rightarrow> None | Some b \<Rightarrow>
        (case readVarInt (drop 14 b) of None \<Rightarrow> None | Some (k, r) \<Rightarrow> Some [(hex_EncodeToString (take k r), 0)]))\<rparr>"

lemma sample_wallet_works: "wallet_works sample_wallet"
proof -
  have "readVarInt (drop 14 (buildFundingTx script v)) = Some (length script, script @ le_bytes 4 (0 :: uint32))"
    if "length script < 253" for script v
    using that by (simp add: buildFundingTx_def unat_of_nat_small)
  then show ?thesis by (simp add: wallet_works_def sample_wallet_def hex_roundtrip sample_txid_length)
qed


end
