(* ===== verification/Tyl_CLI.thy ===== *)
theory Tyl_CLI
  imports Tyl_Embed Tyl_AMM Tyl_Swap_Props "HOL-Library.Char_ord" "HOL-Library.List_Lexorder"
begin

text \<open>
  The command line of \<open>cmd/tylcli/main.go\<close>, first part: arguments and flags, numbers, the key store, the registry
  of contracts, the resolution of names, and the notes about pending transactions. Files are fields of
  the record \<open>cli\<close>: a directory is a list of file names in order with the values that JSON decodes from
  the files, \<open>None\<close> for one that does not decode. Texts are ASCII, file names have no separators, and reading and
  writing files succeed. \<open>fatal\<close> is the left value of a sum, and so are the panics of the source.
\<close>

section \<open>Errors\<close>

datatype cli_error =
  Usage | AmountMustBePositive | InvalidNumber string string | InvalidForCallerID string | CannotResolve string | KeyNotFound string
| NoKeys | MultipleKeys | CorruptKey | KeyExists string | InvalidHex | InvalidPrivateKey | InvalidContract string | UnknownFunction string
| UnknownContractType string | TokenARequired | NoResult string | SigningError | PushFailed embed_error | DecodeDepositError
| HashLength | PreimageLength | ValueRequired | NotPendingOnChain uint64 | AlreadyPending string | HashlockMismatch | NoSavedState
| SwapDaemon string | FlagRequiresValue string | UnknownFlag string | InvalidAddress string | BuildPanic | IndexPanic

definition andThen :: "cli_error + 'a \<Rightarrow> ('a \<Rightarrow> cli_error + 'b) \<Rightarrow> cli_error + 'b" where
  "andThen r f = (case r of Inl e \<Rightarrow> Inl e | Inr a \<Rightarrow> f a)"

lemma andThen_simps [simp]: "andThen (Inl e) f = Inl e" "andThen (Inr a) f = f a"
  by (simp_all add: andThen_def)

lemma andThen_Inr: "andThen r f = Inr b \<longleftrightarrow> (\<exists>a. r = Inr a \<and> f a = Inr b)"
  by (cases r) simp_all

section \<open>Numbers and flags\<close>

definition stripHex :: "string \<Rightarrow> string" where
  "stripHex s = (if length s \<ge> 2 \<and> take 2 s = ''0x'' then drop 2 s else s)"

text \<open>\<open>strconv.ParseUint\<close> of base 10 and 16, for 64 bits; \<open>None\<close> for its errors of syntax and range.\<close>

definition digit_value :: "char \<Rightarrow> nat option" where
  "digit_value c =
     (let n = (of_char c :: nat) in
      if 48 \<le> n \<and> n \<le> 57 then Some (n - 48)
      else if 97 \<le> n \<and> n \<le> 122 then Some (n - 97 + 10)
      else if 65 \<le> n \<and> n \<le> 90 then Some (n - 65 + 10)
      else None)"

fun parse_digits :: "nat \<Rightarrow> nat \<Rightarrow> string \<Rightarrow> nat option" where
  "parse_digits base n [] = Some n"
| "parse_digits base n (c # s) =
     (case digit_value c of
        None \<Rightarrow> None
      | Some d \<Rightarrow>
          if d \<ge> base then None
          else if n * base + d \<ge> 2 ^ 64 then None
          else parse_digits base (n * base + d) s)"

definition ParseUint :: "nat \<Rightarrow> string \<Rightarrow> uint64 option" where
  "ParseUint base s = (if s = [] then None else map_option of_nat (parse_digits base 0 s))"

definition mustParseUint :: "string \<Rightarrow> string \<Rightarrow> cli_error + uint64" where
  "mustParseUint s label =
     (if take 2 s = ''0x'' \<or> take 2 s = ''0X'' then
        (case ParseUint 16 (drop 2 s) of None \<Rightarrow> Inl (InvalidNumber label s) | Some v \<Rightarrow> Inr v)
      else (case ParseUint 10 s of
              Some v \<Rightarrow> Inr v
            | None \<Rightarrow> (case ParseUint 16 s of None \<Rightarrow> Inl (InvalidNumber label s) | Some v \<Rightarrow> Inr v)))"

type_synonym flags = "string \<rightharpoonup> string"

fun parseFlags_loop :: "string list \<Rightarrow> string list \<Rightarrow> flags \<Rightarrow> string list \<times> flags" where
  "parseFlags_loop [] positional flags = (positional, flags)"
| "parseFlags_loop [a] positional flags =
     (if a = ''--no-push'' then (positional, flags(''no-push'' \<mapsto> ''true'')) else (positional @ [a], flags))"
| "parseFlags_loop (a # b # args) positional flags =
     (if a = ''--no-push'' then parseFlags_loop (b # args) positional (flags(''no-push'' \<mapsto> ''true''))
      else if take 2 a = ''--'' then parseFlags_loop args positional (flags(drop 2 a \<mapsto> b))
      else parseFlags_loop (b # args) (positional @ [a]) flags)"

definition parseFlags :: "string list \<Rightarrow> string list \<times> flags" where
  "parseFlags args = parseFlags_loop args [] Map.empty"

text \<open>The value of a missing key of a map is the empty text.\<close>

definition flag :: "flags \<Rightarrow> string \<Rightarrow> string" where
  "flag flags k = (case flags k of None \<Rightarrow> [] | Some v \<Rightarrow> v)"

text \<open>The caller identifier of an address in hexadecimal text: its last eight bytes.\<close>

definition addrToCallerID :: "string \<Rightarrow> cli_error + uint64" where
  "addrToCallerID addrHex =
     (let b = hex_DecodeString (stripHex addrHex)
      in if length b \<noteq> 20 then Inl (InvalidForCallerID addrHex)
         else Inr (foldl (\<lambda>id v. push_bit 8 id OR ucast v) 0 (slice 12 8 b)))"

section \<open>Files\<close>

record savedKey =
  sk_Name :: string
  sk_Address :: string
  sk_PubKey :: string
  sk_PrivKey :: string

record savedContract =
  sc_Name :: string
  sc_Address :: string
  sc_Type :: string

record swapBuyState =
  sb_Preimage :: hash256
  sb_Invoice :: string

type_synonym 'v dir = "(string \<times> 'v option) list"

record 'w cli =
  cl_keys :: "savedKey dir"
  cl_contracts :: "savedContract dir"
  cl_pending :: string
  cl_htlcPending :: "uint64 \<times> string \<rightharpoonup> string"
  cl_swapBuys :: "uint64 \<rightharpoonup> swapBuyState"
  cl_wallet :: 'w

text \<open>Writing a file keeps the directory in the order of the names.\<close>

fun dir_write :: "string \<Rightarrow> 'v \<Rightarrow> 'v dir \<Rightarrow> 'v dir" where
  "dir_write name v [] = [(name, Some v)]"
| "dir_write name v ((n, u) # d) =
     (if n = name then (name, Some v) # d
      else if name < n then (name, Some v) # (n, u) # d
      else (n, u) # dir_write name v d)"

definition dir_read :: "'v dir \<Rightarrow> string \<Rightarrow> 'v option" where
  "dir_read d name = (case map_of d name of Some (Some v) \<Rightarrow> Some v | _ \<Rightarrow> None)"

definition has_suffix :: "string \<Rightarrow> string \<Rightarrow> bool" where
  "has_suffix s suffix \<longleftrightarrow> length suffix \<le> length s \<and> drop (length s - length suffix) s = suffix"

definition has_prefix :: "string \<Rightarrow> string \<Rightarrow> bool" where
  "has_prefix s prefix \<longleftrightarrow> take (length prefix) s = prefix"

definition trim_prefix :: "string \<Rightarrow> string \<Rightarrow> string" where
  "trim_prefix s prefix = (if has_prefix s prefix then drop (length prefix) s else s)"

definition to_lower :: "string \<Rightarrow> string" where
  "to_lower s = map (\<lambda>c. let n = (of_char c :: nat) in if 65 \<le> n \<and> n \<le> 90 then char_of (n + 32) else c) s"

definition json_files :: "'v dir \<Rightarrow> 'v list" where
  "json_files d = concat (map (\<lambda>(name, v). if has_suffix name ''.json'' then (case v of None \<Rightarrow> [] | Some v \<Rightarrow> [v]) else []) d)"

section \<open>Keys\<close>

definition listKeys :: "'w cli \<Rightarrow> savedKey list" where
  "listKeys s = filter (\<lambda>sk. sk_Address sk \<noteq> []) (json_files (cl_keys s))"

definition decodePrivKey :: "string \<Rightarrow> cli_error + bytes" where
  "decodePrivKey hexStr =
     (case PrivateKeyFromBytes (hex_DecodeString hexStr) of None \<Rightarrow> Inl CorruptKey | Some key \<Rightarrow> Inr key)"

definition loadKey :: "'w cli \<Rightarrow> string \<Rightarrow> cli_error + bytes" where
  "loadKey s nameOrAddr =
     (let nameOrAddr = stripHex nameOrAddr
      in case dir_read (cl_keys s) (nameOrAddr @ ''.json'') of
           Some sk \<Rightarrow> decodePrivKey (sk_PrivKey sk)
         | None \<Rightarrow>
             (case find (\<lambda>sk. has_prefix (trim_prefix (to_lower (sk_Address sk)) ''0x'') (trim_prefix (to_lower nameOrAddr) ''0x'') \<or>
                              has_prefix (sk_Name sk) nameOrAddr) (listKeys s) of
                Some sk \<Rightarrow> decodePrivKey (sk_PrivKey sk)
              | None \<Rightarrow> Inl (KeyNotFound nameOrAddr)))"

definition resolveSigningKey :: "'w cli \<Rightarrow> string \<Rightarrow> cli_error + bytes" where
  "resolveSigningKey s fromRef =
     (if fromRef \<noteq> [] then loadKey s fromRef
      else let keys = listKeys s
           in if length keys = 1 then decodePrivKey (sk_PrivKey (keys ! 0))
              else if length keys = 0 then Inl NoKeys
              else Inl MultipleKeys)"

text \<open>The address of a private key.\<close>

definition key_address :: "extern \<Rightarrow> curve \<Rightarrow> bytes \<Rightarrow> address" where
  "key_address x c key = PublicKey_Address x (PubKey c key)"

definition saveKeyToDisk :: "extern \<Rightarrow> curve \<Rightarrow> bytes \<Rightarrow> string \<Rightarrow> 'w cli \<Rightarrow> savedKey \<times> 'w cli" where
  "saveKeyToDisk x c key name s =
     (let addr = key_address x c key;
          name = (if name = [] then take 12 (Address_Hex addr) else name);
          sk = \<lparr>sk_Name = name, sk_Address = Address_Hex addr, sk_PubKey = hex_EncodeToString (CompressedBytes (PubKey c key)),
                sk_PrivKey = hex_EncodeToString key\<rparr>
      in (sk, s\<lparr>cl_keys := dir_write (name @ ''.json'') sk (cl_keys s)\<rparr>))"

text \<open>\<open>key\<close> is the key that the generator returned.\<close>

definition cmdKeygen :: "extern \<Rightarrow> curve \<Rightarrow> bytes \<Rightarrow> string list \<Rightarrow> 'w cli \<Rightarrow> (cli_error + savedKey) \<times> 'w cli" where
  "cmdKeygen x c key args s =
     (let (_, flags) = parseFlags args; name = flag flags ''name''
      in if name \<noteq> [] \<and> map_of (cl_keys s) (name @ ''.json'') \<noteq> None then (Inl (KeyExists name), s)
         else let (sk, s) = saveKeyToDisk x c key name s in (Inr sk, s))"

definition cmdImportKey :: "extern \<Rightarrow> curve \<Rightarrow> string list \<Rightarrow> 'w cli \<Rightarrow> (cli_error + savedKey) \<times> 'w cli" where
  "cmdImportKey x c args s =
     (if length args < 1 then (Inl Usage, s)
      else let (pos, flags) = parseFlags args; name = flag flags ''name''
           in if pos = [] then (Inl IndexPanic, s)
              else if name \<noteq> [] \<and> map_of (cl_keys s) (name @ ''.json'') \<noteq> None then (Inl (KeyExists name), s)
              else (case hex_Decode (stripHex (pos ! 0)) of
                      None \<Rightarrow> (Inl InvalidHex, s)
                    | Some keyBytes \<Rightarrow>
                        (case PrivateKeyFromBytes keyBytes of
                           None \<Rightarrow> (Inl InvalidPrivateKey, s)
                         | Some key \<Rightarrow> let (sk, s) = saveKeyToDisk x c key name s in (Inr sk, s))))"

section \<open>Contracts\<close>

definition saveContract :: "string \<Rightarrow> string \<Rightarrow> string \<Rightarrow> 'w cli \<Rightarrow> 'w cli" where
  "saveContract name addr contractType s =
     (let cleanAddr = to_lower (stripHex addr);
          sc = \<lparr>sc_Name = name, sc_Address = addr, sc_Type = contractType\<rparr>;
          d = dir_write (cleanAddr @ ''.json'') sc (cl_contracts s)
      in s\<lparr>cl_contracts := dir_write (''name_'' @ name @ ''.json'') sc d\<rparr>)"

definition loadContractFile :: "'w cli \<Rightarrow> string \<Rightarrow> savedContract option" where
  "loadContractFile s filename = dir_read (cl_contracts s) filename"

definition loadContractByName :: "'w cli \<Rightarrow> string \<Rightarrow> savedContract option" where
  "loadContractByName s name = loadContractFile s (''name_'' @ name @ ''.json'')"

definition loadContract :: "'w cli \<Rightarrow> string \<Rightarrow> savedContract option" where
  "loadContract s ref =
     (case loadContractByName s ref of
        Some sc \<Rightarrow> Some sc
      | None \<Rightarrow> loadContractFile s (to_lower (stripHex ref) @ ''.json''))"

definition listContracts :: "'w cli \<Rightarrow> savedContract list" where
  "listContracts s = filter (\<lambda>sc. sc_Address sc \<noteq> []) (json_files (cl_contracts s))"

text \<open>The listing shows each address once.\<close>

fun dedupe :: "string set \<Rightarrow> savedContract list \<Rightarrow> savedContract list" where
  "dedupe seen [] = []"
| "dedupe seen (sc # scs) =
     (let cleanAddr = to_lower (stripHex (sc_Address sc))
      in if cleanAddr \<in> seen then dedupe seen scs else sc # dedupe (insert cleanAddr seen) scs)"

definition cmdContracts :: "'w cli \<Rightarrow> savedContract list" where
  "cmdContracts s = dedupe {} (listContracts s)"

definition resolveContractAddr :: "string \<Rightarrow> cli_error + address" where
  "resolveContractAddr ref =
     (let clean = stripHex ref
      in if length clean = 40
         then (case hex_Decode clean of None \<Rightarrow> Inl (InvalidContract ref) | Some b \<Rightarrow> Inr (BytesToAddress b))
         else Inl (InvalidContract ref))"

section \<open>Names\<close>

definition resolveAddress :: "'w cli \<Rightarrow> string \<Rightarrow> cli_error + string" where
  "resolveAddress s ref =
     (let clean = stripHex ref
      in if length clean = 40 \<and> hex_Decode clean \<noteq> None then Inr clean
         else (case loadContract s ref of
                 Some sc \<Rightarrow> Inr (sc_Address sc)
               | None \<Rightarrow>
                   (case find (\<lambda>sk. to_lower (sk_Name sk) = to_lower ref \<or>
                                    has_prefix (trim_prefix (to_lower (sk_Address sk)) ''0x'') (to_lower clean)) (listKeys s) of
                      Some sk \<Rightarrow> Inr (sk_Address sk)
                    | None \<Rightarrow> Inl (CannotResolve ref))))"

definition resolveArg :: "'w cli \<Rightarrow> string \<Rightarrow> cli_error + uint64" where
  "resolveArg s arg =
     (let clean = stripHex arg
      in if length clean = 40 \<and> hex_Decode clean \<noteq> None then addrToCallerID clean
         else (case find (\<lambda>sk. to_lower (sk_Name sk) = to_lower arg) (listKeys s) of
                 Some sk \<Rightarrow> addrToCallerID (sk_Address sk)
               | None \<Rightarrow> mustParseUint arg ''arg''))"

section \<open>Pending transactions\<close>

definition is_space :: "char \<Rightarrow> bool" where
  "is_space c \<longleftrightarrow> (of_char c :: nat) \<in> {9, 10, 11, 12, 13, 32}"

definition trim_space :: "string \<Rightarrow> string" where
  "trim_space s = rev (dropWhile is_space (rev (dropWhile is_space s)))"

definition newline :: char where "newline = char_of (10 :: nat)"

fun split_lines :: "string \<Rightarrow> string list" where
  "split_lines [] = [[]]"
| "split_lines (c # s) =
     (if c = newline then [] # split_lines s
      else case split_lines s of [] \<Rightarrow> [[c]] | l # ls \<Rightarrow> (c # l) # ls)"

definition trackPending :: "string \<Rightarrow> 'w cli \<Rightarrow> 'w cli" where
  "trackPending txid s = s\<lparr>cl_pending := cl_pending s @ txid @ [newline]\<rparr>"

text \<open>A missing file reads like an empty one.\<close>

definition loadPending :: "'w cli \<Rightarrow> string list" where
  "loadPending s = filter (\<lambda>l. l \<noteq> []) (map trim_space (split_lines (trim_space (cl_pending s))))"

definition savePending :: "string list \<Rightarrow> 'w cli \<Rightarrow> 'w cli" where
  "savePending txids s = s\<lparr>cl_pending := (if txids = [] then [] else concat (map (\<lambda>t. t @ [newline]) txids))\<rparr>"

end
