(* ===== verification/Tyl_CLI_Cmd.thy ===== *)
theory Tyl_CLI_Cmd
  imports Tyl_CLI
begin

text \<open>
  The command line of \<open>cmd/tylcli/main.go\<close>, second part: the commands that build, sign and publish transactions, the
  purchase of a swap, and the queries. The node is the record \<open>node_api\<close> of its decoded replies, \<open>None\<close> for an
  error or a missing reply; what a command prints is its result.
\<close>

section \<open>Surroundings\<close>

record node_api =
  na_remote :: remote
  na_getReceipt :: "string \<Rightarrow> txEntry option option"
  na_getBalance :: "string \<Rightarrow> (uint64 \<times> uint64 option) option"
  na_recentTxs :: "int \<Rightarrow> int \<Rightarrow> txEntry list option"

text \<open>The answer of the swap daemon is a message of an error or the response.\<close>

record 'w env =
  en_x :: extern
  en_curve :: curve
  en_tweak :: "bytes \<Rightarrow> hash256 \<Rightarrow> bytes option"
  en_wallet :: "'w wallet"
  en_node :: node_api
  en_swapBuy :: "string \<Rightarrow> string \<Rightarrow> uint64 \<Rightarrow> string + BuyResponse"
  en_swapSell :: "uint64 \<Rightarrow> string \<Rightarrow> string + string"

abbreviation en_sha :: "'w env \<Rightarrow> hashfn" where "en_sha en \<equiv> sha256 (en_x en)"

abbreviation en_addr :: "'w env \<Rightarrow> bytes \<Rightarrow> address" where "en_addr en key \<equiv> key_address (en_x en) (en_curve en) key"

text \<open>A command changes the files and the wallet, also when it fails.\<close>

type_synonym ('w, 'a) cmd = "'w cli \<Rightarrow> (cli_error + 'a) \<times> 'w cli"

definition check :: "cli_error + 'a \<Rightarrow> ('a \<Rightarrow> ('w, 'b) cmd) \<Rightarrow> ('w, 'b) cmd" where
  "check r f s = (case r of Inl e \<Rightarrow> (Inl e, s) | Inr a \<Rightarrow> f a s)"

definition andDo :: "('w, 'a) cmd \<Rightarrow> ('a \<Rightarrow> ('w, 'b) cmd) \<Rightarrow> ('w, 'b) cmd" where
  "andDo m f s = (case m s of (Inl e, s) \<Rightarrow> (Inl e, s) | (Inr a, s) \<Rightarrow> f a s)"

definition fatal :: "cli_error \<Rightarrow> ('w, 'a) cmd" where
  "fatal e s = (Inl e, s)"

definition finish :: "'a \<Rightarrow> ('w, 'a) cmd" where
  "finish a s = (Inr a, s)"

definition update :: "('w cli \<Rightarrow> 'w cli) \<Rightarrow> ('w, unit) cmd" where
  "update f s = (Inr (), f s)"

section \<open>Reading the node\<close>

definition fetchNonce :: "'w env \<Rightarrow> address \<Rightarrow> cli_error + uint64" where
  "fetchNonce en addr =
     (case rm_getAccount (na_remote (en_node en)) (Address_Hex addr) of
        None \<Rightarrow> Inl (NoResult ''tyl_getAccount'')
      | Some (nonce, balance) \<Rightarrow> Inr nonce)"

definition low_uint64 :: "string \<Rightarrow> uint64" where
  "low_uint64 v = (let valBytes = hex_DecodeString (stripHex v) in if length valBytes < 32 then 0 else be_word (slice 24 8 valBytes))"

definition cli_readStorageUint64 :: "node_api \<Rightarrow> string \<Rightarrow> uint64 \<Rightarrow> cli_error + uint64" where
  "cli_readStorageUint64 n addrHex slot =
     (case rm_getStorage (na_remote n) addrHex (Hash256_Hex (putUint64 slot)) of
        None \<Rightarrow> Inl (NoResult ''tyl_getStorage'')
      | Some (v, _) \<Rightarrow> Inr (low_uint64 v))"

definition readStorageUint64Safe :: "node_api \<Rightarrow> string \<Rightarrow> uint64 \<Rightarrow> uint64" where
  "readStorageUint64Safe n addrHex slot =
     (case rm_getStorage (na_remote n) addrHex (Hash256_Hex (putUint64 slot)) of None \<Rightarrow> 0 | Some (v, _) \<Rightarrow> low_uint64 v)"

definition lookupReceipt :: "node_api \<Rightarrow> string \<Rightarrow> bool" where
  "lookupReceipt n txid \<longleftrightarrow> (case na_getReceipt n txid of Some (Some r) \<Rightarrow> True | _ \<Rightarrow> False)"

section \<open>Publishing\<close>

definition signTx :: "'w env \<Rightarrow> transaction \<Rightarrow> bytes \<Rightarrow> cli_error + transaction" where
  "signTx en tx key =
     (case Sign (en_x en) (SigningHash (en_sha en) tx) key of
        Inl e \<Rightarrow> Inl SigningError
      | Inr sig \<Rightarrow> Inr (tx\<lparr>tx_Signature := sig\<rparr>))"

definition depositTxIDFromL1 :: "hashfn \<Rightarrow> bytes \<Rightarrow> string \<Rightarrow> cli_error + string" where
  "depositTxIDFromL1 sha envelope l1txidHex =
     (case DecodeEnvelope envelope of
        Inl e \<Rightarrow> Inl DecodeDepositError
      | Inr env \<Rightarrow>
          (case DecodeDeposit (env_Payload env) of
             Inl e \<Rightarrow> Inl DecodeDepositError
           | Inr (recipient, amount) \<Rightarrow>
               let l1hash = BytesToHash256 (hex_DecodeString l1txidHex);
                   nonce = be_word (take 8 (hash_bytes l1hash));
                   tx = \<lparr>tx_Version = 1, tx_Nonce = nonce, tx_From = 0, tx_To = recipient, tx_Value = amount,
                         tx_GasPrice = 0, tx_GasLimit = 0, tx_Priority = 0, tx_Data = [], tx_Signature = 0\<rparr>
               in Inr (Hash256_Hex (TxID sha tx))))"

text \<open>The outcome of a command: the identifiers on the two chains after publishing, or the identifier and the envelope
  for \<open>--no-push\<close>; the identifier of a deposit is not known then.\<close>

datatype report = Published string string | Printed string string

definition do_push :: "'w env \<Rightarrow> bytes \<Rightarrow> uint64 \<Rightarrow> ('w, string) cmd" where
  "do_push en envelope burnSats s =
     (case push (en_sha en) (en_tweak en) (en_wallet en) (cl_wallet s) envelope burnSats of
        (Inl e, w) \<Rightarrow> (Inl (PushFailed e), s\<lparr>cl_wallet := w\<rparr>)
      | (Inr l1txid, w) \<Rightarrow> (Inr l1txid, s\<lparr>cl_wallet := w\<rparr>))"

definition pushAndReport :: "'w env \<Rightarrow> bytes \<Rightarrow> uint64 \<Rightarrow> string \<Rightarrow> ('w, report) cmd" where
  "pushAndReport en envelope burnSats txid =
     andDo (do_push en envelope burnSats) (\<lambda>l1txid.
     check (if txid = [] then depositTxIDFromL1 (en_sha en) envelope l1txid else Inr txid) (\<lambda>txid.
     andDo (update (trackPending txid)) (\<lambda>_.
     finish (Published l1txid txid))))"

text \<open>The common end of the commands for a signed transaction.\<close>

definition publish :: "'w env \<Rightarrow> flags \<Rightarrow> transaction \<Rightarrow> ('w, report) cmd" where
  "publish en flags tx =
     (let envelope = EncodeEnvelope EnvelopeTypeTx (EncodeTx tx); txid = Hash256_Hex (TxID (en_sha en) tx)
      in if flag flags ''no-push'' = [] then pushAndReport en envelope 0 txid
         else finish (Printed txid (hex_EncodeToString envelope)))"

definition new_tx :: "uint64 \<Rightarrow> address \<Rightarrow> address \<Rightarrow> uint64 \<Rightarrow> uint64 \<Rightarrow> uint64 \<Rightarrow> bytes \<Rightarrow> transaction" where
  "new_tx nonce addr target val gasPrice gasLimit data =
     \<lparr>tx_Version = 1, tx_Nonce = nonce, tx_From = addr, tx_To = target, tx_Value = val, tx_GasPrice = gasPrice,
      tx_GasLimit = gasLimit, tx_Priority = 0, tx_Data = data, tx_Signature = 0\<rparr>"

section \<open>Deposits, deployments and calls\<close>

definition cmdDeposit :: "'w env \<Rightarrow> string list \<Rightarrow> ('w, report) cmd" where
  "cmdDeposit en args s =
     (let (pos, flags) = parseFlags args
      in check (if length pos \<ge> 2 then andThen (mustParseUint (pos ! 1) ''amount'') (\<lambda>amount. Inr (pos ! 0, amount))
                else case flags ''amount'' of
                       None \<Rightarrow> Inr (flag flags ''to'', 0)
                     | Some v \<Rightarrow> andThen (mustParseUint v ''amount'') (\<lambda>amount. Inr (flag flags ''to'', amount))) (\<lambda>(toRef, amount).
         if toRef = [] then fatal Usage
         else if amount = 0 then fatal AmountMustBePositive
         else check (resolveAddress s toRef) (\<lambda>addrHex.
           let recipient = BytesToAddress (hex_DecodeString (stripHex addrHex));
               envelope = EncodeEnvelope EnvelopeTypeDeposit (EncodeDeposit recipient amount)
           in if flag flags ''no-push'' = [] then pushAndReport en envelope amount []
              else finish (Printed [] (hex_EncodeToString envelope)))) s)"

definition deploy_code :: "'w env \<Rightarrow> string list \<Rightarrow> flags \<Rightarrow> address \<Rightarrow> cli_error + bytes" where
  "deploy_code en pos flags addr =
     (if pos ! 0 = ''token'' then
        andThen (addrToCallerID (Address_Hex addr)) (\<lambda>ownerID.
        andThen (if length pos \<ge> 2 then mustParseUint (pos ! 1) ''max_supply'' else Inr 0) (\<lambda>maxSupply.
        andThen (case flags ''max-supply'' of None \<Rightarrow> Inr maxSupply | Some v \<Rightarrow> mustParseUint v ''max_supply'') (\<lambda>maxSupply.
        case BuildTokenContract ownerID maxSupply of None \<Rightarrow> Inl BuildPanic | Some code \<Rightarrow> Inr code)))
      else if pos ! 0 = ''amm'' then
        andThen (if length pos \<ge> 2 then mustParseUint (pos ! 1) ''fee'' else Inr 997) (\<lambda>fee.
        if flag flags ''token-a'' = [] then Inl TokenARequired
        else andThen (addrToCallerID (flag flags ''token-a'')) (\<lambda>tokenAID.
             case BuildAMMContract fee tokenAID of None \<Rightarrow> Inl BuildPanic | Some code \<Rightarrow> Inr code))
      else Inl (UnknownContractType (pos ! 0)))"

text \<open>The result has the address that is printed before the transaction is published.\<close>

definition cmdDeploy :: "'w env \<Rightarrow> string list \<Rightarrow> ('w, string \<times> report) cmd" where
  "cmdDeploy en args s =
     (let (pos, flags) = parseFlags args
      in if length pos < 1 then fatal Usage s
         else check (resolveSigningKey s (flag flags ''from'')) (\<lambda>key.
           let addr = en_addr en key
           in check (deploy_code en pos flags addr) (\<lambda>bytecode.
              check (fetchNonce en addr) (\<lambda>nonce.
              check (signTx en (new_tx nonce addr ZeroAddress 0 1 200000 bytecode) key) (\<lambda>tx.
              let contractAddr = deriveContractAddress (en_sha en) addr nonce
              in andDo (update (\<lambda>s. if flag flags ''name'' \<noteq> [] then saveContract (flag flags ''name'') (Address_Hex contractAddr) (pos ! 0) s else s)) (\<lambda>_.
                 andDo (publish en flags tx) (\<lambda>r.
                 finish (Address_Hex contractAddr, r))))))) s)"

definition fnSelectors :: "string \<rightharpoonup> uint64" where
  "fnSelectors =
     [''mint'' \<mapsto> FnMint, ''transfer'' \<mapsto> FnTransfer, ''balanceOf'' \<mapsto> FnBalanceOf, ''addLiquidity'' \<mapsto> AMMFnAddLiquidity,
      ''removeLiquidity'' \<mapsto> AMMFnRemoveLiquidity, ''swapAForB'' \<mapsto> AMMFnSwapAForB, ''swapBForA'' \<mapsto> AMMFnSwapBForA]"

definition resolve_selector :: "string \<Rightarrow> cli_error + uint64" where
  "resolve_selector fnName =
     (case fnSelectors fnName of
        Some selector \<Rightarrow> Inr selector
      | None \<Rightarrow> (case ParseUint 10 fnName of None \<Rightarrow> Inl (UnknownFunction fnName) | Some n \<Rightarrow> Inr n))"

fun resolve_args :: "'w cli \<Rightarrow> string list \<Rightarrow> cli_error + uint64 list" where
  "resolve_args s [] = Inr []"
| "resolve_args s (a # as) = andThen (resolveArg s a) (\<lambda>v. andThen (resolve_args s as) (\<lambda>vs. Inr (v # vs)))"

definition cmdCall :: "'w env \<Rightarrow> string list \<Rightarrow> ('w, report) cmd" where
  "cmdCall en args s =
     (let (pos, flags) = parseFlags args
      in if length pos < 2 then fatal Usage s
         else check (resolveContractAddr (pos ! 0)) (\<lambda>contractAddr.
              check (resolve_selector (pos ! 1)) (\<lambda>selector.
              check (resolve_args s (drop 2 pos)) (\<lambda>callArgs.
              check (resolveSigningKey s (flag flags ''from'')) (\<lambda>key.
              let addr = en_addr en key
              in check (fetchNonce en addr) (\<lambda>nonce.
                 check (case flags ''value'' of None \<Rightarrow> Inr 0 | Some v \<Rightarrow> mustParseUint v ''value'') (\<lambda>val.
                 check (signTx en (new_tx nonce addr contractAddr val 1 1000000 (PackCallData (selector # callArgs))) key) (\<lambda>tx.
                 publish en flags tx))))))) s)"

section \<open>Contracts with hash and time locks\<close>

abbreviation sysAddr :: string where "sysAddr \<equiv> Address_Hex HTLCSystemAddress"

definition htlc_base :: "uint64 \<Rightarrow> uint64" where
  "htlc_base htlcID = 10000 + htlcID * 14"

text \<open>The four words of a 32-byte value.\<close>

definition be_words :: "bytes \<Rightarrow> uint64 list" where
  "be_words b = [be_word (slice 0 8 b), be_word (slice 8 8 b), be_word (slice 16 8 b), be_word (slice 24 8 b)]"

definition checkHTLCPending :: "'w env \<Rightarrow> uint64 \<Rightarrow> string \<Rightarrow> ('w, unit) cmd" where
  "checkHTLCPending en htlcID op s =
     (case cl_htlcPending s (htlcID, op) of
        None \<Rightarrow> (Inr (), s)
      | Some data \<Rightarrow>
          let txid = trim_space data; removed = s\<lparr>cl_htlcPending := (cl_htlcPending s)((htlcID, op) := None)\<rparr>
          in if txid = [] then (Inr (), removed)
             else if lookupReceipt (en_node en) txid then (Inr (), removed)
             else (Inl (AlreadyPending txid), s))"

definition markHTLCPending :: "uint64 \<Rightarrow> string \<Rightarrow> string \<Rightarrow> 'w cli \<Rightarrow> 'w cli" where
  "markHTLCPending htlcID op txid s = s\<lparr>cl_htlcPending := (cl_htlcPending s)((htlcID, op) \<mapsto> txid @ [newline])\<rparr>"

text \<open>The identifier of a report on the second chain.\<close>

fun report_txid :: "report \<Rightarrow> string" where
  "report_txid (Published l1txid txid) = txid"
| "report_txid (Printed txid envelope) = txid"

definition cmdHTLCLock :: "'w env \<Rightarrow> string list \<Rightarrow> ('w, report) cmd" where
  "cmdHTLCLock en args s =
     (let (pos, flags) = parseFlags args
      in if length pos < 3 then fatal Usage s
         else check (resolveArg s (pos ! 0)) (\<lambda>recipientID.
              check (mustParseUint (pos ! 1) ''timelock'') (\<lambda>timelock.
              check (case hex_Decode (stripHex (pos ! 2)) of
                       None \<Rightarrow> Inl HashLength
                     | Some hashBytes \<Rightarrow> if length hashBytes \<noteq> 32 then Inl HashLength else Inr hashBytes) (\<lambda>hashBytes.
              check (if flag flags ''value'' = [] then Inl ValueRequired else mustParseUint (flag flags ''value'') ''value'') (\<lambda>amount.
              check (resolveSigningKey s (flag flags ''from'')) (\<lambda>key.
              let addr = en_addr en key; data = PackCallData ([HTLCFnLock, recipientID, timelock] @ be_words hashBytes)
              in check (fetchNonce en addr) (\<lambda>nonce.
                 check (signTx en (new_tx nonce addr HTLCSystemAddress amount 1 100000 data) key) (\<lambda>tx.
                 publish en flags tx))))))) s)"

text \<open>The check of the status on the chain before a claim or a refund.\<close>

definition require_pending :: "'w env \<Rightarrow> uint64 \<Rightarrow> cli_error + unit" where
  "require_pending en htlcID =
     andThen (cli_readStorageUint64 (en_node en) sysAddr (htlc_base htlcID + 8)) (\<lambda>status.
     if status \<noteq> 0 then Inl (NotPendingOnChain status) else Inr ())"

text \<open>Signing, publishing and the note that the operation is pending.\<close>

definition publish_op :: "'w env \<Rightarrow> flags \<Rightarrow> uint64 \<Rightarrow> string \<Rightarrow> (uint64 \<Rightarrow> address \<Rightarrow> transaction) \<Rightarrow> ('w, report) cmd" where
  "publish_op en flags htlcID op tx_of s =
     check (resolveSigningKey s (flag flags ''from'')) (\<lambda>key.
     let addr = en_addr en key
     in check (fetchNonce en addr) (\<lambda>nonce.
        check (signTx en (tx_of nonce addr) key) (\<lambda>tx.
        andDo (publish en flags tx) (\<lambda>r.
        andDo (update (if flag flags ''no-push'' = [] then markHTLCPending htlcID op (report_txid r) else id)) (\<lambda>_.
        finish r))))) s"

definition cmdHTLCClaim :: "'w env \<Rightarrow> string list \<Rightarrow> ('w, report) cmd" where
  "cmdHTLCClaim en args =
     (let (pos, flags) = parseFlags args
      in if length pos < 2 then fatal Usage
         else check (mustParseUint (pos ! 0) ''htlc_id'') (\<lambda>htlcID.
              check (require_pending en htlcID) (\<lambda>_.
              andDo (checkHTLCPending en htlcID ''claim'') (\<lambda>_.
              check (case hex_Decode (stripHex (pos ! 1)) of
                       None \<Rightarrow> Inl PreimageLength
                     | Some preimageBytes \<Rightarrow> if length preimageBytes \<noteq> 32 then Inl PreimageLength else Inr preimageBytes) (\<lambda>preimageBytes.
              publish_op en flags htlcID ''claim'' (\<lambda>nonce addr.
                new_tx nonce addr HTLCSystemAddress 0 0 0 (PackCallData ([HTLCFnClaim, htlcID] @ be_words preimageBytes)))))))) "

definition cmdHTLCRefund :: "'w env \<Rightarrow> string list \<Rightarrow> ('w, report) cmd" where
  "cmdHTLCRefund en args =
     (let (pos, flags) = parseFlags args
      in if length pos < 1 then fatal Usage
         else check (mustParseUint (pos ! 0) ''htlc_id'') (\<lambda>htlcID.
              check (require_pending en htlcID) (\<lambda>_.
              andDo (checkHTLCPending en htlcID ''refund'') (\<lambda>_.
              publish_op en flags htlcID ''refund'' (\<lambda>nonce addr.
                new_tx nonce addr HTLCSystemAddress 0 1 100000 (PackCallData [HTLCFnRefund, htlcID]))))))"

text \<open>The record that is printed; the preimage only for a claimed contract.\<close>

fun read_slots :: "node_api \<Rightarrow> uint64 list \<Rightarrow> cli_error + uint64 list" where
  "read_slots n [] = Inr []"
| "read_slots n (slot # slots) =
     andThen (cli_readStorageUint64 n sysAddr slot) (\<lambda>v. andThen (read_slots n slots) (\<lambda>vs. Inr (v # vs)))"

record htlc_print =
  hp_status :: uint64
  hp_sender :: uint64
  hp_recipient :: uint64
  hp_amount :: uint64
  hp_timelock :: uint64
  hp_hashlock :: string
  hp_preimage :: "string option"

definition cmdHTLCQuery :: "'w env \<Rightarrow> string list \<Rightarrow> cli_error + htlc_print" where
  "cmdHTLCQuery en args =
     (let (pos, _) = parseFlags args
      in if length pos < 1 then Inl Usage
         else andThen (mustParseUint (pos ! 0) ''htlc_id'') (\<lambda>htlcID.
              let base = htlc_base htlcID
              in andThen (read_slots (en_node en) [base + 0, base + 1, base + 2, base + 7, base + 8, base + 3, base + 4, base + 5, base + 6]) (\<lambda>vs.
                 let p = \<lparr>hp_status = vs ! 4, hp_sender = vs ! 0, hp_recipient = vs ! 1, hp_amount = vs ! 2, hp_timelock = vs ! 3,
                          hp_hashlock = hex_EncodeToString (words_hash (vs ! 5) (vs ! 6) (vs ! 7) (vs ! 8)), hp_preimage = None\<rparr>
                 in if vs ! 4 = 1 then
                      andThen (read_slots (en_node en) [base + 9, base + 10, base + 11, base + 12]) (\<lambda>ps.
                      Inr (p\<lparr>hp_preimage := Some (hex_EncodeToString (words_hash (ps ! 0) (ps ! 1) (ps ! 2) (ps ! 3)))\<rparr>))
                    else Inr p)))"

section \<open>Buying\<close>

datatype buy_result = StillWaiting | BuyClaimedAlready | BuyRefunded | BuyClaim report

definition saveSwapBuyState :: "uint64 \<Rightarrow> hash256 \<Rightarrow> string \<Rightarrow> 'w cli \<Rightarrow> 'w cli" where
  "saveSwapBuyState htlcID preimage invoice s =
     s\<lparr>cl_swapBuys := (cl_swapBuys s)(htlcID \<mapsto> \<lparr>sb_Preimage = preimage, sb_Invoice = invoice\<rparr>)\<rparr>"

definition loadSwapBuyState :: "'w cli \<Rightarrow> uint64 \<Rightarrow> swapBuyState option" where
  "loadSwapBuyState s htlcID = cl_swapBuys s htlcID"

text \<open>The claim of a contract that was seen on the chain.\<close>

definition submit_claim :: "'w env \<Rightarrow> uint64 \<Rightarrow> hash256 \<Rightarrow> bytes \<Rightarrow> ('w, buy_result) cmd" where
  "submit_claim en htlcID preimage key =
     (let addr = en_addr en key;
          slot = (\<lambda>k. readStorageUint64Safe (en_node en) sysAddr (htlc_base htlcID + k));
          status = slot 8;
          expectedHash = sha256 (en_x en) (hash_bytes preimage);
          onChainHash = words_hash (slot 3) (slot 4) (slot 5) (slot 6)
      in if status \<noteq> 0 then finish (if status = 1 then BuyClaimedAlready else BuyRefunded)
         else if hash_bytes expectedHash \<noteq> onChainHash then fatal HashlockMismatch
         else andDo (checkHTLCPending en htlcID ''claim'') (\<lambda>_.
              check (fetchNonce en addr) (\<lambda>nonce.
              check (signTx en (new_tx nonce addr HTLCSystemAddress 0 0 0
                      (PackCallData ([HTLCFnClaim, htlcID] @ be_words (hash_bytes preimage)))) key) (\<lambda>tx.
              let envelope = EncodeEnvelope EnvelopeTypeTx (EncodeTx tx); txid = Hash256_Hex (TxID (en_sha en) tx)
              in andDo (pushAndReport en envelope 0 txid) (\<lambda>r.
                 andDo (update (markHTLCPending htlcID ''claim'' txid)) (\<lambda>_.
                 finish (BuyClaim r)))))))"

text \<open>The polling loop, over the states of the node that it sees: the claim follows the first one in which the
  contract exists.\<close>

definition swapBuyWaitAndClaim :: "'w env \<Rightarrow> node_api list \<Rightarrow> uint64 \<Rightarrow> hash256 \<Rightarrow> bytes \<Rightarrow> ('w, buy_result) cmd" where
  "swapBuyWaitAndClaim en polls htlcID preimage key =
     (case dropWhile (\<lambda>n. readStorageUint64Safe n sysAddr (htlc_base htlcID + 2) = 0) polls of
        [] \<Rightarrow> finish StillWaiting
      | n # _ \<Rightarrow> submit_claim (en\<lparr>en_node := n\<rparr>) htlcID preimage key)"

definition cmdSwapBuyResume :: "'w env \<Rightarrow> node_api list \<Rightarrow> uint64 \<Rightarrow> flags \<Rightarrow> ('w, buy_result) cmd" where
  "cmdSwapBuyResume en polls htlcID flags s =
     (case loadSwapBuyState s htlcID of
        None \<Rightarrow> fatal NoSavedState s
      | Some state \<Rightarrow>
          check (resolveSigningKey s (flag flags ''from'')) (\<lambda>key.
          let status = readStorageUint64Safe (en_node en) sysAddr (htlc_base htlcID + 8)
          in if status = 1 then finish BuyClaimedAlready
             else if status = 2 then finish BuyRefunded
             else swapBuyWaitAndClaim en polls htlcID (sb_Preimage state) key) s)"

text \<open>\<open>preimage\<close> is the generated one.\<close>

definition cmdSwapBuy :: "'w env \<Rightarrow> hash256 \<Rightarrow> node_api list \<Rightarrow> string list \<Rightarrow> ('w, buy_result) cmd" where
  "cmdSwapBuy en preimage polls args s =
     (let (_, flags) = parseFlags args
      in if flag flags ''resume'' \<noteq> [] then
           check (mustParseUint (flag flags ''resume'') ''resume'') (\<lambda>htlcID. cmdSwapBuyResume en polls htlcID flags) s
         else if flag flags ''amount'' = [] then fatal Usage s
         else check (mustParseUint (flag flags ''amount'') ''amount'') (\<lambda>amount.
              check (resolveSigningKey s (flag flags ''from'')) (\<lambda>key.
              let addr = en_addr en key; hash = sha256 (en_x en) (hash_bytes preimage)
              in case en_swapBuy en (Hash256_Hex hash) (Address_Hex addr) amount of
                   Inl e \<Rightarrow> fatal (SwapDaemon e)
                 | Inr buyResp \<Rightarrow>
                     andDo (update (saveSwapBuyState (by_HTLCID buyResp) preimage (by_Invoice buyResp))) (\<lambda>_.
                     swapBuyWaitAndClaim en polls (by_HTLCID buyResp) preimage key))) s)"

definition cmdSwapSell :: "'w env \<Rightarrow> string list \<Rightarrow> cli_error + string" where
  "cmdSwapSell en args =
     (let (_, flags) = parseFlags args
      in if flag flags ''htlc'' = [] then Inl Usage
         else andThen (mustParseUint (flag flags ''htlc'') ''htlc'') (\<lambda>htlcID.
              if flag flags ''invoice'' = [] then Inl Usage
              else case en_swapSell en htlcID (flag flags ''invoice'') of Inl e \<Rightarrow> Inl (SwapDaemon e) | Inr swapID \<Rightarrow> Inr swapID))"

definition swapStateName :: "int \<Rightarrow> string" where
  "swapStateName state =
     (if state = 0 then ''created'' else if state = 1 then ''htlc_locked'' else if state = 2 then ''invoice_created''
      else if state = 3 then ''payment_in_flight'' else if state = 4 then ''claimed'' else if state = 5 then ''settled''
      else if state = 6 then ''refunded'' else if state = 7 then ''failed'' else if state = 8 then ''refund_submitted''
      else ''unknown('' @ (if state < 0 then ''-'' else []) @ show_nat (nat \<bar>state\<bar>) @ '')'')"

section \<open>Raw transactions\<close>

record raw_args =
  ra_tx :: transaction
  ra_from :: string
  ra_nonceSet :: bool

definition raw_flag :: "string \<Rightarrow> string \<Rightarrow> raw_args \<Rightarrow> cli_error + raw_args" where
  "raw_flag name v r =
     (let tx = ra_tx r in
      if name = ''--to'' then
        (case hex_Decode (stripHex v) of
           None \<Rightarrow> Inl (InvalidAddress v)
         | Some b \<Rightarrow> if length b \<noteq> 20 then Inl (InvalidAddress v) else Inr (r\<lparr>ra_tx := tx\<lparr>tx_To := BytesToAddress b\<rparr>\<rparr>))
      else if name = ''--value'' then andThen (mustParseUint v ''value'') (\<lambda>n. Inr (r\<lparr>ra_tx := tx\<lparr>tx_Value := n\<rparr>\<rparr>))
      else if name = ''--nonce'' then
        andThen (mustParseUint v ''nonce'') (\<lambda>n. Inr (r\<lparr>ra_tx := tx\<lparr>tx_Nonce := n\<rparr>, ra_nonceSet := True\<rparr>))
      else if name = ''--gasprice'' then andThen (mustParseUint v ''gasprice'') (\<lambda>n. Inr (r\<lparr>ra_tx := tx\<lparr>tx_GasPrice := n\<rparr>\<rparr>))
      else if name = ''--gaslimit'' then andThen (mustParseUint v ''gaslimit'') (\<lambda>n. Inr (r\<lparr>ra_tx := tx\<lparr>tx_GasLimit := n\<rparr>\<rparr>))
      else if name = ''--priority'' then andThen (mustParseUint v ''priority'') (\<lambda>n. Inr (r\<lparr>ra_tx := tx\<lparr>tx_Priority := ucast n\<rparr>\<rparr>))
      else if name = ''--data'' then
        (case hex_Decode (stripHex v) of None \<Rightarrow> Inl InvalidHex | Some d \<Rightarrow> Inr (r\<lparr>ra_tx := tx\<lparr>tx_Data := d\<rparr>\<rparr>))
      else if name = ''--from'' then Inr (r\<lparr>ra_from := v\<rparr>)
      else Inl (UnknownFlag name))"

fun raw_loop :: "string list \<Rightarrow> raw_args \<Rightarrow> cli_error + raw_args" where
  "raw_loop [] r = Inr r"
| "raw_loop [a] r = Inl (if take 2 a = ''--'' then FlagRequiresValue a else UnknownFlag a)"
| "raw_loop (a # v # args) r = andThen (raw_flag a v r) (raw_loop args)"

definition cmdTx :: "'w env \<Rightarrow> string list \<Rightarrow> 'w cli \<Rightarrow> cli_error + (string \<times> string \<times> string option \<times> string)" where
  "cmdTx en args s =
     andThen (raw_loop args \<lparr>ra_tx = new_tx 0 0 0 0 0 0 [], ra_from = [], ra_nonceSet = False\<rparr>) (\<lambda>r.
     let tx = ra_tx r;
         tx = (if tx_GasLimit tx = 0 then tx\<lparr>tx_GasLimit := 21000\<rparr> else tx);
         tx = (if tx_GasPrice tx = 0 then tx\<lparr>tx_GasPrice := 1\<rparr> else tx)
     in andThen (resolveSigningKey s (ra_from r)) (\<lambda>privKey.
        let tx = tx\<lparr>tx_From := en_addr en privKey\<rparr>
        in andThen (if ra_nonceSet r then Inr (tx_Nonce tx) else fetchNonce en (tx_From tx)) (\<lambda>nonce.
           andThen (signTx en (tx\<lparr>tx_Nonce := nonce\<rparr>) privKey) (\<lambda>tx.
           Inr (Hash256_Hex (TxID (en_sha en) tx), Address_Hex (tx_From tx),
                (if tx_To tx = 0 \<and> length (tx_Data tx) > 0 then Some (Address_Hex (deriveContractAddress (en_sha en) (tx_From tx) (tx_Nonce tx))) else None),
                hex_EncodeToString (EncodeEnvelope EnvelopeTypeTx (EncodeTx tx)))))))"

section \<open>Queries\<close>

text \<open>The status of a transaction: \<open>None\<close> while it is pending.\<close>

definition cmdStatus :: "'w env \<Rightarrow> string list \<Rightarrow> cli_error + txEntry option" where
  "cmdStatus en args =
     (if length args < 1 then Inl Usage
      else case na_getReceipt (en_node en) (stripHex (args ! 0)) of
             None \<Rightarrow> Inl (NoResult ''tyl_getReceipt'')
           | Some r \<Rightarrow> Inr r)"

text \<open>The pending identifiers that are shown, and the confirmed transactions. The notes about confirmed ones are
  removed, also when the request that follows fails.\<close>

definition cmdHistory :: "'w env \<Rightarrow> string list \<Rightarrow> ('w, string list \<times> txEntry list) cmd" where
  "cmdHistory en args s =
     (let (_, flags) = parseFlags args
      in check (case flags ''limit'' of None \<Rightarrow> Inr 20 | Some v \<Rightarrow> andThen (mustParseUint v ''limit'') (\<lambda>n. Inr (int64 (uint n)))) (\<lambda>limit.
         let pending = loadPending s;
             stillPending = filter (\<lambda>txid. \<not> lookupReceipt (en_node en) txid) pending;
             confirmed = filter (lookupReceipt (en_node en)) pending
         in andDo (update (if confirmed \<noteq> [] then savePending stillPending else id)) (\<lambda>_.
            check (case na_recentTxs (en_node en) 0 limit of None \<Rightarrow> Inl (NoResult ''tyl_recentTxs'') | Some txs \<Rightarrow> Inr txs) (\<lambda>txs.
            finish (stillPending, txs)))) s)"

text \<open>A slot of a contract with its finalized value. A text that is too short is padded on the left.\<close>

definition parseHash256Uint64 :: "string \<Rightarrow> uint64" where
  "parseHash256Uint64 hexStr =
     (let valBytes = hex_DecodeString (stripHex hexStr);
          valBytes = (if length valBytes < 32 then replicate (32 - length valBytes) 0 @ valBytes else valBytes)
      in be_word (slice 24 8 valBytes))"

definition queryStorageSlotFull :: "node_api \<Rightarrow> string \<Rightarrow> uint64 \<Rightarrow> uint64 \<times> uint64 option" where
  "queryStorageSlotFull n contractAddr slot =
     (case rm_getStorage (na_remote n) contractAddr (Hash256_Hex (putUint64 slot)) of
        None \<Rightarrow> (0, None)
      | Some (v, fv) \<Rightarrow> (parseHash256Uint64 v, map_option parseHash256Uint64 fv))"

text \<open>How final a value is: equal to the finalized one, or else the finalized one, if there is any.\<close>

datatype standing = IsFinalized | Unfinalized uint64 | NoAttestations

definition standing_of :: "uint64 \<Rightarrow> uint64 option \<Rightarrow> standing" where
  "standing_of v finalized =
     (case finalized of None \<Rightarrow> NoAttestations | Some f \<Rightarrow> if f = v then IsFinalized else Unfinalized f)"

text \<open>The pending difference of a balance, in signed arithmetic.\<close>

definition balance_diff :: "uint64 \<Rightarrow> uint64 option \<Rightarrow> int" where
  "balance_diff balance finalized =
     (case finalized of None \<Rightarrow> 0 | Some f \<Rightarrow> int64 (int64 (uint balance) - int64 (uint f)))"

text \<open>The part of the reserves that belongs to a provider; nothing is shown for an empty supply.\<close>

definition lp_shares :: "uint64 \<Rightarrow> uint64 \<Rightarrow> uint64 \<Rightarrow> uint64 \<Rightarrow> (uint64 \<times> uint64) option" where
  "lp_shares resA resB lp lpSupply =
     (if lpSupply > 0 \<and> lp < lpSupply then Some (resA * lp div lpSupply, resB * lp div lpSupply)
      else if lpSupply > 0 then Some (resA, resB)
      else None)"

text \<open>The lines of \<open>balance\<close>: the coins with their pending difference, tokens, and shares of exchanges.\<close>

datatype balance_line =
  Coins uint64 standing int
| TokenLine string uint64 standing
| ShareLine string uint64 "(uint64 \<times> uint64) option" standing

definition contract_line :: "node_api \<Rightarrow> uint64 \<Rightarrow> savedContract \<Rightarrow> cli_error + balance_line list" where
  "contract_line n callerID sc =
     (if sc_Type sc = ''token'' then
        let (v, f) = queryStorageSlotFull n (sc_Address sc) (SlotBalanceBase + callerID)
        in if v > 0 \<or> (case f of None \<Rightarrow> False | Some f \<Rightarrow> f > 0)
           then Inr [TokenLine (if sc_Name sc = [] then sc_Address sc else sc_Name sc) v (standing_of v f)]
           else Inr []
      else if sc_Type sc = ''amm'' then
        let (lp, f) = queryStorageSlotFull n (sc_Address sc) (AMMSlotLPBalBase + callerID)
        in if lp > 0 then
             let lpSupply = fst (queryStorageSlotFull n (sc_Address sc) AMMSlotLPSupply);
                 resA = fst (queryStorageSlotFull n (sc_Address sc) AMMSlotReserveA);
                 resB = fst (queryStorageSlotFull n (sc_Address sc) AMMSlotReserveB)
             in if sc_Name sc = [] \<and> length (sc_Address sc) < 12 then Inl IndexPanic
                else Inr [ShareLine (if sc_Name sc = [] then take 12 (sc_Address sc) @ ''...'' else sc_Name sc) lp
                            (lp_shares resA resB lp lpSupply) (standing_of lp f)]
           else Inr []
      else Inr [])"

fun contract_lines :: "node_api \<Rightarrow> uint64 \<Rightarrow> savedContract list \<Rightarrow> cli_error + balance_line list" where
  "contract_lines n callerID [] = Inr []"
| "contract_lines n callerID (sc # scs) =
     andThen (contract_line n callerID sc) (\<lambda>l. andThen (contract_lines n callerID scs) (\<lambda>ls. Inr (l @ ls)))"

definition cmdBalance :: "'w env \<Rightarrow> string list \<Rightarrow> 'w cli \<Rightarrow> cli_error + balance_line list" where
  "cmdBalance en args s =
     (if length args < 1 then Inl Usage
      else andThen (resolveAddress s (args ! 0)) (\<lambda>addr.
           case na_getBalance (en_node en) addr of
             None \<Rightarrow> Inl (NoResult ''tyl_getBalance'')
           | Some (balance, finalized) \<Rightarrow>
               andThen (addrToCallerID addr) (\<lambda>callerID.
               andThen (contract_lines (en_node en) callerID (dedupe {} (listContracts s))) (\<lambda>ls.
               Inr (Coins balance (standing_of balance finalized) (balance_diff balance finalized) # ls)))))"

section \<open>Global flags\<close>

text \<open>The settings of the program. Paths are the lists of the elements that are joined.\<close>

record settings =
  st_rpcEndpoint :: string
  st_swapdEndpoint :: string
  st_swapdAPIKey :: string
  st_btcRPC :: string
  st_btcUser :: string
  st_btcPass :: string
  st_btcWallet :: string
  st_keyDir :: "string list"
  st_contractDir :: "string list"
  st_pendingDir :: "string list"

definition set_global :: "string \<Rightarrow> string \<Rightarrow> settings \<Rightarrow> settings option" where
  "set_global name v st =
     (if name = ''--rpc'' then Some (st\<lparr>st_rpcEndpoint := v\<rparr>)
      else if name = ''--datadir'' then Some (st\<lparr>st_keyDir := [v, ''keys''], st_contractDir := [v, ''contracts'']\<rparr>)
      else if name = ''--keydir'' then Some (st\<lparr>st_keyDir := [v]\<rparr>)
      else if name = ''--btcrpc'' then Some (st\<lparr>st_btcRPC := v\<rparr>)
      else if name = ''--btcuser'' then Some (st\<lparr>st_btcUser := v\<rparr>)
      else if name = ''--btcpass'' then Some (st\<lparr>st_btcPass := v\<rparr>)
      else if name = ''--wallet'' then Some (st\<lparr>st_btcWallet := v\<rparr>)
      else if name = ''--swapd'' then Some (st\<lparr>st_swapdEndpoint := v\<rparr>)
      else if name = ''--swapd-key'' then Some (st\<lparr>st_swapdAPIKey := v\<rparr>)
      else None)"

text \<open>A global flag at the end indexes past the arguments.\<close>

fun extractGlobalFlags :: "string list \<Rightarrow> settings \<Rightarrow> cli_error + (string list \<times> settings)" where
  "extractGlobalFlags [] st = Inr ([], st)"
| "extractGlobalFlags [a] st = (case set_global a [] st of Some _ \<Rightarrow> Inl IndexPanic | None \<Rightarrow> Inr ([a], st))"
| "extractGlobalFlags (a # b # args) st =
     (case set_global a b st of
        Some st \<Rightarrow> extractGlobalFlags args st
      | None \<Rightarrow> andThen (extractGlobalFlags (b # args) st) (\<lambda>(rest, st). Inr (a # rest, st)))"

section \<open>tylbuild\<close>

text \<open>The program of \<open>cmd/tylbuild/main.go\<close>: the code of a contract in hexadecimal.\<close>

definition build_arg :: "string list \<Rightarrow> nat \<Rightarrow> uint64 \<Rightarrow> string \<Rightarrow> cli_error + uint64" where
  "build_arg args n dflt label =
     (if length args > n then (case ParseUint 10 (args ! n) of None \<Rightarrow> Inl (InvalidNumber label (args ! n)) | Some v \<Rightarrow> Inr v)
      else Inr dflt)"

definition tylbuild :: "string list \<Rightarrow> cli_error + string" where
  "tylbuild args =
     (if length args < 1 then Inl Usage
      else if args ! 0 = ''token'' then
        andThen (build_arg args 1 0 ''owner_id'') (\<lambda>ownerID.
        andThen (build_arg args 2 0 ''max_supply'') (\<lambda>maxSupply.
        case BuildTokenContract ownerID maxSupply of None \<Rightarrow> Inl BuildPanic | Some code \<Rightarrow> Inr (hex_EncodeToString code)))
      else if args ! 0 = ''amm'' then
        andThen (build_arg args 1 997 ''fee'') (\<lambda>fee.
        andThen (build_arg args 2 0 ''token_a_id'') (\<lambda>tokenAID.
        case BuildAMMContract fee tokenAID of None \<Rightarrow> Inl BuildPanic | Some code \<Rightarrow> Inr (hex_EncodeToString code)))
      else Inl Usage)"

end
