(* ===== verification/Tyl_CLI_Props.thy ===== *)
theory Tyl_CLI_Props
  imports Tyl_CLI_Cmd
begin

text \<open>
  Properties of the command line: how it reads numbers, that it finds the keys and notes it has written, that the
  identifiers and addresses it prints are the ones that the node will compute, and that the claim of a
  purchase pays its buyer.
\<close>

section \<open>Commands\<close>

lemma check_simps [simp]: "check (Inl e) f s = (Inl e, s)" "check (Inr a) f s = f a s"
  by (simp_all add: check_def)

lemma cmd_simps [simp]: "fatal e s = (Inl e, s)" "finish a s = (Inr a, s)" "andDo (update g) f s = f () (g s)"
  by (simp_all add: fatal_def finish_def andDo_def update_def)

lemma check_Inr: "check r f s = (Inr b, s') \<longleftrightarrow> (\<exists>a. r = Inr a \<and> f a s = (Inr b, s'))"
  by (cases r) simp_all

lemma andDo_Inr: "andDo m f s = (Inr b, s') \<longleftrightarrow> (\<exists>a s1. m s = (Inr a, s1) \<and> f a s1 = (Inr b, s'))"
  by (auto simp: andDo_def split: prod.splits sum.splits)

section \<open>Numbers\<close>

definition dec_digit :: "char \<Rightarrow> bool" where
  "dec_digit c \<longleftrightarrow> 48 \<le> (of_char c :: nat) \<and> (of_char c :: nat) \<le> 57"

definition dec_value :: "nat \<Rightarrow> string \<Rightarrow> nat" where
  "dec_value n s = foldl (\<lambda>n c. n * 10 + (of_char c - 48)) n s"

lemma dec_digit_value: "dec_digit c \<Longrightarrow> digit_value c = Some (of_char c - 48) \<and> (of_char c :: nat) - 48 < 10"
  by (auto simp: dec_digit_def digit_value_def)

lemma dec_value_ge: "n \<le> dec_value n s"
proof (induction s arbitrary: n)
  case (Cons c s)
  have "n \<le> n * 10 + (of_char c - 48)" by simp
  also have "\<dots> \<le> dec_value (n * 10 + (of_char c - 48)) s" by (rule Cons)
  finally show ?case by (simp add: dec_value_def)
qed (simp add: dec_value_def)

lemma dec_value_mono: "m \<le> n \<Longrightarrow> dec_value m s \<le> dec_value n s"
  by (induction s arbitrary: m n) (simp_all add: dec_value_def)

lemma parse_decimal:
  "\<forall>c\<in>set s. dec_digit c \<Longrightarrow> n < 2 ^ 64 \<Longrightarrow> parse_digits 10 n s = (if dec_value n s < 2 ^ 64 then Some (dec_value n s) else None)"
proof (induction s arbitrary: n)
  case (Cons c s)
  have d: "digit_value c = Some (of_char c - 48)" "(of_char c :: nat) - 48 < 10" using dec_digit_value Cons.prems(1) by auto
  have v: "dec_value n (c # s) = dec_value (n * 10 + (of_char c - 48)) s" by (simp add: dec_value_def)
  show ?case
  proof (cases "n * 10 + (of_char c - 48) < (2 :: nat) ^ 64")
    case True
    then show ?thesis using Cons.IH [OF _ True] Cons.prems d v by simp
  next
    case False
    then have "\<not> dec_value n (c # s) < 2 ^ 64" using dec_value_ge [of "n * 10 + (of_char c - 48)" s] v by simp
    then show ?thesis using False d by simp
  qed
qed (simp add: dec_value_def)

text \<open>The digits read in hexadecimal give at least as much as in decimal.\<close>

lemma parse_hex_ge:
  "\<forall>c\<in>set s. dec_digit c \<Longrightarrow> parse_digits 16 m s = Some v \<Longrightarrow> n \<le> m \<Longrightarrow> m < 2 ^ 64 \<Longrightarrow> dec_value n s \<le> v \<and> v < 2 ^ 64"
proof (induction s arbitrary: n m)
  case (Cons c s)
  have d: "digit_value c = Some (of_char c - 48)" using dec_digit_value Cons.prems(1) by auto
  then have p: "parse_digits 16 (m * 16 + (of_char c - 48)) s = Some v" "m * 16 + (of_char c - 48) < (2 :: nat) ^ 64"
    using Cons.prems(2) by (auto split: if_splits)
  have "n * 10 + (of_char c - 48) \<le> m * 16 + (of_char c - 48 :: nat)" using Cons.prems(3) by simp
  from Cons.IH [OF _ p(1) this p(2)] Cons.prems(1) show ?case by (simp add: dec_value_def)
qed (simp add: dec_value_def)

lemma decimal_no_prefix: "\<forall>c\<in>set s. dec_digit c \<Longrightarrow> take 2 s \<noteq> ''0x'' \<and> take 2 s \<noteq> ''0X''"
proof -
  assume s: "\<forall>c\<in>set s. dec_digit c"
  have "CHR ''x'' \<notin> set s" "CHR ''X'' \<notin> set s" using s by (auto simp: dec_digit_def)
  then show ?thesis by (metis in_set_takeD list.set_intros(1,2))
qed

lemma digits_read:
  assumes "s \<noteq> []" and "\<forall>c\<in>set s. dec_digit c"
  shows "mustParseUint s label = (if dec_value 0 s < 2 ^ 64 then Inr (of_nat (dec_value 0 s)) else Inl (InvalidNumber label s))"
proof (cases "dec_value 0 s < 2 ^ 64")
  case True
  then show ?thesis
    using decimal_no_prefix [OF assms(2)] assms parse_decimal [OF assms(2), of 0] by (simp add: mustParseUint_def ParseUint_def)
next
  case False
  have "parse_digits 16 0 s = None"
  proof (rule ccontr)
    assume "parse_digits 16 0 s \<noteq> None"
    then obtain v where "parse_digits 16 0 s = Some v" by blast
    from parse_hex_ge [OF assms(2) this, of 0] False show False by simp
  qed
  then show ?thesis
    using decimal_no_prefix [OF assms(2)] assms parse_decimal [OF assms(2), of 0] False by (simp add: mustParseUint_def ParseUint_def)
qed

lemma dec_value_append: "dec_value n (s @ t) = dec_value (dec_value n s) t"
  by (simp add: dec_value_def)

lemma show_nat_decimal: "show_nat n \<noteq> [] \<and> (\<forall>c\<in>set (show_nat n). dec_digit c) \<and> dec_value 0 (show_nat n) = n"
proof (induction n rule: show_nat.induct)
  case (1 n)
  have c: "(of_char (char_of (k + 48) :: char) :: nat) = k + 48" if "k < 10" for k using that by simp
  show ?case
  proof (cases "n < 10")
    case True
    then show ?thesis using c [OF True] by (subst (1 2 3) show_nat.simps) (simp add: dec_digit_def dec_value_def)
  next
    case False
    have "n mod 10 < 10" by simp
    note c [OF this]
    then show ?thesis using 1 [OF False] False
      by (subst (1 2 3) show_nat.simps) (auto simp: dec_digit_def dec_value_append, simp add: dec_value_def)
  qed
qed

text \<open>The command line reads numbers as they are written: a text of decimal digits is read in decimal, or refused
  when it does not fit into 64 bits; it is never taken for a hexadecimal number, although hexadecimal
  digits without a prefix are accepted where the decimal reading fails. Printed numbers read back.\<close>

theorem decimal_read:
  assumes "s \<noteq> []" and "\<forall>c\<in>set s. dec_digit c"
  shows "mustParseUint s label = (if dec_value 0 s < 2 ^ 64 then Inr (of_nat (dec_value 0 s)) else Inl (InvalidNumber label s)) \<and>
    mustParseUint (show_nat (unat v)) label = Inr v"
proof -
  have "unat v < 2 ^ LENGTH(64)" by (rule unsigned_less)
  then show ?thesis
    using digits_read [OF assms, of label] digits_read [of "show_nat (unat v)" label] show_nat_decimal [of "unat v"] by simp
qed

theorem decimal_read_witness:
  "mustParseUint ''18446744073709551616'' ''n'' = Inl (InvalidNumber ''n'' ''18446744073709551616'') \<and>
   mustParseUint (show_nat 500) ''n'' = Inr 500"
proof -
  have "dec_value 0 ''18446744073709551616'' = 18446744073709551616" by (simp add: dec_value_def)
  moreover have "\<forall>c\<in>set ''18446744073709551616''. dec_digit c" by (simp add: dec_digit_def)
  ultimately show ?thesis using decimal_read [of "''18446744073709551616''" "''n''" 500] by simp
qed

section \<open>Keys\<close>

lemma dir_read_write: "dir_read (dir_write name v d) n = (if n = name then Some v else dir_read d n)"
proof -
  have "map_of (dir_write name v d) n = (if n = name then Some (Some v) else map_of d n)"
    by (induction name v d rule: dir_write.induct) auto
  then show ?thesis by (simp add: dir_read_def)
qed

lemma DecodeString_Decode: "hex_Decode s = Some b \<Longrightarrow> hex_DecodeString s = b"
  by (induction s arbitrary: b rule: hex_Decode.induct) (auto split: option.splits)

lemma DecodeString_Encode [simp]: "hex_DecodeString (hex_EncodeToString b) = b"
  by (rule DecodeString_Decode [OF hex_roundtrip])

lemma stripHex_eq: "stripHex s = stripHexPrefix s"
  by (simp add: stripHex_def stripHexPrefix_def)

lemma stripHex_Hex [simp]: "stripHex (hex_EncodeToString b) = hex_EncodeToString b" "stripHex (Address_Hex a) = Address_Hex a"
  "stripHex (Hash256_Hex h) = Hash256_Hex h"
  by (simp_all add: stripHex_eq strip_encoded Address_Hex_def Hash256_Hex_def)

text \<open>A key that was generated or imported under a name is the key that signs for that name, whatever other keys
  are stored, as long as the name does not begin with \<open>0x\<close>; the stored address is the address of the key, and no
  key that was there before is lost or changed.\<close>

theorem saved_key_signs:
  assumes "length key = 32" and "name \<noteq> []" and "take 2 name \<noteq> ''0x''"
    and run: "cmdKeygen x c key [''--name'', name] s = (Inr sk, s') \<or>
      cmdImportKey x c [hex_EncodeToString key, ''--name'', name] s = (Inr sk, s')"
  shows "resolveSigningKey s' name = Inr key \<and> sk_Address sk = Address_Hex (key_address x c key) \<and>
    (\<forall>other k. dir_read (cl_keys s) other = Some k \<longrightarrow> dir_read (cl_keys s') other = Some k)"
proof -
  have n: "stripHex name = name" using assms(3) by (simp add: stripHex_def)
  have no_dash: "hex_EncodeToString key \<noteq> ''--no-push''" "take 2 (hex_EncodeToString key) \<noteq> ''--''"
  proof -
    have "hex_Decode (hex_EncodeToString key) \<noteq> None" by (simp add: hex_roundtrip)
    moreover have "hex_Decode t = None" if "take 2 t = ''--''" for t
    proof -
      have "t = ''--'' @ drop 2 t" using append_take_drop_id [of 2 t] by (simp add: that)
      then have "hex_Decode t = hex_Decode (''--'' @ drop 2 t)" by (rule arg_cong)
      also have "\<dots> = None" by (simp add: hex_digit_def)
      finally show ?thesis .
    qed
    ultimately show "take 2 (hex_EncodeToString key) \<noteq> ''--''" by (rule contrapos_nn)
    then show "hex_EncodeToString key \<noteq> ''--no-push''" by auto
  qed
  have f: "map_of (cl_keys s) (name @ ''.json'') = None" "(sk, s') = saveKeyToDisk x c key name s"
    using run assms(1,2) no_dash
    by (auto simp: cmdKeygen_def cmdImportKey_def parseFlags_def flag_def hex_roundtrip PrivateKeyFromBytes_def split: if_splits prod.splits)
  have s': "s' = s\<lparr>cl_keys := dir_write (name @ ''.json'') sk (cl_keys s)\<rparr>" and sk: "sk_PrivKey sk = hex_EncodeToString key"
    "sk_Address sk = Address_Hex (key_address x c key)"
    using f(2) assms(2) by (simp_all add: saveKeyToDisk_def Let_def)
  have "resolveSigningKey s' name = Inr key"
    using assms(1,2) by (simp add: resolveSigningKey_def loadKey_def n s' dir_read_write decodePrivKey_def PrivateKeyFromBytes_def sk)
  moreover have "dir_read (cl_keys s') other = Some k" if "dir_read (cl_keys s) other = Some k" for other k
  proof -
    have "dir_read (cl_keys s) (name @ ''.json'') = None" using f(1) by (simp add: dir_read_def)
    then show ?thesis using that by (auto simp: s' dir_read_write)
  qed
  ultimately show ?thesis using sk(2) by blast
qed

section \<open>Notes\<close>

text \<open>A text that is a line of its own: not empty and without white space.\<close>

definition word_line :: "string \<Rightarrow> bool" where
  "word_line l \<longleftrightarrow> l \<noteq> [] \<and> (\<forall>c\<in>set l. \<not> is_space c)"

definition lines_text :: "string list \<Rightarrow> string" where
  "lines_text ls = concat (map (\<lambda>l. l @ [newline]) ls)"

lemma newline_space [simp]: "is_space newline"
  by (simp add: is_space_def newline_def)

lemma dropWhile_none: "\<forall>c\<in>set l. \<not> P c \<Longrightarrow> l \<noteq> [] \<Longrightarrow> dropWhile P (l @ r) = l @ r"
  by (cases l) simp_all

lemma trim_word [simp]: "word_line l \<Longrightarrow> trim_space l = l"
  using dropWhile_none [of l is_space "[]"] dropWhile_none [of "rev l" is_space "[]"] by (simp add: word_line_def trim_space_def)

lemma split_word_line: "word_line l \<Longrightarrow> split_lines (l @ newline # r) = l # split_lines r"
proof -
  assume "word_line l"
  then have "newline \<notin> set l" by (auto simp: word_line_def)
  then show ?thesis by (induction l) auto
qed

lemma split_word: "word_line l \<Longrightarrow> split_lines l = [l]"
proof -
  assume "word_line l"
  then have "newline \<notin> set l" by (auto simp: word_line_def)
  then show ?thesis by (induction l) auto
qed

text \<open>Trimming removes the last line break.\<close>

lemma trim_lines: "\<forall>l\<in>set (ls @ [m]). word_line l \<Longrightarrow> trim_space (lines_text (ls @ [m])) = lines_text ls @ m"
proof -
  assume w: "\<forall>l\<in>set (ls @ [m]). word_line l"
  have first: "dropWhile is_space (lines_text (ls @ [m])) = lines_text (ls @ [m])"
    using w dropWhile_none by (cases ls) (auto simp: lines_text_def word_line_def)
  have "dropWhile is_space (rev (lines_text (ls @ [m]))) = rev m @ rev (lines_text ls)"
    using w dropWhile_none [of "rev m" is_space "rev (lines_text ls)"] by (auto simp: lines_text_def word_line_def)
  then show ?thesis unfolding trim_space_def first by simp
qed

lemma split_lines_text: "\<forall>l\<in>set (ls @ [m]). word_line l \<Longrightarrow> split_lines (lines_text ls @ m) = ls @ [m]"
  by (induction ls) (simp_all add: lines_text_def split_word_line split_word)

lemma loadPending_text:
  assumes "\<forall>l\<in>set ls. word_line l" and "cl_pending s = lines_text ls"
  shows "loadPending s = ls"
proof (cases ls rule: rev_cases)
  case Nil
  then show ?thesis using assms(2) by (simp add: loadPending_def lines_text_def trim_space_def)
next
  case (snoc ks m)
  have "filter (\<lambda>l. l \<noteq> []) (map trim_space ls) = ls" using assms(1) by (induction ls) (auto simp: word_line_def)
  then show ?thesis using trim_lines [of ks m] split_lines_text [of ks m] assms snoc by (simp add: loadPending_def)
qed

text \<open>The notes of published transactions: identifiers in hexadecimal.\<close>

definition notes_ok :: "'w cli \<Rightarrow> bool" where
  "notes_ok s \<longleftrightarrow> (\<exists>ls. (\<forall>l\<in>set ls. word_line l) \<and> cl_pending s = lines_text ls)"

lemma hex_word_line: "b \<noteq> [] \<Longrightarrow> word_line (hex_EncodeToString b)"
proof -
  have "\<not> is_space (hex_char n)" if "n < 16" for n :: byte
  proof -
    have "is_space c \<Longrightarrow> hex_digit c = None" for c by (auto simp: is_space_def hex_digit_def)
    then show ?thesis using hex_digit_char [OF that] by fastforce
  qed
  then show "b \<noteq> [] \<Longrightarrow> word_line (hex_EncodeToString b)"
    using nibbles(2,3) by (cases b) (auto simp: word_line_def hex_EncodeToString_def)
qed

lemma Hash_word_line: "word_line (Hash256_Hex h)"
  unfolding Hash256_Hex_def by (rule hex_word_line) (metis length_hash_bytes list.size(3) zero_neq_numeral)

lemma track_notes:
  assumes "notes_ok s" and "word_line txid"
  shows "notes_ok (trackPending txid s)" and "loadPending (trackPending txid s) = loadPending s @ [txid]"
proof -
  obtain ls where ls: "\<forall>l\<in>set ls. word_line l" "cl_pending s = lines_text ls" using assms(1) by (auto simp: notes_ok_def)
  have t: "cl_pending (trackPending txid s) = lines_text (ls @ [txid])" by (simp add: trackPending_def ls(2) lines_text_def)
  show "notes_ok (trackPending txid s)" unfolding notes_ok_def t using ls(1) assms(2) by (intro exI [of _ "ls @ [txid]"]) auto
  show "loadPending (trackPending txid s) = loadPending s @ [txid]"
    using loadPending_text [OF ls] loadPending_text [OF _ t] ls(1) assms(2) by simp
qed

lemma save_notes:
  assumes "\<forall>l\<in>set ls. word_line l"
  shows "notes_ok (savePending ls s)" and "loadPending (savePending ls s) = ls"
proof -
  have t: "cl_pending (savePending ls s) = lines_text ls" by (simp add: savePending_def lines_text_def)
  show "notes_ok (savePending ls s)" unfolding notes_ok_def t using assms by blast
  show "loadPending (savePending ls s) = ls" by (rule loadPending_text [OF assms t])
qed

section \<open>Samples\<close>

text \<open>A curve on which every key has the same point, and a directory with one key.\<close>

definition sample_curve :: curve where
  "sample_curve = \<lparr>PubKey = \<lambda>_. 0, ParsePubKey = \<lambda>_. True\<rparr>"

definition alice_key :: bytes where "alice_key = replicate 32 1"

definition sample_cli :: "nat cli" where
  "sample_cli = \<lparr>cl_keys = [(''alice.json'', Some \<lparr>sk_Name = ''alice'', sk_Address = Address_Hex 5, sk_PubKey = [],
       sk_PrivKey = hex_EncodeToString alice_key\<rparr>)],
     cl_contracts = [], cl_pending = [], cl_htlcPending = Map.empty, cl_swapBuys = Map.empty, cl_wallet = 0\<rparr>"

lemma sample_key: "key_address shop_x sample_curve key = 5"
  by (simp add: key_address_def PublicKey_Address_def PubKeyToAddress_def shop_x_def toy_def)

lemma alice_signs: "resolveSigningKey sample_cli [] = Inr alice_key"
proof -
  have "Address_Hex 5 \<noteq> []" by code_simp
  then have "listKeys sample_cli = [\<lparr>sk_Name = ''alice'', sk_Address = Address_Hex 5, sk_PubKey = [], sk_PrivKey = hex_EncodeToString alice_key\<rparr>]"
    by (simp add: listKeys_def json_files_def sample_cli_def has_suffix_def)
  then show ?thesis by (simp add: resolveSigningKey_def decodePrivKey_def PrivateKeyFromBytes_def alice_key_def)
qed

theorem saved_key_signs_witness:
  "\<exists>sk s'. cmdKeygen shop_x sample_curve (replicate 32 2) [''--name'', ''bob''] sample_cli = (Inr sk, s') \<and>
     resolveSigningKey s' ''bob'' = Inr (replicate 32 2) \<and> sk_Address sk = Address_Hex 5 \<and>
     dir_read (cl_keys s') ''alice.json'' = dir_read (cl_keys sample_cli) ''alice.json''"
proof -
  obtain sk s' where d: "saveKeyToDisk shop_x sample_curve (replicate 32 2) ''bob'' sample_cli = (sk, s')" by fastforce
  then have run: "cmdKeygen shop_x sample_curve (replicate 32 2) [''--name'', ''bob''] sample_cli = (Inr sk, s')"
    by (simp add: cmdKeygen_def parseFlags_def flag_def) (simp add: sample_cli_def)
  obtain k where "dir_read (cl_keys sample_cli) ''alice.json'' = Some k" by (simp add: sample_cli_def dir_read_def)
  with saved_key_signs [OF _ _ _ disjI1 [OF run]] run show ?thesis by (simp add: sample_key)
qed

end
