(* ===== verification/Tyl_CLI_Tx.thy ===== *)
theory Tyl_CLI_Tx
  imports Tyl_CLI_Props "HOL-Library.Sublist"
begin

text \<open>
  The transactions that the command line publishes and what becomes of them on the node: deposits under the identifier
  that was printed (unless the amount was misread on the way), contracts at the address that was printed,
  and claims that pay.
\<close>

section \<open>Publishing\<close>

lemma pushed:
  assumes "pushAndReport en envelope burnSats txid s = (Inr r, s')"
  shows "\<exists>l1 t w. push (en_sha en) (en_tweak en) (en_wallet en) (cl_wallet s) envelope burnSats = (Inr l1, w) \<and>
    (if txid = [] then depositTxIDFromL1 (en_sha en) envelope l1 else Inr txid) = Inr t \<and>
    r = Published l1 t \<and> s' = trackPending t (s\<lparr>cl_wallet := w\<rparr>)"
  using assms by (auto simp: pushAndReport_def andDo_Inr check_Inr do_push_def split: prod.splits sum.splits)

text \<open>What is printed or published for a signed transaction.\<close>

definition sent :: "'w env \<Rightarrow> 'w cli \<Rightarrow> transaction \<Rightarrow> report \<Rightarrow> bool" where
  "sent en s tx r \<longleftrightarrow>
     (let env = EncodeEnvelope EnvelopeTypeTx (EncodeTx tx); txid = Hash256_Hex (TxID (en_sha en) tx)
      in r = Printed txid (hex_EncodeToString env) \<or>
         (\<exists>l1 w. r = Published l1 txid \<and> push (en_sha en) (en_tweak en) (en_wallet en) (cl_wallet s) env 0 = (Inr l1, w)))"

lemma pushed_tx:
  assumes "pushAndReport en (EncodeEnvelope EnvelopeTypeTx (EncodeTx tx)) 0 (Hash256_Hex (TxID (en_sha en) tx)) s = (Inr r, s')"
  shows "sent en s tx r \<and> (\<exists>l1 w. r = Published l1 (Hash256_Hex (TxID (en_sha en) tx)) \<and>
    s' = trackPending (Hash256_Hex (TxID (en_sha en) tx)) (s\<lparr>cl_wallet := w\<rparr>))"
proof -
  obtain l1 t w where p: "push (en_sha en) (en_tweak en) (en_wallet en) (cl_wallet s) (EncodeEnvelope EnvelopeTypeTx (EncodeTx tx)) 0 = (Inr l1, w)"
    "t = Hash256_Hex (TxID (en_sha en) tx)" "r = Published l1 t" "s' = trackPending t (s\<lparr>cl_wallet := w\<rparr>)"
    using pushed [OF assms] by (auto simp: Hash256_Hex_nonempty)
  then have "sent en s tx r" by (simp add: sent_def)
  with p(2-4) show ?thesis by blast
qed

lemma publish_sent:
  assumes "publish en flags tx s = (Inr r, s')"
  shows "sent en s tx r"
  using assms pushed_tx [of en tx s r s'] by (auto simp: publish_def Let_def sent_def split: if_splits)

lemma signed:
  assumes "signTx en tx key = Inr tx'"
  obtains sg where "Sign (en_x en) (SigningHash (en_sha en) tx) key = Inr sg" and "tx' = tx\<lparr>tx_Signature := sg\<rparr>"
  using assms that by (auto simp: signTx_def split: sum.splits)

text \<open>The nonce is that of the account, on the state that the node has.\<close>

lemma fetchNonce_node:
  assumes "na_remote (en_node en) = node_remote n"
  shows "fetchNonce en a = Inr (acct_Nonce (GetOrCreateAccount (hd_sha n) (hd_stateDB n) a))"
  using client_reads [of n _ a] by (simp add: fetchNonce_def rpc_GetAccount_def assms)

section \<open>Deposits\<close>

lemma deposit_id:
  "depositTxIDFromL1 sha (deposit_envelope a v) l1 =
     Inr (Hash256_Hex (TxID sha (deposit_tx (btcTxNonce (BytesToHash256 (hex_DecodeString l1))) a v)))"
  using DecodeDeposit_EncodeDeposit [of a v "[]"]
  by (simp add: depositTxIDFromL1_def decode_deposit_envelope btcTxNonce_def deposit_tx_def Let_def)

lemma length_deposit: "length (deposit_envelope a v) = 37"
  by (simp add: EncodeDeposit_def)

lemma deposit_scanned:
  assumes "0 < v" and "0 < burned"
  shows "extract_output k \<lparr>out_Script = buildOpReturnScript (deposit_envelope a v), out_Value = burned\<rparr> (txs, cps) =
    Some (txs @ [deposit_tx k a (min v burned)], cps)"
proof -
  let ?e = "\<lparr>env_Magic = Magic, env_Type = EnvelopeTypeDeposit, env_Payload = EncodeDeposit a v\<rparr>"
  have ok: "env_ok ?e" by (simp add: env_ok_def)
  have script: "buildOpReturnScript (deposit_envelope a v) = 0x6a # 37 # deposit_envelope a v"
    by (simp add: buildOpReturnScript_def length_deposit)
  have "scanForMagic (37 # deposit_envelope a v) = Some [deposit_envelope a v]"
    using scan_envelope [OF ok, of "[]" "[37]"] index_push(1) [of 37 ?e "[]"] by (simp add: scan_none [of "[]"] Magic_def)
  moreover have "min v burned \<noteq> 0" using assms by (simp add: min_def word_gt_0)
  ultimately show ?thesis
    by (simp add: extract_output_def script scan_bytes_def decode_deposit_envelope process_deposit)
qed

text \<open>C35: a published deposit burns its amount in an output whose script the scanner reads as the deposit: whatever
  amount the scanner sees burned, it credits the smaller of that and the requested amount to the
  recipient. The identifier that the command line prints and notes is the one of the credited deposit
  when the scanner sees the full amount.\<close>

theorem deposit_reported:
  assumes "cmdDeposit en args s = (Inr (Published l1 txid), s')"
    and "hex_Decode l1 = Some b" and k: "k = btcTxNonce (BytesToHash256 (hexToBytes l1))"
  shows "\<exists>recipient amount signed w. 0 < amount \<and>
    fund_sign_send (en_wallet en) (cl_wallet s)
      (buildFundingTx (buildOpReturnScript (EncodeEnvelope EnvelopeTypeDeposit (EncodeDeposit recipient amount))) amount) = (Inr (l1, signed), w) \<and>
    s' = trackPending txid (s\<lparr>cl_wallet := w\<rparr>) \<and>
    txid = Hash256_Hex (TxID (en_sha en) (deposit_tx k recipient amount)) \<and>
    (\<forall>burned txs cps. 0 < burned \<longrightarrow>
      extract_output k \<lparr>out_Script = buildOpReturnScript (EncodeEnvelope EnvelopeTypeDeposit (EncodeDeposit recipient amount)), out_Value = burned\<rparr>
        (txs, cps) = Some (txs @ [deposit_tx k recipient (min amount burned)], cps))"
proof -
  obtain recipient amount where p: "0 < amount" "pushAndReport en (deposit_envelope recipient amount) amount [] s = (Inr (Published l1 txid), s')"
    using assms(1) by (auto simp: cmdDeposit_def check_Inr word_gt_0 Let_def split: prod.splits if_splits)
  obtain w where w: "push (en_sha en) (en_tweak en) (en_wallet en) (cl_wallet s) (deposit_envelope recipient amount) amount = (Inr l1, w)"
    "depositTxIDFromL1 (en_sha en) (deposit_envelope recipient amount) l1 = Inr txid" "s' = trackPending txid (s\<lparr>cl_wallet := w\<rparr>)"
    using pushed [OF p(2)] by auto
  have "hexToBytes l1 = hex_DecodeString l1" using hexToBytes_Decode [OF assms(2)] DecodeString_Decode [OF assms(2)] by simp
  then have "txid = Hash256_Hex (TxID (en_sha en) (deposit_tx k recipient amount))" using w(2) by (simp add: deposit_id k)
  moreover obtain signed where "fund_sign_send (en_wallet en) (cl_wallet s)
      (buildFundingTx (buildOpReturnScript (deposit_envelope recipient amount)) amount) = (Inr (l1, signed), w)"
    using w(1) by (auto simp: push_def length_deposit opReturnMaxData_def cli_embedOpReturn_def op_return_tx_eq(2) split: prod.splits sum.splits)
  ultimately show ?thesis using p(1) w(3) deposit_scanned [OF p(1)] by blast
qed

text \<open>For one amount in a dozen the scanner does not see the full amount: a deposit of 0.29 bitcoins is credited with one
  satoshi less, and the transaction that the node executes is another one than the one whose identifier
  was printed: the two differ in what is hashed.\<close>

theorem deposit_misreported:
  "extract_output k \<lparr>out_Script = buildOpReturnScript (EncodeEnvelope EnvelopeTypeDeposit (EncodeDeposit a 29000000)),
      out_Value = value_sats 29000000\<rparr> ([], []) = Some ([deposit_tx k a 28999999], []) \<and>
   txid_preimage (deposit_tx k a 28999999) \<noteq> txid_preimage (deposit_tx k a 29000000)"
proof
  show "extract_output k \<lparr>out_Script = buildOpReturnScript (EncodeEnvelope EnvelopeTypeDeposit (EncodeDeposit a 29000000)),
      out_Value = value_sats 29000000\<rparr> ([], []) = Some ([deposit_tx k a 28999999], [])"
    using deposit_scanned [of 29000000 28999999 k a "[]" "[]"] by (simp add: value_sats_samples min_def)
  show "txid_preimage (deposit_tx k a 28999999) \<noteq> txid_preimage (deposit_tx k a 29000000)"
    using txid_preimage_inject [of "deposit_tx k a 28999999" "deposit_tx k a 29000000"] by (auto simp: deposit_tx_def)
qed

section \<open>Notes of published transactions\<close>

lemma history_prunes:
  assumes "notes_ok s" and "cmdHistory en args s = (Inr (shown, txs), s')"
  shows "notes_ok s' \<and> loadPending s' = shown \<and> shown = filter (\<lambda>txid. \<not> lookupReceipt (en_node en) txid) (loadPending s)"
proof -
  let ?still = "filter (\<lambda>txid. \<not> lookupReceipt (en_node en) txid) (loadPending s)"
  let ?s = "(if filter (lookupReceipt (en_node en)) (loadPending s) \<noteq> [] then savePending ?still s else s)"
  have s': "s' = ?s" and shown: "shown = ?still"
    using assms(2) by (auto simp: cmdHistory_def check_Inr Let_def split: prod.splits if_splits)
  obtain ls where ls: "\<forall>l\<in>set ls. word_line l" "cl_pending s = lines_text ls" using assms(1) by (auto simp: notes_ok_def)
  have l: "loadPending s = ls" by (rule loadPending_text [OF ls])
  have "notes_ok ?s \<and> loadPending ?s = ?still"
  proof (cases "filter (lookupReceipt (en_node en)) (loadPending s) = []")
    case True
    then have "?still = loadPending s" by (simp add: filter_empty_conv)
    then show ?thesis using True assms(1) by simp
  next
    case False
    have "\<forall>l\<in>set ?still. word_line l" using ls(1) l by simp
    from save_notes [OF this, of s] False show ?thesis by simp
  qed
  then show ?thesis using s' shown by simp
qed

lemma deposit_noted:
  assumes "cmdDeposit en args s = (Inr (Published l1 txid), s')"
  obtains h w where "txid = Hash256_Hex h" and "s' = trackPending txid (s\<lparr>cl_wallet := w\<rparr>)"
proof -
  obtain recipient amount where "pushAndReport en (deposit_envelope recipient amount) amount [] s = (Inr (Published l1 txid), s')"
    using assms by (auto simp: cmdDeposit_def check_Inr Let_def split: prod.splits if_splits)
  from pushed [OF this] show thesis by (auto simp: deposit_id intro: that)
qed

text \<open>The list of pending transactions is kept exactly: a published deposit adds its identifier at the end, and the
  history shows those that the node has not executed, in their order, keeps them and removes the others;
  so a transaction stays on the list until it has a receipt.\<close>

theorem notes_exact:
  assumes "notes_ok s" and "cmdDeposit en args s = (Inr (Published l1 txid), s1)" and "cmdHistory en' args' s1 = (Inr (shown, txs), s2)"
  shows "loadPending s1 = loadPending s @ [txid] \<and> shown = filter (\<lambda>txid. \<not> lookupReceipt (en_node en') txid) (loadPending s1) \<and>
    loadPending s2 = shown \<and> notes_ok s2"
proof -
  obtain h w where d: "txid = Hash256_Hex h" "s1 = trackPending txid (s\<lparr>cl_wallet := w\<rparr>)" by (rule deposit_noted [OF assms(2)])
  have w: "notes_ok (s\<lparr>cl_wallet := w\<rparr>)" "loadPending (s\<lparr>cl_wallet := w\<rparr>) = loadPending s"
    using assms(1) by (simp_all add: notes_ok_def loadPending_def)
  have "notes_ok s1" "loadPending s1 = loadPending s @ [txid]"
    using track_notes [OF w(1), of txid] d w(2) by (simp_all add: Hash_word_line)
  with history_prunes [OF _ assms(3)] show ?thesis by blast
qed

section \<open>Deployments\<close>

text \<open>Executing a transaction that creates a contract.\<close>

lemma create_executes:
  assumes ok: "state_ok (sha256 x) A (ex_stateDB e)" and cov: "tx_From tx \<in> A" "contract \<in> A"
    and c: "contract = deriveContractAddress (sha256 x) (tx_From tx) (tx_Nonce tx)"
    and src: "tx_From tx \<noteq> ZeroAddress" and sig: "VerifySender x (SigningHash (sha256 x) tx) (tx_Signature tx) (tx_From tx)"
    and nonce: "tx_Nonce tx = acct_Nonce (GetOrCreateAccount (sha256 x) (ex_stateDB e) (tx_From tx))"
    and tx: "tx_To tx = ZeroAddress" "tx_Value tx = 0" "tx_GasPrice tx = 1" "tx_GasLimit tx = 200000" "length (tx_Data tx) \<le> 100000"
    and rich: "200000 \<le> GetBalance (sha256 x) (ex_stateDB e) (tx_From tx)"
  shows "\<exists>e'. executeTx x e tx = Some (ok_receipt (TxID (sha256 x) tx) 500, e') \<and>
    GetCode (ex_stateDB e') (acct_CodeHash (GetOrCreateAccount (sha256 x) (ex_stateDB e') contract)) = Some (tx_Data tx) \<and>
    ex_contractByID e' (CallerID contract) = Some contract \<and>
    GetBalance (sha256 x) (ex_stateDB e') (tx_From tx) = GetBalance (sha256 x) (ex_stateDB e) (tx_From tx) - 500"
proof -
  let ?sha = "sha256 x" and ?s = "ex_stateDB e" and ?from = "tx_From tx"
  obtain i s0 where snap: "Snapshot ?s = (i, s0)" by fastforce
  note so = Snapshot_obs [OF snap]
  define s1 where s1: "s1 = SetAccount ?sha s0 ?from ((acct ?sha s0 ?from)
      \<lparr>acct_Nonce := acct_Nonce (acct ?sha s0 ?from) + 1, acct_Balance := acct_Balance (acct ?sha s0 ?from) - 200000\<rparr>)"
  note l1 = set_core [OF so(4) [OF ok] cov(1) s1]
  define s2 where s2: "s2 = SetCode ?sha s1 contract (tx_Data tx)"
  note l2 = acct_SetCode [OF evolves_ok [OF l1(1)] cov(2), of _ "tx_Data tx", folded s2]
  have ok2: "state_ok ?sha A s2" unfolding s2 by (rule evolves_ok [OF evolves_SetCode [OF evolves_ok [OF l1(1)] cov(2)]])
  define s3 where s3: "s3 = SetAccount ?sha s2 ?from ((acct ?sha s2 ?from)\<lparr>acct_Balance := acct_Balance (acct ?sha s2 ?from) + 199500\<rparr>)"
  have l3: "acct ?sha s3 a = (if a = ?from then (acct ?sha s2 ?from)\<lparr>acct_Balance := acct_Balance (acct ?sha s2 ?from) + 199500\<rparr>
      else acct ?sha s2 a)" if "a \<in> A" for a unfolding s3 by (rule acct_SetAccount [OF ok2 cov(1) that])
  have pre: "precheck x e tx = None"
    using rich tx nonce by (simp add: precheck_def exec_consts intrinsic_gas_def GetBalance_eq Let_def)
  have "HTLCSystemAddress \<noteq> ZeroAddress" by (simp add: HTLCSystemAddress_def BytesToAddress_def be_word_def)
  then have nc: "tx_To tx \<noteq> HTLCSystemAddress" "\<not> isHTLCClaim tx" using tx(1) by (auto simp: isHTLCClaim_def)
  define e' where "e' = e\<lparr>ex_stateDB := s3, ex_contractByID := (ex_contractByID e)(CallerID contract \<mapsto> contract)\<rparr>"
  have "pay_upfront ?sha tx s0 = s1" using tx by (simp add: pay_upfront_def s1 Let_def)
  then have "executeTx x e tx = Some (ok_receipt (TxID ?sha tx) 500, e')"
    using src sig nc pre tx
    by (simp add: executeTx_def snap run_code_def refund_gas_def intrinsic_gas_def exec_consts e'_def s3 s2 c Let_def)
  moreover have "GetCode s3 (acct_CodeHash (acct ?sha s3 contract)) = Some (tx_Data tx)"
    using cov l2 l3 by (simp add: GetCode_def s3) (simp add: s2 SetCode_def Let_def)
  moreover have "bal ?sha s3 ?from = bal ?sha ?s ?from - 500"
    using cov l3 l2 l1(2) by (simp add: GetBalance_eq so(1))
  ultimately show ?thesis by (simp add: e'_def)
qed

lemma deploy_code_small: "deploy_code en pos flags addr = Inr code \<Longrightarrow> length code \<le> 100000"
proof -
  assume "deploy_code en pos flags addr = Inr code"
  then consider ow m where "BuildTokenContract ow m = Some code" | f t where "BuildAMMContract f t = Some code"
    by (auto simp: deploy_code_def andThen_Inr split: if_splits option.splits)
  then show ?thesis
  proof cases
    case (1 ow m)
    then show ?thesis using token_build [of ow m] by auto
  next
    case (2 f t)
    then show ?thesis using amm_build [of f t] by auto
  qed
qed

lemma sent_wallet: "cl_wallet s = cl_wallet s' \<Longrightarrow> sent en s tx r = sent en s' tx r"
  by (simp add: sent_def)

lemma saveContract_wallet [simp]: "cl_wallet (saveContract name a t s) = cl_wallet s"
  by (simp add: saveContract_def Let_def)

lemma deploy_sends:
  assumes "cmdDeploy en args s = (Inr (caddr, r), s')" and "parseFlags args = (pos, flags)"
    and "resolveSigningKey s (flag flags ''from'') = Inr key"
  obtains code nonce sg where "deploy_code en pos flags (en_addr en key) = Inr code" and "fetchNonce en (en_addr en key) = Inr nonce"
    and "Sign (en_x en) (SigningHash (en_sha en) (new_tx nonce (en_addr en key) ZeroAddress 0 1 200000 code)) key = Inr sg"
    and "caddr = Address_Hex (deriveContractAddress (en_sha en) (en_addr en key) nonce)"
    and "sent en s (new_tx nonce (en_addr en key) ZeroAddress 0 1 200000 code\<lparr>tx_Signature := sg\<rparr>) r"
proof -
  obtain code nonce tx where t: "deploy_code en pos flags (en_addr en key) = Inr code" "fetchNonce en (en_addr en key) = Inr nonce"
    "signTx en (new_tx nonce (en_addr en key) ZeroAddress 0 1 200000 code) key = Inr tx"
    "caddr = Address_Hex (deriveContractAddress (en_sha en) (en_addr en key) nonce)"
    and "\<exists>s1 s2. cl_wallet s1 = cl_wallet s \<and> publish en flags tx s1 = (Inr r, s2)"
    using assms by (auto simp: cmdDeploy_def check_Inr andDo_Inr Let_def split: if_splits) (metis saveContract_wallet)+
  then have s: "sent en s tx r" using publish_sent sent_wallet by metis
  obtain sg where "Sign (en_x en) (SigningHash (en_sha en) (new_tx nonce (en_addr en key) ZeroAddress 0 1 200000 code)) key = Inr sg"
    "tx = new_tx nonce (en_addr en key) ZeroAddress 0 1 200000 code\<lparr>tx_Signature := sg\<rparr>" by (rule signed [OF t(3)])
  with t s show thesis by (intro that) simp_all
qed

text \<open>C36: a contract is deployed where the command line says it is: the transaction that is published or printed, executed on the state
  whose nonce the command line read, succeeds, costs 500 satoshis, and leaves the code of the requested
  contract at the printed address, registered under the identifier of that address. The hypotheses:
  signatures with a key verify for its address, and the account has the 200,000 satoshis for the gas.\<close>

theorem deployed_as_printed:
  assumes node: "na_remote (en_node en) = node_remote n" "hd_x n = en_x en" "hd_stateDB n = ex_stateDB e"
    and ok: "state_ok (en_sha en) A (ex_stateDB e)"
    and flags: "parseFlags args = (pos, flags)" and key: "resolveSigningKey s (flag flags ''from'') = Inr key" and addr: "addr = key_address (en_x en) (en_curve en) key"
    and contract: "contract = deriveContractAddress (en_sha en) addr (acct_Nonce (GetOrCreateAccount (en_sha en) (ex_stateDB e) addr))"
    and cov: "addr \<in> A" "contract \<in> A" and src: "addr \<noteq> ZeroAddress"
    and sigs: "\<And>h sg. Sign (en_x en) h key = Inr sg \<Longrightarrow> VerifySender (en_x en) h sg addr"
    and rich: "200000 \<le> GetBalance (en_sha en) (ex_stateDB e) addr"
    and run: "cmdDeploy en args s = (Inr (caddr, r), s')"
  shows "caddr = Address_Hex contract \<and> (\<exists>code tx e'. deploy_code en pos flags addr = Inr code \<and> sent en s tx r \<and>
    executeTx (en_x en) e tx = Some (ok_receipt (TxID (en_sha en) tx) 500, e') \<and>
    GetCode (ex_stateDB e') (acct_CodeHash (GetOrCreateAccount (en_sha en) (ex_stateDB e') contract)) = Some code \<and>
    ex_contractByID e' (CallerID contract) = Some contract \<and>
    GetBalance (en_sha en) (ex_stateDB e') addr = GetBalance (en_sha en) (ex_stateDB e) addr - 500)"
proof -
  obtain code nonce sg where d: "deploy_code en pos flags addr = Inr code" "fetchNonce en addr = Inr nonce"
    "Sign (en_x en) (SigningHash (en_sha en) (new_tx nonce addr ZeroAddress 0 1 200000 code)) key = Inr sg"
    "caddr = Address_Hex (deriveContractAddress (en_sha en) addr nonce)"
    "sent en s (new_tx nonce addr ZeroAddress 0 1 200000 code\<lparr>tx_Signature := sg\<rparr>) r"
    unfolding addr by (rule deploy_sends [OF run flags key])
  have nonce: "nonce = acct_Nonce (GetOrCreateAccount (en_sha en) (ex_stateDB e) addr)"
    using d(2) fetchNonce_node [OF node(1), of addr] node(2,3) by simp
  define tx where "tx = new_tx nonce addr ZeroAddress 0 1 200000 code\<lparr>tx_Signature := sg\<rparr>"
  have tx: "tx_From tx = addr" "tx_Nonce tx = nonce" "tx_To tx = ZeroAddress" "tx_Value tx = 0" "tx_GasPrice tx = 1"
    "tx_GasLimit tx = 200000" "tx_Data tx = code" "tx_Signature tx = sg" by (simp_all add: tx_def new_tx_def)
  have vs: "VerifySender (en_x en) (SigningHash (en_sha en) tx) sg addr" using sigs [OF d(3)] by (simp add: tx_def)
  have c: "contract = deriveContractAddress (en_sha en) (tx_From tx) (tx_Nonce tx)" by (simp add: contract tx nonce)
  have "\<exists>e'. executeTx (en_x en) e tx = Some (ok_receipt (TxID (en_sha en) tx) 500, e') \<and>
      GetCode (ex_stateDB e') (acct_CodeHash (GetOrCreateAccount (en_sha en) (ex_stateDB e') contract)) = Some (tx_Data tx) \<and>
      ex_contractByID e' (CallerID contract) = Some contract \<and>
      GetBalance (en_sha en) (ex_stateDB e') (tx_From tx) = GetBalance (en_sha en) (ex_stateDB e) (tx_From tx) - 500"
    by (rule create_executes [OF ok _ cov(2) c])
      (use cov src rich vs deploy_code_small [OF d(1)] in \<open>simp_all add: tx nonce\<close>)
  moreover have "sent en s tx r" using d(5) by (simp add: tx_def)
  moreover have "caddr = Address_Hex contract" using d(4) by (simp add: contract nonce)
  ultimately show ?thesis using d(1) unfolding tx(1,7) by blast
qed

text \<open>The two programs build the same contracts: what \<open>tylbuild\<close> prints for an owner and a maximal supply is the code that the
  command line deploys for the account with that identifier; likewise for exchanges.\<close>

theorem tylbuild_agrees:
  fixes m fee :: uint64
  assumes "addrToCallerID (Address_Hex addr) = Inr i" and "addrToCallerID token = Inr j" and "token \<noteq> []"
  shows "tylbuild [''token'', show_nat (unat i), show_nat (unat m)] =
      map_sum id hex_EncodeToString (deploy_code en [''token'', show_nat (unat m)] Map.empty addr) \<and>
    tylbuild [''amm'', show_nat (unat fee), show_nat (unat j)] =
      map_sum id hex_EncodeToString (deploy_code en [''amm'', show_nat (unat fee)] [''token-a'' \<mapsto> token] addr)"
proof -
  have p: "ParseUint 10 (show_nat (unat v)) = Some v" for v
  proof -
    have "unat v < 2 ^ LENGTH(64)" by (rule unsigned_less)
    then show ?thesis using show_nat_decimal [of "unat v"] parse_decimal [of "show_nat (unat v)" 0] by (simp add: ParseUint_def)
  qed
  have m: "mustParseUint (show_nat (unat v)) l = Inr v" for v l
    using p [of v] decimal_no_prefix [of "show_nat (unat v)"] show_nat_decimal [of "unat v"] by (simp add: mustParseUint_def)
  show ?thesis using assms
    by (simp add: tylbuild_def build_arg_def p deploy_code_def m flag_def split: option.split)
qed

section \<open>Claims\<close>

lemma be_words_hash: "be_words (hash_bytes h) = hash_words h"
  by (simp add: be_words_def hash_words_def slice_def)

lemma PackCallData_eq: "PackCallData args = packCallData args"
  by (simp add: PackCallData_def packCallData_def)

lemma slot_text:
  assumes "slot_value v = Some x"
  shows "length (hex_DecodeString (stripHex v)) = 32" and "be_word (drop 24 (hex_DecodeString (stripHex v))) = x"
proof -
  obtain b where b: "hex_Decode v = Some b" "length b = 32" "be_word (drop 24 b) = x"
    using assms by (auto simp: slot_value_def split: option.splits if_splits)
  have "take 2 v \<noteq> ''0x''"
  proof
    assume t: "take 2 v = ''0x''"
    have "v = ''0x'' @ drop 2 v" using append_take_drop_id [of 2 v] by (simp add: t)
    then have "hex_Decode v = hex_Decode (''0x'' @ drop 2 v)" by (rule arg_cong)
    also have "\<dots> = None" by (simp add: hex_digit_def)
    finally show False using b(1) by simp
  qed
  then have "hex_DecodeString (stripHex v) = b" using DecodeString_Decode [OF b(1)] by (simp add: stripHex_def)
  then show "length (hex_DecodeString (stripHex v)) = 32" "be_word (drop 24 (hex_DecodeString (stripHex v))) = x"
    using b by simp_all
qed

lemma slot_value_low: "slot_value v = Some x \<Longrightarrow> low_uint64 v = x"
  using slot_text [of v x] by (simp add: low_uint64_def slice_def Let_def)

text \<open>What the command line reads from a node are the slots of the executor.\<close>

lemma slot_read:
  assumes "na_remote n = node_remote h"
  shows "readStorageUint64Safe n (Address_Hex a) k = slot_of (hd_sha h) (hd_stateDB h) a k"
    and "cli_readStorageUint64 n (Address_Hex a) k = Inr (slot_of (hd_sha h) (hd_stateDB h) a k)"
proof -
  obtain v fv where r: "rm_getStorage (node_remote h) (Address_Hex a) (Hash256_Hex (putUint64 k)) = Some (v, fv)"
    and v: "slot_value v = Some (slot_of (hd_sha h) (hd_stateDB h) a k)"
    using remote_slot [of h a k] by (auto simp: rpc_GetStorage_def split: option.splits)
  show "readStorageUint64Safe n (Address_Hex a) k = slot_of (hd_sha h) (hd_stateDB h) a k"
    "cli_readStorageUint64 n (Address_Hex a) k = Inr (slot_of (hd_sha h) (hd_stateDB h) a k)"
    by (simp_all add: readStorageUint64Safe_def cli_readStorageUint64_def assms r slot_value_low [OF v])
qed

lemma htlc_slot: "htlc_base i + k = rec_slot i k"
  unfolding htlc_base_def by (rule rec_slot_base)

text \<open>A claim that was submitted: the contract was pending and locked with the hash of the preimage.\<close>

lemma claim_sends:
  assumes "submit_claim en i p key s = (Inr (BuyClaim r), s')" and node: "na_remote (en_node en) = node_remote h"
    and f: "f = slot_of (hd_sha h) (hd_stateDB h) HTLCSystemAddress"
  obtains nonce sg where "h_status (htlc_at f i) = 0" and "hash_bytes (en_sha en (hash_bytes p)) = h_lock (htlc_at f i)"
    and "fetchNonce en (en_addr en key) = Inr nonce"
    and "Sign (en_x en) (SigningHash (en_sha en) (new_tx nonce (en_addr en key) HTLCSystemAddress 0 0 0 (claim_data i p))) key = Inr sg"
    and "sent en s (new_tx nonce (en_addr en key) HTLCSystemAddress 0 0 0 (claim_data i p)\<lparr>tx_Signature := sg\<rparr>) r"
proof -
  let ?tx = "\<lambda>nonce. new_tx nonce (en_addr en key) HTLCSystemAddress 0 0 0 (claim_data i p)"
  note r = assms(1) [unfolded submit_claim_def Let_def slot_read [OF node] f [symmetric] htlc_slot be_words_hash PackCallData_eq append.simps]
  have st: "h_status (htlc_at f i) = 0" "hash_bytes (en_sha en (hash_bytes p)) = h_lock (htlc_at f i)"
    using r by (auto simp: htlc_at_def split: if_splits)
  obtain nonce tx s1 s2 where t: "checkHTLCPending en i ''claim'' s = (Inr (), s1)" "fetchNonce en (en_addr en key) = Inr nonce"
    "signTx en (?tx nonce) key = Inr tx"
    "pushAndReport en (EncodeEnvelope EnvelopeTypeTx (EncodeTx tx)) 0 (Hash256_Hex (TxID (en_sha en) tx)) s1 = (Inr r, s2)"
    using r by (auto simp: andDo_Inr check_Inr split: if_splits)
  have "cl_wallet s1 = cl_wallet s" using t(1) by (auto simp: checkHTLCPending_def Let_def split: option.splits if_splits)
  then have s: "sent en s tx r" using pushed_tx [OF t(4)] sent_wallet by metis
  obtain sg where "Sign (en_x en) (SigningHash (en_sha en) (?tx nonce)) key = Inr sg" "tx = ?tx nonce\<lparr>tx_Signature := sg\<rparr>"
    by (rule signed [OF t(3)])
  with t(2) st s show thesis by (intro that) simp_all
qed

text \<open>C37: the claim of a purchase pays its buyer. The command line polls the node until the contract appears; when it
  then publishes a claim, the contract is pending and locked with the hash of the preimage of the
  purchase, and the published transaction, executed on the state that was read, succeeds without gas,
  credits the amount of the contract to the buyer and marks it claimed, if the contract is made out to
  the buyer and covered.\<close>

theorem purchase_claim_pays:
  assumes polls: "polls = map api hs" and node: "\<forall>h\<in>set hs. na_remote (api h) = node_remote h \<and> hd_x h = en_x en"
    and run: "swapBuyWaitAndClaim en polls i p key s = (Inr (BuyClaim r), s')" and addr: "addr = key_address (en_x en) (en_curve en) key"
    and sigs: "\<And>h sg. Sign (en_x en) h key = Inr sg \<Longrightarrow> VerifySender (en_x en) h sg addr"
    and src: "addr \<noteq> ZeroAddress" "addr \<noteq> HTLCSystemAddress"
  shows "\<exists>h\<in>set hs. \<exists>tx. sent en s tx r \<and> (\<forall>e A c. hd_stateDB h = ex_stateDB e \<longrightarrow> state_ok (en_sha en) A (ex_stateDB e) \<longrightarrow>
      HTLCSystemAddress \<in> A \<longrightarrow> addr \<in> A \<longrightarrow> c = slot_of (en_sha en) (ex_stateDB e) HTLCSystemAddress 0 \<longrightarrow> i < c \<longrightarrow> unat c < max_htlcs \<longrightarrow>
      h_recipient (htlc_at (slot_of (en_sha en) (ex_stateDB e) HTLCSystemAddress) i) = CallerID addr \<longrightarrow>
      h_amount (htlc_at (slot_of (en_sha en) (ex_stateDB e) HTLCSystemAddress) i) \<le> GetBalance (en_sha en) (ex_stateDB e) HTLCSystemAddress \<longrightarrow>
      (\<exists>e'. executeTx (en_x en) e tx = Some (ok_receipt (TxID (en_sha en) tx) 0, e') \<and>
        h_status (htlc_at (slot_of (en_sha en) (ex_stateDB e') HTLCSystemAddress) i) = htlcStatusClaimed \<and>
        GetBalance (en_sha en) (ex_stateDB e') addr =
          GetBalance (en_sha en) (ex_stateDB e) addr + h_amount (htlc_at (slot_of (en_sha en) (ex_stateDB e) HTLCSystemAddress) i)))"
proof -
  obtain n ns where n: "dropWhile (\<lambda>n. readStorageUint64Safe n sysAddr (htlc_base i + 2) = 0) polls = n # ns"
    "submit_claim (en\<lparr>en_node := n\<rparr>) i p key s = (Inr (BuyClaim r), s')"
    using run by (auto simp: swapBuyWaitAndClaim_def split: list.splits)
  have "n \<in> set polls" using n(1) by (metis list.set_intros(1) set_dropWhileD)
  then obtain h where h: "h \<in> set hs" "n = api h" by (auto simp: polls)
  let ?en = "en\<lparr>en_node := n\<rparr>" and ?f = "slot_of (hd_sha h) (hd_stateDB h) HTLCSystemAddress"
  have nr: "na_remote (en_node ?en) = node_remote h" "hd_x h = en_x en" using h node by simp_all
  obtain nonce sg where c: "h_status (htlc_at ?f i) = 0" "hash_bytes (en_sha ?en (hash_bytes p)) = h_lock (htlc_at ?f i)"
    "fetchNonce ?en (en_addr ?en key) = Inr nonce"
    "Sign (en_x ?en) (SigningHash (en_sha ?en) (new_tx nonce (en_addr ?en key) HTLCSystemAddress 0 0 0 (claim_data i p))) key = Inr sg"
    "sent ?en s (new_tx nonce (en_addr ?en key) HTLCSystemAddress 0 0 0 (claim_data i p)\<lparr>tx_Signature := sg\<rparr>) r"
    by (rule claim_sends [OF n(2) nr(1) refl])
  define tx where "tx = new_tx nonce addr HTLCSystemAddress 0 0 0 (claim_data i p)\<lparr>tx_Signature := sg\<rparr>"
  have tx: "tx_From tx = addr" "tx_Nonce tx = nonce" "tx_To tx = HTLCSystemAddress" "tx_Value tx = 0" "tx_Data tx = claim_data i p"
    "tx_Signature tx = sg" by (simp_all add: tx_def new_tx_def)
  have vs: "VerifySender (en_x en) (SigningHash (en_sha en) tx) sg addr" using sigs [OF c(4) [simplified]] by (simp add: tx_def addr)
  have "be_word (hash_bytes (en_sha en (hash_bytes p))) = en_sha en (hash_bytes p)" by (simp add: hash_bytes_def)
  then have lock: "en_sha en (hash_bytes p) = be_word (h_lock (htlc_at ?f i))" using c(2) by simp
  have "sent en s tx r" using c(5) by (simp add: sent_def tx_def addr)
  moreover have "\<exists>e'. executeTx (en_x en) e tx = Some (ok_receipt (TxID (en_sha en) tx) 0, e') \<and>
        h_status (htlc_at (slot_of (en_sha en) (ex_stateDB e') HTLCSystemAddress) i) = htlcStatusClaimed \<and>
        GetBalance (en_sha en) (ex_stateDB e') (tx_From tx) =
          GetBalance (en_sha en) (ex_stateDB e) (tx_From tx) + h_amount (htlc_at (slot_of (en_sha en) (ex_stateDB e) HTLCSystemAddress) i)"
    if "hd_stateDB h = ex_stateDB e" "state_ok (en_sha en) A (ex_stateDB e)" "HTLCSystemAddress \<in> A" "addr \<in> A"
      "i < slot_of (en_sha en) (ex_stateDB e) HTLCSystemAddress 0" "unat (slot_of (en_sha en) (ex_stateDB e) HTLCSystemAddress 0) < max_htlcs"
      "h_recipient (htlc_at (slot_of (en_sha en) (ex_stateDB e) HTLCSystemAddress) i) = CallerID addr"
      "h_amount (htlc_at (slot_of (en_sha en) (ex_stateDB e) HTLCSystemAddress) i) \<le> GetBalance (en_sha en) (ex_stateDB e) HTLCSystemAddress" for e A
    by (rule claim_executes [OF that(2,3) _ _ _ _ _ _ _ _ _ _ refl])
      (use that src vs lock c(1) c(3) fetchNonce_node [OF nr(1), of addr] nr(2) in \<open>simp_all add: tx addr\<close>)
  ultimately show ?thesis using h(1) unfolding tx(1) by blast
qed

section \<open>What is not checked\<close>

text \<open>Before the preimage of a purchase is revealed, the command line compares the hash lock and the status of the contract,
  but neither its amount nor its recipient nor its time lock: on two nodes that agree on the former, it does the
  same.\<close>

theorem purchase_terms_unchecked:
  assumes "\<forall>k\<in>{3, 4, 5, 6, 8}. readStorageUint64Safe n (Address_Hex HTLCSystemAddress) (htlc_base i + k) =
      readStorageUint64Safe n' (Address_Hex HTLCSystemAddress) (htlc_base i + k)"
    and "na_getReceipt n = na_getReceipt n'" and "rm_getAccount (na_remote n) = rm_getAccount (na_remote n')"
  shows "submit_claim (en\<lparr>en_node := n\<rparr>) i p key s = submit_claim (en\<lparr>en_node := n'\<rparr>) i p key s"
proof -
  have "fetchNonce (en\<lparr>en_node := n\<rparr>) a = fetchNonce (en\<lparr>en_node := n'\<rparr>) a" for a by (simp add: fetchNonce_def assms(3))
  moreover have "lookupReceipt n = lookupReceipt n'" by (rule ext) (simp add: lookupReceipt_def assms(2))
  then have "lookupReceipt (en_node (en\<lparr>en_node := n\<rparr>)) = lookupReceipt (en_node (en\<lparr>en_node := n'\<rparr>))" by simp
  then have "checkHTLCPending (en\<lparr>en_node := n\<rparr>) i q = checkHTLCPending (en\<lparr>en_node := n'\<rparr>) i q" for q
    unfolding checkHTLCPending_def [abs_def] by (rule ssubst) (rule refl)
  moreover have "signTx (en\<lparr>en_node := n\<rparr>) t k = signTx (en\<lparr>en_node := n'\<rparr>) t k" for t k by (simp add: signTx_def)
  moreover have "pushAndReport (en\<lparr>en_node := n\<rparr>) e b t = pushAndReport (en\<lparr>en_node := n'\<rparr>) e b t" for e b t
  proof -
    have same: "en_sha (en\<lparr>en_node := n\<rparr>) = en_sha (en\<lparr>en_node := n'\<rparr>)" "en_tweak (en\<lparr>en_node := n\<rparr>) = en_tweak (en\<lparr>en_node := n'\<rparr>)"
      "en_wallet (en\<lparr>en_node := n\<rparr>) = en_wallet (en\<lparr>en_node := n'\<rparr>)" by simp_all
    show ?thesis unfolding pushAndReport_def do_push_def [abs_def] same ..
  qed
  ultimately show ?thesis using assms(1) by (simp add: submit_claim_def Let_def)
qed

text \<open>The swap daemon locks the contract of a purchase without looking at the invoice, so a buyer who knows the preimage can
  claim it before paying.\<close>

theorem lock_before_payment: "initBuySwap (sv\<lparr>sv_LookupInvoice := f\<rparr>) hash recipient amount d = initBuySwap sv hash recipient amount d"
proof -
  let ?sv = "sv\<lparr>sv_LookupInvoice := f\<rparr>"
  have tyl: "sv_tyl ?sv = sv_tyl sv" "sv_AddHoldInvoice ?sv = sv_AddHoldInvoice sv" "sv_EmbedEnvelope ?sv = sv_EmbedEnvelope sv"
    "sv_x ?sv = sv_x sv" by simp_all
  have submit: "submit ?sv = submit sv" unfolding submit_def [abs_def] tyl ..
  have lock: "lockHTLC ?sv = lockHTLC sv" unfolding lockHTLC_def [abs_def] tyl submit ..
  show ?thesis unfolding initBuySwap_def tyl lock ..
qed

text \<open>The shares of a provider are right while the products of reserve and share fit into 64 bits, and wrap beyond.\<close>

lemma share_exact:
  assumes "unat res * unat lp < 2 ^ 64"
  shows "unat (res * lp div supply :: uint64) = unat res * unat lp div unat supply"
  using assms by (simp add: unat_div_distrib unat_mult_no_wrap)

theorem lp_shares_exact:
  assumes "unat resA * unat lp < 2 ^ 64" and "unat resB * unat lp < 2 ^ 64" and "0 < supply"
  shows "\<exists>a b. lp_shares resA resB lp supply = Some (a, b) \<and>
    (if lp < supply then unat a = unat resA * unat lp div unat supply \<and> unat b = unat resB * unat lp div unat supply
     else a = resA \<and> b = resB)"
  using assms share_exact by (simp add: lp_shares_def)

theorem lp_shares_wrap: "lp_shares 0x8000000000000000 8 4 8 = Some (0, 4)"
  by (simp add: lp_shares_def)

text \<open>What \<open>balance\<close> shows for a token is the slot of the caller in the state of the node.\<close>

lemma slot_value_parse: "slot_value v = Some x \<Longrightarrow> parseHash256Uint64 v = x"
  using slot_text [of v x] by (simp add: parseHash256Uint64_def slice_def Let_def)

theorem balance_shows_slot:
  assumes "na_remote n = node_remote h" and "v = slot_of (hd_sha h) (hd_stateDB h) a (SlotBalanceBase + CallerID addr)" and "0 < v" and "name \<noteq> []"
  shows "\<exists>st. contract_line n (CallerID addr) \<lparr>sc_Name = name, sc_Address = Address_Hex a, sc_Type = ''token''\<rparr> = Inr [TokenLine name v st]"
proof -
  let ?k = "SlotBalanceBase + CallerID addr"
  obtain t f where r: "rm_getStorage (node_remote h) (Address_Hex a) (Hash256_Hex (putUint64 ?k)) = Some (t, f)"
    and "slot_value t = Some v"
    using remote_slot [of h a ?k] assms(2) by (auto simp: rpc_GetStorage_def split: option.splits)
  then have "fst (queryStorageSlotFull n (Address_Hex a) ?k) = v" by (simp add: queryStorageSlotFull_def assms(1) slot_value_parse)
  then show ?thesis using assms(3,4) by (auto simp: contract_line_def split: prod.splits)
qed

text \<open>The global flags keep the other arguments in their order; \<open>--datadir\<close> moves the keys and contracts, but not the notes
  about pending operations.\<close>

theorem datadir_keeps_notes:
  assumes "extractGlobalFlags args st = Inr (rest, st')"
  shows "subseq rest args \<and> st_pendingDir st' = st_pendingDir st"
proof -
  have "pred_option (\<lambda>s'. st_pendingDir s' = st_pendingDir s) (set_global a b s)" for a b s
    unfolding set_global_def by (simp split del: if_split add: if_distrib [of "pred_option _"] cong: if_cong)
  then have g: "set_global a b s = Some s' \<Longrightarrow> st_pendingDir s' = st_pendingDir s" for a b s s' by (metis option.pred_inject(2))
  show ?thesis using assms
  proof (induction args st arbitrary: rest st' rule: extractGlobalFlags.induct)
    case (2 a st)
    then show ?case by (simp split: option.splits)
  next
    case (3 a b args st)
    show ?case
    proof (cases "set_global a b st")
      case None
      with 3 obtain r where "rest = a # r" "extractGlobalFlags (b # args) st = Inr (r, st')" by (auto simp: andThen_Inr)
      with 3(1) [OF None] show ?thesis by simp
    next
      case (Some s)
      have "extractGlobalFlags args s = Inr (rest, st')" using 3(3) Some by simp
      from 3(2) [OF Some this] g [OF Some] show ?thesis by (auto intro: list_emb_Cons)
    qed
  qed simp
qed

text \<open>A key name that is a prefix of the address of an earlier key resolves to the earlier key.\<close>

theorem name_shadowed:
  assumes "listKeys s = [a, b]" and "sk_Name b = name" and "loadContract s name = None" and "length name < 40" and "take 2 name \<noteq> ''0x''"
    and "take 2 (to_lower (sk_Address a)) \<noteq> ''0x''" and "take (length name) (to_lower (sk_Address a)) = to_lower name"
  shows "resolveAddress s name = Inr (sk_Address a)"
proof -
  have "length (to_lower name) = length name" by (simp add: to_lower_def)
  then show ?thesis using assms by (simp add: resolveAddress_def stripHex_def trim_prefix_def has_prefix_def numeral_2_eq_2 Let_def)
qed

section \<open>Names of states and records\<close>

text \<open>The numbers of the states in JSON are their positions in the declaration.\<close>

fun state_number :: "swap_state \<Rightarrow> int" where
  "state_number StateCreated = 0"
| "state_number StateHTLCLocked = 1"
| "state_number StateInvoiceCreated = 2"
| "state_number StatePaymentInFlight = 3"
| "state_number StateClaimed = 4"
| "state_number StateSettled = 5"
| "state_number StateRefunded = 6"
| "state_number StateFailed = 7"
| "state_number StateRefundSubmitted = 8"

theorem state_names_agree: "swapStateName (state_number st) = State_String st"
  by (cases st) (simp_all add: swapStateName_def)

text \<open>The record that \<open>htlc query\<close> prints is the record of the executor.\<close>

theorem query_prints_record:
  assumes "na_remote (en_node en) = node_remote h" and f: "f = slot_of (hd_sha h) (hd_stateDB h) HTLCSystemAddress" and "r = htlc_at f i"
  shows "cmdHTLCQuery en [show_nat (unat i)] = Inr \<lparr>hp_status = h_status r, hp_sender = h_sender r, hp_recipient = h_recipient r,
    hp_amount = h_amount r, hp_timelock = h_timelock r, hp_hashlock = hex_EncodeToString (h_lock r),
    hp_preimage = (if h_status r = 1 then
      Some (hex_EncodeToString (words_hash (f (rec_slot i 9)) (f (rec_slot i 10)) (f (rec_slot i 11)) (f (rec_slot i 12)))) else None)\<rparr>"
proof -
  have u: "unat i < 2 ^ LENGTH(64)" by (rule unsigned_less)
  have n: "mustParseUint (show_nat (unat i)) l = Inr i" for l
    using digits_read [of "show_nat (unat i)" l] show_nat_decimal [of "unat i"] u by simp
  have "parseFlags [show_nat (unat i)] = ([show_nat (unat i)], Map.empty)"
    using show_nat_decimal [of "unat i"] by (auto simp: parseFlags_def dec_digit_def)
  moreover have base: "htlc_base i = rec_slot i 0" "rec_slot i 0 + k = rec_slot i k" for k
    using htlc_slot [of i 0] htlc_slot [of i k] by simp_all
  ultimately show ?thesis
    by (simp add: cmdHTLCQuery_def n slot_read(2) [OF assms(1)] f [symmetric] base Let_def assms(3) htlc_at_def)
qed

section \<open>Samples\<close>

definition sample_api :: "handler \<Rightarrow> node_api" where
  "sample_api h = \<lparr>na_remote = node_remote h, na_getReceipt = \<lambda>_. None, na_getBalance = \<lambda>_. None, na_recentTxs = \<lambda>_ _. Some []\<rparr>"

definition sample_env :: "handler \<Rightarrow> nat env" where
  "sample_env h = \<lparr>en_x = shop_x, en_curve = sample_curve, en_tweak = \<lambda>_ _. Some (replicate 33 2), en_wallet = sample_wallet,
     en_node = sample_api h, en_swapBuy = \<lambda>_ _ _. Inl [], en_swapSell = \<lambda>_ _. Inl []\<rparr>"

lemma sample_env_simps [simp]:
  "en_x (sample_env h) = shop_x" "en_curve (sample_env h) = sample_curve" "en_node (sample_env h) = sample_api h"
  "en_wallet (sample_env h) = sample_wallet" "en_tweak (sample_env h) = (\<lambda>_ _. Some (replicate 33 2))"
  "na_remote (sample_api h) = node_remote h" "\<not> lookupReceipt (sample_api h) txid" "na_recentTxs (sample_api h) i n = Some []"
  by (simp_all add: sample_env_def sample_api_def lookupReceipt_def)

abbreviation deposit_args :: "string list" where
  "deposit_args \<equiv> [''0000000000000000000000000000000000000006'', ''1000'']"

lemma sample_deposit: "\<exists>t s'. cmdDeposit (sample_env h) deposit_args sample_cli = (Inr (Published sample_txid t), s')"
proof -
  have a: "stripHex ''0000000000000000000000000000000000000006'' = ''0000000000000000000000000000000000000006''"
    "hex_Decode ''0000000000000000000000000000000000000006'' \<noteq> None" by code_simp+
  have n: "mustParseUint ''1000'' l = Inr 1000" for l by (simp add: digits_read dec_digit_def dec_value_def)
  have p: "push be_word (\<lambda>_ _. Some (replicate 33 2)) sample_wallet w (deposit_envelope a v) v = (Inr sample_txid, Suc w)" for w a v
    by (simp add: push_def length_deposit opReturnMaxData_def cli_embedOpReturn_def fund_sign_send_def sample_wallet_def)
  have r: "resolveAddress sample_cli ''0000000000000000000000000000000000000006'' = Inr ''0000000000000000000000000000000000000006''"
    unfolding resolveAddress_def Let_def a(1) using a(2) by (simp del: hex_Decode.simps)
  show ?thesis
    by (simp add: cmdDeposit_def parseFlags_def flag_def n r pushAndReport_def andDo_def do_push_def p deposit_id update_def finish_def Let_def)
qed

theorem deposit_reported_witness:
  "\<exists>txid s' recipient amount signed. cmdDeposit (sample_env shop_node) deposit_args sample_cli = (Inr (Published sample_txid txid), s') \<and>
     txid = Hash256_Hex (TxID be_word (deposit_tx (btcTxNonce (BytesToHash256 (hexToBytes sample_txid))) recipient amount)) \<and>
     fund_sign_send sample_wallet 0 (buildFundingTx (buildOpReturnScript (EncodeEnvelope EnvelopeTypeDeposit (EncodeDeposit recipient amount))) amount) =
       (Inr (sample_txid, signed), 1)"
proof -
  obtain t s' where run: "cmdDeposit (sample_env shop_node) deposit_args sample_cli = (Inr (Published sample_txid t), s')"
    using sample_deposit by blast
  have h: "hex_Decode sample_txid = Some (replicate 32 0)" by code_simp
  have w: "cl_wallet sample_cli = 0" by (simp add: sample_cli_def)
  have s: "fund_sign_send sample_wallet 0 tx = (Inr r, w) \<Longrightarrow> w = 1" for tx r w
    by (auto simp: fund_sign_send_def sample_wallet_def split: option.splits)
  from deposit_reported [OF run h refl] run s show ?thesis by (simp add: w) blast
qed

theorem notes_exact_witness:
  "\<exists>txid s1 s2. cmdDeposit (sample_env shop_node) deposit_args sample_cli = (Inr (Published sample_txid txid), s1) \<and>
     cmdHistory (sample_env shop_node) [] s1 = (Inr ([txid], []), s2) \<and> loadPending s2 = [txid]"
proof -
  obtain t s1 where run: "cmdDeposit (sample_env shop_node) deposit_args sample_cli = (Inr (Published sample_txid t), s1)"
    using sample_deposit by blast
  obtain shown s2 where hist: "cmdHistory (sample_env shop_node) [] s1 = (Inr (shown, []), s2)"
    by (simp add: cmdHistory_def parseFlags_def)
  have n: "notes_ok sample_cli" "loadPending sample_cli = []"
    by (auto simp: notes_ok_def sample_cli_def lines_text_def loadPending_def trim_space_def intro: exI [of _ "[]"])
  from notes_exact [OF n(1) run hist] run hist show ?thesis by (simp add: n(2))
qed

text \<open>A node on which the account 5 has a million satoshis.\<close>

definition rich_exec :: executor where
  "rich_exec = Executor_New (SetBalance be_word (NewStateDB Map.empty) 5 1000000)"

lemma rich_exec_obs:
  "state_ok be_word UNIV (ex_stateDB rich_exec)" "acct be_word (ex_stateDB rich_exec) 5 = zero_account\<lparr>acct_Balance := 1000000\<rparr>"
proof -
  note ok = state_ok_toy [of UNIV Map.empty]
  have "acct be_word (NewStateDB Map.empty) 5 = zero_account"
    by (simp add: GetOrCreateAccount_def GetAccount_def acct_data_def decode_acct_def NewStateDB_def)
  then show "acct be_word (ex_stateDB rich_exec) 5 = zero_account\<lparr>acct_Balance := 1000000\<rparr>"
    using SetBalance_laws(3) [OF ok UNIV_I UNIV_I] by (simp add: rich_exec_def Executor_New_def)
  show "state_ok be_word UNIV (ex_stateDB rich_exec)"
    using evolves_ok [OF SetBalance_laws(1) [OF ok UNIV_I]] by (simp add: rich_exec_def Executor_New_def)
qed

abbreviation rich_node :: handler where "rich_node \<equiv> shop_node\<lparr>hd_stateDB := ex_stateDB rich_exec\<rparr>"

theorem deployed_as_printed_witness:
  "\<exists>r s' code tx e'. cmdDeploy (sample_env rich_node) [''token'', ''--no-push''] sample_cli =
       (Inr (Address_Hex (deriveContractAddress be_word 5 0), r), s') \<and>
     executeTx shop_x rich_exec tx = Some (ok_receipt (TxID be_word tx) 500, e') \<and> GetBalance be_word (ex_stateDB e') 5 = 999500 \<and>
     GetCode (ex_stateDB e') (acct_CodeHash (GetOrCreateAccount be_word (ex_stateDB e') (deriveContractAddress be_word 5 0))) = Some code"
proof -
  let ?en = "sample_env rich_node" and ?args = "[''token'', ''--no-push'']" and ?flags = "[''no-push'' \<mapsto> ''true'']"
  have f: "parseFlags ?args = ([''token''], ?flags)" by (simp add: parseFlags_def)
  have k: "resolveSigningKey sample_cli (flag ?flags ''from'') = Inr alice_key" by (simp add: flag_def alice_signs)
  have node: "hd_x rich_node = shop_x" "hd_sha rich_node = be_word" by (simp_all add: shop_node_def)
  have nonce: "acct_Nonce (acct be_word (ex_stateDB rich_exec) 5) = 0" by (simp add: rich_exec_obs zero_account_def)
  have fn: "fetchNonce ?en 5 = Inr 0" using fetchNonce_node [of ?en rich_node 5] node nonce by simp
  obtain i where i: "addrToCallerID (Address_Hex 5) = Inr i" by (auto simp: addrToCallerID_def Address_Hex_def Let_def)
  obtain code where code: "BuildTokenContract i 0 = Some code" using token_build [of i 0] by blast
  have d: "deploy_code ?en [''token''] ?flags 5 = Inr code" by (simp add: deploy_code_def i andThen_def code)
  obtain sg where sg: "Sign shop_x (SigningHash be_word (new_tx 0 5 ZeroAddress 0 1 200000 code)) alice_key = Inr sg"
    using shop_x_simps(3) by blast
  obtain r s' where run: "cmdDeploy ?en ?args sample_cli = (Inr (Address_Hex (deriveContractAddress be_word 5 0), r), s')"
    unfolding cmdDeploy_def f using k
    by (simp add: flag_def sample_key d fn signTx_def sg publish_def andDo_def update_def finish_def Let_def)
  from deployed_as_printed [OF _ _ _ _ f k refl refl _ _ _ _ _ run, where e = rich_exec and n = rich_node and A = UNIV] run
  show ?thesis by (simp add: node rich_exec_obs sample_key nonce GetBalance_eq) (simp add: zero_account_def, blast)
qed

lemma sale_slots:
  "slot_of be_word sale_db HTLCSystemAddress = (\<lambda>_. 0)(0 := 1, rec_slot 0 1 := CallerID 5, rec_slot 0 2 := 50, rec_slot 0 7 := 100)"
  by (simp add: sale_db_def htlc_db_obs)

lemma sample_purchase:
  "\<exists>r s'. swapBuyWaitAndClaim (sample_env shop_node) (map sample_api [shop_node]) 0 0 alice_key sample_cli = (Inr (BuyClaim r), s')"
proof -
  let ?en = "sample_env shop_node" and ?n = "acct_Nonce (acct be_word sale_db 5)"
  let ?tx = "new_tx ?n 5 HTLCSystemAddress 0 0 0 (PackCallData ([HTLCFnClaim, 0] @ be_words (hash_bytes 0)))"
  let ?f = "slot_of be_word sale_db HTLCSystemAddress"
  have node: "hd_x shop_node = shop_x" "hd_stateDB shop_node = sale_db" by (simp_all add: shop_node_def)
  have rd: "readStorageUint64Safe (sample_api shop_node) sysAddr (htlc_base 0 + k) = ?f (rec_slot 0 k)" for k
    using slot_read(1) [of "sample_api shop_node" shop_node] by (simp add: htlc_slot node)
  obtain sg where "Sign shop_x (SigningHash be_word ?tx) alice_key = Inr sg" using shop_x_simps(3) by blast
  then have sg: "signTx ?en ?tx alice_key = Inr (?tx\<lparr>tx_Signature := sg\<rparr>)" by (simp add: signTx_def)
  let ?sg = "?tx\<lparr>tx_Signature := sg\<rparr>"
  have d: "length (tx_Data ?sg) = 48" by (simp add: new_tx_def PackCallData_def be_words_def)
  have y: "yields \<lparr>env_Magic = Magic, env_Type = EnvelopeTypeTx, env_Payload = EncodeTx ?sg\<rparr> [?sg] []" by (rule yields_tx) (use d in simp)
  have "\<exists>l1 w1 w' raw. push be_word (\<lambda>_ _. Some (replicate 33 2)) sample_wallet 0 (EncodeEnvelope EnvelopeTypeTx (EncodeTx ?sg)) 0 = (Inr l1, w') \<and>
      wl_send sample_wallet w1 (hex_EncodeToString raw) = (Some l1, w') \<and> carries raw [?sg] []"
    by (rule publication [OF sample_wallet_works _ y, where env = "EncodeEnvelope EnvelopeTypeTx (EncodeTx ?sg)" and w = 0 and
          burnSats = 0 and sha = be_word and tweak_key = "\<lambda>_ _. Some (replicate 33 2)"])
      (use d in simp_all)
  then obtain l1 w' where p: "push be_word (\<lambda>_ _. Some (replicate 33 2)) sample_wallet 0
      (EncodeEnvelope EnvelopeTypeTx (EncodeTx ?sg)) 0 = (Inr l1, w')" by blast
  have fn: "fetchNonce ?en 5 = Inr ?n" using fetchNonce_node [of ?en shop_node 5] by (simp add: node)
  have v: "?f (rec_slot 0 2) = 50" "?f (rec_slot 0 3) = 0" "?f (rec_slot 0 4) = 0" "?f (rec_slot 0 5) = 0" "?f (rec_slot 0 6) = 0"
    "?f (rec_slot 0 8) = 0" by (simp_all add: sale_slots rec_slot_def htlcSlotBase_def htlcSlotStride_def)
  have hash: "hash_bytes 0 = words_hash 0 0 0 0" "be_word (hash_bytes 0) = (0 :: hash256)" by code_simp+
  have pend: "checkHTLCPending ?en 0 q sample_cli = (Inr (), sample_cli)" for q by (simp add: checkHTLCPending_def sample_cli_def)
  have w: "cl_wallet sample_cli = 0" by (simp add: sample_cli_def)
  have same: "?en\<lparr>en_node := sample_api shop_node\<rparr> = ?en" by (simp add: sample_env_def)
  have "\<exists>r s'. submit_claim ?en 0 0 alice_key sample_cli = (Inr (BuyClaim r), s')"
    using p fn sg
    by (simp add: submit_claim_def rd v hash(2) hash(1) [symmetric] sample_key pend andDo_def pushAndReport_def do_push_def w update_def
        finish_def Hash256_Hex_nonempty Let_def)
  then show ?thesis by (simp add: swapBuyWaitAndClaim_def rd v same)
qed

theorem purchase_claim_pays_witness:
  "\<exists>r s' tx e'. swapBuyWaitAndClaim (sample_env shop_node) (map sample_api [shop_node]) 0 0 alice_key sample_cli = (Inr (BuyClaim r), s') \<and>
     executeTx shop_x (Executor_New sale_db) tx = Some (ok_receipt (TxID be_word tx) 0, e') \<and>
     h_status (htlc_at (slot_of be_word (ex_stateDB e') HTLCSystemAddress) 0) = htlcStatusClaimed \<and>
     GetBalance be_word (ex_stateDB e') 5 = 50"
proof -
  let ?f = "slot_of be_word sale_db HTLCSystemAddress"
  obtain r s' where run: "swapBuyWaitAndClaim (sample_env shop_node) (map sample_api [shop_node]) 0 0 alice_key sample_cli = (Inr (BuyClaim r), s')"
    using sample_purchase by blast
  have node: "hd_x shop_node = shop_x" "hd_stateDB shop_node = sale_db" by (simp_all add: shop_node_def)
  have addr: "(5 :: address) \<noteq> ZeroAddress" "5 \<noteq> HTLCSystemAddress" by (simp_all add: HTLCSystemAddress_eq)
  have rec: "h_recipient (htlc_at ?f 0) = CallerID 5" "h_amount (htlc_at ?f 0) = 50" "?f 0 = 1"
    by (simp_all add: sale_slots htlc_at_def rec_slot_def htlcSlotBase_def htlcSlotStride_def)
  have db: "ex_stateDB (Executor_New sale_db) = sale_db" "state_ok be_word UNIV sale_db" "GetBalance be_word sale_db 5 = 0"
    "GetBalance be_word sale_db HTLCSystemAddress = 70"
    using addr(2) by (simp_all add: Executor_New_def sale_db_def htlc_db_obs)
  note pays = purchase_claim_pays [where hs = "[shop_node]" and api = sample_api, OF refl _ run refl]
  obtain tx where "\<forall>e A c. hd_stateDB shop_node = ex_stateDB e \<longrightarrow> state_ok be_word A (ex_stateDB e) \<longrightarrow>
      HTLCSystemAddress \<in> A \<longrightarrow> 5 \<in> A \<longrightarrow> c = slot_of be_word (ex_stateDB e) HTLCSystemAddress 0 \<longrightarrow> 0 < c \<longrightarrow> unat c < max_htlcs \<longrightarrow>
      h_recipient (htlc_at (slot_of be_word (ex_stateDB e) HTLCSystemAddress) 0) = CallerID 5 \<longrightarrow>
      h_amount (htlc_at (slot_of be_word (ex_stateDB e) HTLCSystemAddress) 0) \<le> GetBalance be_word (ex_stateDB e) HTLCSystemAddress \<longrightarrow>
      (\<exists>e'. executeTx shop_x e tx = Some (ok_receipt (TxID be_word tx) 0, e') \<and>
        h_status (htlc_at (slot_of be_word (ex_stateDB e') HTLCSystemAddress) 0) = htlcStatusClaimed \<and>
        GetBalance be_word (ex_stateDB e') 5 =
          GetBalance be_word (ex_stateDB e) 5 + h_amount (htlc_at (slot_of be_word (ex_stateDB e) HTLCSystemAddress) 0))"
    using pays addr by (auto simp: node sample_key)
  from this [rule_format, of "Executor_New sale_db" UNIV 1] run
  show ?thesis by (auto simp: node db rec max_htlcs_def)
qed

end
