(* ===== verification/Tyl_Lnd.thy ===== *)
theory Tyl_Lnd
  imports Tyl_Swap_Props
begin

text \<open>
  The client of a Lightning node, \<open>internal/lnd/client.go\<close>: the requests with their fields, the reading of the replies, and
  the text forms of hashes and preimages. The node is the record \<open>lnd_node\<close>: its reply to a request is \<open>None\<close> when the
  request fails, and otherwise the status and the decoded body; a body that is not of the expected form is
  \<open>None\<close>. The standard library's base64 is modelled with its alphabets, padding and line breaks.

  The theory shows that hashes and preimages survive their text forms, and that the client reads the
  preimage of a payment in either form that Lightning nodes use. At the end the client is put in the place
  of the services on which the swap daemon relies.
\<close>

section \<open>Base64\<close>

definition StdAlphabet :: string where
  "StdAlphabet = ''ABCDEFGHIJKLMNOPQRSTUVWXYZabcdefghijklmnopqrstuvwxyz0123456789+/''"

definition URLAlphabet :: string where
  "URLAlphabet = ''ABCDEFGHIJKLMNOPQRSTUVWXYZabcdefghijklmnopqrstuvwxyz0123456789-_''"

text \<open>The four digits of 24 bits.\<close>

definition digit64 :: "nat \<Rightarrow> nat \<Rightarrow> nat" where
  "digit64 v k = v div 64 ^ k mod 64"

definition sextet :: "string \<Rightarrow> nat \<Rightarrow> nat \<Rightarrow> char" where
  "sextet al v k = al ! digit64 v k"

fun base64_Encode :: "string \<Rightarrow> bytes \<Rightarrow> string" where
  "base64_Encode al [] = []"
| "base64_Encode al [a] = (let v = unat a * 65536 in [sextet al v 3, sextet al v 2, CHR ''='', CHR ''=''])"
| "base64_Encode al [a, b] = (let v = unat a * 65536 + unat b * 256 in [sextet al v 3, sextet al v 2, sextet al v 1, CHR ''=''])"
| "base64_Encode al (a # b # c # bs) =
     (let v = unat a * 65536 + unat b * 256 + unat c
      in [sextet al v 3, sextet al v 2, sextet al v 1, sextet al v 0] @ base64_Encode al bs)"

definition sextet_value :: "string \<Rightarrow> char \<Rightarrow> nat option" where
  "sextet_value al c = (if c \<in> set al then Some (length (takeWhile (\<lambda>d. d \<noteq> c) al)) else None)"

text \<open>The first \<open>n\<close> of the three bytes of 24 bits.\<close>

definition octets :: "nat \<Rightarrow> nat \<Rightarrow> bytes" where
  "octets n v = take n [of_nat (v div 65536), of_nat (v div 256), of_nat v]"

fun base64_quanta :: "string \<Rightarrow> string \<Rightarrow> bytes option" where
  "base64_quanta al [] = Some []"
| "base64_quanta al (p # q # r # s # rest) =
     (case (sextet_value al p, sextet_value al q) of
        (Some i, Some j) \<Rightarrow>
          (case sextet_value al r of
             None \<Rightarrow> if r = CHR ''='' \<and> s = CHR ''='' \<and> rest = [] then Some (octets 1 (i * 262144 + j * 4096)) else None
           | Some k \<Rightarrow>
               (case sextet_value al s of
                  None \<Rightarrow> if s = CHR ''='' \<and> rest = [] then Some (octets 2 (i * 262144 + j * 4096 + k * 64)) else None
                | Some l \<Rightarrow> map_option (\<lambda>bs. octets 3 (i * 262144 + j * 4096 + k * 64 + l) @ bs) (base64_quanta al rest)))
      | _ \<Rightarrow> None)"
| "base64_quanta al s = None"

text \<open>Line breaks are skipped.\<close>

definition base64_Decode :: "string \<Rightarrow> string \<Rightarrow> bytes option" where
  "base64_Decode al s = base64_quanta al (filter (\<lambda>c. (of_char c :: nat) \<notin> {10, 13}) s)"

section \<open>The client\<close>

datatype json_value = Text string | Number int | Truth bool

type_synonym json_body = "string \<rightharpoonup> string"

record lnd_node =
  ln_get :: "string \<Rightarrow> (nat \<times> json_body option) option"
  ln_payreq :: "string \<Rightarrow> (nat \<times> (string \<times> int) option) option"
  ln_post :: "string \<Rightarrow> (string \<times> json_value) list \<Rightarrow> (nat \<times> json_body option) option"
  ln_stream :: "string \<Rightarrow> (string \<times> json_value) list \<Rightarrow> (nat \<times> json_body option list) option"

datatype lnd_error =
  LndRequest | LndStatus nat | LndBody | UnknownInvoiceState string | PaymentFailed string string | InvalidPreimage

definition lnd_status :: "(nat \<times> 'b) option \<Rightarrow> lnd_error + 'b" where
  "lnd_status reply =
     (case reply of
        None \<Rightarrow> Inl LndRequest
      | Some (code, body) \<Rightarrow> if code \<noteq> 200 then Inl (LndStatus code) else Inr body)"

text \<open>A reply whose body is unmarshalled.\<close>

definition lnd_body :: "(nat \<times> 'b option) option \<Rightarrow> lnd_error + 'b" where
  "lnd_body reply =
     (case lnd_status reply of Inl e \<Rightarrow> Inl e | Inr None \<Rightarrow> Inl LndBody | Inr (Some body) \<Rightarrow> Inr body)"

text \<open>A missing field keeps the empty text.\<close>

definition body_text :: "json_body \<Rightarrow> string \<Rightarrow> string" where
  "body_text body k = (case body k of None \<Rightarrow> [] | Some v \<Rightarrow> v)"

definition AddHoldInvoice :: "lnd_node \<Rightarrow> hash256 \<Rightarrow> int \<Rightarrow> string \<Rightarrow> lnd_error + string" where
  "AddHoldInvoice c hash amountSats memo =
     (case lnd_body (ln_post c ''/v2/invoices/hodl''
             [(''hash'', Text (base64_Encode StdAlphabet (hash_bytes hash))), (''value'', Number amountSats), (''memo'', Text memo)]) of
        Inl e \<Rightarrow> Inl e
      | Inr body \<Rightarrow> Inr (body_text body ''payment_request''))"

definition lnd_SettleInvoice :: "lnd_node \<Rightarrow> hash256 \<Rightarrow> lnd_error + unit" where
  "lnd_SettleInvoice c preimage =
     (case lnd_status (ln_post c ''/v2/invoices/settle'' [(''preimage'', Text (base64_Encode StdAlphabet (hash_bytes preimage)))]) of
        Inl e \<Rightarrow> Inl e
      | Inr _ \<Rightarrow> Inr ())"

definition lnd_CancelInvoice :: "lnd_node \<Rightarrow> hash256 \<Rightarrow> lnd_error + unit" where
  "lnd_CancelInvoice c hash =
     (case lnd_status (ln_post c ''/v2/invoices/cancel'' [(''payment_hash'', Text (base64_Encode StdAlphabet (hash_bytes hash)))]) of
        Inl e \<Rightarrow> Inl e
      | Inr _ \<Rightarrow> Inr ())"

definition LookupInvoice :: "lnd_node \<Rightarrow> hash256 \<Rightarrow> lnd_error + InvoiceState" where
  "LookupInvoice c hash =
     (case lnd_body (ln_get c (''/v2/invoices/lookup?payment_hash='' @ base64_Encode URLAlphabet (hash_bytes hash))) of
        Inl e \<Rightarrow> Inl e
      | Inr body \<Rightarrow>
          let state = body_text body ''state''
          in if state = ''OPEN'' then Inr InvoiceOpen
             else if state = ''SETTLED'' then Inr InvoiceSettled
             else if state = ''CANCELED'' then Inr InvoiceCanceled
             else if state = ''ACCEPTED'' then Inr InvoiceAccepted
             else Inl (UnknownInvoiceState state))"

text \<open>The payment hash and the amount of a payment request.\<close>

definition DecodePayReq :: "lnd_node \<Rightarrow> string \<Rightarrow> lnd_error + string \<times> int" where
  "DecodePayReq c payReq = lnd_body (ln_payreq c (''/v1/payreq/'' @ payReq))"

text \<open>The results of the stream are decoded one after the other into the same variable, up to the first
  one that is no JSON.\<close>

record payment_result =
  pr_Status :: string
  pr_PreimageHex :: string
  pr_FailureReason :: string

definition merge_result :: "json_body \<Rightarrow> payment_result \<Rightarrow> payment_result" where
  "merge_result body r =
     \<lparr>pr_Status = (case body ''status'' of None \<Rightarrow> pr_Status r | Some v \<Rightarrow> v),
      pr_PreimageHex = (case body ''payment_preimage'' of None \<Rightarrow> pr_PreimageHex r | Some v \<Rightarrow> v),
      pr_FailureReason = (case body ''failure_reason'' of None \<Rightarrow> pr_FailureReason r | Some v \<Rightarrow> v)\<rparr>"

fun read_stream :: "json_body option list \<Rightarrow> payment_result \<Rightarrow> payment_result" where
  "read_stream [] r = r"
| "read_stream (None # bodies) r = r"
| "read_stream (Some body # bodies) r = read_stream bodies (merge_result body r)"

definition read_preimage :: "string \<Rightarrow> bytes option" where
  "read_preimage s =
     (case base64_Decode StdAlphabet s of
        Some b \<Rightarrow>
          if length b = 32 then Some b
          else (case hex_Decode s of None \<Rightarrow> None | Some b \<Rightarrow> if length b = 32 then Some b else None)
      | None \<Rightarrow> (case hex_Decode s of None \<Rightarrow> None | Some b \<Rightarrow> if length b = 32 then Some b else None))"

definition lnd_SendPayment :: "lnd_node \<Rightarrow> string \<Rightarrow> int \<Rightarrow> lnd_error + hash256" where
  "lnd_SendPayment c payReq timeoutSecs =
     (case lnd_status (ln_stream c ''/v2/router/send''
             [(''payment_request'', Text payReq), (''timeout_seconds'', Number timeoutSecs), (''no_inflight_updates'', Truth True)]) of
        Inl e \<Rightarrow> Inl e
      | Inr bodies \<Rightarrow>
          let result = read_stream bodies \<lparr>pr_Status = [], pr_PreimageHex = [], pr_FailureReason = []\<rparr>
          in if pr_Status result \<noteq> ''SUCCEEDED'' then Inl (PaymentFailed (pr_Status result) (pr_FailureReason result))
             else (case read_preimage (pr_PreimageHex result) of None \<Rightarrow> Inl InvalidPreimage | Some b \<Rightarrow> Inr (be_word b)))"

section \<open>Base64 reads back\<close>

text \<open>24 bits from their digits, and the bytes from the 24 bits.\<close>

lemma sextets_sum:
  assumes "v < 16777216"
  shows "digit64 v 3 * 262144 + digit64 v 2 * 4096 + digit64 v 1 * 64 + digit64 v 0 = v"
proof -
  define a b c where "a = v div 64" and "b = a div 64" and "c = b div 64"
  have e: "v = a * 64 + v mod 64" "a = b * 64 + a mod 64" "b = c * 64 + b mod 64" by (simp_all add: a_def b_def c_def)
  have d: "v div 64 ^ 1 = a" "v div 64 ^ 2 = b" "v div 64 ^ 3 = c" "v div 64 ^ 0 = v"
    by (simp_all add: a_def b_def c_def div_mult2_eq [symmetric])
  have "c < 64" using assms by (simp add: a_def b_def c_def div_mult2_eq [symmetric])
  then have "c mod 64 = c" by simp
  then show ?thesis unfolding digit64_def d using e by linarith
qed

lemma octets_bytes:
  assumes "v = unat a * 65536 + unat b * 256 + unat c"
  shows "v < 16777216" and "octets 3 v = [a, b, c]" and "c = 0 \<Longrightarrow> octets 2 v = [a, b]" and "b = 0 \<Longrightarrow> c = 0 \<Longrightarrow> octets 1 v = [a]"
proof -
  have u: "unat x < 256" for x :: byte using unsigned_less [of x] by simp
  show "v < 16777216" using u [of a] u [of b] u [of c] assms by simp
  have d: "v div 65536 = unat a" "v div 256 = unat a * 256 + unat b" "v = (unat a * 256 + unat b) * 256 + unat c"
    using u [of a] u [of b] u [of c] assms by simp_all
  have z: "(of_nat 256 :: byte) = 0" by simp
  have y: "(of_nat (x * 256 + unat y) :: byte) = y" for x y unfolding of_nat_add of_nat_mult z by simp
  have "of_nat (v div 65536) = a" unfolding d(1) by simp
  moreover have "of_nat (v div 256) = b" unfolding d(2) by (rule y)
  moreover have "of_nat v = c" by (subst d(3)) (rule y)
  ultimately show "octets 3 v = [a, b, c]" "c = 0 \<Longrightarrow> octets 2 v = [a, b]" "b = 0 \<Longrightarrow> c = 0 \<Longrightarrow> octets 1 v = [a]"
    by (simp_all add: octets_def)
qed

text \<open>What the codec needs of its alphabet.\<close>

locale base64_alphabet =
  fixes al :: string
  assumes distinct: "distinct al" and length: "length al = 64" and no_pad: "CHR ''='' \<notin> set al"
    and no_break: "\<forall>c\<in>set al. (of_char c :: nat) \<notin> {10, 13}"
begin

lemma value_nth: "n < 64 \<Longrightarrow> sextet_value al (al ! n) = Some n"
proof -
  assume n: "n < 64"
  have "takeWhile (\<lambda>d. d \<noteq> al ! n) al = take n al"
    using n length distinct by (intro takeWhile_eq_take_P_nth) (auto simp: nth_eq_iff_index_eq)
  then show ?thesis using n length by (simp add: sextet_value_def)
qed

lemma value_sextet [simp]: "sextet_value al (sextet al v k) = Some (digit64 v k)"
  unfolding sextet_def by (rule value_nth) (simp add: digit64_def)

lemma value_pad [simp]: "sextet_value al (CHR ''='') = None"
  using no_pad by (simp add: sextet_value_def)

lemma quanta_encode: "base64_quanta al (base64_Encode al bs) = Some bs"
proof -
  have "a = al \<Longrightarrow> base64_quanta a (base64_Encode a bs) = Some bs" for a
  proof (induction a bs rule: base64_Encode.induct)
    case (2 al' a)
    define v where v: "v = unat a * 65536 + unat (0 :: byte) * 256 + unat (0 :: byte)"
    note s = sextets_sum [OF octets_bytes(1) [OF v]] octets_bytes(4) [OF v refl refl]
    have "digit64 v 1 = 0" "digit64 v 0 = 0" by (simp_all add: v digit64_def)
    moreover have "base64_Encode al [a] = [sextet al v 3, sextet al v 2, CHR ''='', CHR ''='']" by (simp add: v Let_def)
    ultimately show ?case using 2 s by (simp del: base64_Encode.simps One_nat_def)
  next
    case (3 al' a b)
    define v where v: "v = unat a * 65536 + unat b * 256 + unat (0 :: byte)"
    note s = sextets_sum [OF octets_bytes(1) [OF v]] octets_bytes(3) [OF v refl]
    have "digit64 v 0 = 0" by (simp add: v digit64_def)
    moreover have "base64_Encode al [a, b] = [sextet al v 3, sextet al v 2, sextet al v 1, CHR ''='']" by (simp add: v Let_def)
    ultimately show ?case using 3 s by (simp del: base64_Encode.simps One_nat_def)
  next
    case (4 al' a b c bs)
    define v where v: "v = unat a * 65536 + unat b * 256 + unat c"
    note s = sextets_sum [OF octets_bytes(1) [OF v]] octets_bytes(2) [OF v]
    have "base64_Encode al (a # b # c # bs) = [sextet al v 3, sextet al v 2, sextet al v 1, sextet al v 0] @ base64_Encode al bs"
      by (simp add: v Let_def)
    then show ?case using 4 s by (simp del: base64_Encode.simps One_nat_def)
  qed simp
  then show ?thesis by simp
qed

lemma encoded_chars: "c \<in> set (base64_Encode al bs) \<Longrightarrow> c = CHR ''='' \<or> c \<in> set al"
proof -
  have s: "sextet al v k \<in> set al" for v k unfolding sextet_def using length by (intro nth_mem) (simp add: digit64_def)
  have "a = al \<Longrightarrow> c \<in> set (base64_Encode a bs) \<Longrightarrow> c = CHR ''='' \<or> c \<in> set a" for a
    by (induction a bs rule: base64_Encode.induct) (use s in \<open>auto simp: Let_def\<close>)
  then show "c \<in> set (base64_Encode al bs) \<Longrightarrow> c = CHR ''='' \<or> c \<in> set al" by simp
qed

lemma decode_encode: "base64_Decode al (base64_Encode al bs) = Some bs"
proof -
  have "filter (\<lambda>c. (of_char c :: nat) \<notin> {10, 13}) (base64_Encode al bs) = base64_Encode al bs"
    using encoded_chars no_break by (intro filter_True) fastforce
  then show ?thesis by (simp add: base64_Decode_def quanta_encode)
qed

text \<open>Text of the alphabet alone, without padding, decodes to three bytes for every four characters.\<close>

lemma quanta_plain: "set s \<subseteq> set al \<Longrightarrow> length s = 4 * n \<Longrightarrow> \<exists>b. base64_quanta al s = Some b \<and> length b = 3 * n"
proof (induction n arbitrary: s)
  case (Suc n)
  then obtain p q r u rest where s: "s = p # q # r # u # rest" "length rest = 4 * n"
    by (auto simp: length_Suc_conv numeral_eq_Suc)
  with Suc.prems(1) have "\<exists>i j k l. sextet_value al p = Some i \<and> sextet_value al q = Some j \<and> sextet_value al r = Some k \<and> sextet_value al u = Some l"
    by (simp add: sextet_value_def)
  moreover obtain b where "base64_quanta al rest = Some b" "length b = 3 * n" using Suc s by auto
  ultimately show ?case by (auto simp: s octets_def)
qed simp

end

interpretation std: base64_alphabet StdAlphabet
  by unfold_locales (simp_all add: StdAlphabet_def)

interpretation url: base64_alphabet URLAlphabet
  by unfold_locales (simp_all add: URLAlphabet_def)

section \<open>Preimages\<close>

lemma hex_in_alphabet: "set (hex_EncodeToString b) \<subseteq> set StdAlphabet"
proof -
  have "hex_char n \<in> set StdAlphabet" if "n < 16" for n
  proof -
    have "\<forall>k\<in>set [0..<16]. hex_char (of_nat k) \<in> set StdAlphabet" by code_simp
    moreover have "unat n \<in> set [0..<16]" using that by (simp add: word_less_nat_alt)
    ultimately show ?thesis by fastforce
  qed
  then show ?thesis using nibbles(2,3) by (auto simp: hex_EncodeToString_def)
qed

lemma preimage_forms:
  assumes "length b = 32" and "s = base64_Encode StdAlphabet b \<or> s = hex_EncodeToString b"
  shows "read_preimage s = Some b"
proof -
  have "length (hex_EncodeToString b) = 4 * 16" using assms(1) by (simp add: hex_EncodeToString_def length_concat comp_def sum_list_triv)
  from std.quanta_plain [OF hex_in_alphabet this]
  obtain c where c: "base64_quanta StdAlphabet (hex_EncodeToString b) = Some c" "length c = 48" by auto
  have "filter (\<lambda>c. (of_char c :: nat) \<notin> {10, 13}) (hex_EncodeToString b) = hex_EncodeToString b"
    using hex_in_alphabet std.no_break by (intro filter_True) blast
  then have "base64_Decode StdAlphabet (hex_EncodeToString b) = Some c" using c(1) by (simp add: base64_Decode_def)
  then show ?thesis using assms c(2) by (auto simp: read_preimage_def std.decode_encode hex_roundtrip)
qed

section \<open>The services of the swap daemon\<close>

text \<open>The client in the place of the services. The text of an error only goes to the record of the swap; the transport's
  own words are left out of it.\<close>

fun lnd_error_text :: "lnd_error \<Rightarrow> string" where
  "lnd_error_text LndRequest = ''lnd request''"
| "lnd_error_text (LndStatus code) = ''HTTP '' @ show_nat code"
| "lnd_error_text LndBody = ''unmarshal''"
| "lnd_error_text (UnknownInvoiceState state) = ''unknown invoice state: '' @ state"
| "lnd_error_text (PaymentFailed status reason) = ''payment failed: '' @ status @ '' ('' @ reason @ '')''"
| "lnd_error_text InvalidPreimage = ''invalid preimage in response''"

definition right :: "'e + 'a \<Rightarrow> 'a option" where
  "right r = (case r of Inl _ \<Rightarrow> None | Inr a \<Rightarrow> Some a)"

definition lnd_services :: "lnd_node \<Rightarrow> services \<Rightarrow> services" where
  "lnd_services c sv =
     sv\<lparr>sv_AddHoldInvoice := \<lambda>hash amountSats memo. right (AddHoldInvoice c hash amountSats memo),
        sv_SettleInvoice := \<lambda>preimage. right (lnd_SettleInvoice c preimage) \<noteq> None,
        sv_LookupInvoice := \<lambda>hash. right (LookupInvoice c hash),
        sv_DecodePayReq := \<lambda>payReq. right (DecodePayReq c payReq),
        sv_SendPayment := \<lambda>payReq. map_sum lnd_error_text id (lnd_SendPayment c payReq 60)\<rparr>"

abbreviation pay_fields :: "string \<Rightarrow> (string \<times> json_value) list" where
  "pay_fields payReq \<equiv> [(''payment_request'', Text payReq), (''timeout_seconds'', Number 60), (''no_inflight_updates'', Truth True)]"

lemma read_stream_last: "read_stream (map Some bodies @ [Some body]) r = merge_result body (foldl (\<lambda>r b. merge_result b r) r bodies)"
  by (induction bodies arbitrary: r) simp_all

lemma stream_paid:
  assumes "ln_stream c ''/v2/router/send'' (pay_fields payReq) = Some (200, map Some bodies @ [Some body])"
    and "body ''status'' = Some ''SUCCEEDED''" and "body ''payment_preimage'' = Some s"
    and "s = base64_Encode StdAlphabet (hash_bytes p) \<or> s = hex_EncodeToString (hash_bytes p)"
  shows "lnd_SendPayment c payReq 60 = Inr p"
  using assms preimage_forms [of "hash_bytes p" s]
  by (simp add: lnd_SendPayment_def lnd_status_def read_stream_last merge_result_def Let_def) (simp add: hash_bytes_def)

lemma kept_by_updateState: "d_preimageFiles (updateState i st d) = d_preimageFiles d" "d_DataDir (updateState i st d) = d_DataDir d"
  by (simp_all add: updateState_def persistSwaps_def release_def Let_def split: option.split)

lemma swaps_modify: "map_of (d_swaps d) i = Some s \<Longrightarrow> map_of (d_swaps (modify i f d)) i = Some (f s)"
  by (simp add: modify_def)


text \<open>A payment whose outcome is not known counts as failed: when the stream ends before a final result, for example because the
  connection was lost, the swap ends as failed and its contract is not claimed, although the invoice may
  still be paid.\<close>

theorem unknown_outcome_fails_sale:
  assumes "ln_stream c ''/v2/router/send'' (pay_fields (sw_Invoice s)) = None \<or>
      ln_stream c ''/v2/router/send'' (pay_fields (sw_Invoice s)) = Some (200, [Some [''status'' \<mapsto> ''IN_FLIGHT'']])"
    and "map_of (d_swaps d) i = Some s"
  shows "\<exists>d' s'. executeSell (lnd_services c sv) i d = Some d' \<and> map_of (d_swaps d') i = Some s' \<and> sw_State s' = StateFailed \<and>
    d_log d' = d_log d @ [SendPayment (sw_Invoice s)]"
proof -
  obtain e where e: "sv_SendPayment (lnd_services c sv) (sw_Invoice s) = Inl e"
    using assms(1) by (auto simp: lnd_services_def lnd_SendPayment_def lnd_status_def merge_result_def Let_def)
  define d1 where "d1 = logged (SendPayment (sw_Invoice s)) (updateState i StatePaymentInFlight d)"
  have "executeSell (lnd_services c sv) i d = Some (failSwap i (''LN payment failed: '' @ e) d1)"
    using assms(2) by (simp add: executeSell_def sell_pay_def e d1_def Let_def)
  moreover have "map_of (d_swaps d1) i = Some (s\<lparr>sw_State := StatePaymentInFlight\<rparr>)"
    unfolding d1_def logged_fields by (rule swaps_updateState [OF assms(2)])
  then have "map_of (d_swaps (failSwap i (''LN payment failed: '' @ e) d1)) i =
      Some (s\<lparr>sw_State := StateFailed, sw_Error := ''LN payment failed: '' @ e\<rparr>)"
    by (simp add: failSwap_def modify_def release_def)
  moreover have "d_log (failSwap i (''LN payment failed: '' @ e) d1) = d_log d @ [SendPayment (sw_Invoice s)]"
    by (simp add: failSwap_def d1_def release_def updateState_def persistSwaps_def Let_def split: option.split)
  ultimately show ?thesis by fastforce
qed

section \<open>Samples\<close>

definition sample_lnd :: lnd_node where
  "sample_lnd = \<lparr>ln_get = \<lambda>_. None, ln_payreq = \<lambda>_. None, ln_post = \<lambda>_ _. None,
     ln_stream = \<lambda>_ _. Some (200, [Some [''status'' \<mapsto> ''IN_FLIGHT''],
       Some [''status'' \<mapsto> ''SUCCEEDED'', ''payment_preimage'' \<mapsto> hex_EncodeToString (hash_bytes 7)]])\<rparr>"


end
