(* ===== verification/Tyl_Tyld.thy ===== *)
theory Tyl_Tyld
  imports Tyl_Node_Facts Tyl_Client
begin

text \<open>
  The node program \<open>cmd/tyld/main.go\<close> on the Bitcoin client: it opens the node, synchronises, and follows the
  blocks that \<open>Scanner.Subscribe\<close> of \<open>internal/scanner/scanner.go\<close> delivers. The Bitcoin node may change between
  the polls of the subscription, so a run has one \<open>btc_node\<close> for the synchronisation and one for each poll;
  the list of polls ends when the program is told to stop. The results of a poll are handled before the
  next poll.

  The theory shows that following a chain block by block ends in the same node as reading all of it at
  once, that the node stays consistent however the Bitcoin node behaves, and what becomes of a block that could
  not be fetched.
\<close>

section \<open>The program\<close>

definition Subscribe_poll :: "btc_node \<Rightarrow> uint64 \<Rightarrow> ScanResult list option \<times> uint64" where
  "Subscribe_poll c lastHeight =
     (case poll_blocks c lastHeight of (blocks, lastHeight) \<Rightarrow> (those (map scan_result blocks), lastHeight))"

abbreviation on_btc :: "env \<Rightarrow> btc_node \<Rightarrow> env" where
  "on_btc v c \<equiv> v\<lparr>v_GetBlockByHeight := GetBlockByHeight c\<rparr>"

primrec follow_polls :: "env \<Rightarrow> btc_node list \<Rightarrow> uint64 \<Rightarrow> node \<Rightarrow> node option" where
  "follow_polls v [] lastHeight n = Some n"
| "follow_polls v (c # cs) lastHeight n =
     (case Subscribe_poll c lastHeight of
        (None, _) \<Rightarrow> None
      | (Some results, lastHeight) \<Rightarrow>
          (case Follow (on_btc v c) results n of None \<Rightarrow> None | Some n \<Rightarrow> follow_polls v cs lastHeight n))"

text \<open>The data directory, if there is one, holds the database and the nodes of the tries.\<close>

definition Node_New :: "env \<Rightarrow> uint64 \<Rightarrow> (db \<times> kvstore \<times> (address \<Rightarrow> kvstore)) option \<Rightarrow> node" where
  "Node_New v genesis dataDir =
     (case dataDir of None \<Rightarrow> Node_memory genesis | Some (d, nodes, factory) \<Rightarrow> Node_restore v genesis d nodes factory)"

datatype tyld_exit = GenesisRequired | SyncFailed node_error | Stopped node

definition tyld ::
  "env \<Rightarrow> uint64 \<Rightarrow> (db \<times> kvstore \<times> (address \<Rightarrow> kvstore)) option \<Rightarrow> (uint64 \<Rightarrow> bool) \<Rightarrow> btc_node \<Rightarrow> btc_node list \<Rightarrow> tyld_exit option" where
  "tyld v genesis dataDir cancelled c cs =
     (if genesis = 0 then Some GenesisRequired
      else (case Sync (on_btc v c) cancelled (GetBestBlockHeight c) (Node_New v genesis dataDir) of
              None \<Rightarrow> None
            | Some (Some e, n) \<Rightarrow> Some (SyncFailed e)
            | Some (None, n) \<Rightarrow> map_option Stopped (follow_polls v cs (n_lastHeight n) n)))"

section \<open>What depends on the Bitcoin client\<close>

text \<open>Executing a block does not ask the client.\<close>

lemma index_receipts_client [simp]: "index_receipts (v\<lparr>v_GetBlockByHeight := g\<rparr>) rs dc = index_receipts v rs dc"
  by (induction v rs dc rule: index_receipts.induct) (simp_all add: Let_def)

lemma validate_client [simp]: "validateCheckpoint (v\<lparr>v_GetBlockByHeight := g\<rparr>) n cp = validateCheckpoint v n cp"
  by (simp add: validateCheckpoint_def split: option.split)

lemma best_checkpoint_client [simp]: "best_checkpoint (v\<lparr>v_GetBlockByHeight := g\<rparr>) n cps best = best_checkpoint v n cps best"
  by (induction cps arbitrary: best) simp_all

lemma persist_client [simp]: "persist (v\<lparr>v_GetBlockByHeight := g\<rparr>) b rs n = persist v b rs n"
  by (simp add: persist_def persist_receipts_def Let_def split: option.split)

lemma processCheckpoints_client [simp]: "processCheckpoints (v\<lparr>v_GetBlockByHeight := g\<rparr>) cps n = processCheckpoints v cps n"
  by (simp add: processCheckpoints_def split: option.split)

lemma tryFinalize_client [simp]: "tryFinalize (v\<lparr>v_GetBlockByHeight := g\<rparr>) n = tryFinalize v n"
  by (simp add: tryFinalize_def snapshot_finalized_def Let_def split: option.split)

lemma run_block_client [simp]: "run_block (v\<lparr>v_GetBlockByHeight := g\<rparr>) result n = run_block v result n"
  by (simp add: run_block_def Let_def split: option.split)

lemma rebuild_client [simp]: "rebuild_roots (v\<lparr>v_GetBlockByHeight := g\<rparr>) d hs = rebuild_roots v d hs"
  unfolding rebuild_roots_def by (rule arg_cong [where f = "\<lambda>f. foldl f Map.empty hs"], intro ext) (simp split: option.split)

lemma rollback_client [simp]: "rollbackToHeight (v\<lparr>v_GetBlockByHeight := g\<rparr>) d h n = rollbackToHeight v d h n"
  by (simp add: rollbackToHeight_def rollback_block_def Let_def split: option.split)

lemma node_inv_client [simp]: "node_inv (v\<lparr>v_GetBlockByHeight := g\<rparr>) n = node_inv v n"
  by (simp add: node_inv_def genuine_def)

text \<open>Handling a block asks only for blocks below it.\<close>

lemma findForkPoint_client:
  assumes "0 < genesis" and "\<forall>k \<le> h. g k = g' k"
  shows "findForkPoint (v\<lparr>v_GetBlockByHeight := g\<rparr>) genesis d h = findForkPoint (v\<lparr>v_GetBlockByHeight := g'\<rparr>) genesis d h"
  using assms(2)
proof (induction "unat h" arbitrary: h rule: less_induct)
  case less
  have "findForkPoint (v\<lparr>v_GetBlockByHeight := g\<rparr>) genesis d (h - 1) = findForkPoint (v\<lparr>v_GetBlockByHeight := g'\<rparr>) genesis d (h - 1)"
    if "genesis \<le> h"
  proof -
    have pos: "0 < h" using assms(1) that by (rule less_le_trans)
    have "unat (h - 1) < unat h" using pred_facts(1) [OF pos, of "h - 1"] by (simp add: word_less_nat_alt)
    moreover have "\<forall>k \<le> h - 1. g k = g' k" using less.prems pred_facts(1) [OF pos] by (auto intro: less_imp_le)
    ultimately show ?thesis by (rule less.hyps)
  qed
  then show ?case
    using less.prems by (subst (1 2) findForkPoint.simps) (auto simp: Let_def split: option.split)
qed

lemma reprocess_all_client:
  "\<forall>h\<in>set hs. g h = g' h \<Longrightarrow> reprocess_all (v\<lparr>v_GetBlockByHeight := g\<rparr>) hs n = reprocess_all (v\<lparr>v_GetBlockByHeight := g'\<rparr>) hs n"
  by (induction hs arbitrary: n) (auto simp: reprocessBlock_def ScanBlock_def split: option.splits)

lemma handle_result_client:
  assumes "0 < n_GenesisHeight n" and "0 < sr_L1Height result" and "\<forall>k < sr_L1Height result. g k = g' k"
  shows "handle_result (v\<lparr>v_GetBlockByHeight := g\<rparr>) result n = handle_result (v\<lparr>v_GetBlockByHeight := g'\<rparr>) result n"
proof -
  let ?p = "sr_L1Height result - 1"
  have le: "k \<le> ?p \<longleftrightarrow> k < sr_L1Height result" for k by (rule pred_facts(1) [OF assms(2)])
  have fork: "findForkPoint (v\<lparr>v_GetBlockByHeight := g\<rparr>) (n_GenesisHeight n) d ?p = findForkPoint (v\<lparr>v_GetBlockByHeight := g'\<rparr>) (n_GenesisHeight n) d ?p" for d
    using assms(3) by (intro findForkPoint_client [OF assms(1)]) (simp add: le)
  have again: "reprocess_all (v\<lparr>v_GetBlockByHeight := g\<rparr>) (heights a ?p) m = reprocess_all (v\<lparr>v_GetBlockByHeight := g'\<rparr>) (heights a ?p) m" for a m
    using assms(3) by (intro reprocess_all_client) (simp add: set_heights le)
  have "detectAndHandleReorg (v\<lparr>v_GetBlockByHeight := g\<rparr>) result n = detectAndHandleReorg (v\<lparr>v_GetBlockByHeight := g'\<rparr>) result n"
    by (simp add: detectAndHandleReorg_def fork again Let_def split: option.split sum.split prod.split)
  then show ?thesis by (simp add: handle_result_def split: option.split)
qed

section \<open>Following is synchronising\<close>

lemma sync_all_append:
  "sync_all v cancelled (xs @ ys) n =
     (case sync_all v cancelled xs n of
        None \<Rightarrow> None | Some (Some e, n) \<Rightarrow> Some (Some e, n) | Some (None, n) \<Rightarrow> sync_all v cancelled ys n)"
  by (induction xs arbitrary: n) (auto split: option.split)

lemma those_map: "\<forall>x\<in>set xs. f x = Some (g x) \<Longrightarrow> those (map f xs) = Some (map g xs)"
  by (induction xs) simp_all

text \<open>A chain that the clients agree on up to a height.\<close>

definition serves :: "(uint64 \<Rightarrow> btc_block) \<Rightarrow> btc_node \<Rightarrow> bool" where
  "serves chain c \<longleftrightarrow> (\<forall>tip. GetBestBlockHeight c = Some tip \<longrightarrow> (\<forall>h \<le> tip. GetBlockByHeight c h = Some (chain h)))"

text \<open>The heights above \<open>l\<close> up to \<open>t\<close>; the counter of the loops does not wrap.\<close>

definition beyond :: "uint64 \<Rightarrow> uint64 \<Rightarrow> uint64 list" where
  "beyond l t = map of_nat [Suc (unat l)..<Suc (unat t)]"

lemma beyond_heights: "l < t \<Longrightarrow> beyond l t = heights (l + 1) t"
proof -
  assume "l < t"
  then have "1 + l \<noteq> 0" using pred_facts(3) by (metis add.commute add_eq_0_iff2)
  then show ?thesis using unatSuc [of l] by (simp add: beyond_def heights_def add.commute)
qed

lemma beyond_empty: "t \<le> l \<Longrightarrow> beyond l t = []"
  by (simp add: beyond_def word_le_nat_alt)

lemma set_beyond: "h \<in> set (beyond l t) \<longleftrightarrow> l < h \<and> h \<le> t"
proof (cases "l < t")
  case True
  then show ?thesis by (simp add: beyond_heights set_heights pred_facts(2))
next
  case False
  then show ?thesis by (auto simp: beyond_empty)
qed

lemma sorted_beyond: "sorted_wrt (<) (beyond l t)"
  by (cases "l < t") (simp_all add: beyond_heights sorted_heights beyond_empty)

lemma last_beyond: "l \<le> t \<Longrightarrow> last (l # beyond l t) = t"
  using last_heights [of "l + 1" t] by (cases "l < t") (auto simp: beyond_heights beyond_empty pred_facts(2))

lemma beyond_append: "l \<le> t \<Longrightarrow> t \<le> u \<Longrightarrow> beyond l u = beyond l t @ beyond t u"
  using upt_add_eq_append [of "Suc (unat l)" "Suc (unat t)" "unat u - unat t"]
  by (simp add: beyond_def word_le_nat_alt del: upt_Suc flip: map_append)

lemma Sync_beyond: "Sync v cancelled (Some t) n = sync_all v cancelled (beyond (n_lastHeight n) t) n"
  by (auto simp: Sync_def beyond_heights beyond_empty)

lemma poll_serves:
  assumes "serves chain c" and "GetBestBlockHeight c = Some tip" and "l < tip"
  shows "poll_blocks c l = (map chain (beyond l tip), tip)"
proof -
  have "\<forall>h\<in>set [Suc (unat l)..<Suc (unat tip)]. GetBlockByHeight c (of_nat h) = Some (chain (of_nat h))"
    using assms set_beyond [of _ l tip] by (auto simp: serves_def beyond_def simp del: upt_Suc)
  then show ?thesis using assms(2,3) fetch_all [of _ c "\<lambda>h. chain (of_nat h)"]
    by (auto simp: poll_blocks_def beyond_def simp del: upt_Suc)
qed

text \<open>Handling the scanned blocks of a synchronisation that succeeds, one after the other, with any client
  that agrees below each of them.\<close>

lemma sync_is_follow:
  assumes "sync_all (v\<lparr>v_GetBlockByHeight := \<lambda>h. Some (chain h)\<rparr>) (\<lambda>_. False) hs n = Some (None, n')"
    and "\<forall>h. bb_Height (chain h) = h" and "0 < n_GenesisHeight n" and "node_inv v n"
    and "sorted_wrt (<) (n_lastHeight n # hs)" and "\<forall>h\<in>set hs. \<forall>k \<le> h. g k = Some (chain k)"
  shows "(\<exists>rs. those (map scan_result (map chain hs)) = Some rs \<and> Follow (v\<lparr>v_GetBlockByHeight := g\<rparr>) rs n = Some n') \<and>
    sync_all (v\<lparr>v_GetBlockByHeight := g\<rparr>) (\<lambda>_. False) hs n = Some (None, n') \<and>
    node_inv v n' \<and> n_GenesisHeight n' = n_GenesisHeight n \<and> n_lastHeight n' = last (n_lastHeight n # hs)"
  using assms(1,3-6)
proof (induction hs arbitrary: n)
  case (Cons h hs)
  let ?v = "v\<lparr>v_GetBlockByHeight := \<lambda>h. Some (chain h)\<rparr>"
  obtain n1 where 1: "processBlock ?v h n = Some (None, n1)" and 2: "sync_all ?v (\<lambda>_. False) hs n1 = Some (None, n')"
    using Cons.prems(1) by (auto split: option.splits)
  obtain r where r: "scan_result (chain h) = Some r" and hr: "handle_result ?v r n = Some (None, n1)"
    using 1 by (auto simp: processBlock_def ScanBlock_def split: option.splits)
  have lh: "sr_L1Height r = h" using r assms(2) by (auto simp: scan_result_def split: option.splits)
  have h: "n_lastHeight n < h" using Cons.prems(4) by simp
  note pos = pos_above [OF h]
  have ok: "client_ok ?v" using assms(2) by (simp add: client_ok_def)
  have s: "node_inv v n1" "n_GenesisHeight n1 = n_GenesisHeight n" "n_lastHeight n1 = h"
    using processBlock_safe [OF 1 ok Cons.prems(2) _ less_imp_le [OF h] pos] Cons.prems(3) by simp_all
  have hg: "handle_result (v\<lparr>v_GetBlockByHeight := g\<rparr>) r n = Some (None, n1)"
    using handle_result_client [OF Cons.prems(2), of r g "\<lambda>h. Some (chain h)" v] hr pos lh Cons.prems(5) by simp
  have pg: "processBlock (v\<lparr>v_GetBlockByHeight := g\<rparr>) h n = Some (None, n1)"
    using r hg Cons.prems(5) by (simp add: processBlock_def ScanBlock_def)
  from Cons.IH [OF 2] s Cons.prems obtain rs where "those (map scan_result (map chain hs)) = Some rs"
      "Follow (v\<lparr>v_GetBlockByHeight := g\<rparr>) rs n1 = Some n'"
      "sync_all (v\<lparr>v_GetBlockByHeight := g\<rparr>) (\<lambda>_. False) hs n1 = Some (None, n')"
    and "node_inv v n'" "n_GenesisHeight n' = n_GenesisHeight n" "n_lastHeight n' = last (h # hs)"
    by auto
  then show ?case using r hg pg by simp
qed simp

text \<open>The greatest height that the polls report.\<close>

definition reached :: "btc_node list \<Rightarrow> uint64 \<Rightarrow> uint64" where
  "reached cs l = fold (\<lambda>c m. case GetBestBlockHeight c of None \<Rightarrow> m | Some t \<Rightarrow> max m t) cs l"

lemma reached_ge: "l \<le> reached cs l"
  unfolding reached_def by (induction cs arbitrary: l) (auto split: option.split intro: order_trans [OF max.cobounded1])

lemma follow_polls_sync:
  assumes "\<forall>c\<in>set cs. serves chain c" and "\<forall>h. bb_Height (chain h) = h"
    and "sync_all (v\<lparr>v_GetBlockByHeight := \<lambda>h. Some (chain h)\<rparr>) (\<lambda>_. False) (beyond l (reached cs l)) n = Some (None, n')"
    and "0 < n_GenesisHeight n" and "node_inv v n" and "n_lastHeight n = l"
  shows "follow_polls v cs l n = Some n'"
  using assms(1,3-6)
proof (induction cs arbitrary: l n)
  case Nil
  then show ?case by (simp add: reached_def beyond_empty)
next
  case (Cons c cs)
  let ?v = "v\<lparr>v_GetBlockByHeight := \<lambda>h. Some (chain h)\<rparr>"
  show ?case
  proof (cases "\<exists>tip. GetBestBlockHeight c = Some tip \<and> l < tip")
    case False
    then have "poll_blocks c l = ([], l)" "reached (c # cs) l = reached cs l"
      by (auto simp: poll_blocks_def reached_def max_def split: option.split)
    then show ?thesis using Cons by (simp add: Subscribe_poll_def)
  next
    case True
    then obtain tip where tip: "GetBestBlockHeight c = Some tip" "l < tip" by blast
    have re: "reached (c # cs) l = reached cs tip" using tip by (auto simp: reached_def max_def)
    have "beyond l (reached cs tip) = beyond l tip @ beyond tip (reached cs tip)"
      using tip(2) reached_ge by (intro beyond_append) auto
    then obtain n1 where 1: "sync_all ?v (\<lambda>_. False) (beyond l tip) n = Some (None, n1)"
      and 2: "sync_all ?v (\<lambda>_. False) (beyond tip (reached cs tip)) n1 = Some (None, n')"
      using Cons.prems(2) by (auto simp: re sync_all_append split: option.splits)
    have srv: "serves chain c" using Cons.prems(1) by simp
    then have g: "\<forall>h\<in>set (beyond l tip). \<forall>k \<le> h. GetBlockByHeight c k = Some (chain k)"
      using tip(1) by (auto simp: serves_def set_beyond)
    have "sorted_wrt (<) (n_lastHeight n # beyond l tip)" using Cons.prems(5) sorted_beyond by (simp add: set_beyond)
    note f = sync_is_follow [OF 1 assms(2) Cons.prems(3,4) this g]
    then have "n_lastHeight n1 = tip" using last_beyond [of l tip] tip(2) Cons.prems(5) by simp
    then have "follow_polls v cs tip n1 = Some n'" using Cons.IH [OF _ 2] Cons.prems(1,3) f by simp
    then show ?thesis using f poll_serves [OF srv tip] by (auto simp: Subscribe_poll_def)
  qed
qed

lemma New_genesis: "n_GenesisHeight (Node_New v genesis dataDir) = genesis"
  by (simp add: Node_New_def Node_memory_def Node_restore_def Let_def split: option.split)

text \<open>C40: a node is reconstructed from the Bitcoin chain: as long as the Bitcoin node answers from one chain, the
  program, which synchronises to the height it finds at the start and then follows the polls block by block,
  ends in exactly the node that reading the whole chain at once gives, at the greatest height that was
  reported; and that node is consistent.\<close>

theorem tyld_reconstructs:
  assumes "\<forall>d\<in>set (c # cs). serves chain d" and "\<forall>h. bb_Height (chain h) = h" and "0 < genesis"
    and "n = Node_New v genesis dataDir" and "node_inv v n" and "GetBestBlockHeight c = Some tip"
    and "Sync (v\<lparr>v_GetBlockByHeight := \<lambda>h. Some (chain h)\<rparr>) (\<lambda>_. False) (Some (reached (c # cs) (n_lastHeight n))) n = Some (None, n')"
  shows "tyld v genesis dataDir (\<lambda>_. False) c cs = Some (Stopped n') \<and>
    n_lastHeight n' = reached (c # cs) (n_lastHeight n) \<and> node_inv v n'"
proof -
  let ?v = "v\<lparr>v_GetBlockByHeight := \<lambda>h. Some (chain h)\<rparr>" and ?l = "n_lastHeight n"
  have gen: "n_GenesisHeight n = genesis" by (simp add: assms(4) New_genesis)
  define m where "m = max ?l tip"
  have re: "reached (c # cs) ?l = reached cs m" using assms(6) by (simp add: reached_def m_def)
  have sp: "beyond ?l m = beyond ?l tip" by (auto simp: m_def max_def beyond_empty)
  have "beyond ?l (reached cs m) = beyond ?l tip @ beyond m (reached cs m)"
    using beyond_append [of ?l m "reached cs m"] reached_ge [of m cs] sp by (simp add: m_def)
  then obtain n1 where 1: "sync_all ?v (\<lambda>_. False) (beyond ?l tip) n = Some (None, n1)"
    and 2: "sync_all ?v (\<lambda>_. False) (beyond m (reached cs m)) n1 = Some (None, n')"
    using assms(7) by (auto simp: re Sync_beyond sync_all_append split: option.splits)
  have g: "\<forall>h\<in>set (beyond ?l tip). \<forall>k \<le> h. GetBlockByHeight c k = Some (chain k)"
    using assms(1,6) by (auto simp: serves_def set_beyond)
  have so: "sorted_wrt (<) (k # beyond k t)" for k t using sorted_beyond by (simp add: set_beyond)
  note f = sync_is_follow [OF 1 assms(2) _ assms(5) so g]
  have "last (?l # beyond ?l tip) = m" using last_beyond [of ?l m, unfolded sp] by (simp add: m_def)
  then have l1: "n_lastHeight n1 = m" using f assms(3) gen by (simp del: last.simps)
  have n1: "node_inv v n1" "0 < n_GenesisHeight n1" using f assms(3) gen by simp_all
  have "follow_polls v cs (n_lastHeight n1) n1 = Some n'"
    using follow_polls_sync [OF _ assms(2) 2 n1(2,1) l1] assms(1) l1 by simp
  moreover have "n_lastHeight n' = reached cs m \<and> node_inv v n'"
    using sync_is_follow [OF 2 assms(2) n1(2,1), of "\<lambda>h. Some (chain h)"] so [of m] last_beyond [OF reached_ge, of m cs]
    by (simp add: l1 del: last.simps)
  ultimately show ?thesis using f assms(3,4,6) gen re by (auto simp: tyld_def Sync_beyond)
qed

section \<open>Any Bitcoin node\<close>

lemma fetched_heights:
  assumes "\<forall>h b. GetBlockByHeight c h = Some b \<longrightarrow> bb_Height b = h"
  shows "map bb_Height (fetch_blocks c ns) = filter (\<lambda>h. GetBlockByHeight c h \<noteq> None) (map of_nat ns)"
  using assms by (induction ns) (auto simp: fetch_blocks_def split: option.split)

lemma scanned_heights: "those (map scan_result blocks) = Some rs \<Longrightarrow> map sr_L1Height rs = map bb_Height blocks"
  by (induction blocks arbitrary: rs) (auto simp: scan_result_def split: option.splits)

lemma poll_results:
  assumes "client_ok (on_btc v c)" and "Subscribe_poll c l = (Some rs, l')"
  shows "l \<le> l' \<and> sorted_wrt (<) (l # map sr_L1Height rs) \<and> (\<forall>r\<in>set rs. sr_L1Height r \<le> l')"
proof (cases "\<exists>tip. GetBestBlockHeight c = Some tip \<and> l < tip")
  case False
  then have "poll_blocks c l = ([], l)" by (auto simp: poll_blocks_def split: option.split)
  then show ?thesis using assms(2) by (simp add: Subscribe_poll_def)
next
  case True
  then obtain tip where tip: "GetBestBlockHeight c = Some tip" "l < tip" by blast
  let ?b = "fetch_blocks c [Suc (unat l)..<Suc (unat tip)]"
  have s: "those (map scan_result ?b) = Some rs" "l' = tip"
    using assms(2) tip by (auto simp: Subscribe_poll_def poll_blocks_def simp del: upt_Suc split: if_splits)
  have hs: "map sr_L1Height rs = filter (\<lambda>h. GetBlockByHeight c h \<noteq> None) (beyond l tip)"
    using scanned_heights [OF s(1)] fetched_heights [of c] assms(1) by (simp add: client_ok_def beyond_def del: upt_Suc)
  then have "sorted_wrt (<) (l # map sr_L1Height rs)" using sorted_beyond by (auto simp: set_beyond sorted_wrt_filter)
  moreover have "sr_L1Height r \<in> set (beyond l tip)" if "r \<in> set rs" for r
    using that arg_cong [OF hs, of set] by auto
  ultimately show ?thesis using s(2) tip(2) by (auto simp: set_beyond)
qed

lemma follow_polls_safe:
  assumes "\<forall>c\<in>set cs. client_ok (on_btc v c)" and "follow_polls v cs l n = Some n'"
    and "0 < n_GenesisHeight n" and "node_inv v n" and "n_lastHeight n \<le> l"
  shows "node_inv v n'"
  using assms
proof (induction cs arbitrary: l n)
  case (Cons c cs)
  obtain rs l' n1 where p: "Subscribe_poll c l = (Some rs, l')" and f: "Follow (on_btc v c) rs n = Some n1"
    and r: "follow_polls v cs l' n1 = Some n'"
    using Cons.prems(2) by (auto split: prod.splits option.splits)
  note pr = poll_results [OF _ p, of v]
  have ok: "client_ok (on_btc v c)" using Cons.prems(1) by simp
  have "sorted_wrt (<) (n_lastHeight n # map sr_L1Height rs)"
    using pr [OF ok] Cons.prems(5) by (auto intro: le_less_trans)
  then have s: "node_inv v n1" "n_GenesisHeight n1 = n_GenesisHeight n" "n_lastHeight n1 \<le> last (n_lastHeight n # map sr_L1Height rs)"
    using follow_safe [OF ok f Cons.prems(3)] Cons.prems(4) by simp_all
  have "last (n_lastHeight n # map sr_L1Height rs) \<le> l'"
    using pr [OF ok] Cons.prems(5) by (cases rs rule: rev_cases) auto
  then have "n_lastHeight n1 \<le> l'" using s(3) by (rule order_trans [rotated])
  then show ?case using Cons.IH [OF _ r] Cons.prems(1,3) s by simp
qed simp

text \<open>However the Bitcoin node behaves from poll to poll (it may lose blocks, go back, or switch to another chain), the
  node that the program leaves is consistent.\<close>

theorem tyld_safe:
  assumes "\<forall>d\<in>set (c # cs). client_ok (on_btc v d)" and "node_inv v (Node_New v genesis dataDir)"
    and "tyld v genesis dataDir cancelled c cs = Some (Stopped n')"
  shows "node_inv v n'"
proof -
  let ?n = "Node_New v genesis dataDir"
  obtain n1 where s: "Sync (on_btc v c) cancelled (GetBestBlockHeight c) ?n = Some (None, n1)"
      and f: "follow_polls v cs (n_lastHeight n1) n1 = Some n'" and g: "genesis \<noteq> 0"
    using assms(3) by (auto simp: tyld_def split: if_splits option.splits)
  obtain tip where tip: "GetBestBlockHeight c = Some tip" using s by (auto simp: Sync_def split: option.splits)
  have all: "sync_all (on_btc v c) cancelled (beyond (n_lastHeight ?n) tip) ?n = Some (None, n1)" using s tip by (simp add: Sync_beyond)
  have pos: "0 < n_GenesisHeight ?n" using g by (simp add: New_genesis word_gt_0)
  have "\<forall>h\<in>set (beyond (n_lastHeight ?n) tip). n_lastHeight ?n < h" by (simp add: set_beyond)
  then have "node_inv v n1 \<and> n_GenesisHeight n1 = n_GenesisHeight ?n"
    using sync_all_safe [OF _ all pos _ sorted_beyond] assms(1,2) by simp
  then show ?thesis using follow_polls_safe [OF _ f] assms(1) pos by simp
qed

section \<open>A block that could not be fetched\<close>

text \<open>When the fetch of a block fails and that of its successor does not, the node executes the successor on
  the state without the missing block: nothing is stored for the missing height, so the check of the
  parent hash passes. The missing block is never delivered later (\<open>failed_fetch_lost\<close>).\<close>

theorem missed_block_unnoticed:
  assumes "GetBestBlockHeight c = Some (l + 2)" and "l < l + 1" and "l + 1 < l + 2"
    and "GetBlockByHeight c (l + 1) = None" and "GetBlockByHeight c (l + 2) = Some b" and "bb_Height b = l + 2"
    and "scan_result b = Some r" and "n_store n = Some d" and "GetL1Hash d (l + 1) = ZeroHash"
  shows "follow_polls v [c] l n = run_block v r n"
proof -
  have u: "unat (l + 1) = Suc (unat l)" "unat (l + 2) = Suc (Suc (unat l))"
    using pos_above [OF assms(2)] pos_above [OF assms(3)] unatSuc [of l] unatSuc [of "l + 1"]
    by (simp_all add: word_gt_0 add.commute)
  have ns: "[Suc (unat l)..<Suc (unat (l + 2))] = [unat (l + 1), unat (l + 2)]" by (simp add: u)
  have "\<not> l + 2 \<le> l" using assms(2,3) by simp
  moreover have "fetch_blocks c [Suc (unat l)..<Suc (unat (l + 2))] = [b]"
    using assms(4,5) unfolding ns by (simp add: fetch_blocks_def)
  ultimately have "poll_blocks c l = ([b], l + 2)" using assms(1) by (simp add: poll_blocks_def del: upt_Suc)
  moreover have "handle_result (on_btc v c) r n = map_option (Pair None) (run_block v r n)"
  proof -
    have "sr_L1Height r - 1 = l + 1" using assms(6,7) by (auto simp: scan_result_def split: option.splits)
    then have "GetL1Hash d (sr_L1Height r - 1) = ZeroHash" using assms(9) by (simp only:)
    then show ?thesis using assms(8) by (simp add: handle_result_def detectAndHandleReorg_def Let_def)
  qed
  ultimately show ?thesis using assms(7) by (cases "run_block v r n") (simp_all add: Subscribe_poll_def)
qed

section \<open>A sample run\<close>

text \<open>Bitcoin nodes with a chain of empty blocks, of different lengths.\<close>

abbreviation empty_block :: "uint64 \<Rightarrow> btc_block" where "empty_block \<equiv> Tyl_Node_Facts.sample_block"

definition empty_chain :: "uint64 \<Rightarrow> btc_node" where
  "empty_chain tip = \<lparr>bn_getblockcount = Some tip, bn_getblockhash = \<lambda>h. Some (replicate (unat h) CHR ''0''),
     bn_getblock = \<lambda>s. Some (raw_of_block (empty_block (of_nat (length s))))\<rparr>"

lemma empty_chain_tip: "GetBestBlockHeight (empty_chain tip) = Some tip"
  by (simp add: GetBestBlockHeight_def empty_chain_def)

lemma empty_chain_serves: "serves empty_block (empty_chain tip)"
proof -
  have "GetBlockByHeight (empty_chain tip) h = Some (empty_block h)" for h
    using fetched_block [of "empty_chain tip" h "replicate (unat h) CHR ''0''" "empty_block h"]
    by (simp add: empty_chain_def Tyl_Node_Facts.sample_block_def)
  then show ?thesis by (simp add: serves_def)
qed

lemma run_block_store: "run_block v r n = Some n' \<Longrightarrow> n_store n = None \<Longrightarrow> n_store n' = None"
  by (auto simp: run_block_def Let_def persist_def tryFinalize_def snapshot_finalized_def persistFinalized_def processCheckpoints_def
      split: option.splits if_splits)

lemma empty_sync:
  "n_store n = None \<Longrightarrow> \<exists>n'. sync_all (v\<lparr>v_GetBlockByHeight := \<lambda>h. Some (empty_block h)\<rparr>) (\<lambda>_. False) hs n = Some (None, n')"
proof (induction hs arbitrary: n)
  case (Cons h hs)
  let ?r = "\<lparr>sr_L1Height = h, sr_L1BlockHash = 11, sr_L1PrevHash = 11, sr_Payloads = [], sr_Checkpoints = []\<rparr>"
  have "scan_result (empty_block h) = Some ?r"
    by (simp add: scan_result_def Tyl_Node_Facts.sample_block_def ExtractFromBlock_def)
  moreover obtain n1 where n1: "run_block v ?r n = Some n1" using run_block_empty [of ?r v n] by auto
  moreover have "n_store n1 = None" using run_block_store [OF n1 Cons.prems] .
  ultimately show ?case
    using Cons.IH [of n1] Cons.prems by (simp add: processBlock_def ScanBlock_def handle_result_def detectAndHandleReorg_def)
qed simp

theorem tyld_reconstructs_witness:
  "\<exists>n'. tyld sample_env 1 None (\<lambda>_. False) (empty_chain 3) [empty_chain 2, empty_chain 5] = Some (Stopped n') \<and> n_lastHeight n' = 5"
proof -
  let ?n = "Node_New sample_env 1 None" and ?cs = "[empty_chain 2, empty_chain 5]"
  have n: "n_store ?n = None" "n_lastHeight ?n = 1" by (simp_all add: Node_New_def Node_memory_def)
  have inv: "node_inv sample_env ?n" by (simp add: Node_New_def start_inv(1))
  have r: "reached (empty_chain 3 # ?cs) (n_lastHeight ?n) = 5" by (simp add: reached_def empty_chain_tip n(2) max_def)
  obtain n' where "Sync (sample_env\<lparr>v_GetBlockByHeight := \<lambda>h. Some (empty_block h)\<rparr>) (\<lambda>_. False) (Some 5) ?n = Some (None, n')"
    using empty_sync [OF n(1)] by (auto simp: Sync_beyond)
  then have "tyld sample_env 1 None (\<lambda>_. False) (empty_chain 3) ?cs = Some (Stopped n') \<and>
      n_lastHeight n' = reached (empty_chain 3 # ?cs) (n_lastHeight ?n) \<and> node_inv sample_env n'"
    by (intro tyld_reconstructs [OF _ _ _ refl inv empty_chain_tip, where chain = empty_block])
      (simp_all add: empty_chain_serves r Tyl_Node_Facts.sample_block_def)
  then show ?thesis using r by auto
qed

end
