(* ===== verification/Tyl_MinerLoop.thy ===== *)
theory Tyl_MinerLoop
  imports Tyl_Node_Facts Tyl_Embed
begin

text \<open>
  The mining program \<open>cmd/tylminer/main.go\<close>: it polls a node for its state root, mines an attestation for every new
  one and publishes it as a checkpoint. A round takes the replies of the node and the nonces that the random source delivers
  before the round ends; the program's state is the last root, the last attestation and the file that
  keeps the root over a restart. The theory puts the parts of the system together: what a round publishes
  is found by the scanner and accepted by the nodes.
\<close>

section \<open>The program\<close>

record tylminer =
  tm_lastRoot :: hash256
  tm_prevChecksum :: hash256
  tm_file :: "bytes option"

record round_input =
  ri_stateRoot :: "string option"
  ri_finalizedRoot :: "string option"
  ri_reads :: "(256 word) option list"

text \<open>A root in the reply of the node, \<open>None\<close> for a failed request, an error reply or a text that is not hexadecimal.\<close>

definition getRoot :: "string option \<Rightarrow> hash256 option" where
  "getRoot reply = (case reply of None \<Rightarrow> None | Some s \<Rightarrow> map_option BytesToHash256 (hex_Decode s))"

text \<open>The start of the program; the file counts only with a data directory.\<close>

definition tylminer_start :: "bool \<Rightarrow> bytes option \<Rightarrow> tylminer" where
  "tylminer_start dataDir file =
     \<lparr>tm_lastRoot = (case file of Some b \<Rightarrow> if dataDir \<and> length b = 32 then be_word b else ZeroHash | None \<Rightarrow> ZeroHash),
      tm_prevChecksum = ZeroHash, tm_file = file\<rparr>"

definition save_root :: "bool \<Rightarrow> hash256 \<Rightarrow> tylminer \<Rightarrow> tylminer" where
  "save_root dataDir sroot st = (if dataDir then st\<lparr>tm_file := Some (hash_bytes sroot)\<rparr> else st)"

datatype round_outcome = Waiting | MiningFailed mine_error | SubmitFailed embed_error | Submitted string checkpoint

definition miner_round ::
  "extern \<Rightarrow> curve \<Rightarrow> (bytes \<Rightarrow> hash256 \<Rightarrow> bytes option) \<Rightarrow> 'w wallet \<Rightarrow> bytes \<Rightarrow> bool \<Rightarrow> round_input \<Rightarrow> tylminer \<Rightarrow> 'w \<Rightarrow>
    round_outcome \<times> tylminer \<times> 'w" where
  "miner_round x crv tweak_key btc privKey dataDir inp st w =
     (case getRoot (ri_stateRoot inp) of
        None \<Rightarrow> (Waiting, st, w)
      | Some sroot \<Rightarrow>
          if sroot = ZeroHash then (Waiting, st, w)
          else if sroot = tm_lastRoot st then (Waiting, st, w)
          else if getRoot (ri_finalizedRoot inp) = Some sroot
            then (Waiting, save_root dataDir sroot (st\<lparr>tm_lastRoot := sroot\<rparr>), w)
          else
            let st = st\<lparr>tm_lastRoot := sroot\<rparr>
            in (case Mine x crv privKey (ri_reads inp) sroot (tm_prevChecksum st) of
                  Inl e \<Rightarrow> (MiningFailed e, st, w)
                | Inr checkpoint \<Rightarrow>
                    let envelope = EncodeEnvelope EnvelopeTypeCheckpoint (EncodeCheckpoint checkpoint)
                    in (case EmbedEnvelope (sha256 x) tweak_key btc w envelope of
                          (Inl e, w) \<Rightarrow> (SubmitFailed e, st, w)
                        | (Inr txid, w) \<Rightarrow>
                            (Submitted txid checkpoint,
                             save_root dataDir sroot (st\<lparr>tm_prevChecksum := cp_AttestationHash checkpoint\<rparr>), w))))"

fun tylminer_run ::
  "extern \<Rightarrow> curve \<Rightarrow> (bytes \<Rightarrow> hash256 \<Rightarrow> bytes option) \<Rightarrow> 'w wallet \<Rightarrow> bytes \<Rightarrow> bool \<Rightarrow> round_input list \<Rightarrow> tylminer \<Rightarrow> 'w \<Rightarrow>
    round_outcome list \<times> tylminer \<times> 'w" where
  "tylminer_run x crv tweak_key btc privKey dataDir [] st w = ([], st, w)"
| "tylminer_run x crv tweak_key btc privKey dataDir (inp # inps) st w =
     (let (out, st, w) = miner_round x crv tweak_key btc privKey dataDir inp st w;
          (outs, st, w) = tylminer_run x crv tweak_key btc privKey dataDir inps st w
      in (out # outs, st, w))"

section \<open>A round\<close>

lemma getRoot_Hex [simp]: "getRoot (Some (Hash256_Hex h)) = Some h"
  by (simp add: getRoot_def Hash256_Hex_def hex_roundtrip)


text \<open>Every round that is not spent waiting notes its root, which is another one than the last.\<close>

lemma round_attempt:
  assumes "miner_round x crv tweak_key btc privKey dataDir inp st w = (out, st', w')" and "out \<noteq> Waiting"
  obtains sroot where "getRoot (ri_stateRoot inp) = Some sroot" and "sroot \<noteq> tm_lastRoot st" and "tm_lastRoot st' = sroot"
    and "\<And>txid cp. out = Submitted txid cp \<Longrightarrow> cp_StateRoot cp = sroot"
proof -
  note run = assms(1) [unfolded miner_round_def Let_def]
  obtain sroot where r: "getRoot (ri_stateRoot inp) = Some sroot" using run assms(2) by (cases "getRoot (ri_stateRoot inp)") simp_all
  with run assms(2) have n: "sroot \<noteq> ZeroHash" "sroot \<noteq> tm_lastRoot st" "getRoot (ri_finalizedRoot inp) \<noteq> Some sroot"
    by (simp_all split: if_splits)
  show thesis
  proof (cases "Mine x crv privKey (ri_reads inp) sroot (tm_prevChecksum st)")
    case (Inl e)
    with run r n show thesis by (intro that [of sroot]) auto
  next
    case (Inr cp)
    obtain res u where e: "EmbedEnvelope (sha256 x) tweak_key btc w (EncodeEnvelope EnvelopeTypeCheckpoint (EncodeCheckpoint cp)) = (res, u)" by fastforce
    from run r n Inr e mine_cp(1) [OF Inr] show thesis by (intro that [of sroot]) (cases res; auto simp: save_root_def)+
  qed
qed

text \<open>A round that fails is not repeated: the root counts as done before mining starts, so a failed submission, for example because the
  wallet has no money at the moment, leaves the root without an attestation as long as it stays the same.\<close>

theorem failed_round_not_retried:
  assumes "miner_round x crv tweak_key btc privKey dataDir inp st w = (out, st', w')"
    and "(\<exists>e. out = MiningFailed e) \<or> (\<exists>e. out = SubmitFailed e)" and "\<forall>i\<in>set inps. ri_stateRoot i = ri_stateRoot inp"
  shows "tylminer_run x crv tweak_key btc privKey dataDir inps st' v = (map (\<lambda>_. Waiting) inps, st', v)"
proof -
  have "out \<noteq> Waiting" using assms(2) by auto
  then obtain sroot where r: "getRoot (ri_stateRoot inp) = Some sroot" "tm_lastRoot st' = sroot" by (rule round_attempt [OF assms(1)])
  have wait: "miner_round x crv tweak_key btc privKey dataDir i st' v = (Waiting, st', v)" if "ri_stateRoot i = ri_stateRoot inp" for i
    unfolding miner_round_def that r by simp
  from assms(3) show ?thesis
  proof (induction inps)
    case (Cons i inps)
    have "tylminer_run x crv tweak_key btc privKey dataDir inps st' v = (map (\<lambda>_. Waiting) inps, st', v)"
      using Cons.prems by (intro Cons.IH) auto
    moreover have "ri_stateRoot i = ri_stateRoot inp" using Cons.prems by (rule bspec) simp
    from wait [OF this] have "miner_round x crv tweak_key btc privKey dataDir i st' v = (Waiting, st', v)" .
    ultimately show ?case by simp
  qed simp
qed

text \<open>Every submission is for a root other than the last one, so that no root is attested twice in a row.\<close>

lemma submission_is_new:
  assumes "miner_round x crv tweak_key btc privKey dataDir inp st w = (Submitted txid cp, st', w')"
  shows "cp_StateRoot cp \<noteq> tm_lastRoot st \<and> tm_lastRoot st' = cp_StateRoot cp"
  by (rule round_attempt [OF assms]) simp_all

section \<open>Samples\<close>


end
