(* ===== verification/Tyl_Sim.thy ===== *)
theory Tyl_Sim
  imports Tyl_AMM Tyl_Executor_Props "HOL-Library.Stream"
begin

text \<open>
  The simulation of \<open>cmd/tylsim/main.go\<close>: it deploys a token and exchanges on the executor and then executes random transfers, swaps
  and changes of liquidity, checking after each swap that the reserves of the pool are not empty. The random
  source is a stream of numbers; the clock, the statistics and the command line are left out. A fatal log
  message and a panic are the left value of a sum.

  The transactions are not signed. The theory shows that the executor therefore refuses all of them, so
  that the simulation deploys nothing and stops at its first swap with a violated invariant.
\<close>

section \<open>State\<close>

record poolInfo =
  pool_addr :: address
  pool_fee :: uint64
  pool_resA :: uint64
  pool_resB :: uint64

record simulation =
  sim_rng :: "nat stream"
  sim_exec :: executor
  sim_accounts :: "address list"
  sim_nonces :: "uint64 list"
  sim_tokenAddr :: address
  sim_numPools :: nat
  sim_pools :: "poolInfo list"
  sim_blockHeight :: uint64
  sim_totalTx :: uint64
  sim_totalSuccess :: uint64
  sim_totalFail :: uint64
  sim_totalGas :: uint64
  sim_lastStateRoot :: hash256

datatype sim_error = SimPanic | InvariantViolation nat

type_synonym 'a sim = "simulation \<Rightarrow> sim_error + 'a \<times> simulation"

definition sim_bind :: "'a sim \<Rightarrow> ('a \<Rightarrow> 'b sim) \<Rightarrow> 'b sim" where
  "sim_bind m f s = (case m s of Inl e \<Rightarrow> Inl e | Inr (a, s) \<Rightarrow> f a s)"

definition sim_return :: "'a \<Rightarrow> 'a sim" where
  "sim_return a s = Inr (a, s)"

fun sim_each :: "('a \<Rightarrow> unit sim) \<Rightarrow> 'a list \<Rightarrow> unit sim" where
  "sim_each f [] s = Inr ((), s)"
| "sim_each f (x # xs) s = sim_bind (f x) (\<lambda>_. sim_each f xs) s"

text \<open>\<open>Intn\<close> panics on an empty range.\<close>

definition Intn :: "nat \<Rightarrow> nat sim" where
  "Intn n s = (if n = 0 then Inl SimPanic else Inr (shd (sim_rng s) mod n, s\<lparr>sim_rng := stl (sim_rng s)\<rparr>))"

section \<open>Operations\<close>

definition makeAddr :: "uint64 \<Rightarrow> address" where
  "makeAddr i = BytesToAddress (replicate 12 0 @ be_bytes 8 i)"

definition sim_callerID :: "address \<Rightarrow> uint64" where
  "sim_callerID addr = be_word (slice 12 8 (addr_bytes addr))"

definition newSimulation :: "extern \<Rightarrow> nat stream \<Rightarrow> nat \<Rightarrow> nat \<Rightarrow> simulation" where
  "newSimulation x rng numAccounts numPools =
     (let accounts = map (\<lambda>i. makeAddr (of_nat (i + 1))) [0..<numAccounts];
          stateDB = fold (\<lambda>a s. SetBalance (sha256 x) s a 1000000000000) accounts (NewStateDB Map.empty)
      in \<lparr>sim_rng = rng, sim_exec = Executor_New stateDB, sim_accounts = accounts, sim_nonces = replicate numAccounts 0,
          sim_tokenAddr = 0, sim_numPools = numPools, sim_pools = [], sim_blockHeight = 1, sim_totalTx = 0, sim_totalSuccess = 0,
          sim_totalFail = 0, sim_totalGas = 0, sim_lastStateRoot = 0\<rparr>)"

definition makeTx :: "nat \<Rightarrow> address \<Rightarrow> uint64 \<Rightarrow> bytes \<Rightarrow> transaction sim" where
  "makeTx acctIdx target gasLimit data s =
     (if acctIdx < length (sim_nonces s) \<and> acctIdx < length (sim_accounts s)
      then Inr (\<lparr>tx_Version = 1, tx_Nonce = sim_nonces s ! acctIdx, tx_From = sim_accounts s ! acctIdx, tx_To = target, tx_Value = 0,
                  tx_GasPrice = 1, tx_GasLimit = gasLimit, tx_Priority = 0, tx_Data = data, tx_Signature = 0\<rparr>,
                s\<lparr>sim_nonces := (sim_nonces s)[acctIdx := sim_nonces s ! acctIdx + 1]\<rparr>)
      else Inl SimPanic)"

definition count_receipt :: "Receipt \<Rightarrow> simulation \<Rightarrow> simulation" where
  "count_receipt r s =
     (let s = s\<lparr>sim_totalTx := sim_totalTx s + 1\<rparr>;
          s = (if rc_Success r then s\<lparr>sim_totalSuccess := sim_totalSuccess s + 1\<rparr> else s\<lparr>sim_totalFail := sim_totalFail s + 1\<rparr>)
      in s\<lparr>sim_totalGas := sim_totalGas s + rc_GasUsed r\<rparr>)"

text \<open>The end of a block: the commit and the next height.\<close>

definition commit_block :: "extern \<Rightarrow> executor \<Rightarrow> simulation \<Rightarrow> simulation" where
  "commit_block x e s =
     (let (r, db) = Commit (sha256 x) (ex_stateDB e)
      in s\<lparr>sim_exec := e\<lparr>ex_stateDB := db\<rparr>, sim_lastStateRoot := r, sim_blockHeight := sim_blockHeight s + 1\<rparr>)"

definition execBlock :: "extern \<Rightarrow> transaction \<Rightarrow> unit sim" where
  "execBlock x tx s =
     (case ProcessBlock x (sim_exec s) (sim_blockHeight s) ZeroHash [tx] of
        None \<Rightarrow> Inl SimPanic
      | Some (_, receipts, e) \<Rightarrow>
          (case receipts of
             [] \<Rightarrow> Inl SimPanic
           | r # _ \<Rightarrow> Inr ((), commit_block x e (count_receipt r s))))"

definition sim_readSlot :: "extern \<Rightarrow> address \<Rightarrow> uint64 \<Rightarrow> uint64 sim" where
  "sim_readSlot x contract slot s =
     (let (val, db) = GetStorage (sha256 x) (ex_stateDB (sim_exec s)) contract (slot_hash slot)
      in Inr (hash_slot val, s\<lparr>sim_exec := (sim_exec s)\<lparr>ex_stateDB := db\<rparr>\<rparr>))"

definition checkPoolInvariant :: "extern \<Rightarrow> nat \<Rightarrow> unit sim" where
  "checkPoolInvariant x poolIdx s =
     sim_bind (sim_readSlot x (pool_addr (sim_pools s ! poolIdx)) AMMSlotReserveA) (\<lambda>resA.
     sim_bind (sim_readSlot x (pool_addr (sim_pools s ! poolIdx)) AMMSlotReserveB) (\<lambda>resB.
     \<lambda>s. if resA = 0 \<or> resB = 0 then Inl (InvariantViolation poolIdx) else Inr ((), s))) s"

text \<open>A transaction of an account in a block of its own.\<close>

definition sim_send :: "extern \<Rightarrow> nat \<Rightarrow> address \<Rightarrow> uint64 \<Rightarrow> bytes \<Rightarrow> unit sim" where
  "sim_send x acctIdx target gasLimit data = sim_bind (makeTx acctIdx target gasLimit data) (execBlock x)"

text \<open>A builder that does not return panics.\<close>

definition sim_code :: "bytes option \<Rightarrow> bytes sim" where
  "sim_code c s = (case c of None \<Rightarrow> Inl SimPanic | Some code \<Rightarrow> Inr (code, s))"

definition feeTiers :: "uint64 list" where "feeTiers = [997, 995, 990, 999, 985]"

definition deploy_pool :: "extern \<Rightarrow> nat \<Rightarrow> unit sim" where
  "deploy_pool x i =
     (let fee = feeTiers ! (i mod length feeTiers)
      in sim_bind (\<lambda>s. sim_code (BuildAMMContract fee (sim_callerID (sim_tokenAddr s))) s) (\<lambda>ammCode.
         sim_bind (sim_send x 0 ZeroAddress 200000 ammCode) (\<lambda>_.
         sim_bind (\<lambda>s. Inr (deriveContractAddress (sha256 x) (sim_accounts s ! 0) (sim_nonces s ! 0 - 1), s)) (\<lambda>addr.
         sim_bind (Intn 9000000) (\<lambda>a.
         sim_bind (Intn 9000000) (\<lambda>b.
         let liqA = of_nat (1000000 + a); liqB = of_nat (1000000 + b)
         in sim_bind (sim_send x 0 addr 500000 (PackCallData [AMMFnAddLiquidity, liqA, liqB])) (\<lambda>_.
            \<lambda>s. Inr ((), s\<lparr>sim_pools := sim_pools s @ [\<lparr>pool_addr = addr, pool_fee = fee, pool_resA = liqA, pool_resB = liqB\<rparr>]\<rparr>))))))))"

definition sim_setup :: "extern \<Rightarrow> unit sim" where
  "sim_setup x s0 =
     (if sim_accounts s0 = [] then Inl SimPanic
      else
        sim_bind (sim_code (BuildTokenContract (sim_callerID (sim_accounts s0 ! 0)) 1000000000000)) (\<lambda>tokenCode.
        sim_bind (sim_send x 0 ZeroAddress 200000 tokenCode) (\<lambda>_.
        sim_bind (\<lambda>s. Inr ((), s\<lparr>sim_tokenAddr := deriveContractAddress (sha256 x) (sim_accounts s ! 0) 0\<rparr>)) (\<lambda>_.
        sim_bind (\<lambda>s. sim_send x 0 (sim_tokenAddr s) 500000 (PackCallData [FnMint, 1000000000]) s) (\<lambda>_.
        sim_bind (sim_each (\<lambda>i s. sim_send x 0 (sim_tokenAddr s) 500000
                    (PackCallData [FnTransfer, sim_callerID (sim_accounts s ! i), 10000000]) s) [1..<length (sim_accounts s0)]) (\<lambda>_.
        sim_each (deploy_pool x) [0..<sim_numPools s0]))))) s0)"

definition doSwap :: "extern \<Rightarrow> unit sim" where
  "doSwap x s0 =
     sim_bind (Intn (length (sim_accounts s0))) (\<lambda>acctIdx.
     sim_bind (Intn (length (sim_pools s0))) (\<lambda>poolIdx.
     sim_bind (Intn 10000) (\<lambda>r.
     sim_bind (Intn 2) (\<lambda>coin.
     let amount = of_nat (100 + r); data = PackCallData [if coin = 0 then AMMFnSwapAForB else AMMFnSwapBForA, amount]
     in sim_bind (sim_send x acctIdx (pool_addr (sim_pools s0 ! poolIdx)) 500000 data) (\<lambda>_.
        checkPoolInvariant x poolIdx))))) s0"

definition doTransfer :: "extern \<Rightarrow> unit sim" where
  "doTransfer x s0 =
     (let n = length (sim_accounts s0)
      in sim_bind (Intn n) (\<lambda>sender.
         sim_bind (Intn n) (\<lambda>target.
         let target = (if sender = target then (target + 1) mod n else target)
         in sim_bind (Intn 1000) (\<lambda>r.
            let amount = of_nat (1 + r); recipientID = sim_callerID (sim_accounts s0 ! target)
            in sim_send x sender (sim_tokenAddr s0) 500000 (PackCallData [FnTransfer, recipientID, amount])))) s0)"

definition doMint :: "extern \<Rightarrow> unit sim" where
  "doMint x s0 =
     sim_bind (Intn (length (sim_accounts s0))) (\<lambda>acctIdx.
     sim_bind (Intn 100000) (\<lambda>r.
     sim_send x acctIdx (sim_tokenAddr s0) 500000 (PackCallData [FnMint, of_nat (1000 + r)]))) s0"

definition doAddLiquidity :: "extern \<Rightarrow> unit sim" where
  "doAddLiquidity x s0 =
     sim_bind (Intn (length (sim_accounts s0))) (\<lambda>acctIdx.
     sim_bind (Intn (length (sim_pools s0))) (\<lambda>poolIdx.
     sim_bind (Intn 50000) (\<lambda>a.
     sim_bind (Intn 50000) (\<lambda>b.
     sim_send x acctIdx (pool_addr (sim_pools s0 ! poolIdx)) 500000
       (PackCallData [AMMFnAddLiquidity, of_nat (100 + a), of_nat (100 + b)]))))) s0"

text \<open>\<open>Int63n\<close> panics on a range that is negative as a signed number.\<close>

definition doRemoveLiquidity :: "extern \<Rightarrow> unit sim" where
  "doRemoveLiquidity x s0 =
     sim_bind (Intn (length (sim_accounts s0))) (\<lambda>acctIdx.
     sim_bind (Intn (length (sim_pools s0))) (\<lambda>poolIdx.
     let pool = pool_addr (sim_pools s0 ! poolIdx); lpID = sim_callerID (sim_accounts s0 ! acctIdx)
     in sim_bind (sim_readSlot x pool (AMMSlotLPBalBase + lpID)) (\<lambda>bal.
        if bal = 0 then sim_return ()
        else if unat bal \<ge> 2 ^ 63 then (\<lambda>s. Inl SimPanic)
        else sim_bind (Intn (unat bal)) (\<lambda>r.
             sim_send x acctIdx pool 500000 (PackCallData [AMMFnRemoveLiquidity, of_nat (1 + r)]))))) s0"

fun multi_txs :: "nat \<Rightarrow> nat set \<Rightarrow> transaction list sim" where
  "multi_txs 0 used s = Inr ([], s)"
| "multi_txs (Suc n) used s =
     sim_bind (Intn (length (sim_accounts s))) (\<lambda>acctIdx.
     if acctIdx \<in> used then multi_txs n used
     else
       sim_bind (Intn (length (sim_pools s))) (\<lambda>poolIdx.
       sim_bind (Intn 5000) (\<lambda>r.
       sim_bind (makeTx acctIdx (pool_addr (sim_pools s ! poolIdx)) 500000 (PackCallData [AMMFnSwapAForB, of_nat (100 + r)])) (\<lambda>tx.
       sim_bind (Intn 10) (\<lambda>g.
       sim_bind (multi_txs n (insert acctIdx used)) (\<lambda>txs.
       sim_return (tx\<lparr>tx_GasPrice := of_nat (1 + g)\<rparr> # txs))))))) s"

definition doMultiTxBlock :: "extern \<Rightarrow> unit sim" where
  "doMultiTxBlock x =
     sim_bind (Intn 8) (\<lambda>n.
     sim_bind (multi_txs (2 + n) {}) (\<lambda>txs.
     \<lambda>s. if txs = [] then Inr ((), s)
         else case ProcessBlock x (sim_exec s) (sim_blockHeight s) ZeroHash txs of
                None \<Rightarrow> Inl SimPanic
              | Some (_, receipts, e) \<Rightarrow> Inr ((), commit_block x e (fold count_receipt receipts s))))"

definition sim_step :: "extern \<Rightarrow> unit sim" where
  "sim_step x =
     sim_bind (Intn 100) (\<lambda>action.
     if action < 30 then doSwap x
     else if action < 50 then doTransfer x
     else if action < 65 then doMint x
     else if action < 80 then doAddLiquidity x
     else if action < 90 then doRemoveLiquidity x
     else doMultiTxBlock x)"

section \<open>The simulation does nothing\<close>

text \<open>A simulation with accounts in which no transaction has succeeded and no slot of the contracts is written; \<open>A\<close> contains the addresses
  that the first account derives for its contracts.\<close>

definition void :: "extern \<Rightarrow> address set \<Rightarrow> simulation \<Rightarrow> bool" where
  "void x A s \<longleftrightarrow> sim_totalSuccess s = 0 \<and> (\<forall>a\<in>A. \<forall>k. slot_of (sha256 x) (ex_stateDB (sim_exec s)) a k = 0) \<and>
     sim_accounts s \<noteq> [] \<and> (\<forall>n. deriveContractAddress (sha256 x) (sim_accounts s ! 0) n \<in> A) \<and>
     ZeroAddress \<notin> set (sim_accounts s) \<and> length (sim_nonces s) = length (sim_accounts s) \<and>
     (\<forall>p\<in>set (sim_pools s). pool_addr p \<in> A)"

definition same :: "simulation \<Rightarrow> simulation \<Rightarrow> bool" where
  "same s s' \<longleftrightarrow> sim_accounts s' = sim_accounts s \<and> (\<exists>ps. sim_pools s' = sim_pools s @ ps)"

lemma same_refl [simp]: "same s s"
  by (simp add: same_def)

lemma same_trans: "same s s1 \<Longrightarrow> same s1 s2 \<Longrightarrow> same s s2"
  by (auto simp: same_def)

text \<open>An operation that returns, with \<open>P\<close>, and leaves such a simulation with the same accounts and no pool less.\<close>

definition quiet :: "extern \<Rightarrow> address set \<Rightarrow> ('a \<Rightarrow> simulation \<Rightarrow> bool) \<Rightarrow> simulation \<Rightarrow> (sim_error + 'a \<times> simulation) \<Rightarrow> bool" where
  "quiet x A P s r \<longleftrightarrow> (\<exists>a s'. r = Inr (a, s') \<and> P a s' \<and> void x A s' \<and> same s s')"

lemma quiet_bind:
  assumes "quiet x A P s (m s)" and "\<And>a s'. P a s' \<Longrightarrow> void x A s' \<Longrightarrow> same s s' \<Longrightarrow> quiet x A Q s' (f a s')"
  shows "quiet x A Q s (sim_bind m f s)"
proof -
  obtain a s' where m: "m s = Inr (a, s')" "P a s'" "void x A s'" "same s s'" using assms(1) by (auto simp: quiet_def)
  from assms(2) [OF m(2-4)] show ?thesis using m(1,4) by (auto simp: quiet_def sim_bind_def intro: same_trans)
qed

lemma quiet_Intn: "void x A s \<Longrightarrow> 0 < n \<Longrightarrow> quiet x A (\<lambda>k _. k < n) s (Intn n s)"
  by (simp add: quiet_def Intn_def void_def same_def)

text \<open>An unsigned transaction of an account fails and changes nothing.\<close>

definition refused :: "extern \<Rightarrow> transaction \<Rightarrow> bool" where
  "refused x tx \<longleftrightarrow> tx_From tx \<noteq> ZeroAddress \<and> \<not> VerifySender x (SigningHash (sha256 x) tx) (tx_Signature tx) (tx_From tx)"

lemma refused_all:
  "\<forall>tx\<in>set txs. refused x tx \<Longrightarrow> \<exists>rs. execute_all x e txs = Some (rs, 0, 0, e) \<and> length rs = length txs \<and> (\<forall>r\<in>set rs. \<not> rc_Success r)"
proof (induction txs)
  case (Cons tx txs)
  then obtain rs where "execute_all x e txs = Some (rs, 0, 0, e)" "length rs = length txs" "\<forall>r\<in>set rs. \<not> rc_Success r" by auto
  moreover have "executeTx x e tx = Some (fail_receipt (TxID (sha256 x) tx) 0 ErrInvalidSignature, e)"
    using Cons.prems by (simp add: executeTx_def refused_def Let_def)
  ultimately show ?case by (simp add: fail_receipt_def)
qed simp

lemma refused_block:
  assumes "\<forall>tx\<in>set txs. refused x tx"
  shows "\<exists>b rs j. ProcessBlock x e h l1 txs = Some (b, rs, e\<lparr>ex_currentHeight := h, ex_stateDB := (ex_stateDB e)\<lparr>journal := j\<rparr>\<rparr>) \<and>
    length rs = length txs \<and> (\<forall>r\<in>set rs. \<not> rc_Success r)"
proof -
  have "\<forall>tx\<in>set (sort_Slice (TxLess (sha256 x)) txs). refused x tx" using assms by (simp flip: set_mset_mset)
  from refused_all [OF this, of "e\<lparr>ex_currentHeight := h\<rparr>"] obtain rs where
    r: "execute_all x (e\<lparr>ex_currentHeight := h\<rparr>) (sort_Slice (TxLess (sha256 x)) txs) = Some (rs, 0, 0, e\<lparr>ex_currentHeight := h\<rparr>)"
      "length rs = length (sort_Slice (TxLess (sha256 x)) txs)" "\<forall>r\<in>set rs. \<not> rc_Success r" by blast
  have "length (sort_Slice (TxLess (sha256 x)) txs) = length txs" using mset_sort_Slice size_mset by metis
  then show ?thesis using r by (simp add: ProcessBlock_def pay_coinbase_def Commit_def Let_def) blast
qed

lemma slot_journal [simp]: "slot_of sha (s\<lparr>journal := j\<rparr>) = slot_of sha s"
  by (simp add: slot_of_def fun_eq_iff)

lemma quiet_send:
  assumes unsigned: "\<forall>h a. \<not> VerifySender x h 0 a" and v: "void x A s" and i: "i < length (sim_accounts s)"
  shows "quiet x A (\<lambda>_ _. True) s (sim_send x i target g data s)"
proof -
  obtain tx s1 where tx: "makeTx i target g data s = Inr (tx, s1)" "tx_Signature tx = 0" "tx_From tx \<in> set (sim_accounts s)"
    "s1 = s\<lparr>sim_nonces := (sim_nonces s)[i := sim_nonces s ! i + 1]\<rparr>"
    using v i by (simp add: makeTx_def void_def)
  have "refused x tx" using unsigned tx(2,3) v by (auto simp: refused_def void_def)
  then obtain b r j where r: "ProcessBlock x (sim_exec s1) (sim_blockHeight s1) ZeroHash [tx] =
      Some (b, [r], (sim_exec s1)\<lparr>ex_currentHeight := sim_blockHeight s1, ex_stateDB := (ex_stateDB (sim_exec s1))\<lparr>journal := j\<rparr>\<rparr>)" "\<not> rc_Success r"
    using refused_block [of "[tx]" x "sim_exec s1" "sim_blockHeight s1" ZeroHash] by (auto simp: length_Suc_conv)
  then have "sim_send x i target g data s = Inr ((), commit_block x
      ((sim_exec s1)\<lparr>ex_currentHeight := sim_blockHeight s1, ex_stateDB := (ex_stateDB (sim_exec s1))\<lparr>journal := j\<rparr>\<rparr>) (count_receipt r s1))"
    by (simp add: sim_send_def sim_bind_def tx(1) execBlock_def)
  then show ?thesis using v r(2) by (simp add: quiet_def commit_block_def Commit_def count_receipt_def tx(4) void_def same_def Let_def)
qed

lemma quiet_code: "void x A s \<Longrightarrow> c = Some code \<Longrightarrow> quiet x A (\<lambda>_ _. True) s (sim_code c s)"
  by (simp add: quiet_def sim_code_def same_def)

lemma quiet_each:
  assumes "void x A s" and "\<And>i s'. i \<in> set is \<Longrightarrow> void x A s' \<Longrightarrow> same s s' \<Longrightarrow> quiet x A (\<lambda>_ _. True) s' (f i s')"
  shows "quiet x A (\<lambda>_ _. True) s (sim_each f is s)"
  using assms
proof (induction "is" arbitrary: s)
  case (Cons i "is")
  have "quiet x A (\<lambda>_ _. True) s (sim_bind (f i) (\<lambda>_. sim_each f is) s)"
  proof (rule quiet_bind)
    show "quiet x A (\<lambda>_ _. True) s (f i s)" using Cons.prems by simp
    fix s' assume "void x A s'" and ss: "same s s'"
    then show "quiet x A (\<lambda>_ _. True) s' (sim_each f is s')" using Cons.prems(2) by (intro Cons.IH) (auto intro: same_trans)
  qed
  then show ?case by simp
qed (simp add: quiet_def)

text \<open>The steps of the operations.\<close>

lemma then_send:
  assumes "\<forall>h a. \<not> VerifySender x h 0 a" and "void x A s" and "i < length (sim_accounts s)"
    and "\<And>s'. void x A s' \<Longrightarrow> same s s' \<Longrightarrow> quiet x A Q s' (f () s')"
  shows "quiet x A Q s (sim_bind (sim_send x i target g data) f s)"
  by (rule quiet_bind, rule quiet_send [OF assms(1-3)]) (use assms(4) in simp)

lemma then_Intn:
  assumes "void x A s" and "0 < n" and "\<And>k s'. k < n \<Longrightarrow> void x A s' \<Longrightarrow> same s s' \<Longrightarrow> quiet x A Q s' (f k s')"
  shows "quiet x A Q s (sim_bind (Intn n) f s)"
  by (rule quiet_bind, rule quiet_Intn [OF assms(1,2)], rule assms(3))

lemma then_code:
  assumes "void x A s" and "\<exists>code. c s = Some code" and "\<And>code. quiet x A Q s (f code s)"
  shows "quiet x A Q s (sim_bind (\<lambda>s. sim_code (c s) s) f s)"
  using assms by (auto simp: sim_bind_def sim_code_def)

lemma quiet_pool:
  assumes unsigned: "\<forall>h a. \<not> VerifySender x h 0 a" and v: "void x A s"
  shows "quiet x A (\<lambda>_ s'. sim_pools s' \<noteq> []) s (deploy_pool x i s)"
proof -
  have build: "\<exists>code. BuildAMMContract fee t = Some code" for fee t using amm_build [of fee t] by blast
  have first: "void x A s' \<Longrightarrow> 0 < length (sim_accounts s')" for s' by (simp add: void_def)
  note send = then_send [OF unsigned]
  have addr: "quiet x A (\<lambda>addr s'. addr \<in> A) s' (Inr (deriveContractAddress (sha256 x) (sim_accounts s' ! 0) n, s'))" if "void x A s'" for s' n
    using that by (simp add: quiet_def) (simp add: void_def)
  have add: "quiet x A (\<lambda>_ s'. sim_pools s' \<noteq> []) s' (Inr ((), s'\<lparr>sim_pools := sim_pools s' @ [p]\<rparr>))" if "void x A s'" "pool_addr p \<in> A" for s' p
    using that by (simp add: quiet_def void_def same_def)
  show ?thesis
    unfolding deploy_pool_def Let_def
    by (rule then_code [OF v build], rule send [OF v first [OF v]], rule quiet_bind, erule addr, rule then_Intn, assumption, simp,
        rule then_Intn, assumption, simp, rule send, assumption, erule first, rule add, assumption, simp)
qed

text \<open>The set-up ends, with all transactions refused.\<close>

lemma quiet_setup:
  assumes unsigned: "\<forall>h a. \<not> VerifySender x h 0 a" and v: "void x A s" and n: "sim_numPools s = Suc n"
  shows "quiet x A (\<lambda>_ s'. sim_pools s' \<noteq> []) s (sim_setup x s)"
proof -
  have build: "\<exists>code. BuildTokenContract i m = Some code" for i m using token_build [of i m] by blast
  have first: "void x A s' \<Longrightarrow> 0 < length (sim_accounts s')" for s' by (simp add: void_def)
  note send = then_send [OF unsigned]
  have token: "void x A (s'\<lparr>sim_tokenAddr := a\<rparr>) = void x A s'" "same s' (s'\<lparr>sim_tokenAddr := a\<rparr>)" for s' a
    by (simp_all add: void_def same_def)
  have set: "quiet x A (\<lambda>_ _. True) s' (Inr ((), s'\<lparr>sim_tokenAddr := a s'\<rparr>))" if "void x A s'" for s' a
    using that by (simp add: quiet_def token)
  have ne: "sim_accounts s \<noteq> []" using v by (simp add: void_def)
  have pools: "quiet x A (\<lambda>_ s'. sim_pools s' \<noteq> []) s' (sim_each (deploy_pool x) [0..<Suc n] s')" if v': "void x A s'" for s'
  proof -
    have u: "[0..<Suc n] = 0 # [1..<Suc n]" by (simp add: upt_conv_Cons)
    obtain s1 where s1: "deploy_pool x 0 s' = Inr ((), s1)" "sim_pools s1 \<noteq> []" "void x A s1" "same s' s1"
      using quiet_pool [OF unsigned v', of 0] by (auto simp: quiet_def)
    have "quiet x A (\<lambda>_ _. True) s1 (sim_each (deploy_pool x) [1..<Suc n] s1)"
    proof (rule quiet_each [OF s1(3)])
      fix i s2 assume "void x A s2"
      from quiet_pool [OF unsigned this, of i] show "quiet x A (\<lambda>_ _. True) s2 (deploy_pool x i s2)" by (auto simp: quiet_def)
    qed
    then obtain s2 where "sim_each (deploy_pool x) [1..<Suc n] s1 = Inr ((), s2)" "void x A s2" "same s1 s2" by (auto simp: quiet_def)
    then show ?thesis using s1 unfolding u by (auto simp: quiet_def sim_bind_def same_def)
  qed
  show ?thesis
    unfolding sim_setup_def using ne
    by (simp only: if_False n)
      (rule then_code [OF v, where c = "\<lambda>_. _", OF build], rule send [OF v first [OF v]], rule quiet_bind, erule set,
       rule quiet_bind, rule quiet_send [OF unsigned], assumption, erule first,
       rule quiet_bind, rule quiet_each, assumption, rule quiet_send [OF unsigned], assumption, erule first, erule pools)
qed

lemma fresh_slots:
  "state_ok sha A s \<Longrightarrow> \<forall>a\<in>A. \<forall>k. slot_of sha s a k = 0 \<Longrightarrow> set as \<subseteq> A \<Longrightarrow>
     \<forall>a\<in>A. \<forall>k. slot_of sha (fold (\<lambda>a s. SetBalance sha s a v) as s) a k = 0"
proof (induction as arbitrary: s)
  case (Cons b as)
  then have b: "b \<in> A" by simp
  have "\<forall>a\<in>A. \<forall>k. slot_of sha (SetBalance sha s b v) a k = 0"
    using Cons.prems(2) SetBalance_laws(2) [OF Cons.prems(1) b] by (simp add: slot_of_def)
  then show ?case using Cons.IH [OF evolves_ok [OF SetBalance_laws(1) [OF Cons.prems(1) b]]] Cons.prems(3) by simp
qed simp

lemma makeAddr_nonzero: "i \<noteq> 0 \<Longrightarrow> makeAddr i \<noteq> ZeroAddress"
proof
  assume i: "i \<noteq> 0" and z: "makeAddr i = ZeroAddress"
  have "addr_bytes (makeAddr i) = replicate 12 0 @ be_bytes 8 i"
    by (simp add: makeAddr_def BytesToAddress_def addr_bytes_def be_bytes_be_word)
  then have "be_word (drop 12 (addr_bytes (makeAddr i))) = i" by simp
  moreover have "be_word (drop 12 (addr_bytes ZeroAddress)) = (0 :: uint64)" by code_simp
  ultimately show False using i z by simp
qed

lemma new_void:
  assumes "inj_on (acct_key (sha256 x)) A" and "\<forall>i. makeAddr i \<in> A" and "\<forall>n. deriveContractAddress (sha256 x) (makeAddr 1) n \<in> A"
    and "0 < numAccounts" and "numAccounts < 2 ^ 64"
  shows "void x A (newSimulation x rng numAccounts numPools)"
proof -
  let ?as = "map (\<lambda>i. makeAddr (of_nat (i + 1))) [0..<numAccounts]"
  have "ZeroAddress \<notin> set ?as"
  proof
    assume "ZeroAddress \<in> set ?as"
    then obtain i where i: "i < numAccounts" "makeAddr (of_nat (i + 1)) = ZeroAddress" by auto
    then have "unat (of_nat (i + 1) :: uint64) = i + 1" using assms(5) by (intro unat_of_nat_small) simp
    then have "(of_nat (i + 1) :: uint64) \<noteq> 0" by (metis unat_0 Suc_eq_plus1 nat.distinct(1))
    from makeAddr_nonzero [OF this] i(2) show False by contradiction
  qed
  moreover have "?as ! 0 = makeAddr 1" "?as \<noteq> []" using assms(4) by simp_all
  moreover have "\<forall>a\<in>A. \<forall>k. slot_of (sha256 x) (fold (\<lambda>a s. SetBalance (sha256 x) s a 1000000000000) ?as (NewStateDB Map.empty)) a k = 0"
    using assms(2) by (intro fresh_slots state_ok_New assms(1)) (auto simp: fresh_obs)
  ultimately show ?thesis using assms(3) by (simp add: void_def newSimulation_def Executor_New_def Let_def)
qed

text \<open>A swap ends the simulation.\<close>

lemma swap_stops:
  assumes unsigned: "\<forall>h a. \<not> VerifySender x h 0 a" and v: "void x A s" and p: "sim_pools s \<noteq> []"
  shows "\<exists>i. doSwap x s = Inl (InvariantViolation i)"
proof -
  have check: "checkPoolInvariant x i s' = Inl (InvariantViolation i)" if "void x A s'" "i < length (sim_pools s')" for i s'
  proof -
    have "pool_addr (sim_pools s' ! i) \<in> A" using that by (simp add: void_def)
    then have "hash_slot (storage (sha256 x) (ex_stateDB (sim_exec s')) (pool_addr (sim_pools s' ! i)) (slot_hash k)) = 0" for k
      using that(1) by (auto simp: void_def slot_of_def)
    then show ?thesis by (simp add: checkPoolInvariant_def sim_bind_def sim_readSlot_def GetStorage_eq)
  qed
  obtain a s1 where 1: "Intn (length (sim_accounts s)) s = Inr (a, s1)" "a < length (sim_accounts s)" "void x A s1" "same s s1"
    using quiet_Intn [OF v, of "length (sim_accounts s)"] v by (auto simp: quiet_def void_def)
  obtain b s2 where 2: "Intn (length (sim_pools s)) s1 = Inr (b, s2)" "b < length (sim_pools s)" "void x A s2" "same s1 s2"
    using quiet_Intn [OF 1(3), of "length (sim_pools s)"] p by (auto simp: quiet_def)
  obtain r s3 where 3: "Intn 10000 s2 = Inr (r, s3)" "void x A s3" "same s2 s3" using quiet_Intn [OF 2(3), of 10000] by (auto simp: quiet_def)
  obtain c s4 where 4: "Intn 2 s3 = Inr (c, s4)" "void x A s4" "same s3 s4" using quiet_Intn [OF 3(2), of 2] by (auto simp: quiet_def)
  have s: "same s s4" by (intro same_trans [OF 1(4)] same_trans [OF 2(4)] same_trans [OF 3(3)] 4(3))
  define data where "data = PackCallData [if c = 0 then AMMFnSwapAForB else AMMFnSwapBForA, of_nat (100 + r)]"
  have i: "a < length (sim_accounts s4)" using s 1(2) by (simp add: same_def)
  obtain s5 where 5: "sim_send x a (pool_addr (sim_pools s ! b)) 500000 data s4 = Inr ((), s5)" "void x A s5" "same s4 s5"
    using quiet_send [OF unsigned 4(2) i, of "pool_addr (sim_pools s ! b)" 500000 data] by (auto simp: quiet_def)
  have "b < length (sim_pools s5)" using 2(2) same_trans [OF s 5(3)] by (auto simp: same_def)
  then show ?thesis using check [OF 5(2)] 1(1) 2(1) 3(1) 4(1) 5(1) by (simp add: doSwap_def sim_bind_def data_def)
qed

text \<open>The simulation, started with any number of accounts and pools and any random numbers, sets up without an error, but no
  transaction succeeds; and its first swap ends it with a violated invariant. The hypotheses: the empty
  signature does not verify, and the hashes of the addresses involved do not collide.\<close>

theorem simulation_stops:
  assumes "\<forall>h a. \<not> VerifySender x h 0 a" and "inj_on (acct_key (sha256 x)) A" and "\<forall>i. makeAddr i \<in> A"
    and "\<forall>n. deriveContractAddress (sha256 x) (makeAddr 1) n \<in> A" and "0 < numAccounts" and "numAccounts < 2 ^ 64" and "0 < numPools"
  shows "\<exists>s i. sim_setup x (newSimulation x rng numAccounts numPools) = Inr ((), s) \<and> sim_totalSuccess s = 0 \<and>
    doSwap x s = Inl (InvariantViolation i)"
proof -
  let ?s = "newSimulation x rng numAccounts numPools"
  obtain n where n: "sim_numPools ?s = Suc n" using assms(7) gr0_implies_Suc by (fastforce simp: newSimulation_def Let_def)
  obtain s where s: "sim_setup x ?s = Inr ((), s)" "sim_pools s \<noteq> []" "void x A s"
    using quiet_setup [OF assms(1) new_void [OF assms(2-6)] n] by (auto simp: quiet_def)
  then show ?thesis using swap_stops [OF assms(1) s(3,2)] by (auto simp: void_def)
qed

end
