(* ===== verification/Spec2Isabelle.thy ===== *)
theory Spec2Isabelle
  imports Tyl_Merkle_Props Tyl_State_Facts Tyl_Solvency Tyl_AMM Tyl_Node_Facts Tyl_Script Tyl_Swap_Props
    Tyl_CLI_Tx Tyl_Lnd Tyl_Tyld Tyl_MinerLoop Tyl_Sim
begin

text \<open>
  A verification library for Tylium, a smart-contract layer whose blocks are the Bitcoin blocks
  themselves: transactions travel in envelopes inside Bitcoin transactions, every node scans the Bitcoin
  chain, executes what it finds on a state committed to by a sparse Merkle tree, and miners attest the
  resulting state roots. The theories follow the Go packages under \<open>src/\<close>; a definition carries the name
  of the function it translates wherever that name is free.

  \<^bold>\<open>Conventions.\<close> Go's fixed-width integers are words (\<open>+\<close> wraps, \<open>unat\<close> reads), byte slices are lists
  of 8-bit words, a call that may panic or return an error has an \<open>option\<close> or a sum as its result, and
  state is passed explicitly in records. Loops are recursive functions with a termination proof; where a
  loop of the program has a bound the model has the same bound. Third-party code (SHA-256,
  RIPEMD-160, secp256k1, LevelDB, a Bitcoin node, a Lightning node) is reached through functions that are arguments of the
  definitions, mostly the fields of a record, and a theorem that relies on them says what it assumes.
  LevelDB is a list of entries with unique keys.

  \<^bold>\<open>Data and codecs.\<close>
  \<^item> \<open>Tyl_Prelude\<close>: machine types, big-endian bytes, the collections of simplification rules.
  \<^item> \<open>Tyl_Types\<close> (\<open>pkg/types\<close>), \<open>Tyl_Encoding\<close> (\<open>pkg/encoding\<close>): the records and every wire format; the
    decoders accept exactly what the encoders write, and never slice out of range.
  \<^item> \<open>Tyl_Crypto\<close> (\<open>pkg/crypto\<close>): recovery of a signer, compact and DER signatures.

  \<^bold>\<open>State.\<close>
  \<^item> \<open>Tyl_Merkle\<close>, \<open>Tyl_Merkle_Facts\<close>, \<open>Tyl_Merkle_Props\<close> (\<open>pkg/merkle\<close>): the tree with lazily loaded nodes refines
    a finite map, its root depends on the content only, flushing and loading are inverse, and proofs are
    complete and sound up to collisions of the hash.
  \<^item> \<open>Tyl_State\<close>, \<open>Tyl_State_Facts\<close>, \<open>Tyl_Slots\<close> (\<open>internal/state\<close>): the database with its journal;
    reverting undoes everything since the snapshot; the invariant \<open>state_ok\<close> is kept by every operation.
  \<^item> \<open>Tyl_Store\<close> (\<open>internal/store\<close>, \<open>pkg/merkle/leveldb.go\<close>): the key layout implements a record of separate maps.

  \<^bold>\<open>Execution.\<close>
  \<^item> \<open>Tyl_VM\<close> (\<open>internal/vm\<close>): the interpreter, total with the gas as bound; what it charges, when it
    panics. The accessor of the state is a locale, interpreted on the state database in \<open>Tyl_State_Facts\<close>.
  \<^item> \<open>Tyl_HTLC\<close>, \<open>Tyl_HTLC_Facts\<close> (\<open>internal/executor/htlc.go\<close>): lock, claim, refund and query, shown
    to work on a table of contracts.
  \<^item> \<open>Tyl_Mempool\<close>, \<open>Tyl_Executor\<close>, \<open>Tyl_Executor_Facts\<close>, \<open>Tyl_Executor_Props\<close>, \<open>Tyl_Solvency\<close> (\<open>internal/mempool\<close>,
    \<open>internal/executor\<close>): order, transactions and blocks; conservation of the supply, atomic failure,
    no replay, solvency of the contract account and the call data that defeats it.
  \<^item> \<open>Tyl_Asm\<close>, \<open>Tyl_Contract\<close>, \<open>Tyl_Token\<close>, \<open>Tyl_AMM\<close>, \<open>Tyl_Script\<close> (\<open>contracts\<close>): the assembler, the token and
    the exchange, down to what the interpreter does with the bytes they emit, and the assembly compiler.

  \<^bold>\<open>The Bitcoin side.\<close>
  \<^item> \<open>Tyl_Bitcoin\<close>, \<open>Tyl_Scanner\<close> (\<open>pkg/bitcoin\<close>, \<open>internal/scanner\<close>): how an envelope is written into
    outputs and witnesses and how it is found again.
  \<^item> \<open>Tyl_Client\<close> (\<open>pkg/bitcoin/client.go\<close>): reading blocks, with the conversion of amounts through floating
    point, and the subscription to new blocks. Blocks are read back exactly but for amounts that are a
    satoshi short; blocks arrive in order, and one whose fetch fails is lost.
  \<^item> \<open>Tyl_Embed\<close> (\<open>EmbedEnvelope\<close> of \<open>pkg/bitcoin/embed.go\<close>, \<open>cmd/tylcli/push.go\<close>, \<open>cmd/tylpush\<close>): publishing
    with a wallet, whose laws are the predicate \<open>wallet_works\<close>; whatever is published, the scanner finds.

  \<^bold>\<open>Nodes and services.\<close>
  \<^item> \<open>Tyl_Miner\<close> (\<open>internal/miner\<close>), \<open>Tyl_Node\<close>, \<open>Tyl_Node_Facts\<close> (\<open>internal/node\<close>): attestations, finality,
    restart and reorganisations.
  \<^item> \<open>Tyl_RPC\<close> (\<open>internal/rpc\<close>, \<open>internal/swap/tylrpc.go\<close>): the methods of a node and the client that calls
    them; the client reads the state of the node exactly.
  \<^item> \<open>Tyl_Swap\<close>, \<open>Tyl_Swap_Facts\<close>, \<open>Tyl_Swap_Props\<close> (\<open>internal/swap\<close>): the daemon that exchanges Lightning
    payments for contracts, as a step relation with crashes and restarts; its table, its margins, and
    the life of a sale from the request to the executed claim.
  \<^item> \<open>Tyl_Lnd\<close> (\<open>internal/lnd\<close>): the requests to a Lightning node and the reading of its replies, base64
    included; preimages are read in either text form and reach the sale that paid for them.

  \<^bold>\<open>Programs.\<close>
  \<^item> \<open>Tyl_CLI\<close>, \<open>Tyl_CLI_Cmd\<close> (\<open>cmd/tylcli/main.go\<close>, \<open>cmd/tylbuild\<close>): keys, names, notes and flags, and the
    commands as transformers of a state with the files and the wallet, over the replies of a node.
    \<open>Tyl_CLI_Props\<close> shows that numbers, keys and notes are read as they were written; \<open>Tyl_CLI_Tx\<close> follows a deposit, a
    deployment and the claim of a purchase from the command to their execution by the node.
  \<^item> \<open>Tyl_Tyld\<close> (\<open>cmd/tyld\<close>, \<open>Subscribe\<close> of \<open>internal/scanner\<close>): the node on the Bitcoin client; following the chain is
    the same as reading it at once, and the loss of a block goes unnoticed.
  \<^item> \<open>Tyl_MinerLoop\<close> (\<open>cmd/tylminer\<close>): a new state root is mined, published, found and accepted; what is not
    retried after a failure.
  \<^item> \<open>Tyl_Sim\<close> (\<open>cmd/tylsim\<close>): the simulation, whose unsigned transactions are all refused.

  \<^bold>\<open>Bounds.\<close> The placement of labels in \<open>Compile\<close> runs at most twenty rounds because the program does; eighteen
  label references are enough for it to be right. The nonces the miner tries, the rounds of the mining program and the polls of a
  subscription are lists, because those loops stop when they are told to. Every other recursion is structural or has a measure: the remaining
  bytes of a decoder, the depth left below a node of the tree, the gas left of a run. Floating-point
  amounts are rounded rationals with 53 significant bits, as in the source.

  \<^bold>\<open>Interfaces as locales.\<close> The state that the interpreter reaches, the alphabets of base64, the frame conditions of the
  daemon and the laws that several operations share are locales, each interpreted on the definitions of the
  model; the properties rest on those interpretations.

  \<^bold>\<open>Not modelled.\<close> HTTP servers and clients, JSON text, logging, timers, goroutine scheduling and locks: operations
  run one after the other, which the mutexes of the program ensure for the daemon and the node.
  Also left out: \<open>cmd/tylswapd\<close>, which reads flags and starts the daemon; the commands of \<open>tylcli\<close>
  that only print a reply; opening files and connections (\<open>NewClient\<close>, \<open>GetInfo\<close>, the selection of a
  wallet); \<open>MineBlock\<close> for test networks; the layout of printed text.
\<close>

text \<open>C18: native balance can be created without burning anything: a transaction envelope whose sender is
  the zero address is extracted from the witness of a Bitcoin transaction that has no output at all, and
  executing the block credits its recipient with its value, with no signature checked.\<close>

theorem unbacked_mint:
  assumes "tx_From tx = ZeroAddress" and "tx_Value tx > 0" and "length (tx_Data tx) \<le> 1000000"
    and env: "env = EncodeEnvelope EnvelopeTypeTx (EncodeTx tx)"
    and "ComputeTaprootOutput sha tweak_key (buildWitnessScript (length (splitEnvelope env))) = Some (script, controlBlock)"
    and blk: "bb_Txs blk = [\<lparr>btx_TxID = txid, btx_Inputs =
      [\<lparr>in_Witness = splitEnvelope env @ [buildWitnessScript (length (splitEnvelope env)), controlBlock]\<rparr>], btx_Outputs = []\<rparr>]"
    and "state_ok (sha256 x) A (ex_stateDB e)" and "tx_To tx \<in> A"
  shows "\<exists>res b rs e'. scan_result blk = Some res \<and>
    ProcessBlock x e (sr_L1Height res) (sr_L1BlockHash res) (sr_Payloads res) = Some (b, rs, e') \<and>
    GetBalance (sha256 x) (ex_stateDB e') (tx_To tx) = GetBalance (sha256 x) (ex_stateDB e) (tx_To tx) + tx_Value tx"
proof -
  let ?s = "ex_stateDB e"
  let ?a = "acct (sha256 x) ?s (tx_To tx)"
  have ext: "ExtractFromBlock blk = Some ([tx], [])"
    using embedded_tx_lemma [OF env assms(3,5), of "btcTxNonce txid" "[]" "[]"]
    by (simp add: ExtractFromBlock_def blk extract_tx_def Let_def)
  define s' where "s' = SetAccount (sha256 x) ?s (tx_To tx) (?a\<lparr>acct_Nonce := acct_Nonce ?a, acct_Balance := acct_Balance ?a + tx_Value tx\<rparr>)"
  have bal: "acct_Balance (acct (sha256 x) s' (tx_To tx)) = acct_Balance ?a + tx_Value tx"
    using set_core(2) [OF assms(7,8) s'_def assms(8)] by simp
  have dep: "executeTx x (e\<lparr>ex_currentHeight := h\<rparr>) tx = Some (ok_receipt (TxID (sha256 x) tx) 0, e\<lparr>ex_currentHeight := h, ex_stateDB := s'\<rparr>)" for h
    using assms(1,2) by (simp add: executeTx_def execute_deposit_def Let_def s'_def same_nonce)
  show ?thesis
    using ext by (simp add: scan_result_def ProcessBlock_def sort_Slice_def dep Let_def ok_receipt_def pay_coinbase_def
        Commit_def GetBalance_eq bal)
qed

theorem unbacked_mint_witness:
  "\<exists>blk res b rs e'. scan_result blk = Some res \<and> (\<forall>t\<in>set (bb_Txs blk). btx_Outputs t = []) \<and>
    ProcessBlock toy toy_exec (sr_L1Height res) (sr_L1BlockHash res) (sr_Payloads res) = Some (b, rs, e') \<and>
    GetBalance be_word (ex_stateDB e') 6 = 1000000"
proof -
  let ?tx = "toy_tx 0 6 1000000 []"
  let ?env = "EncodeEnvelope EnvelopeTypeTx (EncodeTx ?tx)"
  obtain script cb where t: "ComputeTaprootOutput be_word (\<lambda>_ _. Some (replicate 33 2))
      (buildWitnessScript (length (splitEnvelope ?env))) = Some (script, cb)"
    by (simp add: ComputeTaprootOutput_def Let_def)
  let ?blk = "\<lparr>bb_Height = 1, bb_Hash = 2, bb_PrevHash = 3, bb_Txs = [\<lparr>btx_TxID = 4, btx_Inputs =
      [\<lparr>in_Witness = splitEnvelope ?env @ [buildWitnessScript (length (splitEnvelope ?env)), cb]\<rparr>], btx_Outputs = []\<rparr>]\<rparr>"
  have sha: "sha256 toy = be_word" by simp
  have "\<exists>res b rs e'. scan_result ?blk = Some res \<and>
      ProcessBlock toy toy_exec (sr_L1Height res) (sr_L1BlockHash res) (sr_Payloads res) = Some (b, rs, e') \<and>
      GetBalance (sha256 toy) (ex_stateDB e') (tx_To ?tx) = GetBalance (sha256 toy) (ex_stateDB toy_exec) (tx_To ?tx) + tx_Value ?tx"
    by (rule unbacked_mint [OF _ _ _ refl t, where A = UNIV]) (simp_all add: toy_exec_obs sha)
  then show ?thesis
    by (intro exI [of _ ?blk]) (simp add: sha GetBalance_eq toy_exec_obs zero_account_def)
qed

end
